(* ===== verification/Prelude.thy ===== *)
theory Prelude
  imports "HOL-Library.Word" "HOL-Library.Char_ord" "HOL-Library.List_Lexorder"
    "HOL-Library.Monad_Syntax"
begin

text \<open>
  Shared vocabulary of the development: bytes and C integers, the operations of
  \<open>std::string\<close> that the code calls (\<open>find\<close>, \<open>rfind\<close>, \<open>substr\<close>, \<open>c_str\<close>), the number
  formatting and number reading of the standard streams, and the lemmas about them that the
  component theories share.  A C++ exception or a failed assertion is the value \<open>None\<close>.
\<close>

unbundle bit_operations_syntax

named_theorems fmt_simps \<open>formatting and scanning of numbers\<close>

section \<open>Bytes and C integers\<close>

type_synonym byte = "8 word"
type_synonym bytes = "byte list"

definition bytes_of :: "string \<Rightarrow> bytes" where
  "bytes_of s = map (\<lambda>c. word_of_nat (of_char c)) s"

definition string_of :: "bytes \<Rightarrow> string" where
  "string_of bs = map (\<lambda>b. char_of (unat b)) bs"

definition i32_of_nat :: "nat \<Rightarrow> int" where
  "i32_of_nat n = sint (word_of_nat n :: 32 word)"

lemma length_bytes_of [simp]: "length (bytes_of s) = length s"
  by (simp add: bytes_of_def)

lemma bytes_of_append [simp]: "bytes_of (s @ t) = bytes_of s @ bytes_of t"
  by (simp add: bytes_of_def)

lemma bytes_of_Nil [simp]: "bytes_of [] = []"
  by (simp add: bytes_of_def)

lemma bytes_of_eq_Nil [simp]: "bytes_of s = [] \<longleftrightarrow> s = []"
  by (simp add: bytes_of_def)

lemma bytes_of_concat: "bytes_of (concat ss) = concat (map bytes_of ss)"
  by (induction ss) simp_all

lemma unat_of_char [simp]: "unat (word_of_nat (of_char c) :: byte) = of_char c"
  using nat_of_char_less_256 [of c] by (simp add: unat_of_nat take_bit_nat_eq_self)

lemma string_of_bytes_of [simp]: "string_of (bytes_of s) = s"
  by (simp add: string_of_def bytes_of_def o_def)

lemma i32_of_nat_small: "n < 2 ^ 31 \<Longrightarrow> i32_of_nat n = int n"
  by (simp add: i32_of_nat_def signed_of_nat signed_take_bit_int_eq_self)

text \<open>The room left in a buffer, computed in 32 bits.\<close>

lemma unat_minus_nat: "length buffer \<le> unat cs \<Longrightarrow> unat (cs - word_of_nat (length buffer)) = unat cs - length buffer"
  for cs :: "32 word"
proof -
  assume "length buffer \<le> unat cs"
  moreover have "unat cs < 2 ^ 32" using unsigned_less [of cs] by simp
  ultimately have "unat (word_of_nat (length buffer) :: 32 word) = length buffer"
    by (simp add: unat_of_nat take_bit_nat_eq_self)
  with \<open>length buffer \<le> unat cs\<close> show ?thesis
    by (subst unat_sub) (simp_all add: word_le_nat_alt)
qed

text \<open>Consuming \<open>m\<close> items and then \<open>j\<close> more.\<close>

lemma take_then: "take (j + m) xs = take m xs @ take j (drop m xs)"
  by (metis add.commute take_add)

section \<open>\<open>std::string\<close>\<close>

text \<open>\<open>c_str()\<close> read by a C function: the text up to its first NUL.\<close>

definition c_str :: "string \<Rightarrow> string" where
  "c_str s = takeWhile (\<lambda>c. c \<noteq> CHR 0x00) s"

text \<open>\<open>s.find(c)\<close>, \<open>s.rfind(c)\<close> and \<open>s.find(p)\<close>; \<open>npos\<close> is \<open>None\<close>.\<close>

fun find_chr :: "char \<Rightarrow> string \<Rightarrow> nat option" where
  "find_chr c [] = None"
| "find_chr c (x # xs) = (if x = c then Some 0 else map_option Suc (find_chr c xs))"

definition find_chr_from :: "char \<Rightarrow> nat \<Rightarrow> string \<Rightarrow> nat option" where
  "find_chr_from c i s = map_option ((+) i) (find_chr c (drop i s))"

fun rfind :: "char \<Rightarrow> string \<Rightarrow> nat option" where
  "rfind c [] = None"
| "rfind c (x # xs) =
     (case rfind c xs of Some i \<Rightarrow> Some (Suc i) | None \<Rightarrow> if x = c then Some 0 else None)"

fun is_prefix :: "string \<Rightarrow> string \<Rightarrow> bool" where
  "is_prefix [] s = True"
| "is_prefix (x # xs) [] = False"
| "is_prefix (x # xs) (y # ys) = (x = y \<and> is_prefix xs ys)"

fun find_str :: "string \<Rightarrow> string \<Rightarrow> nat option" where
  "find_str p [] = (if p = [] then Some 0 else None)"
| "find_str p (x # xs) =
     (if is_prefix p (x # xs) then Some 0 else map_option Suc (find_str p xs))"

text \<open>\<open>s.substr(pos, n)\<close> and \<open>s.substr(pos)\<close>; \<open>None\<close> is \<open>std::out_of_range\<close>.\<close>

definition substr :: "string \<Rightarrow> nat \<Rightarrow> nat \<Rightarrow> string option" where
  "substr s pos n = (if pos \<le> length s then Some (take n (drop pos s)) else None)"

definition substr_from :: "string \<Rightarrow> nat \<Rightarrow> string option" where
  "substr_from s pos = (if pos \<le> length s then Some (drop pos s) else None)"

lemma find_chr_None [simp]: "c \<notin> set s \<Longrightarrow> find_chr c s = None"
  by (induction s) auto

lemma find_chr_append [simp]: "c \<notin> set s \<Longrightarrow> find_chr c (s @ c # t) = Some (length s)"
  by (induction s) auto

lemma rfind_None_iff: "rfind c s = None \<longleftrightarrow> c \<notin> set s"
  by (induction s) (auto split: option.splits)

lemma rfind_None [simp]: "c \<notin> set s \<Longrightarrow> rfind c s = None"
  by (simp add: rfind_None_iff)

lemma rfind_append [simp]: "c \<notin> set t \<Longrightarrow> rfind c (s @ c # t) = Some (length s)"
  by (induction s) (auto simp: rfind_None_iff)

lemma rfind_SomeD: "rfind c s = Some i \<Longrightarrow> i < length s \<and> s ! i = c"
  by (induction s arbitrary: i) (auto split: option.splits if_splits)

lemma is_prefix_append [simp]: "is_prefix p (p @ s)"
  by (induction p) auto

lemma find_str_prefix [simp]: "find_str p (p @ s) = Some 0"
  using is_prefix_append [of p s] by (cases "p @ s") auto

section \<open>Numbers as text\<close>

text \<open>
  \<open>show_base\<close> is \<open>operator<<\<close> for unsigned values (base 10, and base 16 after
  \<open>std::hex\<close>); \<open>hex2\<close> adds \<open>setw(2)\<close> and \<open>setfill('0')\<close>.
\<close>

definition digit_char :: "nat \<Rightarrow> char" where
  "digit_char d = (if d < 10 then char_of (48 + d) else char_of (87 + d))"

definition digit_val :: "char \<Rightarrow> nat option" where
  "digit_val c = (let n = of_char c in
     if 48 \<le> n \<and> n \<le> 57 then Some (n - 48)
     else if 97 \<le> n \<and> n \<le> 122 then Some (n - 87)
     else if 65 \<le> n \<and> n \<le> 90 then Some (n - 55) else None)"

definition is_digit :: "nat \<Rightarrow> char \<Rightarrow> bool" where
  "is_digit b c = (case digit_val c of None \<Rightarrow> False | Some d \<Rightarrow> d < b)"

fun show_base :: "nat \<Rightarrow> nat \<Rightarrow> string" where
  "show_base b n =
     (if n < b \<or> b < 2 then [digit_char n] else show_base b (n div b) @ [digit_char (n mod b)])"

declare show_base.simps [simp del]

abbreviation show_dec :: "nat \<Rightarrow> string" where
  "show_dec \<equiv> show_base 10"

abbreviation show_hex :: "nat \<Rightarrow> string" where
  "show_hex \<equiv> show_base 16"

definition show_int :: "int \<Rightarrow> string" where
  "show_int i = (if i < 0 then CHR ''-'' # show_dec (nat (- i)) else show_dec (nat i))"

definition hex2 :: "byte \<Rightarrow> string" where
  "hex2 b = [digit_char (unat b div 16), digit_char (unat b mod 16)]"

text \<open>The longest run of digits, its value and what follows it.\<close>

fun scan_nat :: "nat \<Rightarrow> nat \<Rightarrow> string \<Rightarrow> nat \<times> string" where
  "scan_nat b acc [] = (acc, [])"
| "scan_nat b acc (c # cs) =
     (case digit_val c of
        Some d \<Rightarrow> if d < b then scan_nat b (acc * b + d) cs else (acc, c # cs)
      | None \<Rightarrow> (acc, c # cs))"

definition is_space :: "char \<Rightarrow> bool" where
  "is_space c = (of_char c \<in> {9, 10, 11, 12, 13, 32 :: nat})"

text \<open>
  \<open>scan_int\<close> reads an optional sign and digits after white space, as \<open>strtol\<close>,
  \<open>atoi\<close>, \<open>std::stoi\<close> and \<open>istream >> int\<close> do: \<open>None\<close> when there is no digit.
\<close>

definition scan_int :: "string \<Rightarrow> (int \<times> string) option" where
  "scan_int s =
     (let t = dropWhile is_space s;
          neg = (t \<noteq> [] \<and> hd t = CHR ''-'');
          u = (if t \<noteq> [] \<and> (hd t = CHR ''-'' \<or> hd t = CHR ''+'') then tl t else t)
      in if u \<noteq> [] \<and> is_digit 10 (hd u)
         then (case scan_nat 10 0 u of (n, r) \<Rightarrow> Some (if neg then - int n else int n, r))
         else None)"


subsection \<open>Reading back what was written\<close>

lemma digit_val_digit_char [simp, fmt_simps]: "d < 16 \<Longrightarrow> digit_val (digit_char d) = Some d"
  by (auto simp: digit_val_def digit_char_def Let_def)

lemma is_digit_digit_char [simp]: "d < b \<Longrightarrow> b \<le> 16 \<Longrightarrow> is_digit b (digit_char d)"
  by (simp add: is_digit_def)

lemma scan_nat_stop: "s \<noteq> [] \<Longrightarrow> \<not> is_digit b (hd s) \<Longrightarrow> scan_nat b acc s = (acc, s)"
  by (cases s) (auto simp: is_digit_def split: option.splits)

text \<open>The accumulator form carries the induction; the number of digits fixes the shift.\<close>

lemma scan_nat_show_base:
  assumes "2 \<le> b" and "b \<le> 16"
  shows "scan_nat b acc (show_base b n @ s) =
    scan_nat b (acc * b ^ length (show_base b n) + n) s"
  using assms
proof (induction b n arbitrary: acc s rule: show_base.induct)
  case (1 b n)
  show ?case
  proof (cases "n < b")
    case True
    with "1.prems" have "n < 16" by simp
    with True show ?thesis by (simp add: show_base.simps [of b n])
  next
    case False
    have m: "n mod b < b" using "1.prems" by simp
    with "1.prems" have "n mod b < 16" by linarith
    with m False 1 show ?thesis
      by (simp add: show_base.simps [of b n] algebra_simps)
  qed
qed

lemma scan_nat_show:
  assumes "2 \<le> b" and "b \<le> 16" and "s = [] \<or> \<not> is_digit b (hd s)"
  shows "scan_nat b 0 (show_base b n @ s) = (n, s)"
proof (cases "s = []")
  case True
  with assms(1,2) show ?thesis using scan_nat_show_base [of b 0 n "[]"] by simp
next
  case False
  with assms show ?thesis by (simp add: scan_nat_show_base scan_nat_stop)
qed

lemma show_base_not_Nil [simp]: "show_base b n \<noteq> []"
  by (subst show_base.simps) simp

lemma set_show_base:
  assumes "2 \<le> b" and "b \<le> 16"
  shows "set (show_base b n) \<subseteq> digit_char ` {..<b}"
  using assms
proof (induction b n rule: show_base.induct)
  case (1 b n)
  then show ?case
    by (cases "n < b") (auto simp: show_base.simps [of b n])
qed

lemma digit_char_not [simp]:
  assumes "d < 16"
  shows "digit_char d \<noteq> CHR ''-''" and "digit_char d \<noteq> CHR '':''" and "digit_char d \<noteq> CHR 0x0D"
    and "digit_char d \<noteq> CHR ''+''" and "digit_char d \<noteq> CHR ''/''" and "digit_char d \<noteq> CHR ''#''"
    and "digit_char d \<noteq> CHR 0x00" and "\<not> is_space (digit_char d)"
proof -
  have "of_char (digit_char d) \<in> {48 ..< 58} \<union> {97 ..< 103 :: nat}"
    using assms by (auto simp: digit_char_def)
  then show "digit_char d \<noteq> CHR ''-''" and "digit_char d \<noteq> CHR '':''"
    and "digit_char d \<noteq> CHR 0x0D" and "digit_char d \<noteq> CHR ''+''" and "digit_char d \<noteq> CHR ''/''"
    and "digit_char d \<noteq> CHR ''#''" and "digit_char d \<noteq> CHR 0x00" and "\<not> is_space (digit_char d)"
    by (auto simp: is_space_def)
qed

lemma show_base_digits:
  assumes "2 \<le> b" and "b \<le> 16" and "c \<in> set (show_base b n)"
  obtains d where "d < 16" and "c = digit_char d"
proof -
  from set_show_base [OF assms(1,2), of n] assms(3) obtain d where "d < b" "c = digit_char d"
    by auto
  with assms(2) show ?thesis by (intro that [of d]) auto
qed

lemma show_dec_no_sep [simp]:
  "CHR ''-'' \<notin> set (show_dec n)" "CHR '':'' \<notin> set (show_dec n)" "CHR ''/'' \<notin> set (show_dec n)"
  "CHR 0x00 \<notin> set (show_dec n)"
proof -
  have "c \<notin> set (show_dec n)" if "\<And>d. d < 16 \<Longrightarrow> digit_char d \<noteq> c" for c
  proof
    assume "c \<in> set (show_dec n)"
    then obtain d where "d < 16" "c = digit_char d" by (rule show_base_digits [rotated 2]) simp_all
    with that show False by blast
  qed
  then show "CHR ''-'' \<notin> set (show_dec n)" "CHR '':'' \<notin> set (show_dec n)"
    "CHR ''/'' \<notin> set (show_dec n)" "CHR 0x00 \<notin> set (show_dec n)" by simp_all
qed

lemma hd_show_dec:
  obtains d where "d < 10" and "hd (show_dec n) = digit_char d"
  using set_show_base [of 10 n] hd_in_set [OF show_base_not_Nil [of 10 n]] by fastforce

lemma length_show_base:
  "2 \<le> b \<Longrightarrow> b ^ k \<le> n \<Longrightarrow> n < b ^ Suc k \<Longrightarrow> length (show_base b n) = Suc k"
proof (induction k arbitrary: n)
  case 0
  then show ?case by (simp add: show_base.simps [of b n])
next
  case (Suc k)
  have "b \<le> b * b ^ k" using Suc.prems(1) by simp
  with Suc.prems(2) have "\<not> n < b" by (simp only: power_Suc)
  moreover have "b ^ k \<le> n div b" "n div b < b ^ Suc k"
    using Suc.prems by (simp_all add: less_eq_div_iff_mult_less_eq div_less_iff_less_mult mult.commute)
  ultimately show ?case
    using Suc.IH [of "n div b"] Suc.prems(1) by (simp add: show_base.simps [of b n])
qed

lemma take_show_dec: "10 ^ Suc k \<le> n \<Longrightarrow> n < 10 ^ Suc (Suc k) \<Longrightarrow> take (Suc k) (show_dec n) = show_dec (n div 10)"
proof -
  assume a: "10 ^ Suc k \<le> n" "n < 10 ^ Suc (Suc k)"
  then have "10 ^ k \<le> n div 10" "n div 10 < 10 ^ Suc k"
    by (simp_all add: less_eq_div_iff_mult_less_eq div_less_iff_less_mult mult.commute)
  then have "length (show_dec (n div 10)) = Suc k" by (intro length_show_base) simp_all
  moreover have "\<not> n < 10" using a(1) one_le_power [of "10 :: nat" k] by (simp only: power_Suc) linarith
  ultimately show ?thesis by (simp add: show_base.simps [of 10 n])
qed

text \<open>What \<open>operator<<\<close> prints, \<open>atoi\<close>, \<open>stoi\<close> and \<open>strtoull\<close> read back.\<close>

lemma scan_int_show_dec:
  assumes "s = [] \<or> \<not> is_digit 10 (hd s)"
  shows "scan_int (show_dec n @ s) = Some (int n, s)"
proof -
  obtain d where d: "d < 10" "hd (show_dec n) = digit_char d" by (rule hd_show_dec)
  moreover obtain t where "show_dec n = digit_char d # t"
    using d show_base_not_Nil [of 10 n] by (cases "show_dec n") auto
  ultimately have "dropWhile is_space (show_dec n @ s) = show_dec n @ s"
    and "hd (show_dec n @ s) = digit_char d" by simp_all
  with d assms show ?thesis
    by (simp add: scan_int_def Let_def scan_nat_show)
qed

lemma scan_int_show_dec_only [simp]: "scan_int (show_dec n) = Some (int n, [])"
  using scan_int_show_dec [of "[]" n] by simp

end
