(* ===== verification/Ordered_Map.thy ===== *)
theory Ordered_Map
  imports Prelude
begin

text \<open>
  \<open>std::map\<close> and \<open>std::set\<close> iterate in key order, and the code prints what it iterates
  (request fields, JSON properties, listings), so they are modelled as association lists kept
  strictly sorted by key.  The contract the components use is the locale \<open>dict\<close>; it is
  interpreted on the model of \<open>std::map\<close> at the end.
\<close>

type_synonym ('k, 'v) omap = "('k \<times> 'v) list"

section \<open>Operations\<close>

text \<open>\<open>find\<close>, \<open>m[k] = v\<close>, \<open>erase(k)\<close>; \<open>emplace\<close> and \<open>set::insert\<close> keep a present entry.\<close>

fun om_get :: "('k::linorder, 'v) omap \<Rightarrow> 'k \<Rightarrow> 'v option" where
  "om_get [] k = None"
| "om_get ((a, b) # m) k = (if a = k then Some b else om_get m k)"

fun om_put :: "'k::linorder \<Rightarrow> 'v \<Rightarrow> ('k, 'v) omap \<Rightarrow> ('k, 'v) omap" where
  "om_put k v [] = [(k, v)]"
| "om_put k v ((a, b) # m) =
     (if k < a then (k, v) # (a, b) # m
      else if k = a then (k, v) # m else (a, b) # om_put k v m)"

fun om_del :: "'k::linorder \<Rightarrow> ('k, 'v) omap \<Rightarrow> ('k, 'v) omap" where
  "om_del k [] = []"
| "om_del k ((a, b) # m) = (if a = k then m else (a, b) # om_del k m)"

definition om_emplace :: "'k::linorder \<Rightarrow> 'v \<Rightarrow> ('k, 'v) omap \<Rightarrow> ('k, 'v) omap" where
  "om_emplace k v m = (case om_get m k of None \<Rightarrow> om_put k v m | Some _ \<Rightarrow> m)"

definition om_inv :: "('k::linorder, 'v) omap \<Rightarrow> bool" where
  "om_inv m = sorted_wrt (<) (map fst m)"

fun os_insert :: "'k::linorder \<Rightarrow> 'k list \<Rightarrow> 'k list" where
  "os_insert k [] = [k]"
| "os_insert k (a # m) =
     (if k < a then k # a # m else if k = a then a # m else a # os_insert k m)"

section \<open>Laws\<close>

lemma om_get_NoneI: "\<forall>x \<in> set m. k \<noteq> fst x \<Longrightarrow> om_get m k = None"
  by (induction m) auto

lemma om_get_less: "\<forall>x \<in> set m. k < fst x \<Longrightarrow> om_get m k = None"
  by (rule om_get_NoneI) auto

lemma om_inv_Cons: "om_inv ((a, b) # m) \<longleftrightarrow> (\<forall>x \<in> set (map fst m). a < x) \<and> om_inv m"
  by (simp add: om_inv_def)

lemma keys_om_put: "set (map fst (om_put k v m)) = insert k (set (map fst m))"
  by (induction k v m rule: om_put.induct) auto

lemma keys_om_del_subset: "set (map fst (om_del k m)) \<subseteq> set (map fst m)"
  by (induction k m rule: om_del.induct) auto

lemma om_get_put: "om_inv m \<Longrightarrow> om_get (om_put k v m) k' = (if k' = k then Some v else om_get m k')"
  by (induction k v m rule: om_put.induct) (auto simp: om_inv_Cons om_get_NoneI)

lemma om_inv_put: "om_inv m \<Longrightarrow> om_inv (om_put k v m)"
  by (induction k v m rule: om_put.induct)
    (auto simp: om_inv_Cons keys_om_put [unfolded set_map] order.strict_trans om_inv_def)

lemma om_get_del: "om_inv m \<Longrightarrow> om_get (om_del k m) k' = (if k' = k then None else om_get m k')"
  by (induction k m rule: om_del.induct) (auto simp: om_inv_Cons om_get_less)

lemma om_inv_del: "om_inv m \<Longrightarrow> om_inv (om_del k m)"
  using keys_om_del_subset by (induction k m rule: om_del.induct) (fastforce simp: om_inv_Cons)+

lemma om_inv_Nil [simp]: "om_inv []"
  by (simp add: om_inv_def)

lemma om_inv_emplace: "om_inv m \<Longrightarrow> om_inv (om_emplace k v m)"
  by (simp add: om_emplace_def om_inv_put split: option.split)

lemma om_get_emplace:
  "om_inv m \<Longrightarrow> om_get (om_emplace k v m) k' =
     (if k' = k \<and> om_get m k = None then Some v else om_get m k')"
  by (simp add: om_emplace_def om_get_put split: option.split)

lemma set_os_insert [simp]: "set (os_insert k xs) = insert k (set xs)"
  by (induction k xs rule: os_insert.induct) auto

lemma sorted_os_insert: "sorted_wrt (<) xs \<Longrightarrow> sorted_wrt (<) (os_insert k xs)"
  by (induction k xs rule: os_insert.induct) (auto dest: order.strict_trans)

text \<open>Entries put in the order of their keys.\<close>

lemma om_put_last: "\<forall>x \<in> set m. fst x < k \<Longrightarrow> om_put k v m = m @ [(k, v)]"
  by (induction k v m rule: om_put.induct) auto

lemma fold_om_put: "om_inv (m @ kvs) \<Longrightarrow> fold (\<lambda>(k, v). om_put k v) kvs m = m @ kvs"
proof (induction kvs arbitrary: m)
  case (Cons x kvs)
  obtain k v where x: "x = (k, v)" by fastforce
  from Cons.prems have "\<forall>y \<in> set m. fst y < k" by (auto simp: x om_inv_def sorted_wrt_append)
  with Cons.IH [of "m @ [(k, v)]"] Cons.prems show ?case by (simp add: x om_put_last)
qed simp

lemma om_inv_distinct: "om_inv m \<Longrightarrow> distinct (map fst m)"
  by (auto simp: om_inv_def strict_sorted_iff)

section \<open>The dictionary contract\<close>

locale dict =
  fixes empty :: "'m"
    and get :: "'m \<Rightarrow> 'k \<Rightarrow> 'v option"
    and put :: "'k \<Rightarrow> 'v \<Rightarrow> 'm \<Rightarrow> 'm"
    and del :: "'k \<Rightarrow> 'm \<Rightarrow> 'm"
    and inv :: "'m \<Rightarrow> bool"
  assumes get_empty: "get empty k = None"
    and get_put: "inv m \<Longrightarrow> get (put k v m) k' = (if k' = k then Some v else get m k')"
    and get_del: "inv m \<Longrightarrow> get (del k m) k' = (if k' = k then None else get m k')"
    and inv_empty: "inv empty"
    and inv_put: "inv m \<Longrightarrow> inv (put k v m)"
    and inv_del: "inv m \<Longrightarrow> inv (del k m)"
begin

lemma inv_puts: "inv m \<Longrightarrow> inv (fold (\<lambda>(k, v). put k v) kvs m)"
  by (induction kvs arbitrary: m) (auto simp: inv_put)

text \<open>Storing a list of pairs one after the other is a lookup in the reversed list.\<close>

lemma get_puts:
  "inv m \<Longrightarrow> get (fold (\<lambda>(k, v). put k v) kvs m) k' =
     (case map_of (rev kvs) k' of Some v \<Rightarrow> Some v | None \<Rightarrow> get m k')"
  by (induction kvs arbitrary: m)
    (auto simp: inv_put get_put map_add_def split: option.splits prod.splits)

lemma get_put_del: "inv m \<Longrightarrow> get (del k (put k v m)) = (get m)(k := None)"
  by (auto simp: inv_put get_del get_put)

lemma lookup_update: "inv m \<Longrightarrow> get (put k v m) = (get m)(k \<mapsto> v)"
  by (auto simp: get_put)

lemma lookup_delete: "inv m \<Longrightarrow> get (del k m) = (get m)(k := None)"
  by (auto simp: get_del)

end

interpretation om: dict "[]" om_get om_put om_del om_inv
  by unfold_locales (simp_all add: om_get_put om_get_del om_inv_put om_inv_del)

end
