(* ===== verification/Json.thy ===== *)
theory Json
  imports Ordered_Map
begin

text \<open>
  The JSON documents the code reads and writes.  The library (rapidjson) is not part of the
  repository: the text it produces and parses is a parameter (\<open>render\<close>, \<open>parse\<close>) of the
  operations that use it.  What the code itself decides is modelled: which writer events
  (\<open>StartObject\<close>, \<open>Key\<close>, ...) it sends, in which order, and which members of the parsed document
  it looks at.  \<open>dom_of_toks\<close> says which event sequences are a complete document.
\<close>

datatype json =
    JNull
  | JBool bool
  | JInt int
  | JStr string
  | JArr "json list"
  | JObj "(string \<times> json) list"

datatype jtok = StartObject | EndObject | StartArray | EndArray
  | Key string | String_tok string | Int_tok int | Bool_tok bool | Null_tok

section \<open>Writer events of a document\<close>

fun toks :: "json \<Rightarrow> jtok list" where
  "toks JNull = [Null_tok]"
| "toks (JBool b) = [Bool_tok b]"
| "toks (JInt i) = [Int_tok i]"
| "toks (JStr s) = [String_tok s]"
| "toks (JArr js) = StartArray # concat (map toks js) @ [EndArray]"
| "toks (JObj kvs) = StartObject # concat (map (\<lambda>(k, v). Key k # toks v) kvs) @ [EndObject]"

text \<open>A stack of the open arrays and objects; a value closes into the frame on top.\<close>

datatype frame = In_array "json list" | In_object "(string \<times> json) list" "string option"

type_synonym reader = "frame list \<times> json option"

fun add_value :: "json \<Rightarrow> reader \<Rightarrow> reader option" where
  "add_value v ([], None) = Some ([], Some v)"
| "add_value v (In_array vs # fs, None) = Some (In_array (vs @ [v]) # fs, None)"
| "add_value v (In_object kvs (Some k) # fs, None) = Some (In_object (kvs @ [(k, v)]) None # fs, None)"
| "add_value v _ = None"

fun read_tok :: "jtok \<Rightarrow> reader \<Rightarrow> reader option" where
  "read_tok StartObject (fs, None) = Some (In_object [] None # fs, None)"
| "read_tok StartArray (fs, None) = Some (In_array [] # fs, None)"
| "read_tok EndObject (In_object kvs None # fs, None) = add_value (JObj kvs) (fs, None)"
| "read_tok EndArray (In_array vs # fs, None) = add_value (JArr vs) (fs, None)"
| "read_tok (Key k) (In_object kvs None # fs, None) = Some (In_object kvs (Some k) # fs, None)"
| "read_tok (String_tok s) r = add_value (JStr s) r"
| "read_tok (Int_tok i) r = add_value (JInt i) r"
| "read_tok (Bool_tok b) r = add_value (JBool b) r"
| "read_tok Null_tok r = add_value JNull r"
| "read_tok _ _ = None"

fun read_toks :: "jtok list \<Rightarrow> reader \<Rightarrow> reader option" where
  "read_toks [] r = Some r"
| "read_toks (t # ts) r = Option.bind (read_tok t r) (read_toks ts)"

definition dom_of_toks :: "jtok list \<Rightarrow> json option" where
  "dom_of_toks ts = (case read_toks ts ([], None) of Some ([], Some j) \<Rightarrow> Some j | _ \<Rightarrow> None)"

lemma read_toks_append: "read_toks (xs @ ys) r = Option.bind (read_toks xs r) (read_toks ys)"
  by (induction xs arbitrary: r) (auto split: bind_splits)

text \<open>A frame that is waiting for a value.\<close>

fun ready :: "reader \<Rightarrow> bool" where
  "ready ([], None) = True"
| "ready (In_array vs # fs, None) = True"
| "ready (In_object kvs (Some k) # fs, None) = True"
| "ready _ = False"

lemma ready_None: "ready r \<Longrightarrow> snd r = None"
  by (cases r rule: ready.cases) auto

lemma read_array:
  assumes "\<And>j r ts. j \<in> set js \<Longrightarrow> ready r \<Longrightarrow>
      read_toks (toks j @ ts) r = Option.bind (add_value j r) (read_toks ts)"
  shows "read_toks (concat (map toks js) @ ts) (In_array vs # fs, None) =
    read_toks ts (In_array (vs @ js) # fs, None)"
  using assms by (induction js arbitrary: vs) auto

lemma read_object:
  assumes "\<And>j r ts. j \<in> snd ` set kvs \<Longrightarrow> ready r \<Longrightarrow>
      read_toks (toks j @ ts) r = Option.bind (add_value j r) (read_toks ts)"
  shows "read_toks (concat (map (\<lambda>(k, v). Key k # toks v) kvs) @ ts) (In_object ps None # fs, None) =
    read_toks ts (In_object (ps @ kvs) None # fs, None)"
  using assms by (induction kvs arbitrary: ps) force+

lemma read_toks_toks:
  "ready r \<Longrightarrow> read_toks (toks j @ ts) r = Option.bind (add_value j r) (read_toks ts)"
proof (induction j arbitrary: r ts)
  case (JArr js)
  obtain fs where "r = (fs, None)" using ready_None [OF JArr.prems] by (cases r) auto
  with JArr.IH show ?case by (simp add: read_array)
next
  case (JObj kvs)
  obtain fs where "r = (fs, None)" using ready_None [OF JObj.prems] by (cases r) auto
  moreover have "read_toks (toks j @ ts) r = Option.bind (add_value j r) (read_toks ts)"
    if member: "j \<in> snd ` set kvs" and "ready r" for j r ts
  proof -
    from member obtain k where "(k, j) \<in> set kvs" by force
    with \<open>ready r\<close> show ?thesis using JObj.IH [of "(k, j)" j r ts] by simp
  qed
  ultimately show ?case by (simp add: read_object)
qed simp_all

lemma dom_of_toks_toks [simp]: "dom_of_toks (toks j) = Some j"
  using read_toks_toks [of "([], None)" j "[]"] by (simp add: dom_of_toks_def)

section \<open>Members of a document\<close>

text \<open>
  \<open>HasMember\<close> and \<open>operator[]\<close> assert that the value is an object: \<open>None\<close> is that failed
  assertion.  Of several members with one name the first is found.
\<close>

fun member :: "json \<Rightarrow> string \<Rightarrow> json option option" where
  "member (JObj kvs) k = Some (map_of kvs k)"
| "member _ k = None"

fun is_int :: "json \<Rightarrow> bool" where
  "is_int (JInt i) = (- (2 ^ 31) \<le> i \<and> i < 2 ^ 31)"
| "is_int _ = False"

fun is_string :: "json \<Rightarrow> bool" where
  "is_string (JStr s) = True"
| "is_string _ = False"

text \<open>\<open>GetInt\<close>, \<open>GetString\<close> (a C string): \<open>None\<close> is the failed type assertion.\<close>

fun get_int :: "json \<Rightarrow> int option" where
  "get_int (JInt i) = (if - (2 ^ 31) \<le> i \<and> i < 2 ^ 31 then Some i else None)"
| "get_int _ = None"

fun get_string :: "json \<Rightarrow> string option" where
  "get_string (JStr s) = Some (c_str s)"
| "get_string _ = None"

lemma is_intE: "is_int j \<Longrightarrow> \<exists>i. j = JInt i \<and> - (2 ^ 31) \<le> i \<and> i < 2 ^ 31"
  by (cases j) auto

lemma is_stringE: "is_string j \<Longrightarrow> \<exists>s. j = JStr s"
  by (cases j) auto

end
