(* ===== verification/Status.thy ===== *)
theory Status
  imports Json
begin

text \<open>
  The result values of the client API (\<open>src/src/oio/api/common.hpp\<close>, \<open>common.cpp\<close>, \<open>blob.hpp\<close>,
  \<open>blob.cpp\<close>, \<open>resolver.hpp\<close>): the causes, \<open>Status\<close> and its subclasses \<open>Errno\<close> and
  \<open>OioError\<close>, the steps of a transaction, and \<open>SrvID\<close>.
\<close>

section \<open>Causes and statuses\<close>

datatype cause = OK | Already | Forbidden | NotFound | NetworkError | ProtocolError
  | Unsupported | InternalError

record status =
  st_rc :: cause
  st_code :: "32 word"
  st_msg :: string

definition status_ok :: status where
  "status_ok = \<lparr>st_rc = OK, st_code = 0, st_msg = []\<rparr>"

definition status_of :: "cause \<Rightarrow> status" where
  "status_of c = \<lparr>st_rc = c, st_code = 0, st_msg = []\<rparr>"

definition Ok :: "status \<Rightarrow> bool" where
  "Ok s = (st_rc s = OK)"

definition Why :: "status \<Rightarrow> cause" where
  "Why s = st_rc s"

definition Message :: "status \<Rightarrow> string" where
  "Message s = c_str (st_msg s)"

definition SoftCode :: "status \<Rightarrow> 32 word" where
  "SoftCode s = st_code s"

fun Status2Str :: "cause \<Rightarrow> string" where
  "Status2Str OK = ''OK''"
| "Status2Str Already = ''Already''"
| "Status2Str Forbidden = ''Forbidden''"
| "Status2Str NotFound = ''NotFound''"
| "Status2Str NetworkError = ''NetworkError''"
| "Status2Str ProtocolError = ''ProtocolError''"
| "Status2Str InternalError = ''InternalError''"
| "Status2Str Unsupported = ''Unsupported''"

definition Name :: "status \<Rightarrow> string" where
  "Name s = Status2Str (st_rc s)"

definition show_status :: "status \<Rightarrow> string" where
  "show_status s = Status2Str (Why s) @ ''('' @ Message s @ '')''"

lemma Ok_simps [simp]:
  "Ok status_ok" "Ok (status_of c) \<longleftrightarrow> c = OK" "st_rc status_ok = OK" "st_rc (status_of c) = c"
  by (simp_all add: Ok_def status_ok_def status_of_def)

lemma Status2Str_inject: "Status2Str c = Status2Str d \<longleftrightarrow> c = d"
  by (cases c; cases d; simp)

section \<open>Errno\<close>

text \<open>
  The errno values the code names; any other one is kept with its number and the platform's text.
  The texts are those of \<open>strerror\<close> in the C locale.
\<close>

datatype errno = E_none | EPERM | ENOENT | EINTR | ENXIO | E2BIG | EAGAIN | EACCES | EEXIST
  | ENOTDIR | EINVAL | EPIPE | ERANGE | EBADMSG | ENOTSUP | ECONNABORTED | ECONNRESET
  | ETIMEDOUT | ECONNREFUSED | EINPROGRESS | ECANCELED | E_other nat string

fun strerror :: "errno \<Rightarrow> string" where
  "strerror E_none = ''Success''"
| "strerror EPERM = ''Operation not permitted''"
| "strerror ENOENT = ''No such file or directory''"
| "strerror EINTR = ''Interrupted system call''"
| "strerror ENXIO = ''No such device or address''"
| "strerror E2BIG = ''Argument list too long''"
| "strerror EAGAIN = ''Resource temporarily unavailable''"
| "strerror EACCES = ''Permission denied''"
| "strerror EEXIST = ''File exists''"
| "strerror ENOTDIR = ''Not a directory''"
| "strerror EINVAL = ''Invalid argument''"
| "strerror EPIPE = ''Broken pipe''"
| "strerror ERANGE = ''Numerical result out of range''"
| "strerror EBADMSG = ''Bad message''"
| "strerror ENOTSUP = ''Operation not supported''"
| "strerror ECONNABORTED = ''Software caused connection abort''"
| "strerror ECONNRESET = ''Connection reset by peer''"
| "strerror ETIMEDOUT = ''Connection timed out''"
| "strerror ECONNREFUSED = ''Connection refused''"
| "strerror EINPROGRESS = ''Operation now in progress''"
| "strerror ECANCELED = ''Operation canceled''"
| "strerror (E_other n s) = s"

fun map_errno :: "errno \<Rightarrow> cause" where
  "map_errno ENOENT = NotFound"
| "map_errno EEXIST = Already"
| "map_errno ECONNRESET = NetworkError"
| "map_errno ECONNREFUSED = NetworkError"
| "map_errno ECONNABORTED = NetworkError"
| "map_errno EPIPE = NetworkError"
| "map_errno EACCES = Forbidden"
| "map_errno EPERM = Forbidden"
| "map_errno ENOTDIR = Forbidden"
| "map_errno ENOTSUP = Unsupported"
| "map_errno _ = InternalError"

definition Errno :: "errno \<Rightarrow> status" where
  "Errno err = \<lparr>st_rc = (if err \<noteq> E_none then map_errno err else OK), st_code = 0, st_msg = strerror err\<rparr>"

lemma map_errno_not_OK [simp]: "map_errno e \<noteq> OK"
  by (cases e) simp_all

lemma Ok_Errno [simp]: "Ok (Errno e) \<longleftrightarrow> e = E_none"
  by (simp add: Errno_def Ok_def)

lemma rc_Errno: "e \<noteq> E_none \<Longrightarrow> st_rc (Errno e) = map_errno e"
  by (simp add: Errno_def)

section \<open>OioError\<close>

definition map_code :: "32 word \<Rightarrow> cause" where
  "map_code c = (if c = 420 \<or> c = 431 then NotFound else InternalError)"

definition OioError_default :: status where
  "OioError_default = status_of OK"

definition OioError_Set :: "32 word \<Rightarrow> string \<Rightarrow> status \<Rightarrow> status" where
  "OioError_Set c m s = s\<lparr>st_code := c, st_msg := m, st_rc := map_code c\<rparr>"

definition OioError :: "32 word \<Rightarrow> string \<Rightarrow> status" where
  "OioError c m = OioError_Set c m status_ok"

definition Encode_toks :: "status \<Rightarrow> jtok list" where
  "Encode_toks s =
     [StartObject, Key ''status'', Int_tok (sint (st_code s)), Key ''message'',
      String_tok (c_str (st_msg s)), EndObject]"

definition Encode :: "(jtok list \<Rightarrow> string) \<Rightarrow> status \<Rightarrow> string" where
  "Encode render s = render (Encode_toks s)"

text \<open>The result is \<open>Decode\<close>'s boolean and the updated object; \<open>None\<close> a failed assertion.\<close>

definition Decode_doc :: "json option \<Rightarrow> status \<Rightarrow> (bool \<times> status) option" where
  "Decode_doc doc s =
     (case doc of
        None \<Rightarrow> Some (False, s)
      | Some d \<Rightarrow> do {
          st \<leftarrow> member d ''status'';
          case st of
            None \<Rightarrow> Some (False, s)
          | Some sv \<Rightarrow>
              if \<not> is_int sv then Some (False, s)
              else do {
                ms \<leftarrow> member d ''message'';
                case ms of
                  None \<Rightarrow> Some (False, s)
                | Some mv \<Rightarrow>
                    if \<not> is_string mv then Some (False, s)
                    else do {
                      i \<leftarrow> get_int sv;
                      t \<leftarrow> get_string mv;
                      Some (True, s\<lparr>st_code := word_of_int i, st_msg := t\<rparr>)
                    }
              }
        })"

definition Decode :: "(string \<Rightarrow> json option) \<Rightarrow> string \<Rightarrow> status \<Rightarrow> (bool \<times> status) option" where
  "Decode parse encoded s = Decode_doc (parse (c_str encoded)) s"

definition Encode_doc :: "status \<Rightarrow> json" where
  "Encode_doc s = JObj [(''status'', JInt (sint (st_code s))), (''message'', JStr (c_str (st_msg s)))]"

lemma Encode_toks_doc: "Encode_toks s = toks (Encode_doc s)"
  by (simp add: Encode_toks_def Encode_doc_def)

lemma sint32_range: "- (2 ^ 31) \<le> sint (w :: 32 word)" "sint (w :: 32 word) < 2 ^ 31"
  using sint_ge [of w] sint_lt [of w] by simp_all

lemma c_str_idem [simp]: "c_str (c_str s) = c_str s"
  by (simp add: c_str_def)

lemma Decode_Encode_doc:
  "Decode_doc (Some (Encode_doc s)) t = Some (True, t\<lparr>st_code := st_code s, st_msg := c_str (st_msg s)\<rparr>)"
  using sint32_range [of "st_code s"] by (simp add: Decode_doc_def Encode_doc_def)

lemma Decode_doc_rc: "Decode_doc d s = Some (b, s') \<Longrightarrow> st_rc s' = st_rc s"
  by (auto simp: Decode_doc_def split: option.splits if_splits bind_splits)

section \<open>Steps of a transaction\<close>

datatype tstep = Init | Prepared | Done

fun step_number :: "tstep \<Rightarrow> nat" where
  "step_number Init = 0"
| "step_number Prepared = 1"
| "step_number Done = 2"

fun show_step :: "tstep \<Rightarrow> string" where
  "show_step Init = ''Init/'' @ show_dec (step_number Init)"
| "show_step Prepared = ''Prepared/'' @ show_dec (step_number Prepared)"
| "show_step Done = ''Done/'' @ show_dec (step_number Done)"

text \<open>The declaration order of the enumeration is the order of a transaction's life.\<close>

instantiation tstep :: linorder
begin

definition less_eq_tstep :: "tstep \<Rightarrow> tstep \<Rightarrow> bool" where
  "less_eq_tstep a b = (step_number a \<le> step_number b)"

definition less_tstep :: "tstep \<Rightarrow> tstep \<Rightarrow> bool" where
  "less_tstep a b = (step_number a < step_number b)"

instance
proof
  fix x y :: tstep
  show "x \<le> y \<Longrightarrow> y \<le> x \<Longrightarrow> x = y"
    by (cases x; cases y) (simp_all add: less_eq_tstep_def)
qed (auto simp: less_eq_tstep_def less_tstep_def)

end

lemma tstep_le_simps [simp]:
  "Init \<le> s" "s \<le> Done" "Prepared \<le> s \<longleftrightarrow> s \<noteq> Init" "s \<le> Prepared \<longleftrightarrow> s \<noteq> Done"
  "Init < Prepared" "Prepared < Done" "Init < Done"
  by (cases s; simp add: less_eq_tstep_def less_tstep_def)+

text \<open>\<open>Download::SetRange\<close> of the interface, when a class does not override it.\<close>

definition Download_SetRange :: "32 word \<Rightarrow> 32 word \<Rightarrow> status" where
  "Download_SetRange offset size' = status_of Unsupported"

section \<open>SrvID\<close>

record srv_id =
  srv_host :: string
  srv_port :: int

text \<open>\<open>atoi\<close>: 0 without digits; out of the range of \<open>int\<close> it is undefined (\<open>None\<close>).\<close>

definition atoi :: "string \<Rightarrow> int option" where
  "atoi s =
     (case scan_int s of
        None \<Rightarrow> Some 0
      | Some (i, _) \<Rightarrow> if - (2 ^ 31) \<le> i \<and> i < 2 ^ 31 then Some i else None)"

definition SrvID_Set :: "srv_id \<Rightarrow> srv_id \<Rightarrow> srv_id" where
  "SrvID_Set s o' = s\<lparr>srv_host := srv_host o', srv_port := srv_port o'\<rparr>"

definition SrvID_Parse :: "string \<Rightarrow> srv_id \<Rightarrow> (bool \<times> srv_id) option" where
  "SrvID_Parse packed s =
     (case rfind CHR '':'' packed of
        None \<Rightarrow> Some (False, s)
      | Some colon \<Rightarrow> do {
          h \<leftarrow> substr packed 0 colon;
          p \<leftarrow> substr_from packed (colon + 1);
          n \<leftarrow> atoi (c_str p);
          Some (True, s\<lparr>srv_host := h, srv_port := n\<rparr>)
        })"

lemma c_str_no_nul: "CHR 0x00 \<notin> set s \<Longrightarrow> c_str s = s"
  by (auto simp: c_str_def takeWhile_eq_all_conv)

lemma c_str_show_dec [simp]: "c_str (show_dec n) = show_dec n"
  by (rule c_str_no_nul) simp

end
