(* ===== verification/Transaction.thy ===== *)
theory Transaction
  imports Status
begin

text \<open>
  The contract of \<open>Upload\<close> and \<open>Removal\<close> (\<open>src/src/oio/api/blob.hpp\<close>): \<open>Prepare\<close>, then one of
  \<open>Commit\<close> and \<open>Abort\<close>.  The classes that implement it keep a \<open>TransactionStep\<close>; the locale
  \<open>transaction\<close> states what their guards promise, and every class that keeps a step interprets it.
  An operation maps the state of the object and of its environment to a status and the next
  state; \<open>None\<close> stands for a call that does not return (it is blocked, or an assertion failed).
\<close>

datatype tx_call = Call_Prepare | Call_Commit | Call_Abort

type_synonym 's tx_op = "'s \<Rightarrow> (status \<times> 's) option"

fun tx_do :: "'s tx_op \<Rightarrow> 's tx_op \<Rightarrow> 's tx_op \<Rightarrow> tx_call \<Rightarrow> 's tx_op" where
  "tx_do prepare commit abort Call_Prepare = prepare"
| "tx_do prepare commit abort Call_Commit = commit"
| "tx_do prepare commit abort Call_Abort = abort"

text \<open>A client's sequence of calls, with the statuses they return.\<close>

fun tx_run :: "'s tx_op \<Rightarrow> 's tx_op \<Rightarrow> 's tx_op \<Rightarrow> tx_call list \<Rightarrow> 's \<Rightarrow>
    ((tx_call \<times> status) list \<times> 's) option" where
  "tx_run p c a [] s = Some ([], s)"
| "tx_run p c a (x # xs) s = do {
     (r, s') \<leftarrow> tx_do p c a x s;
     (rs, s'') \<leftarrow> tx_run p c a xs s';
     Some ((x, r) # rs, s'')
   }"

text \<open>The calls that ended the transaction: a \<open>Commit\<close> or \<open>Abort\<close> answered with success.\<close>

definition final_calls :: "(tx_call \<times> status) list \<Rightarrow> tx_call list" where
  "final_calls rs = map fst (filter (\<lambda>(x, r). x \<noteq> Call_Prepare \<and> Ok r) rs)"

locale transaction =
  fixes step :: "'s \<Rightarrow> tstep"
    and prepare :: "'s tx_op"
    and commit :: "'s tx_op"
    and abort :: "'s tx_op"
  assumes prepare_guard: "step s \<noteq> Init \<Longrightarrow> prepare s = Some (status_of InternalError, s)"
    and prepare_step: "step s = Init \<Longrightarrow> prepare s = Some (r, s') \<Longrightarrow>
      step s' = (if Ok r then Prepared else Init)"
    and commit_guard: "step s \<noteq> Prepared \<Longrightarrow> commit s = Some (status_of InternalError, s)"
    and commit_step: "step s = Prepared \<Longrightarrow> commit s = Some (r, s') \<Longrightarrow>
      step s' = Done \<or> step s' = Prepared \<and> \<not> Ok r"
    and abort_guard: "step s \<noteq> Prepared \<Longrightarrow> abort s = Some (status_of InternalError, s)"
    and abort_step: "step s = Prepared \<Longrightarrow> abort s = Some (r, s') \<Longrightarrow>
      step s' = Done \<or> step s' = Prepared \<and> \<not> Ok r"
begin

abbreviation run :: "tx_call list \<Rightarrow> 's \<Rightarrow> ((tx_call \<times> status) list \<times> 's) option" where
  "run \<equiv> tx_run prepare commit abort"

lemma do_step:
  assumes "tx_do prepare commit abort x s = Some (r, s')"
  shows "step s \<le> step s'"
    and "x \<noteq> Call_Prepare \<Longrightarrow> Ok r \<Longrightarrow> step s = Prepared \<and> step s' = Done"
    and "step s = Done \<Longrightarrow> \<not> Ok r \<and> s' = s"
    and "step s = Init \<Longrightarrow> step s' \<noteq> Init \<Longrightarrow> x = Call_Prepare \<and> Ok r"
proof -
  have *: "step s \<le> step s' \<and> (x \<noteq> Call_Prepare \<longrightarrow> Ok r \<longrightarrow> step s = Prepared \<and> step s' = Done)
      \<and> (step s = Done \<longrightarrow> \<not> Ok r \<and> s' = s)
      \<and> (step s = Init \<longrightarrow> step s' \<noteq> Init \<longrightarrow> x = Call_Prepare \<and> Ok r)"
  proof (cases x)
    case Call_Prepare
    with assms prepare_guard [of s] prepare_step [of s r s'] show ?thesis
      by (cases "step s = Init") auto
  next
    case Call_Commit
    with assms commit_guard [of s] commit_step [of s r s'] show ?thesis
      by (cases "step s = Prepared") auto
  next
    case Call_Abort
    with assms abort_guard [of s] abort_step [of s r s'] show ?thesis
      by (cases "step s = Prepared") auto
  qed
  then show "step s \<le> step s'"
    and "x \<noteq> Call_Prepare \<Longrightarrow> Ok r \<Longrightarrow> step s = Prepared \<and> step s' = Done"
    and "step s = Done \<Longrightarrow> \<not> Ok r \<and> s' = s"
    and "step s = Init \<Longrightarrow> step s' \<noteq> Init \<Longrightarrow> x = Call_Prepare \<and> Ok r"
    by blast+
qed

lemma run_Cons_iff:
  "run (x # xs) s = Some (rs, s'') \<longleftrightarrow>
     (\<exists>r s' rs'. tx_do prepare commit abort x s = Some (r, s') \<and> run xs s' = Some (rs', s'')
       \<and> rs = (x, r) # rs')"
  by (auto split: bind_splits)

lemma step_mono: "run xs s = Some (rs, s') \<Longrightarrow> step s \<le> step s'"
proof (induction xs arbitrary: s rs)
  case (Cons x xs)
  then show ?case unfolding run_Cons_iff using do_step(1) order.trans by blast
qed simp

text \<open>A finished transaction answers every call with an error and no longer changes.\<close>

lemma done_absorbing:
  "run xs s = Some (rs, s') \<Longrightarrow> step s = Done \<Longrightarrow> s' = s \<and> (\<forall>(x, r) \<in> set rs. \<not> Ok r)"
proof (induction xs arbitrary: s rs)
  case (Cons x xs)
  from Cons.prems(1) obtain r t rs' where
    1: "tx_do prepare commit abort x s = Some (r, t)" "run xs t = Some (rs', s')" "rs = (x, r) # rs'"
    unfolding run_Cons_iff by blast
  with Cons.prems(2) do_step(3) have "t = s" "\<not> Ok r" by blast+
  with 1 Cons.IH [OF 1(2)] Cons.prems(2) show ?case by simp
qed simp

lemma final_calls_Done: "run xs s = Some (rs, s') \<Longrightarrow> step s = Done \<Longrightarrow> final_calls rs = []"
  using done_absorbing by (fastforce simp: final_calls_def filter_empty_conv)

text \<open>Whatever the client calls, at most one \<open>Commit\<close> or \<open>Abort\<close> succeeds.\<close>

lemma one_final_call: "run xs s = Some (rs, s') \<Longrightarrow> length (final_calls rs) \<le> 1"
proof (induction xs arbitrary: s rs)
  case (Cons x xs)
  from Cons.prems obtain r t rs' where
    1: "tx_do prepare commit abort x s = Some (r, t)" "run xs t = Some (rs', s')" "rs = (x, r) # rs'"
    unfolding run_Cons_iff by blast
  show ?case
  proof (cases "x \<noteq> Call_Prepare \<and> Ok r")
    case True
    with do_step(2) [OF 1(1)] have "step t = Done" by blast
    with final_calls_Done [OF 1(2)] 1(3) show ?thesis by (simp add: final_calls_def)
  next
    case False
    with Cons.IH [OF 1(2)] 1(3) show ?thesis by (auto simp: final_calls_def)
  qed
qed (simp add: final_calls_def)

text \<open>No success without a successful \<open>Prepare\<close> before it.\<close>

lemma final_needs_prepare:
  "run xs s = Some (rs, s') \<Longrightarrow> step s = Init \<Longrightarrow> final_calls rs \<noteq> [] \<Longrightarrow>
    \<exists>i r. i < length rs \<and> rs ! i = (Call_Prepare, r) \<and> Ok r
      \<and> final_calls (take i rs) = []"
proof (induction xs arbitrary: s rs)
  case Nil
  then show ?case by (simp add: final_calls_def)
next
  case (Cons x xs)
  from Cons.prems(1) obtain r t rs' where
    1: "tx_do prepare commit abort x s = Some (r, t)" "run xs t = Some (rs', s')" "rs = (x, r) # rs'"
    unfolding run_Cons_iff by blast
  show ?case
  proof (cases "x = Call_Prepare \<and> Ok r")
    case True
    with 1(3) show ?thesis
      by (intro exI [of _ 0] exI [of _ r]) (simp add: final_calls_def)
  next
    case False
    with do_step(4) [OF 1(1) Cons.prems(2)] have "step t = Init" by blast
    moreover have no: "\<not> (x \<noteq> Call_Prepare \<and> Ok r)"
      using do_step(2) [OF 1(1)] Cons.prems(2) by auto
    moreover from no 1(3) Cons.prems(3) have "final_calls rs' \<noteq> []"
      by (auto simp: final_calls_def)
    ultimately obtain i q where "i < length rs'" "rs' ! i = (Call_Prepare, q)" "Ok q"
      "final_calls (take i rs') = []"
      using Cons.IH [OF 1(2)] by blast
    with no 1(3) show ?thesis
      by (intro exI [of _ "Suc i"] exI [of _ q]) (auto simp: final_calls_def)
  qed
qed

end

end
