(* ===== verification/Upload_Contract.thy ===== *)
theory Upload_Contract
  imports Transaction
begin

text \<open>
  What a blob store promises about an upload (\<open>Upload\<close> in \<open>src/src/oio/api/blob.hpp\<close>): the blob
  becomes visible when \<open>Commit\<close> succeeds, with the bytes that were accepted, and in no other way.
  The locale \<open>atomic_upload\<close> extends \<open>transaction\<close> with the store's view; the stores in memory and
  on a local file system interpret it.
\<close>

datatype up_call = Up_call tx_call | Up_write bytes

fun up_run :: "'s tx_op \<Rightarrow> 's tx_op \<Rightarrow> 's tx_op \<Rightarrow> (bytes \<Rightarrow> 's \<Rightarrow> 's option) \<Rightarrow> up_call list \<Rightarrow> 's \<Rightarrow>
    ((tx_call \<times> status) list \<times> 's) option" where
  "up_run p c a w [] s = Some ([], s)"
| "up_run p c a w (Up_call x # xs) s = do {
     (r, s') \<leftarrow> tx_do p c a x s;
     (rs, s'') \<leftarrow> up_run p c a w xs s';
     Some ((x, r) # rs, s'')
   }"
| "up_run p c a w (Up_write bs # xs) s = do {
     s' \<leftarrow> w bs s;
     up_run p c a w xs s'
   }"

definition committed :: "(tx_call \<times> status) list \<Rightarrow> bool" where
  "committed rs = (\<exists>r. (Call_Commit, r) \<in> set rs \<and> Ok r)"

locale atomic_upload = transaction step prepare commit abort
  for step :: "'s \<Rightarrow> tstep"
    and prepare :: "'s tx_op"
    and commit :: "'s tx_op"
    and abort :: "'s tx_op" +
  fixes wr :: "bytes \<Rightarrow> 's \<Rightarrow> 's option"
    and name :: "'s \<Rightarrow> string"
    and vis :: "'s \<Rightarrow> string \<Rightarrow> bytes option"
    and staged :: "'s \<Rightarrow> bytes"
    and good :: "'s \<Rightarrow> bool"
  assumes prepare_vis: "good s \<Longrightarrow> step s = Init \<Longrightarrow> prepare s = Some (r, s') \<Longrightarrow>
      good s' \<and> name s' = name s \<and> vis s' = vis s \<and> (Ok r \<longrightarrow> staged s' = [])"
    and commit_vis: "good s \<Longrightarrow> step s = Prepared \<Longrightarrow> commit s = Some (r, s') \<Longrightarrow>
      good s' \<and> name s' = name s
        \<and> vis s' = (if Ok r then (vis s)(name s \<mapsto> staged s) else vis s)"
    and abort_vis: "good s \<Longrightarrow> step s = Prepared \<Longrightarrow> abort s = Some (r, s') \<Longrightarrow>
      good s' \<and> name s' = name s \<and> vis s' = vis s"
    and write_vis: "good s \<Longrightarrow> step s = Prepared \<Longrightarrow> wr bs s = Some s' \<Longrightarrow>
      good s' \<and> name s' = name s \<and> vis s' = vis s \<and> step s' = Prepared
        \<and> (\<exists>k. staged s' = staged s @ take k bs)"
begin

abbreviation uprun :: "up_call list \<Rightarrow> 's \<Rightarrow> ((tx_call \<times> status) list \<times> 's) option" where
  "uprun \<equiv> up_run prepare commit abort wr"

text \<open>The writes of a client that respects the interface come after a successful \<open>Prepare\<close>.\<close>

lemma do_vis:
  assumes "good s" and "tx_do prepare commit abort x s = Some (r, s')"
  shows "good s' \<and> name s' = name s
    \<and> vis s' = (if x = Call_Commit \<and> Ok r then (vis s)(name s \<mapsto> staged s) else vis s)"
proof (cases x)
  case Call_Prepare
  with assms prepare_guard [of s] prepare_vis [of s r s'] show ?thesis
    by (cases "step s = Init") auto
next
  case Call_Commit
  with assms commit_guard [of s] commit_vis [of s r s'] show ?thesis
    by (cases "step s = Prepared") auto
next
  case Call_Abort
  with assms abort_guard [of s] abort_vis [of s r s'] show ?thesis
    by (cases "step s = Prepared") auto
qed

lemma writes_vis:
  assumes "good s" and "step s = Prepared" and "uprun (map Up_write bss) s = Some (rs, s')"
  shows "good s' \<and> name s' = name s \<and> vis s' = vis s \<and> step s' = Prepared \<and> rs = []
    \<and> (\<exists>ks. length ks = length bss
        \<and> staged s' = staged s @ concat (map (\<lambda>(k, bs). take k bs) (zip ks bss)))"
  using assms
proof (induction bss arbitrary: s)
  case (Cons bs bss)
  from Cons.prems(3) obtain t where t: "wr bs s = Some t"
    "uprun (map Up_write bss) t = Some (rs, s')"
    by (auto split: bind_splits)
  note w = write_vis [OF Cons.prems(1,2) t(1)]
  from w obtain k where k: "staged t = staged s @ take k bs" by blast
  from w Cons.IH [OF _ _ t(2)] obtain ks where "length ks = length bss"
    "staged s' = staged t @ concat (map (\<lambda>(k, bs). take k bs) (zip ks bss))"
    "good s'" "name s' = name t" "vis s' = vis t" "step s' = Prepared" "rs = []" by auto
  with w k show ?case by (intro conjI exI [of _ "k # ks"]) auto
qed auto

text \<open>A whole upload: what is visible afterwards is decided by the status of \<open>Commit\<close> alone.\<close>

lemma upload_session:
  assumes "good s" and "step s = Init"
    and "prepare s = Some (r, s1)" and "Ok r"
    and "uprun (map Up_write bss) s1 = Some (rs, s2)"
    and "commit s2 = Some (q, s3)"
  shows "\<exists>ks. length ks = length bss \<and>
    vis s3 = (if Ok q
      then (vis s)(name s \<mapsto> concat (map (\<lambda>(k, bs). take k bs) (zip ks bss))) else vis s)"
proof -
  from prepare_vis [OF assms(1-3)] assms(4) prepare_step [OF assms(2,3)]
  have p: "good s1" "name s1 = name s" "vis s1 = vis s" "staged s1 = []" "step s1 = Prepared"
    by auto
  from writes_vis [OF p(1,5) assms(5)] p(4) obtain ks where w: "good s2" "name s2 = name s1"
    "vis s2 = vis s1" "step s2 = Prepared" "length ks = length bss"
    "staged s2 = concat (map (\<lambda>(k, bs). take k bs) (zip ks bss))" by auto
  with commit_vis [OF w(1,4) assms(6)] p show ?thesis by (intro exI [of _ ks]) auto
qed

text \<open>Calls that never commit with success leave the store as it was.\<close>

lemma run_vis:
  assumes "good s" and "run xs s = Some (rs, s')" and "\<not> committed rs"
  shows "good s' \<and> name s' = name s \<and> vis s' = vis s"
  using assms
proof (induction xs arbitrary: s rs)
  case (Cons x xs)
  from Cons.prems(2) obtain r t rs' where
    1: "tx_do prepare commit abort x s = Some (r, t)" "run xs t = Some (rs', s')" "rs = (x, r) # rs'"
    unfolding run_Cons_iff by blast
  with Cons.prems(3) have "\<not> committed rs'" "\<not> (x = Call_Commit \<and> Ok r)"
    by (auto simp: committed_def)
  with do_vis [OF Cons.prems(1) 1(1)] Cons.IH [OF _ 1(2)] show ?case by auto
qed simp

end

end
