(* ===== verification/Download_Contract.thy ===== *)
theory Download_Contract
  imports Status
begin

text \<open>
  What the client of a \<open>Download\<close> (\<open>src/src/oio/api/blob.hpp\<close>) relies on.  Its loop, given in the
  comment of that class, reads until \<open>IsEof()\<close>.  A call that does not return (or whose assertion
  fails) is \<open>None\<close>; the loop takes fuel, and the lemmas give the fuel that suffices.
\<close>

text \<open>\<open>Read(buf)\<close> returns its code, what it leaves in \<open>buf\<close>, and the object.\<close>

type_synonym 'd rd_op = "'d \<Rightarrow> (int \<times> bytes \<times> 'd) option"

fun drain :: "('d \<Rightarrow> bool) \<Rightarrow> 'd rd_op \<Rightarrow> nat \<Rightarrow> 'd \<Rightarrow> (bytes \<times> 'd) option" where
  "drain eof rd 0 d = (if eof d then Some ([], d) else None)"
| "drain eof rd (Suc n) d =
     (if eof d then Some ([], d)
      else do {
        (i, buf, d') \<leftarrow> rd d;
        (bs, d'') \<leftarrow> drain eof rd n d';
        Some (buf @ bs, d'')
      })"

lemma drain_SucD:
  "drain eof rd (Suc n) d = Some (out, d') \<Longrightarrow> \<not> eof d \<Longrightarrow>
    \<exists>i buf s bs. rd d = Some (i, buf, s) \<and> drain eof rd n s = Some (bs, d') \<and> out = buf @ bs"
  by (auto split: bind_splits)

lemma drain_more_fuel: "drain eof rd n d = Some r \<Longrightarrow> n \<le> m \<Longrightarrow> drain eof rd m d = Some r"
proof (induction n arbitrary: m d r)
  case 0
  then show ?case by (cases m) (auto split: if_splits)
next
  case (Suc n)
  from Suc.prems(2) obtain m' where m: "m = Suc m'" "n \<le> m'" by (cases m) auto
  show ?case
  proof (cases "eof d")
    case True
    with Suc.prems(1) m show ?thesis by simp
  next
    case False
    with Suc.prems(1) obtain i buf d' bs d'' where
      1: "rd d = Some (i, buf, d')" "drain eof rd n d' = Some (bs, d'')" "r = (buf @ bs, d'')"
      by (auto split: bind_splits)
    from Suc.IH [OF 1(2) m(2)] 1 False m(1) show ?thesis by simp
  qed
qed

locale byte_source =
  fixes eof :: "'d \<Rightarrow> bool"
    and rd :: "'d rd_op"
    and rest :: "'d \<Rightarrow> bytes"
    and good :: "'d \<Rightarrow> bool"
  assumes eof_rest: "good d \<Longrightarrow> eof d \<Longrightarrow> rest d = []"
    and read_rest: "good d \<Longrightarrow> \<not> eof d \<Longrightarrow>
      \<exists>i buf d'. rd d = Some (i, buf, d') \<and> good d' \<and> rest d = buf @ rest d' \<and> (buf = [] \<longrightarrow> eof d')"
begin

text \<open>The loop ends, and what it has read is exactly what was left.\<close>

lemma drain_rest:
  assumes "good d" and "length (rest d) < n"
  shows "\<exists>d'. drain eof rd n d = Some (rest d, d') \<and> good d' \<and> eof d'"
  using assms
proof (induction n arbitrary: d)
  case (Suc n)
  show ?case
  proof (cases "eof d")
    case True
    with Suc.prems eof_rest show ?thesis by simp
  next
    case False
    from read_rest [OF Suc.prems(1) False] obtain i buf d' where
      r: "rd d = Some (i, buf, d')" "good d'" "rest d = buf @ rest d'" "buf = [] \<longrightarrow> eof d'" by blast
    have "\<exists>d''. drain eof rd n d' = Some (rest d', d'') \<and> good d'' \<and> eof d''"
    proof (cases "buf = []")
      case True
      with r have "eof d'" by blast
      with r(2) eof_rest show ?thesis by (cases n) auto
    next
      case nonempty: False
      with r(3) Suc.prems(2) have "length (rest d') < n" by (cases buf) auto
      with Suc.IH [OF r(2)] show ?thesis by blast
    qed
    with r False show ?thesis by auto
  qed
qed simp

end

end
