(* ===== verification/Mem_Blob.thy ===== *)
theory Mem_Blob
  imports Upload_Contract Download_Contract
begin

text \<open>
  The blob store in memory (\<open>src/src/oio/blob/mem/blob.hpp\<close>, \<open>blob.cpp\<close>): \<open>Cache\<close> with its items,
  and the upload, download and removal objects that share it.  An operation of an object takes
  and returns the object's own fields and the cache.
\<close>

section \<open>Cache\<close>

record item =
  it_xattr :: "(string, string) omap"
  it_data :: bytes
  it_pending :: bool

type_synonym cache = "(string, item) omap"

definition Item :: item where
  "Item = \<lparr>it_xattr = [], it_data = [], it_pending = True\<rparr>"

definition Item_Validate :: "item \<Rightarrow> item" where
  "Item_Validate i = i\<lparr>it_pending := False\<rparr>"

definition Item_Xattr :: "string \<Rightarrow> string \<Rightarrow> item \<Rightarrow> item" where
  "Item_Xattr k v i = i\<lparr>it_xattr := om_put k v (it_xattr i)\<rparr>"

definition Item_Write :: "bytes \<Rightarrow> item \<Rightarrow> item" where
  "Item_Write buf i = i\<lparr>it_data := it_data i @ buf\<rparr>"

definition Cache_Create :: "string \<Rightarrow> cache \<Rightarrow> status \<times> cache" where
  "Cache_Create name items =
     (case om_get items name of
        Some _ \<Rightarrow> (status_of Already, items)
      | None \<Rightarrow> (status_ok, om_emplace name Item items))"

definition Cache_Commit :: "string \<Rightarrow> cache \<Rightarrow> status \<times> cache" where
  "Cache_Commit name items =
     (case om_get items name of
        None \<Rightarrow> (status_of NotFound, items)
      | Some it \<Rightarrow>
          if \<not> it_pending it then (status_of InternalError, items)
          else (status_of OK, om_put name (Item_Validate it) items))"

definition Cache_Abort :: "string \<Rightarrow> cache \<Rightarrow> status \<times> cache" where
  "Cache_Abort name items =
     (case om_get items name of
        None \<Rightarrow> (status_of OK, items)
      | Some it \<Rightarrow>
          if \<not> it_pending it then (status_of InternalError, items)
          else (status_of OK, om_del name items))"

definition Cache_Write :: "string \<Rightarrow> bytes \<Rightarrow> cache \<Rightarrow> status \<times> cache" where
  "Cache_Write name buf items =
     (case om_get items name of
        Some it \<Rightarrow>
          if it_pending it then (status_ok, om_put name (Item_Write buf it) items)
          else (status_of Already, items)
      | None \<Rightarrow> (status_of NotFound, items))"

definition Cache_Xattr :: "string \<Rightarrow> string \<Rightarrow> string \<Rightarrow> cache \<Rightarrow> status \<times> cache" where
  "Cache_Xattr name k v items =
     (case om_get items name of
        None \<Rightarrow> (status_of NotFound, items)
      | Some it \<Rightarrow>
          if \<not> it_pending it then (status_of Already, items)
          else (status_ok, om_put name (Item_Xattr k v it) items))"

text \<open>\<open>Get\<close> fills the caller's vector only when the item is present.\<close>

definition Cache_Get :: "string \<Rightarrow> bytes \<Rightarrow> cache \<Rightarrow> status \<times> bytes" where
  "Cache_Get name out items =
     (case om_get items name of
        None \<Rightarrow> (status_of NotFound, out)
      | Some it \<Rightarrow> (status_ok, it_data it))"

definition Cache_Stat :: "string \<Rightarrow> cache \<Rightarrow> bool \<times> bool" where
  "Cache_Stat name items =
     (case om_get items name of None \<Rightarrow> (False, False) | Some it \<Rightarrow> (True, it_pending it))"

definition Cache_Remove :: "string \<Rightarrow> cache \<Rightarrow> cache" where
  "Cache_Remove name items = om_del name items"

section \<open>Upload\<close>

record mem_upload =
  mu_name :: string
  mu_step :: tstep

definition MemUpload_Build :: "string \<Rightarrow> mem_upload" where
  "MemUpload_Build name = \<lparr>mu_name = name, mu_step = Init\<rparr>"

definition MemUpload_Prepare :: "(mem_upload \<times> cache) tx_op" where
  "MemUpload_Prepare = (\<lambda>(u, c).
     if mu_step u \<noteq> Init then Some (status_of InternalError, u, c)
     else let (r, c') = Cache_Create (mu_name u) c
       in Some (r, if Ok r then u\<lparr>mu_step := Prepared\<rparr> else u, c'))"

definition MemUpload_Commit :: "(mem_upload \<times> cache) tx_op" where
  "MemUpload_Commit = (\<lambda>(u, c).
     if mu_step u \<noteq> Prepared then Some (status_of InternalError, u, c)
     else let (r, c') = Cache_Commit (mu_name u) c in Some (r, u\<lparr>mu_step := Done\<rparr>, c'))"

definition MemUpload_Abort :: "(mem_upload \<times> cache) tx_op" where
  "MemUpload_Abort = (\<lambda>(u, c).
     if mu_step u \<noteq> Prepared then Some (status_of InternalError, u, c)
     else let (r, c') = Cache_Abort (mu_name u) c in Some (r, u\<lparr>mu_step := Done\<rparr>, c'))"

definition MemUpload_Write :: "bytes \<Rightarrow> mem_upload \<times> cache \<Rightarrow> (mem_upload \<times> cache) option" where
  "MemUpload_Write buf = (\<lambda>(u, c). Some (u, snd (Cache_Write (mu_name u) buf c)))"

definition MemUpload_SetXattr :: "string \<Rightarrow> string \<Rightarrow> mem_upload \<times> cache \<Rightarrow> mem_upload \<times> cache" where
  "MemUpload_SetXattr k v = (\<lambda>(u, c). (u, snd (Cache_Xattr (mu_name u) k v c)))"

section \<open>Download\<close>

record mem_download =
  md_name :: string
  md_value :: bytes
  md_step :: tstep

definition MemDownload_Build :: "string \<Rightarrow> mem_download" where
  "MemDownload_Build name = \<lparr>md_name = name, md_value = [], md_step = Init\<rparr>"

definition MemDownload_Prepare :: "mem_download \<Rightarrow> cache \<Rightarrow> status \<times> mem_download" where
  "MemDownload_Prepare d c =
     (if md_step d \<noteq> Init then (status_of InternalError, d)
      else let (r, v) = Cache_Get (md_name d) (md_value d) c
        in (r, if Ok r then d\<lparr>md_value := v, md_step := Prepared\<rparr> else d\<lparr>md_value := v\<rparr>))"

definition MemDownload_IsEof :: "mem_download \<Rightarrow> bool" where
  "MemDownload_IsEof d = (md_step d \<noteq> Prepared)"

text \<open>\<open>Read\<close> returns its result, the caller's vector and the object.\<close>

definition MemDownload_Read :: "bytes \<Rightarrow> mem_download \<Rightarrow> int \<times> bytes \<times> mem_download" where
  "MemDownload_Read buf d =
     (if md_step d \<noteq> Prepared then (- 1, buf, d)
      else (i32_of_nat (length (md_value d)), md_value d, d\<lparr>md_step := Done, md_value := []\<rparr>))"

section \<open>Removal\<close>

record mem_removal =
  mr_name :: string
  mr_step :: tstep

definition MemRemoval_Build :: "string \<Rightarrow> mem_removal" where
  "MemRemoval_Build name = \<lparr>mr_name = name, mr_step = Init\<rparr>"

definition MemRemoval_Prepare :: "(mem_removal \<times> cache) tx_op" where
  "MemRemoval_Prepare = (\<lambda>(d, c).
     if mr_step d \<noteq> Init then Some (status_of InternalError, d, c)
     else let (present, pend) = Cache_Stat (mr_name d) c
       in if \<not> present \<or> pend then Some (status_of NotFound, d, c)
          else Some (status_ok, d\<lparr>mr_step := Prepared\<rparr>, c))"

definition MemRemoval_Commit :: "(mem_removal \<times> cache) tx_op" where
  "MemRemoval_Commit = (\<lambda>(d, c).
     if mr_step d \<noteq> Prepared then Some (status_of InternalError, d, c)
     else let (present, pend) = Cache_Stat (mr_name d) c
       in if \<not> present \<or> pend then Some (status_of NotFound, d, c)
          else Some (status_ok, d\<lparr>mr_step := Done\<rparr>, Cache_Remove (mr_name d) c))"

definition MemRemoval_Abort :: "(mem_removal \<times> cache) tx_op" where
  "MemRemoval_Abort = (\<lambda>(d, c).
     if mr_step d \<noteq> Prepared then Some (status_of InternalError, d, c)
     else Some (status_ok, d\<lparr>mr_step := Done\<rparr>, c))"

section \<open>Laws of the objects\<close>

lemmas cache_defs = Cache_Create_def Cache_Commit_def Cache_Abort_def Cache_Write_def
  Cache_Xattr_def Cache_Get_def Cache_Stat_def Cache_Remove_def

lemmas item_defs = Item_def Item_Validate_def Item_Xattr_def Item_Write_def

lemmas mem_upload_defs = MemUpload_Prepare_def MemUpload_Commit_def MemUpload_Abort_def
  MemUpload_Write_def

lemmas mem_removal_defs = MemRemoval_Prepare_def MemRemoval_Commit_def MemRemoval_Abort_def

text \<open>The committed blobs, and what an upload has stored so far.\<close>

definition published :: "cache \<Rightarrow> string \<Rightarrow> bytes option" where
  "published c n =
     (case om_get c n of None \<Rightarrow> None | Some it \<Rightarrow> if it_pending it then None else Some (it_data it))"

definition mem_staged :: "mem_upload \<times> cache \<Rightarrow> bytes" where
  "mem_staged = (\<lambda>(u, c). case om_get c (mu_name u) of None \<Rightarrow> [] | Some it \<Rightarrow> it_data it)"

text \<open>The cache is a map, and the blob of a prepared upload is present and pending.\<close>

definition mem_good :: "mem_upload \<times> cache \<Rightarrow> bool" where
  "mem_good = (\<lambda>(u, c). om_inv c \<and>
     (mu_step u = Prepared \<longrightarrow> (\<exists>it. om_get c (mu_name u) = Some it \<and> it_pending it)))"

lemma published_put: "om_inv c \<Longrightarrow>
  published (om_put n it c) = (published c)(n := if it_pending it then None else Some (it_data it))"
  by (auto simp: published_def om_get_put)

lemma published_del: "om_inv c \<Longrightarrow> published (om_del n c) = (published c)(n := None)"
  by (auto simp: published_def om_get_del)

lemma published_absent [simp]: "om_get c n = None \<Longrightarrow> (published c)(n := None) = published c"
  by (simp add: published_def fun_upd_idem_iff)

lemma published_pending [simp]:
  "om_get c n = Some it \<Longrightarrow> it_pending it \<Longrightarrow> (published c)(n := None) = published c"
  by (simp add: published_def fun_upd_idem_iff)

interpretation mem_ul: atomic_upload "mu_step \<circ> fst" MemUpload_Prepare MemUpload_Commit
  MemUpload_Abort MemUpload_Write "mu_name \<circ> fst" "published \<circ> snd" mem_staged mem_good
proof (standard, goal_cases)
  case (7 s r s')
  then show ?case
    by (auto simp: mem_upload_defs cache_defs mem_good_def mem_staged_def om_emplace_def Item_def
        om_inv_put om_get_put published_put published_def split: option.splits prod.splits if_splits)
next
  case (8 s r s')
  then show ?case
    by (auto simp: mem_upload_defs cache_defs mem_good_def mem_staged_def Item_Validate_def
        om_inv_put published_put split: option.splits prod.splits if_splits)
next
  case (9 s r s')
  then show ?case
    by (auto simp: mem_upload_defs cache_defs mem_good_def om_inv_del published_del
        published_def split: option.splits prod.splits if_splits)
next
  case (10 s bs s')
  then show ?case
    by (auto simp: mem_upload_defs cache_defs mem_good_def mem_staged_def Item_Write_def
        om_inv_put om_get_put published_put published_def intro!: exI [of _ "length bs"]
        split: option.splits prod.splits if_splits)
qed (auto simp: mem_upload_defs cache_defs split: option.splits prod.splits if_splits)

interpretation mem_rm: transaction "mr_step \<circ> fst" MemRemoval_Prepare MemRemoval_Commit
  MemRemoval_Abort
  by (standard; auto simp: mem_removal_defs cache_defs split: option.splits prod.splits if_splits)

interpretation mem_dl: byte_source MemDownload_IsEof "\<lambda>d. Some (MemDownload_Read [] d)"
  "\<lambda>d. if md_step d = Prepared then md_value d else []" "\<lambda>d. md_step d \<noteq> Init"
proof
  fix d assume "md_step d \<noteq> Init" "\<not> MemDownload_IsEof d"
  then have "md_step d = Prepared" by (cases "md_step d") (auto simp: MemDownload_IsEof_def)
  then show "\<exists>i buf d'. Some (MemDownload_Read [] d) = Some (i, buf, d') \<and> md_step d' \<noteq> Init \<and>
      (if md_step d = Prepared then md_value d else []) =
        buf @ (if md_step d' = Prepared then md_value d' else []) \<and>
      (buf = [] \<longrightarrow> MemDownload_IsEof d')"
    by (simp add: MemDownload_IsEof_def MemDownload_Read_def)
qed (auto simp: MemDownload_IsEof_def)

section \<open>Properties\<close>

text \<open>The cache is a map in every reachable state; each operation keeps it one.\<close>

lemma cache_inv:
  assumes "om_inv c"
  shows "om_inv (snd (Cache_Create n c))" "om_inv (snd (Cache_Commit n c))"
    "om_inv (snd (Cache_Abort n c))" "om_inv (snd (Cache_Write n b c))"
    "om_inv (snd (Cache_Xattr n k v c))" "om_inv (Cache_Remove n c)"
  using assms by (auto simp: cache_defs om_inv_put om_inv_del om_inv_emplace split: option.split)

text \<open>Writes of a prepared upload are all accepted, one after the other.\<close>

lemma Item_Write_append: "Item_Write b2 (Item_Write b1 it) = Item_Write (b1 @ b2) it"
  by (simp add: Item_Write_def)

lemma mem_writes:
  assumes "om_inv c" and "om_get c (mu_name u) = Some it" and "it_pending it"
  shows "\<exists>c'. up_run p q r MemUpload_Write (map Up_write bss) (u, c) = Some ([], u, c')
    \<and> om_inv c' \<and> om_get c' = (om_get c)(mu_name u \<mapsto> Item_Write (concat bss) it)"
  using assms
proof (induction bss arbitrary: c it)
  case Nil
  then show ?case by (auto simp: Item_Write_def)
next
  case (Cons b bss)
  let ?c = "om_put (mu_name u) (Item_Write b it) c"
  have c: "om_inv ?c" "om_get ?c = (om_get c)(mu_name u \<mapsto> Item_Write b it)"
    using Cons.prems(1) by (simp_all add: om.inv_put om.lookup_update)
  have "om_get ?c (mu_name u) = Some (Item_Write b it)" "it_pending (Item_Write b it)"
    using c(2) Cons.prems(3) by (simp_all add: Item_Write_def)
  from Cons.IH [OF c(1) this] obtain c' where c':
    "up_run p q r MemUpload_Write (map Up_write bss) (u, ?c) = Some ([], u, c')" "om_inv c'"
    "om_get c' = (om_get ?c)(mu_name u \<mapsto> Item_Write (concat bss) (Item_Write b it))" by blast
  have "MemUpload_Write b (u, c) = Some (u, ?c)"
    using Cons.prems by (simp add: MemUpload_Write_def Cache_Write_def)
  moreover have "om_get c' = (om_get c)(mu_name u \<mapsto> Item_Write (concat (b # bss)) it)"
    unfolding c'(3) c(2) by (simp add: Item_Write_append)
  ultimately show ?case using c'(1,2) by auto
qed

text \<open>A complete upload through the in-memory store, for a name that is not taken: every call
  succeeds, the blob becomes visible with exactly the bytes written, in order, and no other blob
  changes; a download then returns those bytes and reaches its end.\<close>

theorem mem_upload_download:
  assumes "om_inv c" and "om_get c n = None"
  shows "\<exists>u1 c1 c2 u3 c3.
    MemUpload_Prepare (MemUpload_Build n, c) = Some (status_ok, u1, c1) \<and>
    up_run MemUpload_Prepare MemUpload_Commit MemUpload_Abort MemUpload_Write (map Up_write bss)
      (u1, c1) = Some ([], u1, c2) \<and>
    MemUpload_Commit (u1, c2) = Some (status_of OK, u3, c3) \<and>
    published c3 = (published c)(n \<mapsto> concat bss) \<and>
    (let (r, d) = MemDownload_Prepare (MemDownload_Build n) c3;
         (i, buf, d') = MemDownload_Read [] d
     in Ok r \<and> buf = concat bss \<and> \<not> MemDownload_IsEof d \<and> MemDownload_IsEof d')"
proof -
  let ?u = "\<lparr>mu_name = n, mu_step = Prepared\<rparr>" and ?c = "om_put n Item c"
  have prep: "MemUpload_Prepare (MemUpload_Build n, c) = Some (status_ok, ?u, ?c)"
    using assms by (simp add: MemUpload_Prepare_def MemUpload_Build_def Cache_Create_def om_emplace_def)
  obtain c2 where w:
    "up_run MemUpload_Prepare MemUpload_Commit MemUpload_Abort MemUpload_Write (map Up_write bss)
      (?u, ?c) = Some ([], ?u, c2)"
    "om_inv c2" "om_get c2 = (om_get c)(n \<mapsto> Item_Write (concat bss) Item)"
  proof -
    have "om_inv ?c" "om_get ?c (mu_name ?u) = Some Item" "it_pending Item"
      using assms(1) by (simp_all add: om_inv_put om_get_put Item_def)
    from mem_writes [OF this, of MemUpload_Prepare MemUpload_Commit MemUpload_Abort bss] that
    show ?thesis using assms(1) by (auto simp: om.lookup_update)
  qed
  let ?it = "Item_Validate (Item_Write (concat bss) Item)"
  have com: "MemUpload_Commit (?u, c2) =
      Some (status_of OK, ?u\<lparr>mu_step := Done\<rparr>, om_put n ?it c2)"
    using w(3) by (simp add: MemUpload_Commit_def Cache_Commit_def Item_Write_def Item_def)
  have "published (om_put n ?it c2) = (published c)(n \<mapsto> concat bss)"
    using w(2,3) by (auto simp: published_put item_defs published_def)
  moreover have "om_get (om_put n ?it c2) n = Some ?it" using w(2) by (simp add: om_get_put)
  ultimately show ?thesis
    using prep w(1) com
    by (auto simp: MemDownload_Prepare_def MemDownload_Build_def MemDownload_Read_def Cache_Get_def
        MemDownload_IsEof_def item_defs)
qed

theorem mem_upload_download_witness:
  "\<exists>u1 c1 c2 u3 c3.
    MemUpload_Prepare (MemUpload_Build ''a'', []) = Some (status_ok, u1, c1) \<and>
    up_run MemUpload_Prepare MemUpload_Commit MemUpload_Abort MemUpload_Write
      (map Up_write [[1, 2], [3]]) (u1, c1) = Some ([], u1, c2) \<and>
    MemUpload_Commit (u1, c2) = Some (status_of OK, u3, c3) \<and>
    published c3 = (published [])(''a'' \<mapsto> concat [[1, 2], [3]]) \<and>
    (let (r, d) = MemDownload_Prepare (MemDownload_Build ''a'') c3;
         (i, buf, d') = MemDownload_Read [] d
     in Ok r \<and> buf = concat [[1, 2], [3]] \<and> \<not> MemDownload_IsEof d \<and> MemDownload_IsEof d')"
  by (rule mem_upload_download) simp_all

text \<open>C19. Whatever calls a client makes on an in-memory upload, in any order, at most one
  \<open>Commit\<close> or \<open>Abort\<close> succeeds, and calls without a successful \<open>Commit\<close> leave the
  published blobs as they were.\<close>

theorem mem_upload_atomic:
  assumes "om_inv c" and "mu_step u = Init"
    and "tx_run MemUpload_Prepare MemUpload_Commit MemUpload_Abort xs (u, c) = Some (rs, u', c')"
  shows "length (final_calls rs) \<le> 1 \<and> (\<not> committed rs \<longrightarrow> published c' = published c)"
  using mem_ul.one_final_call [OF assms(3)] mem_ul.run_vis [OF _ assms(3)] assms(1,2)
  by (auto simp: mem_good_def)

theorem mem_upload_atomic_witness:
  "\<exists>rs u' c'. tx_run MemUpload_Prepare MemUpload_Commit MemUpload_Abort
      [Call_Prepare, Call_Abort, Call_Commit] (MemUpload_Build ''a'', []) = Some (rs, u', c')
    \<and> length (final_calls rs) \<le> 1 \<and> (\<not> committed rs \<longrightarrow> published c' = published [])"
proof -
  obtain rs u' c' where r: "tx_run MemUpload_Prepare MemUpload_Commit MemUpload_Abort
      [Call_Prepare, Call_Abort, Call_Commit] (MemUpload_Build ''a'', []) = Some (rs, u', c')"
    by (simp add: mem_upload_defs MemUpload_Build_def cache_defs om_emplace_def item_defs)
  from r mem_upload_atomic [OF _ _ r] show ?thesis by (simp add: MemUpload_Build_def)
qed

text \<open>The upload object does not check its step in \<open>Write\<close>: an upload that was refused because
  the name is being written by another one still appends to that other upload's blob.\<close>

theorem mem_refused_upload_still_writes:
  assumes "om_inv c" and "om_get c n = Some it" and "it_pending it"
  shows "\<exists>u. MemUpload_Prepare (MemUpload_Build n, c) = Some (status_of Already, u, c)
    \<and> mu_step u = Init
    \<and> (\<exists>c'. MemUpload_Write bs (u, c) = Some (u, c')
        \<and> om_get c' n = Some (it\<lparr>it_data := it_data it @ bs\<rparr>))"
  using assms
  by (simp add: mem_upload_defs MemUpload_Build_def cache_defs om_get_put Item_Write_def)

theorem mem_refused_upload_still_writes_witness:
  "\<exists>u. MemUpload_Prepare (MemUpload_Build ''a'', [(''a'', Item)]) =
      Some (status_of Already, u, [(''a'', Item)])
    \<and> mu_step u = Init
    \<and> (\<exists>c'. MemUpload_Write [7] (u, [(''a'', Item)]) = Some (u, c')
        \<and> om_get c' ''a'' = Some (Item\<lparr>it_data := it_data Item @ [7]\<rparr>))"
  by (rule mem_refused_upload_still_writes) (simp_all add: om_inv_def Item_def)

text \<open>A removal succeeds exactly for a committed blob, and takes only that blob away: pending
  and absent names answer \<open>NotFound\<close> and nothing changes.\<close>

theorem mem_removal:
  assumes "om_inv c"
  shows "\<exists>d c'. tx_run MemRemoval_Prepare MemRemoval_Commit MemRemoval_Abort
      [Call_Prepare, Call_Commit] (MemRemoval_Build n, c) =
      Some (if published c n \<noteq> None
          then [(Call_Prepare, status_ok), (Call_Commit, status_ok)]
          else [(Call_Prepare, status_of NotFound), (Call_Commit, status_of InternalError)], d, c')
    \<and> om_inv c' \<and> om_get c' = (if published c n \<noteq> None then (om_get c)(n := None) else om_get c)
    \<and> published c' = (published c)(n := None)"
proof (cases "published c n = None")
  case True
  then have "(published c)(n := None) = published c" by (simp add: fun_upd_idem_iff)
  with True assms show ?thesis
    by (auto simp: mem_removal_defs MemRemoval_Build_def cache_defs published_def
        split: option.splits if_splits)
next
  case False
  with assms show ?thesis
    by (auto simp: mem_removal_defs MemRemoval_Build_def cache_defs published_def om_inv_del
        om_get_del split: option.splits if_splits)
qed

theorem mem_removal_witness:
  "\<exists>d c'. tx_run MemRemoval_Prepare MemRemoval_Commit MemRemoval_Abort
      [Call_Prepare, Call_Commit] (MemRemoval_Build ''a'', [(''a'', Item_Validate Item)]) =
      Some (if published [(''a'', Item_Validate Item)] ''a'' \<noteq> None
          then [(Call_Prepare, status_ok), (Call_Commit, status_ok)]
          else [(Call_Prepare, status_of NotFound), (Call_Commit, status_of InternalError)], d, c')
    \<and> om_inv c' \<and> om_get c' = (if published [(''a'', Item_Validate Item)] ''a'' \<noteq> None
        then (om_get [(''a'', Item_Validate Item)])(''a'' := None)
        else om_get [(''a'', Item_Validate Item)])
    \<and> published c' = (published [(''a'', Item_Validate Item)])(''a'' := None)"
  by (rule mem_removal) (simp add: om_inv_def)

end
