(* ===== verification/Net.thy ===== *)
theory Net
  imports Status
begin

text \<open>
  Addresses, sockets and the byte channel (\<open>src/src/utils/net.hpp\<close>, \<open>net.cpp\<close>).  The kernel is the
  environment: a call that loops on \<open>read\<close>, \<open>write\<close> or \<open>writev\<close> takes the list of the answers the
  kernel gives to its successive iterations; an \<open>EAGAIN\<close> answer carries what the loop asks next
  (whether the deadline has passed, and the event and error bits of the poll).  The result is
  \<open>None\<close> when the list ends before the call returns (it is still waiting).  \<open>inet_pton\<close> and
  \<open>inet_ntop\<close> are parameters.
\<close>

section \<open>Addresses\<close>

text \<open>The port is kept as it is in memory, in network order; the host is little-endian.\<close>

record addr =
  a_family :: nat
  a_port :: "16 word"
  a_ip :: bytes
  a_len :: nat

definition AF_INET :: nat where
  "AF_INET = 2"

definition AF_INET6 :: nat where
  "AF_INET6 = 10"

definition htons :: "16 word \<Rightarrow> 16 word" where
  "htons w = push_bit 8 w OR drop_bit 8 w"

lemma htons_htons [simp]: "htons (htons w) = w"
proof (rule bit_word_eqI)
  fix n assume "n < LENGTH(16)"
  then show "bit (htons (htons w)) n = bit w n"
    by (cases "n < 8") (auto simp: htons_def bit_simps)
qed

definition Addr_reset :: addr where
  "Addr_reset = \<lparr>a_family = 0, a_port = 0, a_ip = replicate 16 0, a_len = 24\<rparr>"

text \<open>\<open>strtoull(s, &end, 10)\<close>: the value and the text \<open>end\<close> points to.\<close>

definition strtoull :: "string \<Rightarrow> nat \<times> string" where
  "strtoull s =
     (case scan_int s of
        None \<Rightarrow> (0, s)
      | Some (i, r) \<Rightarrow>
          if i < 0 then (if - i < 2 ^ 64 then nat (i mod 2 ^ 64) else 2 ^ 64 - 1, r)
          else (min (nat i) (2 ^ 64 - 1), r))"

text \<open>\<open>_port_parse\<close>: \<open>err0\<close> is the value \<open>errno\<close> has when it is called and does not set it.\<close>

definition port_parse :: "errno \<Rightarrow> string \<Rightarrow> errno + 16 word" where
  "port_parse err0 start =
     (let (u64port, end') = strtoull (c_str start) in
      if u64port = 0 \<and> err0 = EINVAL then Inl EINVAL
      else if u64port \<ge> 65536 then Inl ERANGE
      else if end' \<noteq> [] then Inl EINVAL
      else Inr (word_of_nat u64port))"

text \<open>
  \<open>parse\<close> answers whether it succeeded, and \<open>errno\<close> otherwise, with the object as it leaves it;
  \<open>None\<close> is the failed assertion on an empty text.
\<close>

definition Addr_parse :: "(string \<Rightarrow> bytes option) \<Rightarrow> (string \<Rightarrow> bytes option) \<Rightarrow> errno \<Rightarrow>
    string \<Rightarrow> addr \<Rightarrow> (errno option \<times> addr) option" where
  "Addr_parse pton4 pton6 err0 url a =
     (if url = [] then None
      else case rfind CHR '':'' url of
        None \<Rightarrow> Some (Some EINVAL, a)
      | Some colon \<Rightarrow>
          (let sa = take colon url; sp = drop (colon + 1) url in
           case port_parse err0 sp of
             Inl e \<Rightarrow> Some (Some e, a)
           | Inr port \<Rightarrow>
               if sa \<noteq> [] \<and> hd sa = CHR ''['' then
                 (let a' = a\<lparr>a_len := 28\<rparr>;
                      sa' = (if last sa = CHR '']'' then butlast sa else sa)
                  in case pton6 (c_str (tl sa')) of
                       Some ip \<Rightarrow> Some (None, a'\<lparr>a_ip := ip, a_family := AF_INET6, a_port := htons port\<rparr>)
                     | None \<Rightarrow> Some (Some EINVAL, a'))
               else
                 (let a' = a\<lparr>a_len := 16\<rparr>
                  in case pton4 (c_str sa) of
                       Some ip \<Rightarrow> Some (None, a'\<lparr>a_ip := ip, a_family := AF_INET, a_port := htons port\<rparr>)
                     | None \<Rightarrow> Some (Some EINVAL, a'))))"

definition Addr_Url :: "(bytes \<Rightarrow> string) \<Rightarrow> (bytes \<Rightarrow> string) \<Rightarrow> addr \<Rightarrow> string" where
  "Addr_Url ntop4 ntop6 a =
     (if a_family a = 0 then []
      else if a_family a = AF_INET then
        ntop4 (a_ip a) @ '':'' @ show_dec (unat (htons (a_port a)))
      else if a_family a = AF_INET6 then
        ''['' @ ntop6 (a_ip a) @ '']'' @ '':'' @ show_dec (unat (htons (a_port a)))
      else ''?'')"

definition Addr_family :: "addr \<Rightarrow> nat" where
  "Addr_family a = a_family a"

definition Addr_family_name :: "addr \<Rightarrow> string" where
  "Addr_family_name a =
     (if Addr_family a = AF_INET then ''AF_INET''
      else if Addr_family a = AF_INET6 then ''AF_INET6'' else ''PF_?'')"

definition Addr_port :: "addr \<Rightarrow> nat" where
  "Addr_port a =
     (if Addr_family a = AF_INET then unat (a_port a)
      else if Addr_family a = AF_INET6 then unat (a_port a) else 0)"

lemma strtoull_show_dec: "n < 2 ^ 64 \<Longrightarrow> strtoull (show_dec n) = (n, [])"
  by (simp add: strtoull_def)

lemma port_parse_show_dec:
  assumes "0 < p"
  shows "port_parse err0 (show_dec (unat p)) = Inr p"
proof -
  have "unat p \<noteq> 0" using assms by (simp add: unat_gt_0 word_gt_0)
  moreover have "unat p < 65536" using unsigned_less [of p] by simp
  ultimately show ?thesis
    using strtoull_show_dec [of "unat p"] by (simp add: port_parse_def)
qed

lemma htons_eq_0 [simp]: "htons p = 0 \<longleftrightarrow> p = 0"
proof
  assume "htons p = 0"
  then have "htons (htons p) = htons 0" by simp
  then show "p = 0" by (simp add: htons_def [of 0])
qed (simp add: htons_def)

lemma port_parse_show_dec_all:
  "port_parse err0 (show_dec (unat p)) = (if p = 0 \<and> err0 = EINVAL then Inl EINVAL else Inr p)"
proof (cases "p = 0")
  case True
  then show ?thesis using strtoull_show_dec [of 0] by (simp add: port_parse_def)
next
  case False
  then show ?thesis using port_parse_show_dec [of p err0] by (simp add: word_neq_0_conv)
qed

section \<open>Reading\<close>

datatype rd_ev = Rd_data nat | Rd_eof | Rd_intr | Rd_again bool bool bool | Rd_fail errno

text \<open>
  \<open>Rd_data k\<close> delivers \<open>k\<close> bytes, as far as the caller asked for them and the peer has sent them,
  and at least one; \<open>Rd_again expired event error\<close> is \<open>EAGAIN\<close>; \<open>Rd_fail\<close> any other error.
\<close>

definition fatal :: "errno \<Rightarrow> bool" where
  "fatal e = (e \<noteq> EINTR \<and> e \<noteq> EAGAIN \<and> e \<noteq> E_none)"

definition delivered :: "nat \<Rightarrow> nat \<Rightarrow> bytes \<Rightarrow> nat" where
  "delivered k len inp = min (max 1 k) (min len (length inp))"

lemma delivered_Nil [simp]: "delivered k len [] = 0"
  by (simp add: delivered_def)

text \<open>The return value of \<open>Socket::read\<close> with the bytes it stored and the unread input.\<close>

datatype rd_result = Got bytes | Closed | Failed errno

fun Socket_read :: "nat \<Rightarrow> rd_ev list \<Rightarrow> bytes \<Rightarrow> (rd_result \<times> bytes \<times> rd_ev list) option" where
  "Socket_read len [] inp = None"
| "Socket_read len (Rd_data k # evs) inp =
     (if inp = [] \<or> len = 0 then None
      else let m = delivered k len inp in Some (Got (take m inp), drop m inp, evs))"
| "Socket_read len (Rd_eof # evs) inp = Some (Closed, inp, evs)"
| "Socket_read len (Rd_intr # evs) inp = Socket_read len evs inp"
| "Socket_read len (Rd_again expired event error # evs) inp =
     (if expired then Some (Failed ETIMEDOUT, inp, evs)
      else if error then Some (Failed EAGAIN, inp, evs)
      else if \<not> event then Some (Failed ETIMEDOUT, inp, evs)
      else Socket_read len evs inp)"
| "Socket_read len (Rd_fail e # evs) inp =
     (if fatal e then Some (Failed e, inp, evs) else None)"

definition ssize_of :: "rd_result \<Rightarrow> int" where
  "ssize_of r = (case r of Got bs \<Rightarrow> int (length bs) | Closed \<Rightarrow> - 2 | Failed e \<Rightarrow> - 1)"

text \<open>\<open>read_exactly\<close>: \<open>None\<close> for \<open>true\<close>, else \<open>errno\<close>; the bytes stored; the unread input.\<close>

type_synonym exact_result = "(errno option \<times> bytes) \<times> bytes \<times> rd_ev list"

fun read_loop :: "nat \<Rightarrow> nat \<Rightarrow> bytes \<Rightarrow> rd_ev list \<Rightarrow> bytes \<Rightarrow> exact_result option" where
  "read_loop len0 len acc evs inp =
     (if len = 0 then Some ((None, acc), inp, evs)
      else case evs of
        [] \<Rightarrow> None
      | Rd_data k # evs' \<Rightarrow>
          if inp = [] then None
          else let m = delivered k len inp
            in read_loop len0 (len - m) (acc @ take m inp) evs' (drop m inp)
      | Rd_eof # evs' \<Rightarrow> Some ((Some ECONNRESET, acc), inp, evs')
      | Rd_intr # evs' \<Rightarrow> read_loop len0 len acc evs' inp
      | Rd_again expired event error # evs' \<Rightarrow>
          if expired then Some ((Some (if len = len0 then EAGAIN else ETIMEDOUT), acc), inp, evs')
          else if error then read_loop len0 len acc evs' inp
          else if \<not> event then
            Some ((Some (if len = len0 then EAGAIN else ETIMEDOUT), acc), inp, evs')
          else read_loop len0 len acc evs' inp
      | Rd_fail e # evs' \<Rightarrow>
          if fatal e then Some ((Some e, acc), inp, evs') else None)"

declare read_loop.simps [simp del]

definition read_exactly :: "nat \<Rightarrow> rd_ev list \<Rightarrow> bytes \<Rightarrow> exact_result option" where
  "read_exactly len evs inp = read_loop len len [] evs inp"

lemma read_loop_simps [simp]:
  "read_loop len0 0 acc evs inp = Some ((None, acc), inp, evs)"
  "len > 0 \<Longrightarrow> read_loop len0 len acc [] inp = None"
  "len > 0 \<Longrightarrow> read_loop len0 len acc (Rd_data k # evs) inp =
     (if inp = [] then None
      else let m = delivered k len inp
        in read_loop len0 (len - m) (acc @ take m inp) evs (drop m inp))"
  "len > 0 \<Longrightarrow> read_loop len0 len acc (Rd_eof # evs) inp =
     Some ((Some ECONNRESET, acc), inp, evs)"
  "len > 0 \<Longrightarrow> read_loop len0 len acc (Rd_intr # evs) inp = read_loop len0 len acc evs inp"
  "len > 0 \<Longrightarrow> read_loop len0 len acc (Rd_again expired event error # evs) inp =
     (if expired \<or> \<not> error \<and> \<not> event
      then Some ((Some (if len = len0 then EAGAIN else ETIMEDOUT), acc), inp, evs)
      else read_loop len0 len acc evs inp)"
  "len > 0 \<Longrightarrow> read_loop len0 len acc (Rd_fail e # evs) inp =
     (if fatal e then Some ((Some e, acc), inp, evs) else None)"
  by (subst read_loop.simps; simp)+

lemma delivered_bounds:
  "inp \<noteq> [] \<Longrightarrow> 0 < len \<Longrightarrow> 0 < delivered k len inp \<and> delivered k len inp \<le> len
     \<and> delivered k len inp \<le> length inp"
  by (cases inp) (auto simp: delivered_def)

lemma read_loop_spec:
  assumes "read_loop len0 len acc evs inp = Some ((e, buf), inp', evs')" and "len \<le> len0"
  shows "\<exists>k. k \<le> len \<and> k \<le> length inp \<and> buf = acc @ take k inp \<and> inp' = drop k inp
    \<and> (e = None \<longleftrightarrow> k = len) \<and> (e = Some EAGAIN \<longrightarrow> k = 0 \<and> len = len0)
    \<and> (\<forall>x. e = Some x \<longrightarrow> x \<noteq> E_none)"
  using assms
proof (induction evs arbitrary: len acc inp)
  case Nil
  then show ?case by (cases "len = 0") auto
next
  case (Cons ev evs)
  show ?case
  proof (cases "len = 0")
    case True
    with Cons.prems show ?thesis by auto
  next
    case pos: False
    show ?thesis
    proof (cases ev)
      case (Rd_data k)
      let ?m = "delivered k len inp"
      from pos Rd_data Cons.prems have ne: "inp \<noteq> []" by (auto split: if_splits)
      with pos have m: "0 < ?m" "?m \<le> len" "?m \<le> length inp" by (simp_all add: delivered_bounds)
      from pos Rd_data Cons.prems ne
      have r: "read_loop len0 (len - ?m) (acc @ take ?m inp) evs (drop ?m inp) = Some ((e, buf), inp', evs')"
        by (simp add: Let_def)
      have "len - ?m \<le> len0" using Cons.prems(2) by simp
      from Cons.IH [OF r this] obtain j where
        "j \<le> len - ?m \<and> j \<le> length (drop ?m inp) \<and> buf = (acc @ take ?m inp) @ take j (drop ?m inp)
          \<and> inp' = drop j (drop ?m inp) \<and> (e = None \<longleftrightarrow> j = len - ?m)
          \<and> (e = Some EAGAIN \<longrightarrow> j = 0 \<and> len - ?m = len0) \<and> (\<forall>x. e = Some x \<longrightarrow> x \<noteq> E_none)"
        by blast
      with m Cons.prems(2) show ?thesis
        by (intro exI [of _ "j + ?m"]) (auto simp: take_then)
    qed (use pos Cons in \<open>auto split: if_splits simp: fatal_def\<close>)
  qed
qed

text \<open>Answers that only deliver bytes, as many as are asked for: the loop gets them all, and leaves
  enough answers for what is to be read next.\<close>

definition deliveries :: "rd_ev list \<Rightarrow> nat" where
  "deliveries evs = length (filter (\<lambda>e. e \<noteq> Rd_intr) evs)"

definition delivering :: "rd_ev list \<Rightarrow> bool" where
  "delivering evs = (\<forall>e \<in> set evs. e = Rd_intr \<or> (\<exists>k. e = Rd_data k))"

lemma read_loop_returns:
  assumes "len \<le> length inp" and "len \<le> deliveries evs" and "delivering evs"
  shows "\<exists>evs'. read_loop len0 len acc evs inp = Some ((None, acc @ take len inp), drop len inp, evs')
    \<and> delivering evs' \<and> deliveries evs \<le> deliveries evs' + len"
  using assms
proof (induction evs arbitrary: len acc inp)
  case Nil
  then show ?case by (simp add: deliveries_def)
next
  case (Cons ev evs)
  show ?case
  proof (cases "len = 0")
    case pos: False
    show ?thesis
    proof (cases "ev = Rd_intr")
      case True
      with pos Cons show ?thesis by (simp add: deliveries_def delivering_def)
    next
      case False
      with Cons.prems(3) obtain k where k: "ev = Rd_data k" by (auto simp: delivering_def)
      let ?m = "delivered k len inp"
      from pos Cons.prems(1) have ne: "inp \<noteq> []" by auto
      with pos have m: "0 < ?m" "?m \<le> len" "?m \<le> length inp" by (simp_all add: delivered_bounds)
      have "delivering evs" "len - ?m \<le> deliveries evs" "len - ?m \<le> length (drop ?m inp)"
        using m Cons.prems k by (auto simp: deliveries_def delivering_def)
      from Cons.IH [OF this(3,2,1), of "acc @ take ?m inp"] obtain evs' where
        1: "read_loop len0 (len - ?m) (acc @ take ?m inp) evs (drop ?m inp) =
          Some ((None, (acc @ take ?m inp) @ take (len - ?m) (drop ?m inp)), drop (len - ?m) (drop ?m inp), evs')"
        "delivering evs'" "deliveries evs \<le> deliveries evs' + (len - ?m)" by blast
      moreover have "take len inp = take ?m inp @ take (len - ?m) (drop ?m inp)"
        using m by (simp flip: take_add)
      moreover have "deliveries (ev # evs) \<le> deliveries evs' + len"
        using 1(3) m k by (simp add: deliveries_def)
      ultimately show ?thesis using pos k ne m by (simp add: Let_def)
    qed
  qed (use Cons in auto)
qed

section \<open>Writing\<close>

datatype wr_ev = Wr_n nat | Wr_intr | Wr_again bool bool bool | Wr_fail errno

text \<open>
  \<open>send(buf, len)\<close>: \<open>None\<close> for \<open>true\<close>, else \<open>errno\<close>; all the bytes the kernel has accepted.
\<close>

type_synonym send_result = "errno option \<times> bytes \<times> wr_ev list"

fun send_buf :: "bytes \<Rightarrow> wr_ev list \<Rightarrow> bytes \<Rightarrow> send_result option" where
  "send_buf buf evs out =
     (if buf = [] then Some (None, out, evs)
      else case evs of
        [] \<Rightarrow> None
      | Wr_n k # evs' \<Rightarrow>
          let m = min k (length buf) in send_buf (drop m buf) evs' (out @ take m buf)
      | Wr_intr # evs' \<Rightarrow> send_buf buf evs' out
      | Wr_again expired event error # evs' \<Rightarrow>
          if expired then Some (Some ETIMEDOUT, out, evs')
          else if error then send_buf buf evs' out
          else if \<not> event then Some (Some ETIMEDOUT, out, evs')
          else send_buf buf evs' out
      | Wr_fail e # evs' \<Rightarrow> if fatal e then Some (Some e, out, evs') else None)"

declare send_buf.simps [simp del]

text \<open>The advance over the vectors after a \<open>writev\<close>; \<open>None\<close> is the failed \<open>assert(count > 0)\<close>.\<close>

fun iov_advance :: "nat \<Rightarrow> bytes list \<Rightarrow> bytes list option" where
  "iov_advance rc iov =
     (if rc = 0 then Some iov
      else case iov of
        [] \<Rightarrow> None
      | v # vs \<Rightarrow> if rc > length v then iov_advance (rc - length v) vs else Some (drop rc v # vs))"

declare iov_advance.simps [simp del]

fun send_iov_loop :: "nat \<Rightarrow> nat \<Rightarrow> bytes list \<Rightarrow> wr_ev list \<Rightarrow> bytes \<Rightarrow> send_result option" where
  "send_iov_loop tot sent iov evs out =
     (if \<not> sent < tot then Some (None, out, evs)
      else case evs of
        [] \<Rightarrow> None
      | Wr_n k # evs' \<Rightarrow>
          let m = min k (length (concat iov)) in
          if m = 0 then send_iov_loop tot sent iov evs' out
          else (case iov_advance m iov of
                  None \<Rightarrow> None
                | Some iov' \<Rightarrow> send_iov_loop tot (sent + m) iov' evs' (out @ take m (concat iov)))
      | Wr_intr # evs' \<Rightarrow> send_iov_loop tot sent iov evs' out
      | Wr_again expired event error # evs' \<Rightarrow>
          if expired then Some (Some ETIMEDOUT, out, evs')
          else if error then send_iov_loop tot sent iov evs' out
          else if \<not> event then Some (Some ETIMEDOUT, out, evs')
          else send_iov_loop tot sent iov evs' out
      | Wr_fail e # evs' \<Rightarrow> if fatal e then Some (Some e, out, evs') else None)"

declare send_iov_loop.simps [simp del]

definition send_iov :: "bytes list \<Rightarrow> wr_ev list \<Rightarrow> bytes \<Rightarrow> send_result option" where
  "send_iov iov evs out = send_iov_loop (sum_list (map length iov)) 0 iov evs out"

lemma iov_advance_concat:
  "rc \<le> length (concat iov) \<Longrightarrow> \<exists>iov'. iov_advance rc iov = Some iov' \<and> concat iov' = drop rc (concat iov)"
proof (induction rc iov rule: iov_advance.induct)
  case (1 rc iov)
  show ?case
  proof (cases iov)
    case Nil
    with 1 show ?thesis by (simp add: iov_advance.simps)
  next
    case (Cons v vs)
    show ?thesis
    proof (cases "rc \<noteq> 0 \<and> length v < rc")
      case True
      with 1 Cons show ?thesis by (auto simp: iov_advance.simps [of rc "v # vs"])
    next
      case False
      with Cons show ?thesis by (auto simp: iov_advance.simps [of rc "v # vs"])
    qed
  qed
qed

lemma send_buf_spec:
  "send_buf buf evs out = Some (e, out', evs') \<Longrightarrow>
    \<exists>k \<le> length buf. out' = out @ take k buf \<and> (e = None \<longleftrightarrow> k = length buf)"
proof (induction evs arbitrary: buf out)
  case Nil
  then show ?case by (simp add: send_buf.simps split: if_splits)
next
  case (Cons ev evs)
  show ?case
  proof (cases "buf = []")
    case True
    with Cons.prems show ?thesis by (simp add: send_buf.simps)
  next
    case ne: False
    show ?thesis
    proof (cases ev)
      case (Wr_n k)
      let ?m = "min k (length buf)"
      from ne Wr_n Cons.prems
      have "send_buf (drop ?m buf) evs (out @ take ?m buf) = Some (e, out', evs')"
        by (simp add: send_buf.simps [of buf] Let_def)
      from Cons.IH [OF this] obtain j where "j \<le> length buf - ?m"
        "out' = (out @ take ?m buf) @ take j (drop ?m buf)" "(e = None) = (j = length buf - ?m)"
        by auto
      then show ?thesis by (intro exI [of _ "j + ?m"]) (auto simp: take_then)
    qed (use ne Cons in \<open>auto simp: send_buf.simps [of buf] split: if_splits\<close>)
  qed
qed

lemma send_iov_loop_simps:
  "\<not> sent < tot \<Longrightarrow> send_iov_loop tot sent iov evs out = Some (None, out, evs)"
  "sent < tot \<Longrightarrow> send_iov_loop tot sent iov [] out = None"
  "sent < tot \<Longrightarrow> send_iov_loop tot sent iov (Wr_intr # evs) out = send_iov_loop tot sent iov evs out"
  "sent < tot \<Longrightarrow> send_iov_loop tot sent iov (Wr_again expired event error # evs) out =
     (if expired \<or> \<not> error \<and> \<not> event then Some (Some ETIMEDOUT, out, evs)
      else send_iov_loop tot sent iov evs out)"
  "sent < tot \<Longrightarrow> send_iov_loop tot sent iov (Wr_fail x # evs) out =
     (if fatal x then Some (Some x, out, evs) else None)"
  by (subst send_iov_loop.simps; simp)+

lemma send_iov_loop_spec:
  "send_iov_loop tot sent iov evs out = Some (e, out', evs') \<Longrightarrow>
    sent + length (concat iov) = tot \<Longrightarrow>
    \<exists>k \<le> length (concat iov). out' = out @ take k (concat iov) \<and> (e = None \<longleftrightarrow> k = length (concat iov))"
proof (induction evs arbitrary: sent iov out)
  case Nil
  then have "length (concat iov) = 0" "e = None" "out' = out"
    by (auto simp: send_iov_loop.simps [of tot sent iov] split: if_splits)
  then show ?case by simp
next
  case (Cons ev evs)
  show ?case
  proof (cases "sent < tot")
    case False
    with Cons.prems(2) have "length (concat iov) = 0" by linarith
    with False Cons.prems(1) show ?thesis by (auto simp: send_iov_loop_simps)
  next
    case less: True
    show ?thesis
    proof (cases ev)
      case (Wr_n k)
      define m where "m = min k (length (concat iov))"
      have step: "(if m = 0 then send_iov_loop tot sent iov evs out
          else case iov_advance m iov of None \<Rightarrow> None
            | Some iov' \<Rightarrow> send_iov_loop tot (sent + m) iov' evs (out @ take m (concat iov)))
        = Some (e, out', evs')"
        using less Cons.prems(1) unfolding Wr_n m_def
        by (subst (asm) send_iov_loop.simps) (simp only: Let_def wr_ev.case list.case if_not_P if_P
            not_not not_True_eq_False not_False_eq_True if_False if_True)
      show ?thesis
      proof (cases "m = 0")
        case True
        with step Cons.IH [OF _ Cons.prems(2), of out] show ?thesis by simp
      next
        case False
        have m: "m \<le> length (concat iov)" by (simp add: m_def)
        then obtain iov' where i: "iov_advance m iov = Some iov'" "concat iov' = drop m (concat iov)"
          using iov_advance_concat by blast
        with False step
        have "send_iov_loop tot (sent + m) iov' evs (out @ take m (concat iov)) = Some (e, out', evs')"
          by simp
        from Cons.IH [OF this] Cons.prems(2) i(2) m obtain j where
          "j \<le> length (concat iov) - m"
          "out' = (out @ take m (concat iov)) @ take j (drop m (concat iov))"
          "(e = None) = (j = length (concat iov) - m)" by auto
        with m show ?thesis by (intro exI [of _ "j + m"]) (auto simp: take_then)
      qed
    qed (use less Cons in \<open>auto simp: send_iov_loop_simps split: if_splits\<close>)
  qed
qed

lemma send_iov_spec:
  assumes "send_iov iov evs out = Some (e, out', evs')"
  shows "\<exists>k \<le> length (concat iov). out' = out @ take k (concat iov)
    \<and> (e = None \<longleftrightarrow> k = length (concat iov))"
  using send_iov_loop_spec [OF assms [unfolded send_iov_def]] by (simp add: length_concat)


text \<open>
  \<open>_poll\<close>: the event bit and the error bit of \<open>MILLSOCKET_EVENT\<close> and \<open>MILLSOCKET_ERROR\<close>.  The
  kernel's answer is \<open>None\<close> for a failure of \<open>poll\<close>, else whether the event or a hang-up, and
  whether an error, were reported within the second the call waits; the deadline is not used.
\<close>

definition sock_poll :: "(bool \<times> bool) option \<Rightarrow> nat \<Rightarrow> bool \<times> bool" where
  "sock_poll answer deadline =
     (case answer of None \<Rightarrow> (False, True) | Some (event, error) \<Rightarrow> (event, error))"

section \<open>The channel\<close>

text \<open>
  A connected socket as its clients use it: what the peer has sent and is not read yet, what the
  kernel has accepted for the peer, and the answers of the kernel to come.
\<close>

record chan =
  ch_in :: bytes
  ch_out :: bytes
  ch_rd :: "rd_ev list"
  ch_wr :: "wr_ev list"

definition chan_read :: "nat \<Rightarrow> chan \<Rightarrow> (rd_result \<times> chan) option" where
  "chan_read len c =
     (case Socket_read len (ch_rd c) (ch_in c) of
        None \<Rightarrow> None
      | Some (r, inp, evs) \<Rightarrow> Some (r, c\<lparr>ch_in := inp, ch_rd := evs\<rparr>))"

definition chan_read_exactly :: "nat \<Rightarrow> chan \<Rightarrow> ((errno option \<times> bytes) \<times> chan) option" where
  "chan_read_exactly len c =
     (case read_exactly len (ch_rd c) (ch_in c) of
        None \<Rightarrow> None
      | Some (r, inp, evs) \<Rightarrow> Some (r, c\<lparr>ch_in := inp, ch_rd := evs\<rparr>))"

definition chan_send :: "bytes \<Rightarrow> chan \<Rightarrow> (errno option \<times> chan) option" where
  "chan_send buf c =
     (case send_buf buf (ch_wr c) (ch_out c) of
        None \<Rightarrow> None
      | Some (e, out, evs) \<Rightarrow> Some (e, c\<lparr>ch_out := out, ch_wr := evs\<rparr>))"

definition chan_send_iov :: "bytes list \<Rightarrow> chan \<Rightarrow> (errno option \<times> chan) option" where
  "chan_send_iov iov c =
     (case send_iov iov (ch_wr c) (ch_out c) of
        None \<Rightarrow> None
      | Some (e, out, evs) \<Rightarrow> Some (e, c\<lparr>ch_out := out, ch_wr := evs\<rparr>))"

lemma chan_read_exactly_spec:
  assumes "chan_read_exactly len c = Some ((e, buf), c')"
  obtains k where "k \<le> len" "k \<le> length (ch_in c)" "buf = take k (ch_in c)" "ch_in c' = drop k (ch_in c)"
    "ch_out c' = ch_out c" "ch_wr c' = ch_wr c" "e = None \<longleftrightarrow> k = len" "e = Some EAGAIN \<longrightarrow> k = 0" "e \<noteq> Some E_none"
proof -
  from assms obtain inp evs where l: "read_loop len len [] (ch_rd c) (ch_in c) = Some ((e, buf), inp, evs)"
    and c': "c' = c\<lparr>ch_in := inp, ch_rd := evs\<rparr>"
    by (auto simp: chan_read_exactly_def read_exactly_def split: option.splits)
  from read_loop_spec [OF l order.refl] obtain k where "k \<le> len" "k \<le> length (ch_in c)" "buf = take k (ch_in c)"
    "inp = drop k (ch_in c)" "e = None \<longleftrightarrow> k = len" "e = Some EAGAIN \<longrightarrow> k = 0" "e \<noteq> Some E_none" by auto
  with c' show ?thesis by (intro that [of k]) simp_all
qed

lemma chan_read_exactly_delivers:
  assumes "len \<le> length (ch_in c)" and "len \<le> deliveries (ch_rd c)" and "delivering (ch_rd c)"
  obtains c' where "chan_read_exactly len c = Some ((None, take len (ch_in c)), c')"
    "ch_in c' = drop len (ch_in c)" "ch_out c' = ch_out c" "delivering (ch_rd c')"
    "deliveries (ch_rd c) \<le> deliveries (ch_rd c') + len"
proof -
  from read_loop_returns [OF assms, of len "[]"] obtain evs where
    "read_loop len len [] (ch_rd c) (ch_in c) = Some ((None, take len (ch_in c)), drop len (ch_in c), evs)"
    "delivering evs" "deliveries (ch_rd c) \<le> deliveries evs + len" by auto
  then show ?thesis
    by (intro that [of "c\<lparr>ch_in := drop len (ch_in c), ch_rd := evs\<rparr>"])
      (simp_all add: chan_read_exactly_def read_exactly_def)
qed

text \<open>One \<open>send\<close> after the other, up to the first that fails.\<close>

fun send_seq :: "('x \<Rightarrow> 'c \<Rightarrow> (errno option \<times> 'c) option) \<Rightarrow> 'x list \<Rightarrow> 'c \<Rightarrow>
    (errno option \<times> 'c) option" where
  "send_seq f [] c = Some (None, c)"
| "send_seq f (x # xs) c =
     (case f x c of
        None \<Rightarrow> None
      | Some (None, c') \<Rightarrow> send_seq f xs c'
      | Some (Some e, c') \<Rightarrow> Some (Some e, c'))"

text \<open>
  What the clients of \<open>Channel\<close> rely on: a \<open>send\<close> hands over a prefix of its bytes, and the
  whole of them exactly when it answers \<open>true\<close>.
\<close>

locale byte_channel =
  fixes snd_op :: "'x \<Rightarrow> 'c \<Rightarrow> (errno option \<times> 'c) option"
    and flat :: "'x \<Rightarrow> bytes"
    and sent :: "'c \<Rightarrow> bytes"
    and unread :: "'c \<Rightarrow> bytes"
  assumes send_prefix: "snd_op x c = Some (e, c') \<Longrightarrow>
      (\<exists>k \<le> length (flat x). sent c' = sent c @ take k (flat x) \<and> (e = None \<longleftrightarrow> k = length (flat x)))"
    and send_unread: "snd_op x c = Some (e, c') \<Longrightarrow> unread c' = unread c"
begin

lemma send_seq_prefix:
  "send_seq snd_op xs c = Some (e, c') \<Longrightarrow>
    \<exists>k \<le> length (concat (map flat xs)). sent c' = sent c @ take k (concat (map flat xs))
      \<and> (e = None \<longleftrightarrow> k = length (concat (map flat xs)))"
proof (induction xs arbitrary: c)
  case (Cons x xs)
  from Cons.prems obtain e1 c1 where 1: "snd_op x c = Some (e1, c1)"
    by (auto split: option.splits)
  from send_prefix [OF 1] obtain k where k: "k \<le> length (flat x)"
    "sent c1 = sent c @ take k (flat x)" "e1 = None \<longleftrightarrow> k = length (flat x)" by blast
  show ?case
  proof (cases e1)
    case None
    with 1 Cons.prems have "send_seq snd_op xs c1 = Some (e, c')" by simp
    from Cons.IH [OF this] obtain j where "j \<le> length (concat (map flat xs))"
      "sent c' = sent c1 @ take j (concat (map flat xs))"
      "e = None \<longleftrightarrow> j = length (concat (map flat xs))" by blast
    with k None show ?thesis by (intro exI [of _ "length (flat x) + j"]) auto
  next
    case (Some y)
    with 1 Cons.prems have "e = Some y" "c' = c1" by auto
    with k Some show ?thesis by (intro exI [of _ k]) auto
  qed
qed simp

lemma send_seq_unread: "send_seq snd_op xs c = Some (e, c') \<Longrightarrow> unread c' = unread c"
  by (induction xs arbitrary: c) (auto split: option.splits dest: send_unread)

lemma send_seq_all:
  "send_seq snd_op xs c = Some (None, c') \<Longrightarrow> sent c' = sent c @ concat (map flat xs)"
  using send_seq_prefix by fastforce

end

interpretation ch_buf: byte_channel chan_send "\<lambda>b. b" ch_out ch_in
  by standard (auto simp: chan_send_def split: option.splits dest: send_buf_spec)

interpretation ch_iov: byte_channel chan_send_iov concat ch_out ch_in
  by standard (auto simp: chan_send_iov_def split: option.splits dest: send_iov_spec)

text \<open>A kernel that accepts whatever it is given.\<close>

definition eager :: "bytes \<Rightarrow> wr_ev list" where
  "eager b = (if b = [] then [] else [Wr_n (length b)])"

lemma chan_send_eager [simp]:
  "ch_wr c = eager b @ evs \<Longrightarrow> chan_send b c = Some (None, c\<lparr>ch_out := ch_out c @ b, ch_wr := evs\<rparr>)"
  by (auto simp: chan_send_def eager_def send_buf.simps Let_def)

text \<open>One answer that has room for all the bytes.\<close>

lemma send_iov_one:
  assumes "concat iov \<noteq> []" and "length (concat iov) \<le> k"
  shows "send_iov iov (Wr_n k # evs) out = Some (None, out @ concat iov, evs)"
proof -
  let ?n = "length (concat iov)"
  have n: "sum_list (map length iov) = ?n" "0 < ?n" "min k ?n = ?n"
    using assms length_greater_0_conv [THEN iffD2, OF assms(1)] by (auto simp: length_concat)
  obtain iov' where i: "iov_advance ?n iov = Some iov'" using iov_advance_concat [of ?n iov] by auto
  have "send_iov_loop ?n 0 iov (Wr_n k # evs) out = send_iov_loop ?n (0 + ?n) iov' evs (out @ concat iov)"
    using n i assms(1) by (subst send_iov_loop.simps) (simp add: Let_def del: concat_eq_Nil_conv)
  also have "\<dots> = Some (None, out @ concat iov, evs)" by (simp add: send_iov_loop_simps)
  finally show ?thesis using n(1) by (simp add: send_iov_def)
qed

lemma chan_send_iov_one:
  "ch_wr c = Wr_n k # evs \<Longrightarrow> concat iov \<noteq> [] \<Longrightarrow> length (concat iov) \<le> k \<Longrightarrow>
    chan_send_iov iov c = Some (None, c\<lparr>ch_out := ch_out c @ concat iov, ch_wr := evs\<rparr>)"
  by (simp add: chan_send_iov_def send_iov_one del: concat_eq_Nil_conv)

lemma chan_send_one:
  "ch_wr c = Wr_n k # evs \<Longrightarrow> b \<noteq> [] \<Longrightarrow> length b \<le> k \<Longrightarrow>
    chan_send b c = Some (None, c\<lparr>ch_out := ch_out c @ b, ch_wr := evs\<rparr>)"
  by (simp add: chan_send_def send_buf.simps Let_def)

section \<open>Sockets\<close>

record sock =
  sk_fd :: int
  sk_peer :: addr
  sk_local :: addr

definition Socket :: sock where
  "Socket = \<lparr>sk_fd = - 1, sk_peer = Addr_reset, sk_local = Addr_reset\<rparr>"

definition Socket_reset :: "sock \<Rightarrow> sock" where
  "Socket_reset s = s\<lparr>sk_fd := - 1\<rparr>"

definition Socket_close :: "sock \<Rightarrow> sock" where
  "Socket_close s = Socket_reset s"

definition MillSocket_close :: "sock \<Rightarrow> sock" where
  "MillSocket_close s = (if sk_fd s \<ge> 0 then Socket_reset s else s)"

text \<open>\<open>fd\<close> is the answer of \<open>socket()\<close>; a descriptor in use or a failure ends in an assertion.\<close>

definition Socket_init :: "int \<Rightarrow> sock \<Rightarrow> sock option" where
  "Socket_init fd s = (if sk_fd s \<ge> 0 \<or> fd < 0 then None else Some (s\<lparr>sk_fd := fd\<rparr>))"

text \<open>
  \<open>conn\<close> is the answer of \<open>connect()\<close>, \<open>gsn\<close> the address \<open>getsockname()\<close> gives if it succeeds.
\<close>

definition Socket_connect :: "(string \<Rightarrow> bytes option) \<Rightarrow> (string \<Rightarrow> bytes option) \<Rightarrow> errno \<Rightarrow>
    int \<Rightarrow> errno \<Rightarrow> addr option \<Rightarrow> string \<Rightarrow> sock \<Rightarrow> (bool \<times> sock) option" where
  "Socket_connect pton4 pton6 err0 fd conn gsn url s =
     (if sk_fd s \<ge> 0 \<or> url = [] then None
      else do {
        (e, a) \<leftarrow> Addr_parse pton4 pton6 err0 url (sk_peer s);
        let s1 = s\<lparr>sk_peer := a\<rparr>;
        if e \<noteq> None then Some (False, s1)
        else do {
          s2 \<leftarrow> Socket_init fd s1;
          if conn \<noteq> E_none \<and> conn \<noteq> EINPROGRESS then Some (False, s2)
          else case gsn of
              None \<Rightarrow> Some (False, s2)
            | Some l \<Rightarrow> Some (True, s2\<lparr>sk_local := l\<rparr>)
        }
      })"

definition Socket_Reconnect :: "(string \<Rightarrow> bytes option) \<Rightarrow> (string \<Rightarrow> bytes option) \<Rightarrow>
    (bytes \<Rightarrow> string) \<Rightarrow> (bytes \<Rightarrow> string) \<Rightarrow> errno \<Rightarrow>
    int \<Rightarrow> errno \<Rightarrow> addr option \<Rightarrow> sock \<Rightarrow> (bool \<times> sock) option" where
  "Socket_Reconnect pton4 pton6 ntop4 ntop6 err0 fd conn gsn s =
     Socket_connect pton4 pton6 err0 fd conn gsn (Addr_Url ntop4 ntop6 (sk_peer s)) (Socket_close s)"

definition Socket_bind :: "(string \<Rightarrow> bytes option) \<Rightarrow> (string \<Rightarrow> bytes option) \<Rightarrow> errno \<Rightarrow>
    int \<Rightarrow> bool \<Rightarrow> string \<Rightarrow> sock \<Rightarrow> (bool \<times> sock) option" where
  "Socket_bind pton4 pton6 err0 fd bound url s =
     (if sk_fd s \<ge> 0 then None
      else do {
        (e, a) \<leftarrow> Addr_parse pton4 pton6 err0 url (sk_local s);
        let s1 = s\<lparr>sk_local := a\<rparr>;
        if e \<noteq> None then Some (False, s1)
        else do { s2 \<leftarrow> Socket_init fd s1; Some (bound, s2) }
      })"

text \<open>
  \<open>accept_fd(peer, local)\<close> fills its arguments with the address of the client and the address of
  the listening socket; \<open>accept\<close> passes it the fields of the listening socket itself.
\<close>

definition accept_fd :: "int \<Rightarrow> addr \<Rightarrow> addr \<Rightarrow> int \<Rightarrow> addr \<times> addr \<Rightarrow> (int \<times> addr \<times> addr) option" where
  "accept_fd newfd client own fd args =
     (if fd < 0 then None
      else if newfd < 0 then Some (- 1, args)
      else Some (newfd, client, own))"

definition Socket_accept :: "int \<Rightarrow> addr \<Rightarrow> addr \<Rightarrow> sock \<Rightarrow> (sock option \<times> sock) option" where
  "Socket_accept newfd client own s = do {
     (fd, local', peer') \<leftarrow> accept_fd newfd client own (sk_fd s) (sk_local s, sk_peer s);
     let s' = s\<lparr>sk_local := local', sk_peer := peer'\<rparr>;
     Some (if fd < 0 then None
           else Some \<lparr>sk_fd = fd, sk_peer = Addr_reset, sk_local = Addr_reset\<rparr>, s')
   }"

definition Socket_Debug :: "(bytes \<Rightarrow> string) \<Rightarrow> (bytes \<Rightarrow> string) \<Rightarrow> sock \<Rightarrow> string" where
  "Socket_Debug ntop4 ntop6 s =
     ''Socket{fd:'' @ show_int (sk_fd s) @ '',local:'' @ Addr_family_name (sk_local s) @ ''/''
       @ Addr_Url ntop4 ntop6 (sk_local s) @ '',remote:'' @ Addr_family_name (sk_peer s) @ ''/''
       @ Addr_Url ntop4 ntop6 (sk_peer s) @ ''}''"


section \<open>Properties\<close>

text \<open>With enough room for the bytes, a kernel that only interrupts ends the loop.\<close>

lemma send_iov_loop_returns:
  assumes "sent + length (concat iov) = tot"
    and "length (concat iov) \<le> length (filter (\<lambda>ev. ev \<noteq> Wr_intr) evs)"
    and "\<forall>ev \<in> set evs. ev = Wr_intr \<or> (\<exists>k > 0. ev = Wr_n k)"
  shows "\<exists>evs'. send_iov_loop tot sent iov evs out = Some (None, out @ concat iov, evs')"
  using assms
proof (induction evs arbitrary: sent iov out)
  case Nil
  then have "concat iov = []" "\<not> sent < tot" by auto
  then show ?case by (auto simp: send_iov_loop_simps)
next
  case (Cons ev evs)
  show ?case
  proof (cases "sent < tot")
    case False
    with Cons.prems(1) have "concat iov = []" by (metis add_diff_cancel_left' length_0_conv
        less_imp_add_positive linorder_neqE_nat not_add_less1 diff_self_eq_0)
    with False show ?thesis by (simp add: send_iov_loop_simps)
  next
    case less: True
    show ?thesis
    proof (cases "ev = Wr_intr")
      case True
      with less Cons show ?thesis by (simp add: send_iov_loop_simps)
    next
      case False
      with Cons.prems(3) obtain k where k: "k > 0" "ev = Wr_n k" by auto
      define m where "m = min k (length (concat iov))"
      have m: "m \<le> length (concat iov)" "0 < m" using k less Cons.prems(1) by (auto simp: m_def)
      then obtain iov' where i: "iov_advance m iov = Some iov'" "concat iov' = drop m (concat iov)"
        using iov_advance_concat by blast
      have "send_iov_loop tot sent iov (ev # evs) out =
          send_iov_loop tot (sent + m) iov' evs (out @ take m (concat iov))"
        using less k(2) m(2) i(1)
        by (subst send_iov_loop.simps) (simp add: Let_def flip: m_def)
      moreover have "\<exists>evs'. send_iov_loop tot (sent + m) iov' evs (out @ take m (concat iov)) =
          Some (None, (out @ take m (concat iov)) @ concat iov', evs')"
        using Cons.prems m i(2) k by (intro Cons.IH) auto
      ultimately show ?thesis using i(2) by simp
    qed
  qed
qed

lemma send_iov_returns:
  assumes "length (concat iov) \<le> length (filter (\<lambda>ev. ev \<noteq> Wr_intr) evs)"
    and "\<forall>ev \<in> set evs. ev = Wr_intr \<or> (\<exists>k > 0. ev = Wr_n k)"
  shows "\<exists>evs'. send_iov iov evs out = Some (None, out @ concat iov, evs')"
  unfolding send_iov_def
  by (rule send_iov_loop_returns [OF _ assms]) (simp add: length_concat)

text \<open>C10. \<open>read_exactly\<close> takes bytes from the front of the stream only, in order and without
  loss: it answers \<open>true\<close> exactly when it stored the requested number, \<open>EAGAIN\<close> only when it took
  nothing, and it does return as soon as the peer has sent enough, however the kernel splits it.\<close>

theorem channel_read_exactly:
  shows "(chan_read_exactly len c = Some ((e, buf), c') \<longrightarrow>
      (\<exists>k \<le> len. buf = take k (ch_in c) \<and> ch_in c' = drop k (ch_in c) \<and> k \<le> length (ch_in c)
        \<and> ch_out c' = ch_out c \<and> (e = None \<longleftrightarrow> k = len) \<and> (e = Some EAGAIN \<longrightarrow> k = 0)))
    \<and> (len \<le> length (ch_in c) \<and> len \<le> length (filter (\<lambda>ev. ev \<noteq> Rd_intr) (ch_rd c))
        \<and> (\<forall>ev \<in> set (ch_rd c). ev = Rd_intr \<or> (\<exists>k. ev = Rd_data k)) \<longrightarrow>
      (\<exists>d. chan_read_exactly len c = Some ((None, take len (ch_in c)), d)))"
proof (intro conjI impI)
  assume "chan_read_exactly len c = Some ((e, buf), c')"
  then obtain inp evs where "read_loop len len [] (ch_rd c) (ch_in c) = Some ((e, buf), inp, evs)"
    and c': "c' = c\<lparr>ch_in := inp, ch_rd := evs\<rparr>"
    by (auto simp: chan_read_exactly_def read_exactly_def split: option.splits)
  from read_loop_spec [OF this(1) order.refl] c'
  show "\<exists>k \<le> len. buf = take k (ch_in c) \<and> ch_in c' = drop k (ch_in c) \<and> k \<le> length (ch_in c)
        \<and> ch_out c' = ch_out c \<and> (e = None \<longleftrightarrow> k = len) \<and> (e = Some EAGAIN \<longrightarrow> k = 0)"
    by auto
next
  assume "len \<le> length (ch_in c) \<and> len \<le> length (filter (\<lambda>ev. ev \<noteq> Rd_intr) (ch_rd c))
    \<and> (\<forall>ev \<in> set (ch_rd c). ev = Rd_intr \<or> (\<exists>k. ev = Rd_data k))"
  then obtain evs' where "read_loop len len [] (ch_rd c) (ch_in c) =
      Some ((None, [] @ take len (ch_in c)), drop len (ch_in c), evs')"
    using read_loop_returns [of len "ch_in c" "ch_rd c" len "[]"]
    unfolding deliveries_def delivering_def by blast
  then show "\<exists>d. chan_read_exactly len c = Some ((None, take len (ch_in c)), d)"
    by (simp add: chan_read_exactly_def read_exactly_def)
qed

theorem channel_read_exactly_witness:
  "\<exists>d. chan_read_exactly 3 \<lparr>ch_in = [1, 2, 3, 4], ch_out = [], ch_rd = [Rd_data 2, Rd_intr, Rd_data 5,
      Rd_data 1], ch_wr = []\<rparr> = Some ((None, [1, 2, 3]), d) \<and> ch_out d = []"
proof -
  let ?c = "\<lparr>ch_in = [1, 2, 3, 4], ch_out = [], ch_rd = [Rd_data 2, Rd_intr, Rd_data 5,
      Rd_data 1], ch_wr = []\<rparr>"
  from channel_read_exactly [of 3 ?c None "[]" ?c] obtain d where
    d: "chan_read_exactly 3 ?c = Some ((None, take 3 [1, 2, 3, 4]), d)" by auto
  with channel_read_exactly [of 3 ?c None "[1, 2, 3]" d] show ?thesis by auto
qed

text \<open>C11. Sending vectors of slices, one call after the other, puts a prefix of the concatenated
  bytes on the wire and stops at the first call that answers \<open>false\<close>; all the bytes are there
  exactly when every call answered \<open>true\<close>, whatever partial writes the kernel makes, and the
  assertion of the advance over the slices never fails: with room for the bytes each call ends.\<close>

theorem channel_send_iov:
  shows "(send_seq chan_send_iov iovs c = Some (e, c') \<longrightarrow>
      (\<exists>k \<le> length (concat (map concat iovs)).
        ch_out c' = ch_out c @ take k (concat (map concat iovs)) \<and> ch_in c' = ch_in c
        \<and> (e = None \<longleftrightarrow> k = length (concat (map concat iovs)))))
    \<and> (length (concat iov) \<le> length (filter (\<lambda>ev. ev \<noteq> Wr_intr) (ch_wr c))
        \<and> (\<forall>ev \<in> set (ch_wr c). ev = Wr_intr \<or> (\<exists>k > 0. ev = Wr_n k)) \<longrightarrow>
      (\<exists>d. chan_send_iov iov c = Some (None, d) \<and> ch_out d = ch_out c @ concat iov))"
proof (intro conjI impI)
  assume "send_seq chan_send_iov iovs c = Some (e, c')"
  from ch_iov.send_seq_prefix [OF this] ch_iov.send_seq_unread [OF this]
  show "\<exists>k \<le> length (concat (map concat iovs)).
        ch_out c' = ch_out c @ take k (concat (map concat iovs)) \<and> ch_in c' = ch_in c
        \<and> (e = None \<longleftrightarrow> k = length (concat (map concat iovs)))" by blast
next
  assume "length (concat iov) \<le> length (filter (\<lambda>ev. ev \<noteq> Wr_intr) (ch_wr c))
    \<and> (\<forall>ev \<in> set (ch_wr c). ev = Wr_intr \<or> (\<exists>k > 0. ev = Wr_n k))"
  then obtain evs' where "send_iov iov (ch_wr c) (ch_out c) = Some (None, ch_out c @ concat iov, evs')"
    using send_iov_returns by blast
  then show "\<exists>d. chan_send_iov iov c = Some (None, d) \<and> ch_out d = ch_out c @ concat iov"
    by (simp add: chan_send_iov_def)
qed

theorem channel_send_iov_witness:
  "\<exists>d. chan_send_iov [[1], [], [2, 3]] \<lparr>ch_in = [], ch_out = [9], ch_rd = [],
      ch_wr = [Wr_n 2, Wr_intr, Wr_n 1, Wr_n 7]\<rparr> = Some (None, d) \<and> ch_out d = [9, 1, 2, 3]"
  using channel_send_iov [of "[]" "\<lparr>ch_in = [], ch_out = [9], ch_rd = [],
      ch_wr = [Wr_n 2, Wr_intr, Wr_n 1, Wr_n 7]\<rparr>" None _ "[[1], [], [2, 3]]"]
  by auto

text \<open>C28. An address printed by \<open>Url()\<close> is parsed back to the same family, host and port, for both families
  and all ports, with one exception: port 0 is refused when \<open>errno\<close> is still \<open>EINVAL\<close> from
  an earlier call, which \<open>_port_parse\<close> takes for a failed conversion.  The hypotheses are those of the pair
  \<open>inet_ntop\<close> and \<open>inet_pton\<close>: the text is read back, has no NUL, and does not start with a bracket.\<close>

theorem addr_url_parse:
  assumes "a_family a = AF_INET \<and> pton4 (ntop4 (a_ip a)) = Some (a_ip a) \<and> ntop4 (a_ip a) \<noteq> []
        \<and> CHR 0x00 \<notin> set (ntop4 (a_ip a)) \<and> hd (ntop4 (a_ip a)) \<noteq> CHR ''[''
      \<or> a_family a = AF_INET6 \<and> pton6 (ntop6 (a_ip a)) = Some (a_ip a)
        \<and> CHR 0x00 \<notin> set (ntop6 (a_ip a))"
  shows "Addr_parse pton4 pton6 err0 (Addr_Url ntop4 ntop6 a) Addr_reset =
    Some (if a_port a = 0 \<and> err0 = EINVAL then (Some EINVAL, Addr_reset)
      else (None, a\<lparr>a_len := if a_family a = AF_INET then 16 else 28\<rparr>))"
proof -
  have p: "port_parse err0 (show_dec (unat (htons (a_port a)))) =
      (if a_port a = 0 \<and> err0 = EINVAL then Inl EINVAL else Inr (htons (a_port a)))"
    using port_parse_show_dec_all [of err0 "htons (a_port a)"] by simp
  have r: "rfind CHR '':'' (h @ CHR '':'' # show_dec n) = Some (length h)" for h n
    by (rule rfind_append) simp
  from assms show ?thesis
  proof (elim disjE conjE)
    assume "a_family a = AF_INET" "pton4 (ntop4 (a_ip a)) = Some (a_ip a)" "ntop4 (a_ip a) \<noteq> []"
      "CHR 0x00 \<notin> set (ntop4 (a_ip a))" "hd (ntop4 (a_ip a)) \<noteq> CHR ''[''"
    with p r show ?thesis
      by (simp add: Addr_Url_def Addr_parse_def Let_def AF_INET_def AF_INET6_def c_str_no_nul Addr_reset_def)
  next
    assume "a_family a = AF_INET6" "pton6 (ntop6 (a_ip a)) = Some (a_ip a)"
      "CHR 0x00 \<notin> set (ntop6 (a_ip a))"
    with p r [of "CHR ''['' # ntop6 (a_ip a) @ '']''"] show ?thesis
      by (simp add: Addr_Url_def Addr_parse_def Let_def AF_INET_def AF_INET6_def c_str_no_nul butlast_append Addr_reset_def)
  qed
qed

theorem addr_url_parse_witness:
  "let pton = (\<lambda>s. if s = ''127.0.0.1'' then Some [127, 0, 0, 1] else None); ntop = (\<lambda>b. ''127.0.0.1'');
       url = (\<lambda>p. Addr_Url ntop (\<lambda>b. []) \<lparr>a_family = AF_INET, a_port = p, a_ip = [127, 0, 0, 1], a_len = 16\<rparr>)
   in Addr_parse pton (\<lambda>s. None) EINVAL (url 80) Addr_reset =
        Some (None, \<lparr>a_family = AF_INET, a_port = 80, a_ip = [127, 0, 0, 1], a_len = 16\<rparr>)
      \<and> Addr_parse pton (\<lambda>s. None) EINVAL (url 0) Addr_reset = Some (Some EINVAL, Addr_reset)
      \<and> Addr_parse pton (\<lambda>s. None) E_none (url 0) Addr_reset =
        Some (None, \<lparr>a_family = AF_INET, a_port = 0, a_ip = [127, 0, 0, 1], a_len = 16\<rparr>)"
  using addr_url_parse [of "\<lparr>a_family = AF_INET, a_port = 80, a_ip = [127, 0, 0, 1], a_len = 16\<rparr>"
      "\<lambda>s. if s = ''127.0.0.1'' then Some [127, 0, 0, 1] else None" "\<lambda>b. ''127.0.0.1''"]
    addr_url_parse [of "\<lparr>a_family = AF_INET, a_port = 0, a_ip = [127, 0, 0, 1], a_len = 16\<rparr>"
      "\<lambda>s. if s = ''127.0.0.1'' then Some [127, 0, 0, 1] else None" "\<lambda>b. ''127.0.0.1''"]
  by (simp add: Let_def)

text \<open>\<open>port()\<close> answers the port in network order, not the one the address was parsed
  from: the two agree only where both bytes of the port are the same.\<close>

theorem addr_port_swapped:
  assumes "Addr_parse pton4 pton6 err0 (h @ '':'' @ show_dec (unat p)) a = Some (None, b)" and "p \<noteq> 0"
  shows "Addr_port b = unat (htons p) \<and> (Addr_port b = unat p \<longleftrightarrow> htons p = p)"
proof -
  have "port_parse err0 (show_dec (unat p)) = Inr p"
    using assms(2) by (intro port_parse_show_dec) (simp add: word_neq_0_conv)
  with assms(1) rfind_append [of "CHR '':''" "show_dec (unat p)" h] have "a_port b = htons p"
    and "a_family b = AF_INET \<or> a_family b = AF_INET6"
    by (auto simp: Addr_parse_def Let_def split: option.splits if_splits)
  then show ?thesis
    by (auto simp: Addr_port_def Addr_family_def AF_INET_def AF_INET6_def simp flip: word_unat_eq_iff)
qed

theorem addr_port_swapped_witness:
  "Addr_port \<lparr>a_family = AF_INET, a_port = htons 80, a_ip = [1], a_len = 16\<rparr> = unat (htons 80)
    \<and> unat (htons 80) = 20480"
proof -
  have "Addr_parse (\<lambda>s. Some [1]) (\<lambda>s. None) EINVAL (''h'' @ '':'' @ show_dec (unat (80 :: 16 word))) Addr_reset =
    Some (None, \<lparr>a_family = AF_INET, a_port = htons 80, a_ip = [1], a_len = 16\<rparr>)"
    using port_parse_show_dec [of 80 EINVAL] rfind_append [of "CHR '':''" "show_dec (unat (80 :: 16 word))" "''h''"]
    by (simp add: Addr_parse_def Let_def Addr_reset_def)
  from addr_port_swapped [OF this] show ?thesis by (simp add: htons_def)
qed

text \<open>\<open>accept\<close> gives the new socket no address at all and overwrites the addresses of the
  listening socket: its local address becomes the client's; and a \<open>connect\<close> that the kernel
  refuses leaves the descriptor open, so that the socket passes for a connected one.\<close>

theorem accept_and_connect_addresses:
  assumes "sk_fd s \<ge> 0" and "0 \<le> fd"
    and "sk_fd t < 0" and "Addr_parse pton4 pton6 err0 url (sk_peer t) = Some (None, b)"
    and "conn \<noteq> E_none" and "conn \<noteq> EINPROGRESS"
  shows "Socket_accept fd client own s =
      Some (Some \<lparr>sk_fd = fd, sk_peer = Addr_reset, sk_local = Addr_reset\<rparr>,
        s\<lparr>sk_local := client, sk_peer := own\<rparr>)
    \<and> (\<exists>t'. Socket_connect pton4 pton6 err0 fd conn gsn url t = Some (False, t') \<and> sk_fd t' = fd
      \<and> Socket_connect pton4 pton6 err0 fd' conn' gsn' url' t' = None)"
proof -
  have "url \<noteq> []" using assms(4) by (auto simp: Addr_parse_def)
  with assms show ?thesis
    by (simp add: Socket_accept_def accept_fd_def Socket_connect_def Socket_init_def)
qed

theorem accept_and_connect_addresses_witness:
  "\<exists>t'. Socket_connect (\<lambda>s. Some [1]) (\<lambda>s. None) EINVAL 4 ECONNREFUSED None
      (''h'' @ '':'' @ show_dec (unat (80 :: 16 word))) Socket = Some (False, t') \<and> sk_fd t' = 4"
proof -
  have "Addr_parse (\<lambda>s. Some [1]) (\<lambda>s. None) EINVAL (''h'' @ '':'' @ show_dec (unat (80 :: 16 word)))
      (sk_peer Socket) = Some (None, \<lparr>a_family = AF_INET, a_port = htons 80, a_ip = [1], a_len = 16\<rparr>)"
    using port_parse_show_dec [of 80 EINVAL] rfind_append [of "CHR '':''" "show_dec (unat (80 :: 16 word))" "''h''"]
    by (simp add: Addr_parse_def Let_def Addr_reset_def Socket_def)
  from accept_and_connect_addresses [where s = "Socket\<lparr>sk_fd := 3\<rparr>", OF _ _ _ this, of 4 ECONNREFUSED Addr_reset Addr_reset None 0 E_none None "[]"]
  show ?thesis by (auto simp: Socket_def)
qed

end
