(* ===== verification/Local_FS.thy ===== *)
theory Local_FS
  imports Net
begin

text \<open>
  The POSIX calls that the local blob store makes, on a model of a file system: names lead to
  directories or inodes, inodes hold bytes and extended attributes, a descriptor holds an inode and
  a position.  Any call can fail: \<open>w_faults\<close> lists, call by call, the errors the system injects
  (\<open>None\<close>: the call does what POSIX says); \<open>w_rd\<close> and \<open>w_wr\<close> list the answers to the reads and the
  writes.  When a list is used up, the calls succeed in full.  Paths have no NUL
  and no empty, \<open>.\<close> or \<open>..\<close> component; modes, owners and links are not modelled.
\<close>

datatype entry = Dir | Ino nat

record world =
  w_names :: "string \<Rightarrow> entry option"
  w_data :: "nat \<Rightarrow> bytes"
  w_attr :: "nat \<Rightarrow> string \<Rightarrow> bytes option"
  w_next :: nat
  w_faults :: "errno option list"
  w_rd :: "rd_ev list"
  w_wr :: "wr_ev list"

definition EISDIR :: errno where
  "EISDIR = E_other 21 ''Is a directory''"

definition EBADF :: errno where
  "EBADF = E_other 9 ''Bad file descriptor''"

definition next_fault :: "world \<Rightarrow> errno option \<times> world" where
  "next_fault w =
     (case w_faults w of
        [] \<Rightarrow> (None, w)
      | f # fs \<Rightarrow> (if f = Some E_none then None else f, w\<lparr>w_faults := fs\<rparr>))"

text \<open>The path of the directory that holds \<open>p\<close>: none for a name in the root or the current one.\<close>

definition parent_of :: "string \<Rightarrow> string option" where
  "parent_of p =
     (case rfind CHR ''/'' p of None \<Rightarrow> None | Some i \<Rightarrow> if i = 0 then None else Some (take i p))"

lemma parent_of_shorter: "parent_of p = Some q \<Longrightarrow> length q < length p"
  by (auto simp: parent_of_def split: option.splits if_splits dest!: rfind_SomeD)

text \<open>The error of the resolution of the directories on the way to \<open>p\<close>.\<close>

function walk :: "(string \<Rightarrow> entry option) \<Rightarrow> string \<Rightarrow> errno option" where
  "walk names p =
     (case parent_of p of
        None \<Rightarrow> None
      | Some q \<Rightarrow>
          (case walk names q of
             Some e \<Rightarrow> Some e
           | None \<Rightarrow>
               (case names q of None \<Rightarrow> Some ENOENT | Some Dir \<Rightarrow> None | Some (Ino _) \<Rightarrow> Some ENOTDIR)))"
  by pat_completeness auto
termination by (relation "measure (length \<circ> snd)") (auto dest: parent_of_shorter)

declare walk.simps [simp del]

definition sys_mkdir :: "string \<Rightarrow> world \<Rightarrow> errno option \<times> world" where
  "sys_mkdir p w0 =
     (let (f, w) = next_fault w0 in
      if f \<noteq> None then (f, w)
      else case walk (w_names w) p of
        Some e \<Rightarrow> (Some e, w)
      | None \<Rightarrow>
          if w_names w p \<noteq> None then (Some EEXIST, w)
          else (None, w\<lparr>w_names := (w_names w)(p \<mapsto> Dir)\<rparr>))"

text \<open>\<open>open\<close> with \<open>O_CREAT | O_EXCL\<close>.\<close>

definition sys_create :: "string \<Rightarrow> world \<Rightarrow> (errno + nat) \<times> world" where
  "sys_create p w0 =
     (let (f, w) = next_fault w0 in
      case f of
        Some e \<Rightarrow> (Inl e, w)
      | None \<Rightarrow>
          (case walk (w_names w) p of
             Some e \<Rightarrow> (Inl e, w)
           | None \<Rightarrow>
               if w_names w p \<noteq> None then (Inl EEXIST, w)
               else (Inr (w_next w),
                 w\<lparr>w_names := (w_names w)(p \<mapsto> Ino (w_next w)), w_data := (w_data w)(w_next w := []),
                   w_attr := (w_attr w)(w_next w := Map.empty), w_next := Suc (w_next w)\<rparr>)))"

text \<open>\<open>open\<close> for reading, and \<open>stat\<close>: what the path leads to.\<close>

definition sys_lookup :: "string \<Rightarrow> world \<Rightarrow> (errno + entry) \<times> world" where
  "sys_lookup p w0 =
     (let (f, w) = next_fault w0 in
      case f of
        Some e \<Rightarrow> (Inl e, w)
      | None \<Rightarrow>
          (case walk (w_names w) p of
             Some e \<Rightarrow> (Inl e, w)
           | None \<Rightarrow> (case w_names w p of None \<Rightarrow> Inl ENOENT | Some n \<Rightarrow> Inr n, w)))"

definition sys_unlink :: "string \<Rightarrow> world \<Rightarrow> errno option \<times> world" where
  "sys_unlink p w0 =
     (case sys_lookup p w0 of
        (Inl e, w) \<Rightarrow> (Some e, w)
      | (Inr Dir, w) \<Rightarrow> (Some EISDIR, w)
      | (Inr (Ino i), w) \<Rightarrow> (None, w\<lparr>w_names := (w_names w)(p := None)\<rparr>))"

text \<open>\<open>rename\<close> of a regular file.\<close>

definition sys_rename :: "string \<Rightarrow> string \<Rightarrow> world \<Rightarrow> errno option \<times> world" where
  "sys_rename p q w0 =
     (case sys_lookup p w0 of
        (Inl e, w) \<Rightarrow> (Some e, w)
      | (Inr n, w) \<Rightarrow>
          (case walk (w_names w) q of
             Some e \<Rightarrow> (Some e, w)
           | None \<Rightarrow>
               if w_names w q = Some Dir then (Some EISDIR, w)
               else (None, w\<lparr>w_names := (w_names w)(p := None, q \<mapsto> n)\<rparr>)))"

definition sys_fsetxattr :: "nat \<Rightarrow> string \<Rightarrow> bytes \<Rightarrow> world \<Rightarrow> errno option \<times> world" where
  "sys_fsetxattr i k v w0 =
     (let (f, w) = next_fault w0 in
      if f \<noteq> None then (f, w)
      else (None, w\<lparr>w_attr := (w_attr w)(i := (w_attr w i)(k \<mapsto> v))\<rparr>))"

definition file_append :: "nat \<Rightarrow> bytes \<Rightarrow> world \<Rightarrow> world" where
  "file_append i b w = w\<lparr>w_data := (w_data w)(i := w_data w i @ b)\<rparr>"

text \<open>The regular files and their bytes.\<close>

definition file_map :: "(string \<Rightarrow> entry option) \<Rightarrow> (nat \<Rightarrow> bytes) \<Rightarrow> string \<Rightarrow> bytes option" where
  "file_map names data p = (case names p of Some (Ino i) \<Rightarrow> Some (data i) | _ \<Rightarrow> None)"

definition files :: "world \<Rightarrow> string \<Rightarrow> bytes option" where
  "files w = file_map (w_names w) (w_data w)"

text \<open>Every name leads to an inode that exists, and to its own.\<close>

definition names_ok :: "(string \<Rightarrow> entry option) \<Rightarrow> nat \<Rightarrow> bool" where
  "names_ok names k = (\<forall>p i. names p = Some (Ino i) \<longrightarrow> i < k \<and> (\<forall>q. names q = Some (Ino i) \<longrightarrow> q = p))"

definition fs_ok :: "world \<Rightarrow> bool" where
  "fs_ok w = names_ok (w_names w) (w_next w)"

section \<open>Laws\<close>

lemma file_map_del: "file_map (names(p := None)) data = (file_map names data)(p := None)"
  by (auto simp: file_map_def)

lemma file_map_dir: "file_map (names(p \<mapsto> Dir)) data = (file_map names data)(p := None)"
  by (auto simp: file_map_def)

lemma file_map_file: "file_map (names(p \<mapsto> Ino i)) data = (file_map names data)(p \<mapsto> data i)"
  by (auto simp: file_map_def)

lemma file_map_absent [simp]: "names p = None \<Longrightarrow> file_map names data p = None"
  by (simp add: file_map_def)

lemma file_map_present [simp]: "names p = Some (Ino i) \<Longrightarrow> file_map names data p = Some (data i)"
  by (simp add: file_map_def)

lemma file_map_data:
  "names_ok names k \<Longrightarrow> names p = Some (Ino i) \<Longrightarrow>
    file_map names (data(i := b)) = (file_map names data)(p \<mapsto> b)"
  by (rule ext) (auto simp: file_map_def names_ok_def split: option.split entry.split)

lemma file_map_fresh: "names_ok names k \<Longrightarrow> file_map names (data(k := b)) = file_map names data"
  by (rule ext) (auto simp: file_map_def names_ok_def split: option.split entry.split)

lemma names_ok_del: "names_ok names k \<Longrightarrow> names_ok (names(p := None)) k"
  by (auto simp: names_ok_def)

lemma names_ok_dir: "names_ok names k \<Longrightarrow> names_ok (names(p \<mapsto> Dir)) k"
  by (auto simp: names_ok_def)

lemma names_okD:
  "names_ok names k \<Longrightarrow> names p = Some (Ino i) \<Longrightarrow> i < k"
  "names_ok names k \<Longrightarrow> names p = Some (Ino i) \<Longrightarrow> names q = Some (Ino i) \<Longrightarrow> q = p"
  unfolding names_ok_def by blast+

lemma names_ok_new: "names_ok names k \<Longrightarrow> names_ok (names(p \<mapsto> Ino k)) (Suc k)"
  unfolding names_ok_def [of "names(p \<mapsto> Ino k)"]
  by (auto dest: names_okD split: if_splits intro: less_SucI)

lemma names_ok_move:
  "names_ok names k \<Longrightarrow> names p = Some (Ino i) \<Longrightarrow> names_ok (names(p := None, q \<mapsto> Ino i)) k"
  unfolding names_ok_def [of "names(p := None, q \<mapsto> Ino i)"]
  by (auto dest: names_okD split: if_splits)

text \<open>Everything but the faults.\<close>

definition same_fs :: "world \<Rightarrow> world \<Rightarrow> bool" where
  "same_fs w w' = (\<exists>fs. w' = w\<lparr>w_faults := fs\<rparr>)"

lemma same_fsD:
  "same_fs w w' \<Longrightarrow> w_names w' = w_names w \<and> w_data w' = w_data w \<and> w_attr w' = w_attr w
     \<and> w_next w' = w_next w \<and> w_rd w' = w_rd w \<and> w_wr w' = w_wr w"
  by (auto simp: same_fs_def)

lemma same_fs_laws [simp]:
  "same_fs w w' \<Longrightarrow> files w' = files w" "same_fs w w' \<Longrightarrow> fs_ok w' = fs_ok w"
  by (auto simp: same_fs_def files_def fs_ok_def)

lemma next_fault_same: "next_fault w = (f, w') \<Longrightarrow> same_fs w w'"
  unfolding same_fs_def next_fault_def
  by (cases w) (auto split: list.splits if_splits)

lemma walk_error: "walk names p = Some e \<Longrightarrow> e \<noteq> E_none"
proof (induction names p rule: walk.induct)
  case (1 names p)
  then show ?case
    by (subst (asm) (2) walk.simps) (auto split: option.splits entry.splits)
qed

lemma next_fault_error: "next_fault w = (f, w') \<Longrightarrow> f \<noteq> Some E_none"
  by (auto simp: next_fault_def split: list.splits if_splits)

lemma sys_lookup_error: "sys_lookup p w = (r, w') \<Longrightarrow> r \<noteq> Inl E_none"
  by (auto simp: sys_lookup_def Let_def dest: next_fault_error walk_error
      split: prod.splits option.splits)

lemma sys_unlink_error: "sys_unlink p w = (r, w') \<Longrightarrow> r \<noteq> Some E_none"
  by (auto simp: sys_unlink_def EISDIR_def dest: sys_lookup_error
      split: prod.splits sum.splits entry.splits)

lemma sys_rename_error: "sys_rename p q w = (r, w') \<Longrightarrow> r \<noteq> Some E_none"
  by (auto simp: sys_rename_def EISDIR_def dest: sys_lookup_error walk_error
      split: prod.splits sum.splits option.splits if_splits)

lemma next_fault_none [simp]: "w_faults w = [] \<Longrightarrow> next_fault w = (None, w)"
  by (simp add: next_fault_def)

lemma sys_lookup_cases:
  assumes "sys_lookup p w = (r, w')"
  shows "same_fs w w' \<and> (\<forall>n. r = Inr n \<longrightarrow> w_names w p = Some n)"
  using assms
  by (auto simp: sys_lookup_def Let_def dest!: next_fault_same dest: same_fsD
      split: prod.splits option.splits)

lemma sys_mkdir_cases:
  assumes "sys_mkdir p w = (r, w')"
  obtains (failed) e where "r = Some e" and "same_fs w w'"
  | (made) v where "r = None" and "same_fs w v" and "w_names w p = None"
      and "w' = v\<lparr>w_names := (w_names w)(p \<mapsto> Dir)\<rparr>"
proof -
  obtain f v where f: "next_fault w = (f, v)" by fastforce
  note s = next_fault_same [OF f] same_fsD [OF next_fault_same [OF f]]
  show ?thesis
  proof (cases "f = None \<and> walk (w_names w) p = None \<and> w_names w p = None")
    case True
    with assms f s show ?thesis by (intro made [of v]) (auto simp: sys_mkdir_def)
  next
    case False
    with assms f s have "r \<noteq> None \<and> w' = v"
      by (auto simp: sys_mkdir_def Let_def split: option.splits if_splits dest: sym)
    with s show ?thesis by (intro failed [of "the r"]) auto
  qed
qed

lemma sys_mkdir_laws:
  assumes "sys_mkdir p w = (r, w')"
  shows "files w' = files w" and "fs_ok w \<Longrightarrow> fs_ok w'"
  using assms by (cases rule: sys_mkdir_cases;
      auto simp: files_def fs_ok_def file_map_dir names_ok_dir fun_upd_idem_iff dest!: same_fsD)+

lemma sys_create_cases:
  assumes "sys_create p w = (r, w')"
  obtains (failed) e where "r = Inl e" and "same_fs w w'"
  | (made) v where "r = Inr (w_next w)" and "same_fs w v" and "w_names w p = None"
      and "walk (w_names w) p = None"
      and "w' = v\<lparr>w_names := (w_names w)(p \<mapsto> Ino (w_next w)), w_data := (w_data w)(w_next w := []),
           w_attr := (w_attr w)(w_next w := Map.empty), w_next := Suc (w_next w)\<rparr>"
proof -
  obtain f v where f: "next_fault w = (f, v)" by fastforce
  note s = next_fault_same [OF f] same_fsD [OF next_fault_same [OF f]]
  show ?thesis
  proof (cases "f = None \<and> walk (w_names w) p = None \<and> w_names w p = None")
    case True
    with assms f s show ?thesis by (intro made [of v]) (auto simp: sys_create_def)
  next
    case False
    with assms f s have "isl r \<and> w' = v"
      by (auto simp: sys_create_def Let_def split: option.splits if_splits)
    with s show ?thesis by (intro failed [of "projl r"]) auto
  qed
qed

lemma sys_create_laws:
  assumes "sys_create p w = (r, w')" and "fs_ok w"
  shows "fs_ok w'" and "(files w')(p := None) = (files w)(p := None)"
  using assms by (cases rule: sys_create_cases;
      auto simp: files_def fs_ok_def file_map_file file_map_fresh names_ok_new dest!: same_fsD)+

lemma sys_unlink_cases:
  assumes "sys_unlink p w = (r, w')"
  obtains (failed) e where "r = Some e" and "same_fs w w'"
  | (removed) v i where "r = None" and "same_fs w v" and "w_names w p = Some (Ino i)"
      and "w' = v\<lparr>w_names := (w_names w)(p := None)\<rparr>"
proof -
  obtain l v where l: "sys_lookup p w = (l, v)" by fastforce
  with sys_lookup_cases [OF this] have s: "same_fs w v" "w_names v = w_names w"
    "\<forall>n. l = Inr n \<longrightarrow> w_names w p = Some n" using same_fsD by auto
  show ?thesis
  proof (cases "\<exists>i. l = Inr (Ino i)")
    case True
    with assms l s show ?thesis by (auto simp: sys_unlink_def intro: removed [of v])
  next
    case False
    with assms l s have "r \<noteq> None \<and> w' = v"
      by (auto simp: sys_unlink_def split: sum.splits entry.splits)
    with s show ?thesis by (intro failed [of "the r"]) auto
  qed
qed

lemma sys_unlink_laws:
  assumes "sys_unlink p w = (r, w')"
  shows "fs_ok w \<Longrightarrow> fs_ok w'" and "(files w')(p := None) = (files w)(p := None)"
    and "r = None \<Longrightarrow> files w' = (files w)(p := None)"
    and "r \<noteq> None \<Longrightarrow> files w' = files w"
  using assms by (cases rule: sys_unlink_cases;
      auto simp: files_def fs_ok_def file_map_del names_ok_del dest!: same_fsD)+

lemma sys_rename_cases:
  assumes "sys_rename p q w = (r, w')"
  obtains (failed) e where "r = Some e" and "same_fs w w'"
  | (moved) v n where "r = None" and "same_fs w v" and "w_names w p = Some n"
      and "w' = v\<lparr>w_names := (w_names w)(p := None, q \<mapsto> n)\<rparr>"
proof -
  obtain l v where l: "sys_lookup p w = (l, v)" by fastforce
  with sys_lookup_cases [OF this] have s: "same_fs w v" "w_names v = w_names w"
    "\<forall>n. l = Inr n \<longrightarrow> w_names w p = Some n" using same_fsD by auto
  show ?thesis
  proof (cases "isl l \<or> walk (w_names w) q \<noteq> None \<or> w_names w q = Some Dir")
    case True
    with assms l s have "r \<noteq> None \<and> w' = v"
      by (auto simp: sys_rename_def split: sum.splits option.splits dest: sym)
    with s show ?thesis by (intro failed [of "the r"]) auto
  next
    case False
    then obtain n where "l = Inr n" by (cases l) auto
    with False assms l s show ?thesis
      by (intro moved [of v n]) (auto simp: sys_rename_def)
  qed
qed

lemma sys_rename_laws:
  assumes "sys_rename p q w = (r, w')" and "fs_ok w" and "w_names w p = Some (Ino i)" and "p \<noteq> q"
  shows "fs_ok w'" and "r = None \<Longrightarrow> files w' = (files w)(p := None, q \<mapsto> w_data w i)"
    and "r \<noteq> None \<Longrightarrow> files w' = files w"
  using assms by (cases rule: sys_rename_cases;
      auto simp: files_def fs_ok_def file_map_del file_map_file names_ok_move dest!: same_fsD)+

lemma sys_fsetxattr_same:
  assumes "sys_fsetxattr i k v w = (r, w')"
  shows "w_names w' = w_names w" and "w_data w' = w_data w" and "w_next w' = w_next w"
  using assms
  by (auto simp: sys_fsetxattr_def Let_def dest!: next_fault_same same_fsD
      split: prod.splits if_splits)

lemma file_append_laws [simp]:
  "w_names (file_append i b w) = w_names w" "w_next (file_append i b w) = w_next w"
  "w_data (file_append i b w) = (w_data w)(i := w_data w i @ b)"
  "fs_ok (file_append i b w) = fs_ok w"
  by (simp_all add: file_append_def fs_ok_def)

end
