(* ===== verification/Local_Blob.thy ===== *)
theory Local_Blob
  imports Local_FS Upload_Contract Download_Contract Ordered_Map
begin

text \<open>
  Blobs kept as files of a local file system (\<open>src/src/oio/blob/local/blob.hpp\<close>, \<open>blob.cpp\<close>):
  \<open>LocalUpload\<close>, which writes beside the final path and renames on \<open>Commit\<close>, \<open>LocalDownload\<close> and
  \<open>LocalRemoval\<close>.  The state of an operation is the object and the file system of \<open>Local_FS\<close>; the
  file descriptor of an upload is the inode it was opened on.
\<close>

section \<open>Upload\<close>

record local_upload =
  lu_path_final :: string
  lu_path_temp :: string
  lu_attributes :: "(string, string) omap"
  lu_fd :: "nat option"
  lu_fmode :: nat
  lu_dmode :: nat
  lu_step :: tstep

definition FLAGS_mode_create :: nat where
  "FLAGS_mode_create = 420"

definition FLAGS_mode_mkdir :: nat where
  "FLAGS_mode_mkdir = 493"

definition LocalUpload :: "string \<Rightarrow> local_upload" where
  "LocalUpload p = \<lparr>lu_path_final = p, lu_path_temp = p @ ''.pending'', lu_attributes = [],
     lu_fd = None, lu_fmode = FLAGS_mode_create, lu_dmode = FLAGS_mode_mkdir, lu_step = Init\<rparr>"

definition LocalUpload_Build :: "string \<Rightarrow> nat \<Rightarrow> nat \<Rightarrow> local_upload" where
  "LocalUpload_Build path fmode dmode = (LocalUpload path)\<lparr>lu_fmode := fmode, lu_dmode := dmode\<rparr>"

definition resetFD :: "local_upload \<Rightarrow> bool \<times> local_upload" where
  "resetFD u = (case lu_fd u of None \<Rightarrow> (False, u) | Some _ \<Rightarrow> (True, u\<lparr>lu_fd := None\<rparr>))"

definition unlinkTempAndReset :: "status \<Rightarrow> local_upload \<times> world \<Rightarrow> status \<times> local_upload \<times> world" where
  "unlinkTempAndReset rc = (\<lambda>(u, w).
     let (e, w') = sys_unlink (lu_path_temp u) w in (rc, snd (resetFD u), w'))"

text \<open>\<open>createParent\<close> answers 0 (\<open>None\<close>) or an errno.\<close>

function createParent :: "string \<Rightarrow> world \<Rightarrow> errno option \<times> world" where
  "createParent path w =
     (case rfind CHR ''/'' path of
        None \<Rightarrow> (None, w)
      | Some slash \<Rightarrow>
          if slash = 0 then (None, w)
          else (case sys_mkdir (take slash path) w of
                  (None, w') \<Rightarrow> (None, w')
                | (Some e, w') \<Rightarrow> if e \<noteq> ENOENT then (Some e, w') else createParent (take slash path) w'))"
  by pat_completeness auto
termination by (relation "measure (length \<circ> fst)") (auto dest: rfind_SomeD)

declare createParent.simps [simp del]

text \<open>The body of \<open>prepare_without_check_on_step\<close> from its label \<open>retry\<close> on.\<close>

function prepare_retry :: "bool \<Rightarrow> local_upload \<times> world \<Rightarrow> status \<times> local_upload \<times> world" where
  "prepare_retry retryable (u, w) =
     (case sys_create (lu_path_temp u) w of
        (Inl e, w1) \<Rightarrow>
          if e = ENOENT then
            if \<not> retryable then (status_of Forbidden, u, w1)
            else (case createParent (lu_path_temp u) w1 of
                    (Some _, w2) \<Rightarrow> (status_of Forbidden, u, w2)
                  | (None, w2) \<Rightarrow> prepare_retry False (u, w2))
          else if e = EEXIST then (status_of Already, u, w1)
          else if e = EPERM \<or> e = EACCES then (status_of Forbidden, u, w1)
          else (status_of InternalError, u, w1)
      | (Inr fd, w1) \<Rightarrow>
          (let u1 = u\<lparr>lu_fd := Some fd\<rparr> in
           case sys_lookup (lu_path_final u) w1 of
             (Inl e, w2) \<Rightarrow>
               if e = ENOENT then (status_of OK, u1, w2) else unlinkTempAndReset (Errno e) (u1, w2)
           | (Inr _, w2) \<Rightarrow> unlinkTempAndReset (status_of Already) (u1, w2)))"
  by pat_completeness auto
termination by (relation "measure (\<lambda>(r, _). if r then 1 else 0)") auto

declare prepare_retry.simps [simp del]

definition prepare_without_check_on_step :: "local_upload \<times> world \<Rightarrow> status \<times> local_upload \<times> world" where
  "prepare_without_check_on_step = (\<lambda>(u, w).
     if lu_fd u \<noteq> None then (status_of InternalError, u, w) else prepare_retry True (u, w))"

fun set_attributes :: "(string, string) omap \<Rightarrow> nat \<Rightarrow> world \<Rightarrow> world" where
  "set_attributes [] fd w = w"
| "set_attributes ((k, v) # kvs) fd w =
     set_attributes kvs fd (snd (sys_fsetxattr fd (''user.grid.'' @ k) (bytes_of v) w))"

definition commit_without_check_on_step :: "local_upload \<times> world \<Rightarrow> status \<times> local_upload \<times> world" where
  "commit_without_check_on_step = (\<lambda>(u, w).
     case lu_fd u of
       None \<Rightarrow> (status_of InternalError, u, w)
     | Some fd \<Rightarrow>
         (let w1 = set_attributes (lu_attributes u) fd w; (b, u1) = resetFD u in
          if \<not> b then (status_of InternalError, u1, w1)
          else (case sys_rename (lu_path_temp u) (lu_path_final u) w1 of
                  (None, w2) \<Rightarrow> (status_ok, u1, w2)
                | (Some e, w2) \<Rightarrow> unlinkTempAndReset (Errno e) (u1, w2))))"

definition abort_without_check_on_step :: "local_upload \<times> world \<Rightarrow> status \<times> local_upload \<times> world" where
  "abort_without_check_on_step = (\<lambda>(u, w).
     let (b, u1) = resetFD u in
     if \<not> b then (status_ok, u1, w) else unlinkTempAndReset status_ok (u1, w))"

definition LocalUpload_SetXattr :: "string \<Rightarrow> string \<Rightarrow> local_upload \<Rightarrow> local_upload" where
  "LocalUpload_SetXattr k v u = u\<lparr>lu_attributes := om_put k v (lu_attributes u)\<rparr>"

definition LocalUpload_Prepare :: "(local_upload \<times> world) tx_op" where
  "LocalUpload_Prepare = (\<lambda>(u, w).
     if lu_step u \<noteq> Init then Some (status_of InternalError, u, w)
     else let (rc, u', w') = prepare_without_check_on_step (u, w)
       in Some (rc, if Ok rc then u'\<lparr>lu_step := Prepared\<rparr> else u', w'))"

definition LocalUpload_Commit :: "(local_upload \<times> world) tx_op" where
  "LocalUpload_Commit = (\<lambda>(u, w).
     if lu_step u \<noteq> Prepared then Some (status_of InternalError, u, w)
     else Some (commit_without_check_on_step (u\<lparr>lu_step := Done\<rparr>, w)))"

definition LocalUpload_Abort :: "(local_upload \<times> world) tx_op" where
  "LocalUpload_Abort = (\<lambda>(u, w).
     if lu_step u \<noteq> Prepared then Some (status_of InternalError, u, w)
     else Some (abort_without_check_on_step (u\<lparr>lu_step := Done\<rparr>, w)))"

text \<open>What the loop of \<open>Write\<close> gets accepted, and the answers it leaves unused.\<close>

fun write_loop :: "bytes \<Rightarrow> wr_ev list \<Rightarrow> bytes \<Rightarrow> bytes \<times> wr_ev list" where
  "write_loop buf [] acc = (acc @ buf, [])"
| "write_loop buf (Wr_n k # evs) acc =
     (if k < length buf then write_loop (drop k buf) evs (acc @ take k buf) else (acc @ buf, evs))"
| "write_loop buf (Wr_intr # evs) acc = write_loop buf evs acc"
| "write_loop buf (Wr_again expired event error # evs) acc =
     (if event then write_loop buf evs acc else (acc, evs))"
| "write_loop buf (Wr_fail e # evs) acc = (acc, evs)"

definition LocalUpload_Write :: "bytes \<Rightarrow> local_upload \<times> world \<Rightarrow> (local_upload \<times> world) option" where
  "LocalUpload_Write buf = (\<lambda>(u, w).
     if lu_step u \<noteq> Prepared then None
     else case lu_fd u of
       None \<Rightarrow> None
     | Some fd \<Rightarrow>
         (let (done, evs) = write_loop buf (w_wr w) []
          in Some (u, (file_append fd done w)\<lparr>w_wr := evs\<rparr>)))"

section \<open>Removal\<close>

record local_removal =
  lr_path :: string
  lr_step :: tstep

definition LocalRemoval_Build :: "string \<Rightarrow> local_removal" where
  "LocalRemoval_Build path = \<lparr>lr_path = path, lr_step = Init\<rparr>"

definition LocalRemoval_Prepare :: "(local_removal \<times> world) tx_op" where
  "LocalRemoval_Prepare = (\<lambda>(r, w).
     if lr_step r \<noteq> Init then Some (status_of InternalError, r, w)
     else case sys_lookup (lr_path r) w of
       (Inr _, w') \<Rightarrow> Some (status_ok, r\<lparr>lr_step := Prepared\<rparr>, w')
     | (Inl e, w') \<Rightarrow> Some (Errno e, r, w'))"

definition LocalRemoval_Commit :: "(local_removal \<times> world) tx_op" where
  "LocalRemoval_Commit = (\<lambda>(r, w).
     if lr_step r \<noteq> Prepared then Some (status_of InternalError, r, w)
     else case sys_unlink (lr_path r) w of
       (None, w') \<Rightarrow> Some (status_ok, r\<lparr>lr_step := Done\<rparr>, w')
     | (Some e, w') \<Rightarrow> Some (Errno e, r\<lparr>lr_step := Done\<rparr>, w'))"

definition LocalRemoval_Abort :: "(local_removal \<times> world) tx_op" where
  "LocalRemoval_Abort = (\<lambda>(r, w).
     if lr_step r \<noteq> Prepared then Some (status_of InternalError, r, w)
     else Some (status_ok, r\<lparr>lr_step := Done\<rparr>, w))"

section \<open>Download\<close>

text \<open>The descriptor of a download: a directory, or an inode and a position.\<close>

datatype handle = H_dir | H_file nat nat

record local_download =
  ld_path :: string
  ld_buffer :: bytes
  ld_offset :: nat
  ld_size_expected :: nat
  ld_size_read :: nat
  ld_fd :: "handle option"
  ld_step :: tstep

definition LocalDownload_Build :: "string \<Rightarrow> local_download" where
  "LocalDownload_Build path = \<lparr>ld_path = path, ld_buffer = [], ld_offset = 0, ld_size_expected = 0,
     ld_size_read = 0, ld_fd = None, ld_step = Init\<rparr>"

definition closeAndErrno :: "errno \<Rightarrow> local_download \<Rightarrow> status \<times> local_download" where
  "closeAndErrno e d = (Errno e, d\<lparr>ld_fd := None\<rparr>)"

definition open_read :: "string \<Rightarrow> world \<Rightarrow> (errno + handle) \<times> world" where
  "open_read p w =
     (case sys_lookup p w of
        (Inl e, w') \<Rightarrow> (Inl e, w')
      | (Inr Dir, w') \<Rightarrow> (Inr H_dir, w')
      | (Inr (Ino i), w') \<Rightarrow> (Inr (H_file i 0), w'))"

text \<open>\<open>fstat\<close>: the size of what the descriptor is open on.\<close>

definition sys_fstat :: "handle option \<Rightarrow> world \<Rightarrow> (errno + nat) \<times> world" where
  "sys_fstat h w0 =
     (let (f, w) = next_fault w0 in
      case f of
        Some e \<Rightarrow> (Inl e, w)
      | None \<Rightarrow> (case h of None \<Rightarrow> Inl EBADF | Some H_dir \<Rightarrow> Inr 4096
                | Some (H_file i _) \<Rightarrow> Inr (length (w_data w i)), w))"

text \<open>
  \<open>lseek64\<close> answers the new offset, or \<open>-1\<close>: either way not 0 here, since the offset is not; the
  descriptor is closed and its status is dropped.
\<close>

definition seek_offset :: "local_download \<Rightarrow> local_download" where
  "seek_offset d = (if ld_offset d > 0 then snd (closeAndErrno E_none d) else d)"

definition LocalDownload_Prepare :: "local_download \<times> world \<Rightarrow> status \<times> local_download \<times> world" where
  "LocalDownload_Prepare = (\<lambda>(d, w).
     if ld_fd d \<noteq> None \<or> ld_step d \<noteq> Init then (status_of InternalError, d, w)
     else case open_read (ld_path d) w of
       (Inl e, w1) \<Rightarrow> (status_of (if e = ENOENT then NotFound else InternalError), d, w1)
     | (Inr h, w1) \<Rightarrow>
         (let d1 = seek_offset (d\<lparr>ld_fd := Some h\<rparr>) in
          if ld_size_expected d1 > 0 then
            (case sys_fstat (ld_fd d1) w1 of
               (Inl e, w2) \<Rightarrow> (let (st, d2) = closeAndErrno e d1 in (st, d2, w2))
             | (Inr size', w2) \<Rightarrow>
                 if size' < ld_size_expected d1 + ld_offset d1
                 then (let (st, d2) = closeAndErrno ENXIO d1 in (st, d2, w2))
                 else (status_of OK, d1\<lparr>ld_step := Prepared\<rparr>, w2))
          else (status_of OK, d1\<lparr>ld_step := Prepared\<rparr>, w1)))"

definition LocalDownload_IsEof :: "local_download \<Rightarrow> bool" where
  "LocalDownload_IsEof d = (ld_step d = Done)"

definition LocalDownload_SetRange :: "32 word \<Rightarrow> 32 word \<Rightarrow> local_download \<Rightarrow> status \<times> local_download" where
  "LocalDownload_SetRange offset size' d =
     (if ld_step d \<noteq> Prepared then (status_of Forbidden, d)
      else (status_ok, d\<lparr>ld_offset := unat offset, ld_size_expected := unat size'\<rparr>))"

text \<open>\<open>vector::resize\<close>.\<close>

definition resize :: "nat \<Rightarrow> bytes \<Rightarrow> bytes" where
  "resize n xs = take n xs @ replicate (n - length xs) 0"

text \<open>
  One \<open>read\<close> into the buffer, with its retries: the value \<open>loadBufferAndRetry\<close> returns (an unsigned
  32-bit integer), the object, the answers left.  \<open>rest\<close> is what the file holds past the position.
\<close>

fun loadBufferAndRetry :: "nat \<Rightarrow> bytes \<Rightarrow> rd_ev list \<Rightarrow> local_download \<Rightarrow>
    nat \<times> local_download \<times> rd_ev list" where
  "loadBufferAndRetry n rest evs d =
     (case evs of
        Rd_again expired event error # evs' \<Rightarrow>
          if event then (case n of 0 \<Rightarrow> (0, d, evs') | Suc m \<Rightarrow> loadBufferAndRetry m rest evs' d)
          else (0, d, evs')
      | Rd_intr # evs' \<Rightarrow> (0, d, evs')
      | Rd_fail e # evs' \<Rightarrow> (0, d, evs')
      | _ \<Rightarrow>
          (let evs' = tl evs;
               len = length (ld_buffer d);
               m = (case evs of [] \<Rightarrow> min len (length rest) | Rd_data k # _ \<Rightarrow> delivered k len rest | _ \<Rightarrow> 0);
               d1 = (case ld_fd d of
                       Some (H_file i pos) \<Rightarrow>
                         d\<lparr>ld_buffer := take m rest @ drop m (ld_buffer d), ld_fd := Some (H_file i (pos + m))\<rparr>
                     | _ \<Rightarrow> d)
           in if m = 0 then (0, d1\<lparr>ld_step := Done\<rparr>, evs')
              else (m mod 2 ^ 32, d1\<lparr>ld_size_read := ld_size_read d1 + m\<rparr>, evs')))"

declare loadBufferAndRetry.simps [simp del]

text \<open>The size the buffer is given before the read.\<close>

definition load_size :: "nat \<Rightarrow> local_download \<Rightarrow> nat" where
  "load_size batch d =
     (if ld_size_expected d > 0 \<and> ld_size_read d < ld_size_expected d
         \<and> ld_size_expected d - ld_size_read d < batch
      then ld_size_expected d - ld_size_read d else batch)"

text \<open>\<open>batch\<close> and \<open>attempts\<close> are the flags \<open>read_batch_size\<close> and \<open>read_eintr_attempts\<close>.\<close>

definition loadBuffer :: "nat \<Rightarrow> nat \<Rightarrow> local_download \<times> world \<Rightarrow>
    (bool \<times> local_download \<times> world) option" where
  "loadBuffer batch attempts = (\<lambda>(d, w).
     if ld_step d \<noteq> Prepared then None
     else case ld_fd d of
       None \<Rightarrow> None
     | Some H_dir \<Rightarrow> Some (False, d\<lparr>ld_buffer := resize (load_size batch d) (resize batch (ld_buffer d))\<rparr>, w)
     | Some (H_file i pos) \<Rightarrow>
         (let d1 = d\<lparr>ld_buffer := resize (load_size batch d) (resize batch (ld_buffer d))\<rparr>;
              (rc, d2, evs) = loadBufferAndRetry attempts (drop pos (w_data w i)) (w_rd w) d1;
              d3 = (if rc > 0 then d2\<lparr>ld_buffer := resize rc (ld_buffer d2)\<rparr> else d2)
          in Some (rc > 0, d3, w\<lparr>w_rd := evs\<rparr>)))"

definition LocalDownload_Read :: "nat \<Rightarrow> nat \<Rightarrow> bytes \<Rightarrow> local_download \<times> world \<Rightarrow>
    (int \<times> bytes \<times> local_download \<times> world) option" where
  "LocalDownload_Read batch attempts buf = (\<lambda>(d, w).
     if ld_step d \<noteq> Prepared then Some (0, buf, d, w)
     else do {
       (loaded, d1, w1) \<leftarrow> (if ld_buffer d = [] then loadBuffer batch attempts (d, w) else Some (True, d, w));
       if \<not> loaded then Some (0, buf, d1, w1)
       else Some (i32_of_nat (length (ld_buffer d1)), ld_buffer d1, d1\<lparr>ld_buffer := []\<rparr>, w1)
     })"


section \<open>Laws of the upload\<close>

text \<open>The pending file of an upload is not a blob; every other file is.\<close>

definition local_vis :: "local_upload \<times> world \<Rightarrow> string \<Rightarrow> bytes option" where
  "local_vis = (\<lambda>(u, w). (files w)(lu_path_temp u := None))"

definition local_staged :: "local_upload \<times> world \<Rightarrow> bytes" where
  "local_staged = (\<lambda>(u, w). case lu_fd u of None \<Rightarrow> [] | Some i \<Rightarrow> w_data w i)"

text \<open>A prepared upload holds the descriptor of its pending file.\<close>

definition local_good :: "local_upload \<times> world \<Rightarrow> bool" where
  "local_good = (\<lambda>(u, w). fs_ok w \<and> lu_path_temp u = lu_path_final u @ ''.pending''
     \<and> (lu_step u = Init \<longrightarrow> lu_fd u = None)
     \<and> (lu_step u = Prepared \<longrightarrow>
         (\<exists>i. lu_fd u = Some i \<and> w_names w (lu_path_temp u) = Some (Ino i))))"

lemma pending_name [simp]: "s @ ''.pending'' \<noteq> s" "s \<noteq> s @ ''.pending''"
  by simp_all

lemma resetFD_simps [simp]:
  "snd (resetFD u) = u\<lparr>lu_fd := None\<rparr>" "fst (resetFD u) = (lu_fd u \<noteq> None)"
  by (cases u; simp add: resetFD_def split: option.split)+

lemma unlinkTempAndReset_laws:
  assumes "unlinkTempAndReset rc (u, w) = (r, u', w')"
  shows "r = rc" and "u' = u\<lparr>lu_fd := None\<rparr>" and "fs_ok w \<Longrightarrow> fs_ok w'"
    and "(files w')(lu_path_temp u := None) = (files w)(lu_path_temp u := None)"
  using assms sys_unlink_laws
  by (auto simp: unlinkTempAndReset_def Let_def split: prod.splits)

lemma createParent_laws:
  "createParent p w = (r, w') \<Longrightarrow> files w' = files w \<and> (fs_ok w \<longrightarrow> fs_ok w')"
proof (induction p w rule: createParent.induct)
  case (1 p w)
  show ?case
  proof (cases "\<exists>slash. rfind CHR ''/'' p = Some slash \<and> slash \<noteq> 0")
    case False
    with "1.prems" show ?thesis by (auto simp: createParent.simps [of p] split: option.splits)
  next
    case True
    then obtain slash where s: "rfind CHR ''/'' p = Some slash" "slash \<noteq> 0" by blast
    obtain e v where m: "sys_mkdir (take slash p) w = (e, v)" by fastforce
    note l = sys_mkdir_laws [OF m]
    show ?thesis
    proof (cases "e = Some ENOENT")
      case True
      with "1.prems" s m have "createParent (take slash p) v = (r, w')"
        by (simp add: createParent.simps [of p])
      with "1.IH" [OF s m [symmetric, folded True] ] l True m s show ?thesis by auto
    next
      case False
      with "1.prems" s m l show ?thesis
        by (auto simp: createParent.simps [of p] split: option.splits)
    qed
  qed
qed

text \<open>What \<open>prepare_without_check_on_step\<close> does, on every path through it.\<close>

lemma prepare_retry_laws:
  assumes "prepare_retry b (u, w) = (r, u', w')" and "fs_ok w" and "lu_fd u = None"
  shows "fs_ok w' \<and> (files w')(lu_path_temp u := None) = (files w)(lu_path_temp u := None)
    \<and> (if Ok r then \<exists>i. u' = u\<lparr>lu_fd := Some i\<rparr> \<and> w_names w' (lu_path_temp u) = Some (Ino i) \<and> w_data w' i = []
       else u' = u)"
  using assms
proof (induction b "(u, w)" arbitrary: w rule: prepare_retry.induct)
  case (1 retryable w)
  obtain c w1 where c: "sys_create (lu_path_temp u) w = (c, w1)" by fastforce
  note cl = sys_create_laws [OF c "1.prems"(2)]
  show ?case
  proof (cases c)
    case (Inl e)
    show ?thesis
    proof (cases "e = ENOENT \<and> retryable")
      case True
      obtain q w2 where q: "createParent (lu_path_temp u) w1 = (q, w2)" by fastforce
      from createParent_laws [OF q] cl have k: "fs_ok w2"
        "(files w2)(lu_path_temp u := None) = (files w)(lu_path_temp u := None)" by auto
      show ?thesis
      proof (cases q)
        case None
        with "1.prems"(1) True Inl c q have "prepare_retry False (u, w2) = (r, u', w')"
          by (subst (asm) prepare_retry.simps) simp
        with "1.hyps" [OF c [symmetric] Inl] True q None k "1.prems"(3) show ?thesis by auto
      next
        case (Some y)
        with "1.prems"(1) True Inl c q have "r = status_of Forbidden" "u' = u" "w' = w2"
          by (subst (asm) prepare_retry.simps; simp)+
        with k show ?thesis by auto
      qed
    next
      case False
      with "1.prems" Inl c cl show ?thesis
        by (auto simp: prepare_retry.simps [of retryable] split: if_splits)
    qed
  next
    case (Inr i)
    let ?u = "u\<lparr>lu_fd := Some i\<rparr>"
    have new: "w_names w1 (lu_path_temp u) = Some (Ino i)" "w_data w1 i = []"
      using c Inr by (cases rule: sys_create_cases; simp)+
    obtain l w2 where l: "sys_lookup (lu_path_final u) w1 = (l, w2)" by fastforce
    from sys_lookup_cases [OF l] have s: "same_fs w1 w2" by simp
    show ?thesis
    proof (cases "l = Inl ENOENT")
      case True
      with "1.prems" Inr c l s cl new same_fsD [OF s] show ?thesis
        by (auto simp: prepare_retry.simps [of retryable])
    next
      case False
      define st where "st = (case l of Inl e \<Rightarrow> Errno e | Inr _ \<Rightarrow> status_of Already)"
      from False have st: "\<not> Ok st" "unlinkTempAndReset st (?u, w2) = (r, u', w')"
        using "1.prems"(1) Inr c l sys_lookup_error [OF l]
        by (cases l; auto simp: st_def prepare_retry.simps [of retryable] Let_def)+
      from unlinkTempAndReset_laws [OF st(2)] st(1) s cl "1.prems"(3) show ?thesis by auto
    qed
  qed
qed

lemma set_attributes_same [simp]:
  "w_names (set_attributes kvs fd w) = w_names w" "w_data (set_attributes kvs fd w) = w_data w"
  "w_next (set_attributes kvs fd w) = w_next w"
  by (induction kvs fd w rule: set_attributes.induct)
    (simp_all add: sys_fsetxattr_same [OF surjective_pairing])

lemma set_attributes_files [simp]:
  "files (set_attributes kvs fd w) = files w" "fs_ok (set_attributes kvs fd w) = fs_ok w"
  by (simp_all add: files_def fs_ok_def)

lemma commit_laws:
  assumes "commit_without_check_on_step (u, w) = (r, u', w')" and "fs_ok w"
    and "lu_path_temp u = lu_path_final u @ ''.pending''"
    and "lu_fd u = Some i" and "w_names w (lu_path_temp u) = Some (Ino i)"
  shows "fs_ok w' \<and> u' = u\<lparr>lu_fd := None\<rparr> \<and>
    local_vis (u', w') = (if Ok r then (local_vis (u, w))(lu_path_final u \<mapsto> w_data w i)
      else local_vis (u, w))"
proof -
  let ?w = "set_attributes (lu_attributes u) i w"
  obtain e v where e: "sys_rename (lu_path_temp u) (lu_path_final u) ?w = (e, v)" by fastforce
  have "lu_path_temp u \<noteq> lu_path_final u" using assms(3) by simp
  with sys_rename_laws [OF e _ _ this, of i] assms(2,5) have
    n: "fs_ok v" "e = None \<Longrightarrow> files v = (files w)(lu_path_temp u := None, lu_path_final u \<mapsto> w_data w i)"
       "e \<noteq> None \<Longrightarrow> files v = files w" by auto
  show ?thesis
  proof (cases e)
    case None
    with assms(1,3,4) e have "r = status_ok" "u' = u\<lparr>lu_fd := None\<rparr>" "w' = v"
      by (auto simp: commit_without_check_on_step_def resetFD_def)
    with n None assms(3) show ?thesis by (auto simp: local_vis_def fun_upd_twist)
  next
    case (Some x)
    with assms(1,4) e have
      "unlinkTempAndReset (Errno x) (u\<lparr>lu_fd := None\<rparr>, v) = (r, u', w')"
      by (auto simp: commit_without_check_on_step_def resetFD_def)
    from unlinkTempAndReset_laws [OF this] sys_rename_error [OF e] n Some show ?thesis
      by (auto simp: local_vis_def)
  qed
qed

lemma abort_laws:
  assumes "abort_without_check_on_step (u, w) = (r, u', w')" and "lu_fd u = Some i"
  shows "(fs_ok w \<longrightarrow> fs_ok w') \<and> u' = u\<lparr>lu_fd := None\<rparr> \<and> local_vis (u', w') = local_vis (u, w)"
proof -
  from assms have "unlinkTempAndReset status_ok (u\<lparr>lu_fd := None\<rparr>, w) = (r, u', w')"
    by (auto simp: abort_without_check_on_step_def resetFD_def)
  from unlinkTempAndReset_laws [OF this] show ?thesis by (auto simp: local_vis_def)
qed

lemma write_loop_prefix: "\<exists>k. fst (write_loop buf evs acc) = acc @ take k buf"
proof (induction buf evs acc rule: write_loop.induct)
  case (1 buf acc)
  then show ?case by (auto intro: exI [of _ "length buf"])
next
  case (2 buf k evs acc)
  show ?case
  proof (cases "k < length buf")
    case True
    with 2 obtain j where "fst (write_loop (drop k buf) evs (acc @ take k buf)) =
      (acc @ take k buf) @ take j (drop k buf)" by blast
    with True show ?thesis by (auto simp: take_then intro!: exI [of _ "j + k"])
  next
    case False
    then show ?thesis by (auto intro: exI [of _ "length buf"])
  qed
qed (auto intro: exI [of _ 0])

text \<open>The inner steps leave the step of the transaction alone.\<close>

lemma unlinkTempAndReset_step: "lu_step (fst (snd (unlinkTempAndReset rc (u, w)))) = lu_step u"
  by (simp add: unlinkTempAndReset_def split: prod.split)

lemma prepare_retry_step: "lu_step (fst (snd (prepare_retry b (u, w)))) = lu_step u"
proof (induction b "(u, w)" arbitrary: w rule: prepare_retry.induct)
  case (1 retryable w)
  then show ?case
    by (subst prepare_retry.simps)
      (simp add: unlinkTempAndReset_step Let_def split: prod.split sum.split option.split)
qed

lemma commit_step_done: "lu_step (fst (snd (commit_without_check_on_step (u, w)))) = lu_step u"
  by (simp add: commit_without_check_on_step_def unlinkTempAndReset_step resetFD_def
      split: prod.split option.split)

lemma abort_step_done: "lu_step (fst (snd (abort_without_check_on_step (u, w)))) = lu_step u"
  by (simp add: abort_without_check_on_step_def unlinkTempAndReset_step resetFD_def
      split: prod.split option.split)

lemma LocalUpload_Prepare_step:
  assumes "LocalUpload_Prepare (u, w) = Some (r, u', w')" and "lu_step u = Init"
  shows "lu_step u' = (if Ok r then Prepared else Init)"
proof (cases "lu_fd u")
  case None
  with assms prepare_retry_step [of True u w] show ?thesis
    by (auto simp: LocalUpload_Prepare_def prepare_without_check_on_step_def split: prod.splits)
next
  case (Some i)
  with assms show ?thesis
    by (auto simp: LocalUpload_Prepare_def prepare_without_check_on_step_def)
qed

interpretation local_ul: atomic_upload "lu_step \<circ> fst" LocalUpload_Prepare LocalUpload_Commit
  LocalUpload_Abort LocalUpload_Write "lu_path_final \<circ> fst" local_vis local_staged local_good
proof (standard, goal_cases)
  case (2 s r s')
  then show ?case using LocalUpload_Prepare_step by (cases s; cases s') auto
next
  case (4 s r s')
  then show ?case using commit_step_done [of "(fst s)\<lparr>lu_step := Done\<rparr>" "snd s"]
    by (auto simp: LocalUpload_Commit_def split: prod.splits)
next
  case (6 s r s')
  then show ?case using abort_step_done [of "(fst s)\<lparr>lu_step := Done\<rparr>" "snd s"]
    by (auto simp: LocalUpload_Abort_def split: prod.splits)
next
  case (7 s r s')
  obtain u w where s: "s = (u, w)" by fastforce
  obtain r1 u1 w1 where p: "prepare_retry True (u, w) = (r1, u1, w1)"
    by (metis prod_cases3)
  from 7 s have i: "lu_fd u = None" "lu_step u = Init" "fs_ok w" by (auto simp: local_good_def)
  with 7 s p have "r = r1" "s' = (if Ok r then u1\<lparr>lu_step := Prepared\<rparr> else u1, w1)"
    by (auto simp: LocalUpload_Prepare_def prepare_without_check_on_step_def)
  with prepare_retry_laws [OF p i(3,1)] 7 s i show ?case
    by (auto simp: local_good_def local_vis_def local_staged_def split: if_splits)
next
  case (8 s r s')
  obtain u w u' w' where s: "s = (u, w)" "s' = (u', w')" by (cases s; cases s') auto
  with 8 obtain i where i: "lu_fd u = Some i" "w_names w (lu_path_temp u) = Some (Ino i)" "fs_ok w"
    "lu_path_temp u = lu_path_final u @ ''.pending''" by (auto simp: local_good_def)
  from 8 s have "commit_without_check_on_step (u\<lparr>lu_step := Done\<rparr>, w) = (r, u', w')"
    by (auto simp: LocalUpload_Commit_def)
  from commit_laws [OF this] i s 8 show ?case
    by (auto simp: local_good_def local_staged_def local_vis_def)
next
  case (9 s r s')
  obtain u w u' w' where s: "s = (u, w)" "s' = (u', w')" by (cases s; cases s') auto
  with 9 obtain i where i: "lu_fd u = Some i" "fs_ok w"
    "lu_path_temp u = lu_path_final u @ ''.pending''" by (auto simp: local_good_def)
  from 9 s have "abort_without_check_on_step (u\<lparr>lu_step := Done\<rparr>, w) = (r, u', w')"
    by (auto simp: LocalUpload_Abort_def)
  from abort_laws [OF this] i s show ?case by (auto simp: local_good_def local_vis_def)
next
  case (10 s bs s')
  obtain u w where s: "s = (u, w)" by fastforce
  with 10 obtain i where i: "lu_fd u = Some i" "w_names w (lu_path_temp u) = Some (Ino i)" "fs_ok w"
    "lu_path_temp u = lu_path_final u @ ''.pending''" by (auto simp: local_good_def)
  obtain k where k: "fst (write_loop bs (w_wr w) []) = take k bs"
    using write_loop_prefix [of bs "w_wr w" "[]"] by auto
  obtain evs where e: "write_loop bs (w_wr w) [] = (take k bs, evs)" using k by (metis prod.collapse)
  from 10 s i e have s': "s' = (u, (file_append i (take k bs) w)\<lparr>w_wr := evs\<rparr>)"
    by (auto simp: LocalUpload_Write_def)
  have "files (file_append i (take k bs) w) = (files w)(lu_path_temp u \<mapsto> w_data w i @ take k bs)"
    using i file_map_data [of "w_names w" "w_next w" "lu_path_temp u" i] by (simp add: files_def fs_ok_def)
  with s s' i 10 show ?case
    by (auto simp: local_good_def local_vis_def local_staged_def files_def fs_ok_def)
qed (auto simp: LocalUpload_Prepare_def LocalUpload_Commit_def LocalUpload_Abort_def)

interpretation local_rm: transaction "lr_step \<circ> fst" LocalRemoval_Prepare LocalRemoval_Commit
  LocalRemoval_Abort
proof (standard, goal_cases)
  case (2 s r s')
  then show ?case using sys_lookup_error [of "lr_path (fst s)" "snd s"]
    by (auto simp: LocalRemoval_Prepare_def split: prod.splits sum.splits)
qed (auto simp: LocalRemoval_Prepare_def LocalRemoval_Commit_def LocalRemoval_Abort_def
    split: prod.splits sum.splits option.splits)


section \<open>Laws of the download\<close>

text \<open>Answers without an error: the kernel reads or writes as much as it likes.\<close>

definition quiet_rd :: "rd_ev list \<Rightarrow> bool" where
  "quiet_rd evs = (\<forall>ev \<in> set evs. \<exists>k. ev = Rd_data k)"

definition quiet_wr :: "wr_ev list \<Rightarrow> bool" where
  "quiet_wr evs = (\<forall>ev \<in> set evs. ev = Wr_intr \<or> (\<exists>k. ev = Wr_n k))"

definition local_dl_good :: "nat \<Rightarrow> local_download \<times> world \<Rightarrow> bool" where
  "local_dl_good batch = (\<lambda>(d, w). 0 < batch \<and> batch < 2 ^ 31 \<and> quiet_rd (w_rd w) \<and>
     (ld_step d = Done \<or>
      ld_step d = Prepared \<and> ld_buffer d = [] \<and> (\<exists>i pos. ld_fd d = Some (H_file i pos))))"

definition local_dl_rest :: "local_download \<times> world \<Rightarrow> bytes" where
  "local_dl_rest = (\<lambda>(d, w).
     if ld_step d = Prepared then
       (case ld_fd d of Some (H_file i pos) \<Rightarrow> drop pos (w_data w i) | _ \<Rightarrow> []) else [])"

lemma length_resize [simp]: "length (resize n xs) = n"
  by (simp add: resize_def)

lemma load_size_bounds: "0 < batch \<Longrightarrow> 0 < load_size batch d \<and> load_size batch d \<le> batch"
  by (auto simp: load_size_def)

text \<open>One read into a buffer of \<open>n\<close> bytes, when no error comes.\<close>

lemma loadBufferAndRetry_quiet:
  assumes "quiet_rd evs" and "length (ld_buffer d) = n" and "0 < n" and "n < 2 ^ 31"
    and "ld_fd d = Some (H_file i pos)"
  shows "\<exists>m evs'. m \<le> n \<and> m \<le> length rest \<and> (m = 0 \<longleftrightarrow> rest = []) \<and> quiet_rd evs' \<and>
    loadBufferAndRetry a rest evs d =
      (m, if m = 0 then d\<lparr>ld_fd := Some (H_file i pos), ld_step := Done\<rparr>
          else d\<lparr>ld_buffer := take m rest @ drop m (ld_buffer d), ld_fd := Some (H_file i (pos + m)),
            ld_size_read := ld_size_read d + m\<rparr>, evs')"
proof -
  define m where "m = (case evs of [] \<Rightarrow> min n (length rest) | ev # _ \<Rightarrow>
    (case ev of Rd_data k \<Rightarrow> delivered k n rest | _ \<Rightarrow> 0))"
  have ev: "evs = [] \<or> (\<exists>k es. evs = Rd_data k # es \<and> quiet_rd es)"
    using assms(1) by (cases evs) (auto simp: quiet_rd_def)
  then have m: "m \<le> n" "m \<le> length rest" "m = 0 \<longleftrightarrow> rest = []"
    using assms(3) by (auto simp: m_def delivered_def min_def max_def split: if_splits)
  with assms(4) have "m mod 2 ^ 32 = m" by simp
  with ev assms m show ?thesis
    by (intro exI [of _ m] exI [of _ "tl evs"])
      (elim disjE exE conjE; simp add: loadBufferAndRetry.simps m_def quiet_rd_def Let_def)
qed

lemma LocalDownload_Read_rest:
  assumes "local_dl_good batch (d, w)" and "\<not> LocalDownload_IsEof d"
  shows "\<exists>i buf d' w'. LocalDownload_Read batch attempts [] (d, w) = Some (i, buf, d', w')
    \<and> local_dl_good batch (d', w') \<and> local_dl_rest (d, w) = buf @ local_dl_rest (d', w')
    \<and> (buf = [] \<longrightarrow> LocalDownload_IsEof d')"
proof -
  from assms obtain i pos where d: "ld_step d = Prepared" "ld_buffer d = []" "ld_fd d = Some (H_file i pos)"
    "0 < batch" "batch < 2 ^ 31" "quiet_rd (w_rd w)"
    by (auto simp: local_dl_good_def LocalDownload_IsEof_def)
  let ?n = "load_size batch d" and ?rest = "drop pos (w_data w i)"
  let ?d = "d\<lparr>ld_buffer := resize ?n (resize batch [])\<rparr>"
  note n = load_size_bounds [OF d(4), of d]
  with d(5) have "?n < 2 ^ 31" by linarith
  from loadBufferAndRetry_quiet [OF d(6), of ?d ?n i pos ?rest attempts] n this d(3)
  obtain m evs where m: "m \<le> ?n" "m \<le> length ?rest" "m = 0 \<longleftrightarrow> ?rest = []" "quiet_rd evs"
    "loadBufferAndRetry attempts ?rest (w_rd w) ?d =
      (m, if m = 0 then ?d\<lparr>ld_fd := Some (H_file i pos), ld_step := Done\<rparr>
          else ?d\<lparr>ld_buffer := take m ?rest @ drop m (ld_buffer ?d), ld_fd := Some (H_file i (pos + m)),
            ld_size_read := ld_size_read ?d + m\<rparr>, evs)" by auto
  show ?thesis
  proof (cases "m = 0")
    case True
    with m d show ?thesis
      by (auto simp: LocalDownload_Read_def loadBuffer_def local_dl_good_def local_dl_rest_def
          LocalDownload_IsEof_def)
  next
    case False
    with m have "resize m (take m ?rest @ drop m (ld_buffer ?d)) = take m ?rest"
      by (simp add: resize_def)
    with False m d show ?thesis
      by (auto simp: LocalDownload_Read_def loadBuffer_def local_dl_good_def local_dl_rest_def
          LocalDownload_IsEof_def add.commute simp flip: drop_drop)
  qed
qed

interpretation local_dl: byte_source "LocalDownload_IsEof \<circ> fst" "LocalDownload_Read batch attempts []"
  local_dl_rest "local_dl_good batch" for batch attempts
proof
  fix s assume "local_dl_good batch s" "(LocalDownload_IsEof \<circ> fst) s"
  then show "local_dl_rest s = []"
    by (cases s) (auto simp: local_dl_rest_def LocalDownload_IsEof_def)
next
  fix s assume "local_dl_good batch s" "\<not> (LocalDownload_IsEof \<circ> fst) s"
  with LocalDownload_Read_rest [of batch "fst s" "snd s" attempts]
  show "\<exists>i buf s'. LocalDownload_Read batch attempts [] s = Some (i, buf, s') \<and> local_dl_good batch s'
    \<and> local_dl_rest s = buf @ local_dl_rest s' \<and> (buf = [] \<longrightarrow> (LocalDownload_IsEof \<circ> fst) s')"
    by fastforce
qed


section \<open>Properties\<close>

text \<open>With no error the loop of \<open>Write\<close> stores all its bytes.\<close>

lemma write_loop_quiet:
  "quiet_wr evs \<Longrightarrow> \<exists>evs'. write_loop buf evs acc = (acc @ buf, evs') \<and> quiet_wr evs'"
  by (induction buf evs acc rule: write_loop.induct) (auto simp: quiet_wr_def)

lemma local_writes:
  assumes "lu_step u = Prepared" and "lu_fd u = Some i" and "quiet_wr (w_wr w)"
  shows "\<exists>evs. up_run p c a LocalUpload_Write (map Up_write bss) (u, w) =
      Some ([], u, (file_append i (concat bss) w)\<lparr>w_wr := evs\<rparr>)"
  using assms(3)
proof (induction bss arbitrary: w)
  case Nil
  show ?case by (cases w) (auto simp: file_append_def)
next
  case (Cons bs bss)
  obtain evs where e: "write_loop bs (w_wr w) [] = (bs, evs)" "quiet_wr evs"
    using write_loop_quiet [OF Cons.prems, of bs "[]"] by auto
  let ?w = "(file_append i bs w)\<lparr>w_wr := evs\<rparr>"
  from Cons.IH [of ?w] e(2) obtain evs' where
    "up_run p c a LocalUpload_Write (map Up_write bss) (u, ?w) =
      Some ([], u, (file_append i (concat bss) ?w)\<lparr>w_wr := evs'\<rparr>)" by auto
  moreover have "LocalUpload_Write bs (u, w) = Some (u, ?w)"
    using assms e by (simp add: LocalUpload_Write_def)
  ultimately show ?case by (auto simp: file_append_def)
qed

lemma parent_of_pending [simp]: "p \<noteq> [] \<Longrightarrow> parent_of (p @ ''.pending'') = parent_of p"
proof -
  have "rfind CHR ''/'' (p @ ''.pending'') = rfind CHR ''/'' p"
    by (induction p) (auto split: option.splits)
  then show ?thesis by (auto simp: parent_of_def dest: rfind_SomeD split: option.split)
qed

lemma walk_cong_parent: "parent_of p = parent_of q \<Longrightarrow> walk names p = walk names q"
  by (simp add: walk.simps [of names p] walk.simps [of names q])

lemma walk_upd: "length p \<le> length r \<Longrightarrow> walk (names(r := x)) p = walk names p"
proof (induction names p rule: walk.induct)
  case (1 names p)
  show ?case
  proof (cases "parent_of p")
    case None
    then show ?thesis by (simp add: walk.simps [of _ p])
  next
    case (Some q)
    with parent_of_shorter [OF Some] "1.prems" have "length q < length r" by simp
    then have "q \<noteq> r" "length q \<le> length r" by auto
    with "1.IH" [OF Some] Some show ?thesis by (simp add: walk.simps [of _ p])
  qed
qed

text \<open>\<open>Prepare\<close> where the name is free and the directory there, or where another upload is pending.\<close>

lemma upload_prepare_ok:
  assumes "lu_step u = Init" and "lu_fd u = None" and "lu_path_final u = p" and "lu_path_temp u = p @ ''.pending''"
    and "w_faults w = []" and "p \<noteq> []" and "walk (w_names w) p = None" and "w_names w p = None"
    and "w_names w (p @ ''.pending'') = None"
  shows "LocalUpload_Prepare (u, w) =
    Some (status_of OK, u\<lparr>lu_fd := Some (w_next w), lu_step := Prepared\<rparr>,
      w\<lparr>w_names := (w_names w)(p @ ''.pending'' \<mapsto> Ino (w_next w)), w_data := (w_data w)(w_next w := []),
        w_attr := (w_attr w)(w_next w := Map.empty), w_next := Suc (w_next w)\<rparr>)"
proof -
  have "walk (w_names w) (p @ ''.pending'') = None"
    using assms(6,7) walk_cong_parent [of "p @ ''.pending''" p] by simp
  moreover have "walk ((w_names w)(p @ ''.pending'' \<mapsto> Ino (w_next w))) p = None"
    using assms(7) by (simp add: walk_upd)
  ultimately show ?thesis
    using assms
    by (simp add: LocalUpload_Prepare_def prepare_without_check_on_step_def prepare_retry.simps [of True]
        sys_create_def sys_lookup_def Let_def)
qed

lemma local_prepare_ok:
  assumes "w_faults w = []" and "p \<noteq> []" and "walk (w_names w) p = None" and "w_names w p = None"
    and "w_names w (p @ ''.pending'') = None"
  shows "LocalUpload_Prepare (LocalUpload_Build p fm dm, w) =
    Some (status_of OK, (LocalUpload_Build p fm dm)\<lparr>lu_fd := Some (w_next w), lu_step := Prepared\<rparr>,
      w\<lparr>w_names := (w_names w)(p @ ''.pending'' \<mapsto> Ino (w_next w)), w_data := (w_data w)(w_next w := []),
        w_attr := (w_attr w)(w_next w := Map.empty), w_next := Suc (w_next w)\<rparr>)"
  by (rule upload_prepare_ok) (use assms in \<open>simp_all add: LocalUpload_Build_def LocalUpload_def\<close>)

lemma upload_prepare_pending:
  assumes "lu_step u = Init" and "lu_fd u = None" and "lu_path_temp u = p @ ''.pending''"
    and "w_faults w = []" and "p \<noteq> []" and "walk (w_names w) p = None" and "w_names w (p @ ''.pending'') = Some n"
  shows "LocalUpload_Prepare (u, w) = Some (status_of Already, u, w)"
proof -
  have "walk (w_names w) (p @ ''.pending'') = None"
    using assms(5,6) walk_cong_parent [of "p @ ''.pending''" p] by simp
  with assms show ?thesis
    by (simp add: LocalUpload_Prepare_def prepare_without_check_on_step_def prepare_retry.simps [of True]
        sys_create_def Let_def)
qed

text \<open>The attributes a commit stores, when no call fails.\<close>

lemma set_attributes_quiet:
  assumes "w_faults w = []" and "distinct (map fst kvs)"
  shows "\<exists>a. set_attributes kvs fd w = w\<lparr>w_attr := a\<rparr>
    \<and> (\<forall>k. a fd (''user.grid.'' @ k) = (case map_of kvs k of None \<Rightarrow> w_attr w fd (''user.grid.'' @ k) | Some v \<Rightarrow> Some (bytes_of v)))"
  using assms
proof (induction kvs fd w rule: set_attributes.induct)
  case (1 fd w)
  then show ?case by (intro exI [of _ "w_attr w"]) simp
next
  case (2 k v kvs fd w)
  let ?w = "w\<lparr>w_attr := (w_attr w)(fd := (w_attr w fd)(''user.grid.'' @ k \<mapsto> bytes_of v))\<rparr>"
  have w: "snd (sys_fsetxattr fd (''user.grid.'' @ k) (bytes_of v) w) = ?w"
    using "2.prems"(1) by (simp add: sys_fsetxattr_def)
  have "w_faults ?w = []" "distinct (map fst kvs)" using "2.prems" by simp_all
  with "2.IH" [unfolded w] obtain a where a: "set_attributes kvs fd ?w = ?w\<lparr>w_attr := a\<rparr>"
    "\<forall>x. a fd (''user.grid.'' @ x) = (case map_of kvs x of None \<Rightarrow> w_attr ?w fd (''user.grid.'' @ x) | Some v \<Rightarrow> Some (bytes_of v))"
    by blast
  from "2.prems"(2) have "map_of kvs k = None" by (simp add: map_of_eq_None_iff)
  with a w show ?case by (intro exI [of _ a]) (auto simp del: append_Cons split: option.split)
qed

lemma upload_commit_ok:
  assumes "lu_step u = Prepared" and "lu_fd u = Some i" and "distinct (map fst (lu_attributes u))"
    and "lu_path_temp u = lu_path_final u @ ''.pending''" and "lu_path_final u \<noteq> []"
    and "w_names w (lu_path_temp u) = Some (Ino i)" and "walk (w_names w) (lu_path_final u) = None"
    and "w_names w (lu_path_final u) \<noteq> Some Dir" and "w_faults w = []"
  shows "\<exists>a. LocalUpload_Commit (u, w) = Some (status_ok, u\<lparr>lu_step := Done, lu_fd := None\<rparr>,
      w\<lparr>w_attr := a, w_names := (w_names w)(lu_path_temp u := None, lu_path_final u \<mapsto> Ino i)\<rparr>)
    \<and> (\<forall>k. a i (''user.grid.'' @ k) =
        (case map_of (lu_attributes u) k of None \<Rightarrow> w_attr w i (''user.grid.'' @ k) | Some v \<Rightarrow> Some (bytes_of v)))"
proof -
  from set_attributes_quiet [OF assms(9,3), of i] obtain a where
    a: "set_attributes (lu_attributes u) i w = w\<lparr>w_attr := a\<rparr>"
      "\<forall>k. a i (''user.grid.'' @ k) =
        (case map_of (lu_attributes u) k of None \<Rightarrow> w_attr w i (''user.grid.'' @ k) | Some v \<Rightarrow> Some (bytes_of v))" by blast
  have "walk (w_names w) (lu_path_temp u) = None"
    using assms(4,5,7) walk_cong_parent [of "lu_path_temp u" "lu_path_final u"] by simp
  with assms a show ?thesis
    by (intro exI [of _ a]) (simp add: LocalUpload_Commit_def commit_without_check_on_step_def resetFD_def
        sys_rename_def sys_lookup_def Let_def)
qed

lemma local_commit_ok:
  assumes "lu_step u = Prepared" and "lu_fd u = Some i" and "lu_attributes u = []"
    and "lu_path_temp u = lu_path_final u @ ''.pending''" and "lu_path_final u \<noteq> []"
    and "w_names w (lu_path_temp u) = Some (Ino i)" and "walk (w_names w) (lu_path_final u) = None"
    and "w_names w (lu_path_final u) \<noteq> Some Dir" and "w_faults w = []"
  shows "LocalUpload_Commit (u, w) = Some (status_ok, u\<lparr>lu_step := Done, lu_fd := None\<rparr>,
    w\<lparr>w_names := (w_names w)(lu_path_temp u := None, lu_path_final u \<mapsto> Ino i)\<rparr>)"
proof -
  have "walk (w_names w) (lu_path_temp u) = None"
    using assms(4,5,7) walk_cong_parent [of "lu_path_temp u" "lu_path_final u"] by simp
  with assms show ?thesis
    by (simp add: LocalUpload_Commit_def commit_without_check_on_step_def resetFD_def
        sys_rename_def sys_lookup_def Let_def)
qed

lemma local_download_ok:
  assumes "w_faults w = []" and "walk (w_names w) p = None" and "w_names w p = Some (Ino i)"
  shows "LocalDownload_Prepare (LocalDownload_Build p, w) =
    (status_of OK, (LocalDownload_Build p)\<lparr>ld_fd := Some (H_file i 0), ld_step := Prepared\<rparr>, w)"
  using assms
  by (simp add: LocalDownload_Prepare_def LocalDownload_Build_def open_read_def sys_lookup_def
      seek_offset_def Let_def)

text \<open>C18. A complete upload and download through the file system, when no call fails: whatever
  sizes the kernel chooses for the partial writes and reads, every call succeeds, exactly the final
  path changes among the files (the pending file is gone), it holds the bytes written in order, and
  the download loop ends with exactly these bytes.\<close>

theorem local_upload_download:
  assumes "fs_ok w" and "w_faults w = []" and "quiet_wr (w_wr w)" and "quiet_rd (w_rd w)"
    and "p \<noteq> []" and "walk (w_names w) p = None" and "w_names w p = None"
    and "w_names w (p @ ''.pending'') = None" and "0 < batch" and "batch < 2 ^ 31"
  shows "\<exists>u1 w1 w2 u3 w3 d.
    LocalUpload_Prepare (LocalUpload_Build p fm dm, w) = Some (status_of OK, u1, w1) \<and>
    up_run LocalUpload_Prepare LocalUpload_Commit LocalUpload_Abort LocalUpload_Write
      (map Up_write bss) (u1, w1) = Some ([], u1, w2) \<and>
    LocalUpload_Commit (u1, w2) = Some (status_ok, u3, w3) \<and>
    files w3 = (files w)(p \<mapsto> concat bss) \<and>
    LocalDownload_Prepare (LocalDownload_Build p, w3) = (status_of OK, d, w3) \<and>
    (\<exists>s. drain (LocalDownload_IsEof \<circ> fst) (LocalDownload_Read batch attempts [])
        (Suc (length (concat bss))) (d, w3) = Some (concat bss, s))"
proof -
  let ?i = "w_next w" and ?t = "p @ ''.pending''"
  let ?u = "(LocalUpload_Build p fm dm)\<lparr>lu_fd := Some ?i, lu_step := Prepared\<rparr>"
  let ?w = "w\<lparr>w_names := (w_names w)(?t \<mapsto> Ino ?i), w_data := (w_data w)(?i := []),
    w_attr := (w_attr w)(?i := Map.empty), w_next := Suc ?i\<rparr>"
  note prep = local_prepare_ok [OF assms(2,5-8), of fm dm]
  obtain evs where wr: "up_run LocalUpload_Prepare LocalUpload_Commit LocalUpload_Abort
      LocalUpload_Write (map Up_write bss) (?u, ?w) =
      Some ([], ?u, (file_append ?i (concat bss) ?w)\<lparr>w_wr := evs\<rparr>)"
    using local_writes [of ?u ?i ?w LocalUpload_Prepare LocalUpload_Commit LocalUpload_Abort bss]
      assms(3) by auto
  let ?w2 = "(file_append ?i (concat bss) ?w)\<lparr>w_wr := evs\<rparr>"
  let ?w3 = "?w2\<lparr>w_names := (w_names w)(?t := None, p \<mapsto> Ino ?i)\<rparr>"
  have com: "LocalUpload_Commit (?u, ?w2) = Some (status_ok, ?u\<lparr>lu_step := Done, lu_fd := None\<rparr>, ?w3)"
    using assms local_commit_ok [of ?u ?i ?w2]
    by (simp add: LocalUpload_Build_def LocalUpload_def walk_upd file_append_def)
  have fl: "files ?w3 = (files w)(p \<mapsto> concat bss)"
    using assms(1,8) file_map_fresh [of "w_names w" ?i]
    by (auto simp: files_def fs_ok_def file_map_file file_map_del fun_upd_idem_iff)
  have n3: "w_names ?w3 = (w_names w)(?t := None, p \<mapsto> Ino ?i)" "w_faults ?w3 = []"
    "w_data ?w3 ?i = concat bss" "quiet_rd (w_rd ?w3)"
    using assms by (simp_all add: file_append_def)
  have "walk (w_names ?w3) p = None"
    unfolding n3(1) using assms(6) by (simp add: walk_upd)
  with local_download_ok [OF n3(2) this, of ?i] n3(1) have dl:
    "LocalDownload_Prepare (LocalDownload_Build p, ?w3) =
      (status_of OK, (LocalDownload_Build p)\<lparr>ld_fd := Some (H_file ?i 0), ld_step := Prepared\<rparr>, ?w3)"
    by simp
  let ?d = "(LocalDownload_Build p)\<lparr>ld_fd := Some (H_file ?i 0), ld_step := Prepared\<rparr>"
  have "local_dl_good batch (?d, ?w3)" "local_dl_rest (?d, ?w3) = concat bss"
    using n3 assms(9,10) by (auto simp: local_dl_good_def local_dl_rest_def LocalDownload_Build_def)
  with local_dl.drain_rest [of batch "(?d, ?w3)" "Suc (length (concat bss))" attempts]
  obtain s where s: "drain (LocalDownload_IsEof \<circ> fst) (LocalDownload_Read batch attempts [])
      (Suc (length (concat bss))) (?d, ?w3) = Some (concat bss, s)" by auto
  show ?thesis
    by (rule exI [of _ ?u], rule exI [of _ ?w], rule exI [of _ ?w2],
        rule exI [of _ "?u\<lparr>lu_step := Done, lu_fd := None\<rparr>"], rule exI [of _ ?w3], rule exI [of _ ?d])
      (intro conjI exI [of _ s] prep wr com fl dl s)
qed

definition empty_world :: world where
  "empty_world = \<lparr>w_names = (\<lambda>p. None), w_data = (\<lambda>i. []), w_attr = (\<lambda>i. Map.empty), w_next = 0,
     w_faults = [], w_rd = [Rd_data 1, Rd_data 1], w_wr = [Wr_n 1, Wr_intr, Wr_n 0]\<rparr>"

theorem local_upload_download_witness:
  "\<exists>u1 w1 w2 u3 w3 d.
    LocalUpload_Prepare (LocalUpload_Build ''a'' 0 0, empty_world) = Some (status_of OK, u1, w1) \<and>
    up_run LocalUpload_Prepare LocalUpload_Commit LocalUpload_Abort LocalUpload_Write
      (map Up_write [[1, 2], [3]]) (u1, w1) = Some ([], u1, w2) \<and>
    LocalUpload_Commit (u1, w2) = Some (status_ok, u3, w3) \<and>
    files w3 = (files empty_world)(''a'' \<mapsto> concat [[1, 2], [3]]) \<and>
    LocalDownload_Prepare (LocalDownload_Build ''a'', w3) = (status_of OK, d, w3) \<and>
    (\<exists>s. drain (LocalDownload_IsEof \<circ> fst) (LocalDownload_Read 2 5 [])
        (Suc (length (concat [[1, 2], [3 :: byte]]))) (d, w3) = Some (concat [[1, 2], [3]], s))"
  by (rule local_upload_download)
    (simp_all add: empty_world_def fs_ok_def names_ok_def quiet_wr_def quiet_rd_def walk.simps
      parent_of_def)

text \<open>C6. Under any system errors, and whatever a client calls in any order, at most one
  \<open>Commit\<close> or \<open>Abort\<close> of a local upload succeeds, and without a successful \<open>Commit\<close> no file other
  than the pending one has changed.  With one, the final path holds the bytes the writes stored.\<close>

theorem local_upload_atomic:
  assumes "fs_ok w" and "u = LocalUpload_Build p fm dm"
  shows "(tx_run LocalUpload_Prepare LocalUpload_Commit LocalUpload_Abort xs (u, w) = Some (rs, u', w') \<longrightarrow>
      length (final_calls rs) \<le> 1 \<and> (\<not> committed rs \<longrightarrow>
        (files w')(p @ ''.pending'' := None) = (files w)(p @ ''.pending'' := None)))
    \<and> (LocalUpload_Prepare (u, w) = Some (r, s1) \<and> Ok r
        \<and> up_run LocalUpload_Prepare LocalUpload_Commit LocalUpload_Abort LocalUpload_Write
            (map Up_write bss) s1 = Some (qs, s2)
        \<and> LocalUpload_Commit s2 = Some (q, s3) \<longrightarrow>
      (\<exists>ks. length ks = length bss \<and> local_vis s3 = (if Ok q
        then (local_vis (u, w))(p \<mapsto> concat (map (\<lambda>(k, bs). take k bs) (zip ks bss)))
        else local_vis (u, w))))"
proof (intro conjI impI)
  have g: "local_good (u, w)" and i: "lu_step u = Init" "lu_path_final u = p"
    using assms by (simp_all add: local_good_def LocalUpload_Build_def LocalUpload_def)
  assume run: "tx_run LocalUpload_Prepare LocalUpload_Commit LocalUpload_Abort xs (u, w) = Some (rs, u', w')"
  from local_ul.one_final_call [OF run] show "length (final_calls rs) \<le> 1" .
  assume "\<not> committed rs"
  from local_ul.run_vis [OF g run this] g i
  show "(files w')(p @ ''.pending'' := None) = (files w)(p @ ''.pending'' := None)"
    by (auto simp: local_vis_def local_good_def)
next
  assume a: "LocalUpload_Prepare (u, w) = Some (r, s1) \<and> Ok r
    \<and> up_run LocalUpload_Prepare LocalUpload_Commit LocalUpload_Abort LocalUpload_Write
        (map Up_write bss) s1 = Some (qs, s2)
    \<and> LocalUpload_Commit s2 = Some (q, s3)"
  have "local_good (u, w)" "(lu_step \<circ> fst) (u, w) = Init"
    using assms by (simp_all add: local_good_def LocalUpload_Build_def LocalUpload_def)
  note session = local_ul.upload_session [OF this]
  obtain u1 w1 where s1: "s1 = (u1, w1)" by fastforce
  have "(lu_path_final \<circ> fst) (u, w) = p"
    using assms by (simp add: LocalUpload_Build_def LocalUpload_def)
  with session [of r s1 bss qs s2 q s3] a [THEN conjunct1] a [THEN conjunct2, THEN conjunct1]
    a [THEN conjunct2, THEN conjunct2, THEN conjunct1]
    a [THEN conjunct2, THEN conjunct2, THEN conjunct2]
  show "\<exists>ks. length ks = length bss \<and> local_vis s3 = (if Ok q
        then (local_vis (u, w))(p \<mapsto> concat (map (\<lambda>(k, bs). take k bs) (zip ks bss)))
        else local_vis (u, w))"
    by (simp only:)
qed

theorem local_upload_atomic_witness:
  "\<exists>rs u' w'. tx_run LocalUpload_Prepare LocalUpload_Commit LocalUpload_Abort
      [Call_Prepare, Call_Abort, Call_Commit] (LocalUpload_Build ''a'' 0 0, empty_world) = Some (rs, u', w')
    \<and> length (final_calls rs) \<le> 1
    \<and> (files w')(''a.pending'' := None) = (files empty_world)(''a.pending'' := None)"
proof -
  let ?u = "LocalUpload_Build ''a'' 0 0"
  have w: "fs_ok empty_world" "w_faults empty_world = []" "walk (w_names empty_world) ''a'' = None"
    by (simp_all add: empty_world_def fs_ok_def names_ok_def walk.simps parent_of_def)
  have p: "\<exists>u1 w1. LocalUpload_Prepare (?u, empty_world) = Some (status_of OK, u1, w1)
      \<and> lu_step u1 = Prepared"
    using local_prepare_ok [OF w(2) _ w(3), of 0 0] by (simp add: empty_world_def)
  then obtain u1 w1 where 1: "LocalUpload_Prepare (?u, empty_world) = Some (status_of OK, u1, w1)"
    "lu_step u1 = Prepared" by blast
  obtain r u2 w2 where 2: "LocalUpload_Abort (u1, w1) = Some (r, u2, w2)" "lu_step u2 = Done"
    using 1(2) abort_step_done [of "u1\<lparr>lu_step := Done\<rparr>" w1]
    by (cases "abort_without_check_on_step (u1\<lparr>lu_step := Done\<rparr>, w1)")
      (auto simp: LocalUpload_Abort_def)
  have run: "tx_run LocalUpload_Prepare LocalUpload_Commit LocalUpload_Abort
      [Call_Prepare, Call_Abort, Call_Commit] (?u, empty_world) =
    Some ([(Call_Prepare, status_of OK), (Call_Abort, r), (Call_Commit, status_of InternalError)], u2, w2)"
    using 1 2 by (simp add: LocalUpload_Commit_def)
  moreover have "\<not> committed [(Call_Prepare, status_of OK), (Call_Abort, r),
      (Call_Commit, status_of InternalError)]" by (auto simp: committed_def)
  ultimately show ?thesis
    using local_upload_atomic [OF w(1) refl, where p = "''a''" and fm = 0 and dm = 0 and
      xs = "[Call_Prepare, Call_Abort, Call_Commit]"]
    by fastforce
qed

text \<open>A write that the system refuses is only logged: \<open>Commit\<close> still answers success and
  publishes the blob without the bytes that were refused.\<close>

theorem local_commit_truncated:
  assumes "lu_step u = Prepared" and "lu_fd u = Some i" and "lu_attributes u = []"
    and "lu_path_temp u = lu_path_final u @ ''.pending''" and "lu_path_final u \<noteq> []"
    and "w_names w (lu_path_temp u) = Some (Ino i)" and "walk (w_names w) (lu_path_final u) = None"
    and "w_names w (lu_path_final u) = None" and "w_faults w = []"
    and "w_wr w = Wr_n k # Wr_fail e # evs" and "k < length bs"
  shows "\<exists>w1 u2 w2. LocalUpload_Write bs (u, w) = Some (u, w1) \<and>
    LocalUpload_Commit (u, w1) = Some (status_ok, u2, w2) \<and>
    files w2 (lu_path_final u) = Some (w_data w i @ take k bs)"
proof -
  let ?w1 = "(file_append i (take k bs) w)\<lparr>w_wr := evs\<rparr>"
  have "LocalUpload_Write bs (u, w) = Some (u, ?w1)"
    using assms(1,2,10,11) by (simp add: LocalUpload_Write_def)
  moreover have "LocalUpload_Commit (u, ?w1) = Some (status_ok, u\<lparr>lu_step := Done, lu_fd := None\<rparr>,
      ?w1\<lparr>w_names := (w_names ?w1)(lu_path_temp u := None, lu_path_final u \<mapsto> Ino i)\<rparr>)"
    using assms by (intro local_commit_ok) (simp_all add: file_append_def)
  ultimately show ?thesis by (simp add: files_def file_map_def)
qed

theorem local_commit_truncated_witness:
  "\<exists>u w w1 u2 w2. w_wr w = [Wr_n 1, Wr_fail ENOENT] \<and>
    LocalUpload_Write [1, 2, 3] (u, w) = Some (u, w1) \<and>
    LocalUpload_Commit (u, w1) = Some (status_ok, u2, w2) \<and> files w2 ''a'' = Some [1]"
proof -
  let ?u = "(LocalUpload_Build ''a'' 0 0)\<lparr>lu_fd := Some 0, lu_step := Prepared\<rparr>"
    and ?w = "empty_world\<lparr>w_names := [''a.pending'' \<mapsto> Ino 0], w_next := 1, w_wr := [Wr_n 1, Wr_fail ENOENT]\<rparr>"
  have "\<exists>w1 u2 w2. LocalUpload_Write [1, 2, 3] (?u, ?w) = Some (?u, w1) \<and>
    LocalUpload_Commit (?u, w1) = Some (status_ok, u2, w2) \<and>
    files w2 (lu_path_final ?u) = Some (w_data ?w 0 @ take 1 [1, 2, 3])"
    by (rule local_commit_truncated) (simp_all add: LocalUpload_Build_def LocalUpload_def empty_world_def
        walk.simps parent_of_def)
  moreover have "lu_path_final ?u = ''a''" "w_data ?w 0 @ take 1 [1, 2, 3] = [1]"
    "w_wr ?w = [Wr_n 1, Wr_fail ENOENT]"
    by (simp_all add: LocalUpload_Build_def LocalUpload_def empty_world_def)
  ultimately show ?thesis by metis
qed

text \<open>Walking and creating one level.\<close>

lemma walk_step:
  "parent_of p = Some q \<Longrightarrow> walk names p =
    (case walk names q of Some e \<Rightarrow> Some e
     | None \<Rightarrow> (case names q of None \<Rightarrow> Some ENOENT | Some Dir \<Rightarrow> None | Some (Ino _) \<Rightarrow> Some ENOTDIR))"
  by (simp add: walk.simps [of names p])

lemma createParent_step:
  "parent_of p = Some q \<Longrightarrow> createParent p w =
    (case sys_mkdir q w of (None, w') \<Rightarrow> (None, w')
     | (Some e, w') \<Rightarrow> if e \<noteq> ENOENT then (Some e, w') else createParent q w')"
  by (auto simp: parent_of_def createParent.simps [of p] split: option.splits if_splits)

lemma sys_mkdir_ok:
  "w_faults w = [] \<Longrightarrow> walk (w_names w) p = None \<Longrightarrow> w_names w p = None \<Longrightarrow>
    sys_mkdir p w = (None, w\<lparr>w_names := (w_names w)(p \<mapsto> Dir)\<rparr>)"
  by (simp add: sys_mkdir_def)

text \<open>\<open>Prepare\<close> creates the directory of the blob when only that one is missing; when two
  levels are missing it creates the upper one, gives up and answers \<open>Forbidden\<close>.\<close>

theorem local_prepare_missing_directories:
  assumes "w_faults w = []" and "p \<noteq> []" and "parent_of p = Some q" and "w_names w q = None"
    and "w_names w p = None" and "w_names w (p @ ''.pending'') = None"
  shows "(walk (w_names w) q = None \<longrightarrow>
      (\<exists>u1 w1. LocalUpload_Prepare (LocalUpload_Build p fm dm, w) = Some (status_of OK, u1, w1)
        \<and> w_names w1 = (w_names w)(q \<mapsto> Dir, p @ ''.pending'' \<mapsto> Ino (w_next w))))
    \<and> (parent_of q = Some r \<and> w_names w r = None \<and> walk (w_names w) r = None \<longrightarrow>
      LocalUpload_Prepare (LocalUpload_Build p fm dm, w) =
        Some (status_of Forbidden, LocalUpload_Build p fm dm, w\<lparr>w_names := (w_names w)(r \<mapsto> Dir)\<rparr>))"
proof (intro conjI impI)
  let ?t = "p @ ''.pending''" and ?u = "LocalUpload_Build p fm dm"
  have par: "parent_of ?t = Some q" using assms(2,3) by simp
  have u: "lu_path_temp ?u = ?t" "lu_path_final ?u = p" "lu_fd ?u = None" "lu_step ?u = Init"
    by (simp_all add: LocalUpload_Build_def LocalUpload_def)
  have ne: "q \<noteq> p" "q \<noteq> ?t" using parent_of_shorter [OF assms(3)] parent_of_shorter [OF par] by auto
  {
    assume q: "walk (w_names w) q = None"
    let ?w = "w\<lparr>w_names := (w_names w)(q \<mapsto> Dir)\<rparr>"
    have c: "sys_create ?t w = (Inl ENOENT, w)"
      using assms q walk_step [OF par, of "w_names w"] by (simp add: sys_create_def)
    have cp: "createParent ?t w = (None, ?w)"
      using sys_mkdir_ok [OF assms(1) q assms(4)] by (simp add: createParent_step [OF par])
    have wq: "walk (w_names ?w) ?t = None" "walk (w_names ?w) p = None"
      using walk_step [OF par] walk_step [OF assms(3)] q by (simp_all add: walk_upd)
    then have "walk ((w_names ?w)(?t \<mapsto> Ino (w_next w))) p = None"
      by (simp add: walk_upd)
    with wq ne assms have "\<exists>w1. prepare_retry False (?u, ?w) = (status_of OK, ?u\<lparr>lu_fd := Some (w_next w)\<rparr>, w1)
        \<and> w_names w1 = (w_names w)(q \<mapsto> Dir, ?t \<mapsto> Ino (w_next w))"
      by (subst prepare_retry.simps) (simp add: u sys_create_def sys_lookup_def Let_def)
    with c cp u show "\<exists>u1 w1. LocalUpload_Prepare (?u, w) = Some (status_of OK, u1, w1)
        \<and> w_names w1 = (w_names w)(q \<mapsto> Dir, ?t \<mapsto> Ino (w_next w))"
      by (auto simp: LocalUpload_Prepare_def prepare_without_check_on_step_def prepare_retry.simps [of True])
  next
    assume r: "parent_of q = Some r \<and> w_names w r = None \<and> walk (w_names w) r = None"
    let ?w = "w\<lparr>w_names := (w_names w)(r \<mapsto> Dir)\<rparr>"
    have q: "walk (w_names w) q = Some ENOENT" using r walk_step [of q r "w_names w"] by simp
    have c: "sys_create ?t w = (Inl ENOENT, w)"
      using assms q walk_step [OF par, of "w_names w"] by (simp add: sys_create_def)
    have "sys_mkdir q w = (Some ENOENT, w)" using q assms(1) by (simp add: sys_mkdir_def)
    with r sys_mkdir_ok [OF assms(1), of r] have cp: "createParent ?t w = (None, ?w)"
      by (simp add: createParent_step [OF par] createParent_step [of q r])
    have "r \<noteq> q" using r parent_of_shorter [of q r] by auto
    moreover have "walk (w_names ?w) q = None"
      using r walk_step [of q r "w_names ?w"] by (simp add: walk_upd)
    ultimately have "walk (w_names ?w) ?t = Some ENOENT"
      using walk_step [OF par, of "w_names ?w"] assms(4) by simp
    then have "prepare_retry False (?u, ?w) = (status_of Forbidden, ?u, ?w)"
      using assms(1) by (subst prepare_retry.simps) (simp add: u sys_create_def)
    with c cp u show "LocalUpload_Prepare (?u, w) = Some (status_of Forbidden, ?u, ?w)"
      by (simp add: LocalUpload_Prepare_def prepare_without_check_on_step_def prepare_retry.simps [of True])
  }
qed

theorem local_prepare_missing_directories_witness:
  "(\<exists>u1 w1. LocalUpload_Prepare (LocalUpload_Build ''a/f'' 0 0, empty_world) = Some (status_of OK, u1, w1)
      \<and> w_names w1 = [''a'' \<mapsto> Dir, ''a/f.pending'' \<mapsto> Ino 0])
    \<and> (\<exists>w1. LocalUpload_Prepare (LocalUpload_Build ''a/b/f'' 0 0, empty_world) =
        Some (status_of Forbidden, LocalUpload_Build ''a/b/f'' 0 0, w1) \<and> w_names w1 = [''a'' \<mapsto> Dir])"
  using local_prepare_missing_directories [of empty_world "''a/f''" "''a''" 0 0 "[]"]
    local_prepare_missing_directories [of empty_world "''a/b/f''" "''a/b''" 0 0 "''a''"]
  by (simp add: empty_world_def parent_of_def walk.simps)

text \<open>\<open>SetRange\<close> answers \<open>Forbidden\<close> before \<open>Prepare\<close>, where the interface asks for it, and
  success after it, where it has no effect: the download delivers the whole file whatever the range.\<close>

theorem local_range_ignored:
  assumes "ld_step e \<noteq> Prepared"
    and "local_dl_good batch (d, w)" and "ld_step d = Prepared" and "ld_fd d = Some (H_file i 0)"
    and "LocalDownload_SetRange off len d = (r, d')"
  shows "LocalDownload_SetRange off len e = (status_of Forbidden, e) \<and> Ok r
    \<and> (\<exists>s. drain (LocalDownload_IsEof \<circ> fst) (LocalDownload_Read batch attempts [])
        (Suc (length (w_data w i))) (d', w) = Some (w_data w i, s))"
proof -
  from assms(3,5) have d': "Ok r" "d' = d\<lparr>ld_offset := unat off, ld_size_expected := unat len\<rparr>"
    by (auto simp: LocalDownload_SetRange_def)
  with assms(2-4) have "local_dl_good batch (d', w)" "local_dl_rest (d', w) = w_data w i"
    by (auto simp: local_dl_good_def local_dl_rest_def)
  with local_dl.drain_rest [of batch "(d', w)" "Suc (length (w_data w i))" attempts] d' assms(1)
  show ?thesis by (auto simp: LocalDownload_SetRange_def)
qed

theorem local_range_ignored_witness:
  "\<exists>d' s. LocalDownload_SetRange 1 1 \<lparr>ld_path = ''a'', ld_buffer = [], ld_offset = 0, ld_size_expected = 0,
      ld_size_read = 0, ld_fd = Some (H_file 0 0), ld_step = Prepared\<rparr> = (status_ok, d')
    \<and> drain (LocalDownload_IsEof \<circ> fst) (LocalDownload_Read 2 5 []) 5
        (d', empty_world\<lparr>w_data := (\<lambda>i. [7, 8, 9, 10])\<rparr>) = Some ([7, 8, 9, 10], s)"
proof -
  let ?d = "\<lparr>ld_path = ''a'', ld_buffer = [], ld_offset = 0, ld_size_expected = 0,
      ld_size_read = 0, ld_fd = Some (H_file 0 0), ld_step = Prepared\<rparr>"
    and ?w = "empty_world\<lparr>w_data := (\<lambda>i. [7, 8, 9, 10 :: byte])\<rparr>"
  have r: "LocalDownload_SetRange 1 1 ?d = (status_ok, ?d\<lparr>ld_offset := 1, ld_size_expected := 1\<rparr>)"
    by (simp add: LocalDownload_SetRange_def)
  have "local_dl_good 2 (?d, ?w)"
    by (simp add: local_dl_good_def quiet_rd_def empty_world_def)
  with local_range_ignored [of "LocalDownload_Build ''a''" 2 ?d ?w 0 1 1 status_ok _ 5] r
  have "\<exists>s. drain (LocalDownload_IsEof \<circ> fst) (LocalDownload_Read 2 5 []) (Suc (length (w_data ?w 0)))
      (?d\<lparr>ld_offset := 1, ld_size_expected := 1\<rparr>, ?w) = Some (w_data ?w 0, s)"
    by (simp del: drain.simps add: LocalDownload_Build_def)
  moreover have "w_data ?w 0 = [7, 8, 9, 10]" "Suc (length (w_data ?w 0)) = 5" by simp_all
  ultimately show ?thesis using r by metis
qed

text \<open>After a read that failed the buffer keeps the size it was given for the read: the next
  \<open>Read\<close> delivers a whole batch of zeros that are not in the file, as data, without reading.\<close>

theorem local_read_error_zeros:
  assumes "ld_step d = Prepared" and "ld_fd d = Some (H_file i pos)" and "ld_buffer d = []"
    and "ld_size_expected d = 0" and "0 < batch" and "batch < 2 ^ 31" and "w_rd w = Rd_fail e # evs"
  shows "\<exists>d1 w1. LocalDownload_Read batch attempts [] (d, w) = Some (0, [], d1, w1)
    \<and> \<not> LocalDownload_IsEof d1
    \<and> (\<exists>d2. LocalDownload_Read batch attempts [] (d1, w1) =
        Some (int batch, replicate batch 0, d2, w1))"
  using assms
  by (simp add: LocalDownload_Read_def loadBuffer_def loadBufferAndRetry.simps load_size_def
      resize_def LocalDownload_IsEof_def i32_of_nat_small)

theorem local_read_error_zeros_witness:
  "\<exists>d1 w1 d2. LocalDownload_Read 3 5 [] (\<lparr>ld_path = ''a'', ld_buffer = [], ld_offset = 0,
      ld_size_expected = 0, ld_size_read = 0, ld_fd = Some (H_file 0 0), ld_step = Prepared\<rparr>,
      empty_world\<lparr>w_data := (\<lambda>i. [7, 8]), w_rd := [Rd_fail ENXIO]\<rparr>) = Some (0, [], d1, w1)
    \<and> LocalDownload_Read 3 5 [] (d1, w1) = Some (3, [0, 0, 0], d2, w1)"
proof -
  let ?d = "\<lparr>ld_path = ''a'', ld_buffer = [], ld_offset = 0,
      ld_size_expected = 0, ld_size_read = 0, ld_fd = Some (H_file 0 0), ld_step = Prepared\<rparr>"
    and ?w = "empty_world\<lparr>w_data := (\<lambda>i. [7, 8 :: byte]), w_rd := [Rd_fail ENXIO]\<rparr>"
  have "\<exists>d1 w1. LocalDownload_Read 3 5 [] (?d, ?w) = Some (0, [], d1, w1) \<and> \<not> LocalDownload_IsEof d1
    \<and> (\<exists>d2. LocalDownload_Read 3 5 [] (d1, w1) = Some (int 3, replicate 3 0, d2, w1))"
    by (rule local_read_error_zeros) simp_all
  moreover have "replicate 3 (0 :: byte) = [0, 0, 0]" by (simp add: numeral_eq_Suc)
  ultimately show ?thesis by (metis of_nat_numeral)
qed

end
