(* ===== verification/Http_Request.thy ===== *)
theory Http_Request
  imports Net Ordered_Map
begin

text \<open>
  The HTTP requests of \<open>src/src/utils/http.hpp\<close> and \<open>http.cpp\<close>: the connection they share with the
  replies, the header block, and the body in both transfer encodings.  \<open>dechunk\<close> is a reader of the
  chunked encoding written after its grammar; it is the reference the writer is checked against.
\<close>

datatype hcode = H_OK | H_ClientError | H_ServerError | H_NetworkError | H_Done

fun show_hcode :: "hcode \<Rightarrow> string" where
  "show_hcode H_OK = ''OK/0''"
| "show_hcode H_ClientError = ''ClientError/1''"
| "show_hcode H_ServerError = ''ServerError/2''"
| "show_hcode H_NetworkError = ''NetworkError/3''"
| "show_hcode H_Done = ''Done/4''"

section \<open>The connection\<close>

text \<open>
  The socket of a request: whether \<open>fileno() >= 0\<close>, the channel, and the outcomes of the next
  attempts to connect (a refused \<open>connect\<close> leaves a descriptor too, as \<open>Net\<close> shows).
\<close>

record conn =
  cn_open :: bool
  cn_chan :: chan
  cn_next :: "(errno option \<times> chan) list"

definition closed_errno :: errno where
  "closed_errno = E_other 9 ''Bad file descriptor''"

definition conn_send_iov :: "bytes list \<Rightarrow> conn \<Rightarrow> (errno option \<times> conn) option" where
  "conn_send_iov iov c =
     (if concat iov = [] then Some (None, c)
      else if \<not> cn_open c then Some (Some closed_errno, c)
      else case chan_send_iov iov (cn_chan c) of
        None \<Rightarrow> None | Some (e, ch) \<Rightarrow> Some (e, c\<lparr>cn_chan := ch\<rparr>))"

definition conn_send :: "bytes \<Rightarrow> conn \<Rightarrow> (errno option \<times> conn) option" where
  "conn_send b c =
     (if b = [] then Some (None, c)
      else if \<not> cn_open c then Some (Some closed_errno, c)
      else case chan_send b (cn_chan c) of
        None \<Rightarrow> None | Some (e, ch) \<Rightarrow> Some (e, c\<lparr>cn_chan := ch\<rparr>))"

definition conn_read :: "nat \<Rightarrow> conn \<Rightarrow> (rd_result \<times> conn) option" where
  "conn_read len c =
     (if \<not> cn_open c then Some (Failed closed_errno, c)
      else case chan_read len (cn_chan c) of
        None \<Rightarrow> None | Some (r, ch) \<Rightarrow> Some (r, c\<lparr>cn_chan := ch\<rparr>))"

definition conn_close :: "conn \<Rightarrow> conn" where
  "conn_close c = c\<lparr>cn_open := False\<rparr>"

text \<open>\<open>Reconnect\<close>: \<open>None\<close> while no attempt has been decided; else the \<open>errno\<close> of a failure.\<close>

definition conn_Reconnect :: "conn \<Rightarrow> (errno option \<times> conn) option" where
  "conn_Reconnect c =
     (case cn_next c of
        [] \<Rightarrow> None
      | (e, ch) # rest \<Rightarrow>
          Some (if e = Some E_none then None else e, c\<lparr>cn_open := True, cn_chan := ch, cn_next := rest\<rparr>))"

definition wire :: "conn \<Rightarrow> bytes" where
  "wire c = ch_out (cn_chan c)"

definition unread_of :: "conn \<Rightarrow> bytes" where
  "unread_of c = ch_in (cn_chan c)"

lemma conn_send_iov_one:
  "cn_open c \<Longrightarrow> ch_wr (cn_chan c) = Wr_n k # evs \<Longrightarrow> concat iov \<noteq> [] \<Longrightarrow> length (concat iov) \<le> k \<Longrightarrow>
    conn_send_iov iov c = Some (None, c\<lparr>cn_chan := (cn_chan c)\<lparr>ch_out := wire c @ concat iov, ch_wr := evs\<rparr>\<rparr>)"
  by (simp add: conn_send_iov_def chan_send_iov_one wire_def del: concat_eq_Nil_conv)

lemma conn_send_one:
  "cn_open c \<Longrightarrow> ch_wr (cn_chan c) = Wr_n k # evs \<Longrightarrow> b \<noteq> [] \<Longrightarrow> length b \<le> k \<Longrightarrow>
    conn_send b c = Some (None, c\<lparr>cn_chan := (cn_chan c)\<lparr>ch_out := wire c @ b, ch_wr := evs\<rparr>\<rparr>)"
  by (simp add: conn_send_def chan_send_one wire_def)

lemma conn_send_iov_empty [simp]: "conn_send_iov [] c = Some (None, c)"
  by (simp add: conn_send_iov_def)

interpretation cn_iov: byte_channel conn_send_iov concat wire unread_of
proof (standard, goal_cases)
  case (1 x c e c')
  then show ?case using ch_iov.send_prefix [of x "cn_chan c"]
    by (auto simp: conn_send_iov_def wire_def split: option.splits if_splits)
next
  case (2 x c e c')
  then show ?case using ch_iov.send_unread [of x "cn_chan c"]
    by (auto simp: conn_send_iov_def unread_of_def split: option.splits if_splits)
qed

interpretation cn_buf: byte_channel conn_send "\<lambda>b. b" wire unread_of
proof (standard, goal_cases)
  case (1 x c e c')
  then show ?case using ch_buf.send_prefix [of x "cn_chan c"]
    by (auto simp: conn_send_def wire_def split: option.splits if_splits)
next
  case (2 x c e c')
  then show ?case using ch_buf.send_unread [of x "cn_chan c"]
    by (auto simp: conn_send_def unread_of_def split: option.splits if_splits)
qed

section \<open>Requests\<close>

definition crlf :: string where
  "crlf = [CHR 0x0D, CHR 0x0A]"

record request =
  rq_method :: string
  rq_selector :: string
  rq_fields :: "(string, string) omap"
  rq_query :: "(string, string) omap"
  rq_trailers :: "string list"
  rq_content_length :: int
  rq_sent :: int

definition Request :: request where
  "Request = \<lparr>rq_method = ''GET'', rq_selector = ''/'', rq_fields = [], rq_query = [],
     rq_trailers = [], rq_content_length = - 1, rq_sent = 0\<rparr>"

definition Request_ContentLength :: "int \<Rightarrow> request \<Rightarrow> request" where
  "Request_ContentLength l r = r\<lparr>rq_content_length := l\<rparr>"

definition Request_Selector :: "string \<Rightarrow> request \<Rightarrow> request" where
  "Request_Selector s r = r\<lparr>rq_selector := s\<rparr>"

definition Request_Method :: "string \<Rightarrow> request \<Rightarrow> request" where
  "Request_Method m r = r\<lparr>rq_method := m\<rparr>"

definition Request_Query :: "string \<Rightarrow> string \<Rightarrow> request \<Rightarrow> request" where
  "Request_Query k v r = r\<lparr>rq_query := om_put k v (rq_query r)\<rparr>"

definition Request_Field :: "string \<Rightarrow> string \<Rightarrow> request \<Rightarrow> request" where
  "Request_Field k v r = r\<lparr>rq_fields := om_put k v (rq_fields r)\<rparr>"

definition Request_Trailer :: "string \<Rightarrow> request \<Rightarrow> request" where
  "Request_Trailer k r = r\<lparr>rq_trailers := os_insert k (rq_trailers r)\<rparr>"

definition Request_Abort :: "conn \<Rightarrow> conn" where
  "Request_Abort c = conn_close c"

definition Request_Connected :: "conn \<Rightarrow> bool" where
  "Request_Connected c = cn_open c"

text \<open>The header block, one text per line, as \<open>WriteHeaders\<close> builds it.\<close>

fun query_text :: "bool \<Rightarrow> (string \<times> string) list \<Rightarrow> string" where
  "query_text first [] = []"
| "query_text first ((k, v) # q) = (if first then ''?'' else ''&'') @ k @ ''='' @ v @ query_text False q"

definition request_line :: "request \<Rightarrow> string" where
  "request_line r =
     rq_method r @ '' '' @ rq_selector r @ query_text True (rq_query r) @ '' HTTP/1.1'' @ crlf"

fun trailers_text :: "bool \<Rightarrow> string list \<Rightarrow> string" where
  "trailers_text first [] = []"
| "trailers_text first (t # ts) = (if first then [] else '', '') @ t @ trailers_text False ts"

definition field_line :: "string \<times> string \<Rightarrow> string" where
  "field_line e = fst e @ '': '' @ snd e @ crlf"

definition request_headers :: "request \<Rightarrow> string list" where
  "request_headers r =
     [request_line r] @
     (if rq_content_length r \<ge> 0 then [''Content-Length: '' @ show_int (rq_content_length r) @ crlf]
      else [''Transfer-encoding: chunked'' @ crlf] @
        (if rq_trailers r \<noteq> [] then [''Trailers: '' @ trailers_text True (rq_trailers r) @ crlf] else [])) @
     map field_line (rq_fields r) @ [crlf]"

definition WriteHeaders :: "request \<Rightarrow> conn \<Rightarrow> (hcode \<times> conn) option" where
  "WriteHeaders r c = do {
     (e, c') \<leftarrow> conn_send_iov (map bytes_of (request_headers r)) c;
     Some (if e \<noteq> None then H_NetworkError else H_OK, c')
   }"

text \<open>The three slices of a chunk.\<close>

definition chunk_iov :: "bytes \<Rightarrow> bytes list" where
  "chunk_iov buf = [bytes_of (show_hex (length buf) @ crlf), buf, bytes_of crlf]"

definition Request_Write :: "bytes \<Rightarrow> request \<Rightarrow> conn \<Rightarrow> (hcode \<times> request \<times> conn) option" where
  "Request_Write buf r c =
     (if buf = [] then Some (H_OK, r, c)
      else do {
        (e, c') \<leftarrow> (if rq_content_length r > 0 then conn_send buf c else conn_send_iov (chunk_iov buf) c);
        if e = None then Some (H_OK, r\<lparr>rq_sent := rq_sent r + int (length buf)\<rparr>, c')
        else Some (H_NetworkError, r, c')
      })"

text \<open>The trailers that are sent: those that have a field.\<close>

definition trailer_lines :: "request \<Rightarrow> string list" where
  "trailer_lines r =
     concat (map (\<lambda>k. case om_get (rq_fields r) k of None \<Rightarrow> [] | Some v \<Rightarrow> [field_line (k, v)])
       (rq_trailers r))"

definition FinishRequest :: "request \<Rightarrow> conn \<Rightarrow> (hcode \<times> conn) option" where
  "FinishRequest r c =
     (if rq_content_length r \<ge> 0 then
        Some (if rq_sent r \<noteq> rq_content_length r then H_ClientError else H_OK, c)
      else do {
        (e, c1) \<leftarrow> conn_send (bytes_of (''0'' @ crlf @ crlf)) c;
        if e \<noteq> None then Some (H_NetworkError, c1)
        else do {
          (e2, c2) \<leftarrow> conn_send_iov (map bytes_of (trailer_lines r)) c1;
          Some (if e2 \<noteq> None then H_NetworkError else H_OK, c2)
        }
      })"

text \<open>The body of a request: writes as long as they succeed.\<close>

fun write_all :: "bytes list \<Rightarrow> request \<Rightarrow> conn \<Rightarrow> (hcode \<times> request \<times> conn) option" where
  "write_all [] r c = Some (H_OK, r, c)"
| "write_all (b # bs) r c = do {
     (e, r', c') \<leftarrow> Request_Write b r c;
     if e = H_OK then write_all bs r' c' else Some (e, r', c')
   }"

section \<open>The chunked encoding\<close>

text \<open>The size line of a chunk, then what follows it.\<close>

definition chunk_size :: "bytes \<Rightarrow> (nat \<times> bytes) option" where
  "chunk_size bs =
     (let h = takeWhile (\<lambda>b. b \<noteq> 13) bs; t = dropWhile (\<lambda>b. b \<noteq> 13) bs in
      case scan_nat 16 0 (string_of h) of
        (n, rest) \<Rightarrow> if h \<noteq> [] \<and> rest = [] \<and> take 2 t = [13, 10] then Some (n, drop 2 t) else None)"

text \<open>Body and unread rest; no trailer is expected.\<close>

fun dechunk :: "nat \<Rightarrow> bytes \<Rightarrow> (bytes \<times> bytes) option" where
  "dechunk 0 bs = None"
| "dechunk (Suc fuel) bs = do {
     (n, t) \<leftarrow> chunk_size bs;
     if n = 0 then (if take 2 t = [13, 10] then Some ([], drop 2 t) else None)
     else if take 2 (drop n t) = [13, 10] then do {
       (body, rest) \<leftarrow> dechunk fuel (drop (n + 2) t);
       Some (take n t @ body, rest)
     }
     else None
   }"

lemma bytes_of_crlf: "bytes_of crlf = [13, 10]"
  by (simp add: bytes_of_def crlf_def)

lemma bytes_of_show_hex: "b \<in> set (bytes_of (show_hex n)) \<Longrightarrow> b \<noteq> 13"
proof -
  assume "b \<in> set (bytes_of (show_hex n))"
  then obtain c where c: "c \<in> set (show_hex n)" "b = word_of_nat (of_char c)"
    by (auto simp: bytes_of_def)
  from show_base_digits [OF _ _ c(1)] obtain d where "d < 16" "c = digit_char d" by auto
  then have "c \<noteq> CHR 0x0D" by simp
  moreover have "char_of (13 :: nat) = CHR 0x0D" by code_simp
  ultimately have "of_char c \<noteq> (13 :: nat)" by (metis char_of_char)
  moreover have "unat b = of_char c" using c(2) by simp
  ultimately show "b \<noteq> 13" by auto
qed


lemma chunk_size_line: "chunk_size (bytes_of (show_hex n @ crlf) @ t) = Some (n, t)"
proof -
  let ?h = "bytes_of (show_hex n)"
  have nz: "\<forall>b \<in> set ?h. b \<noteq> 13" using bytes_of_show_hex by blast
  have "?h \<noteq> []" by (simp add: bytes_of_def)
  moreover have "takeWhile (\<lambda>b. b \<noteq> 13) (?h @ 13 # 10 # t) = ?h"
    using nz by (subst takeWhile_append2) auto
  moreover have "dropWhile (\<lambda>b. b \<noteq> 13) (?h @ 13 # 10 # t) = 13 # 10 # t"
    using nz by (subst dropWhile_append2) auto
  moreover have "scan_nat 16 0 (show_hex n) = (n, [])"
    using scan_nat_show [of 16 "[]" n] by simp
  ultimately show ?thesis
    by (simp add: chunk_size_def Let_def bytes_of_crlf)
qed

lemma dechunk_chunk:
  assumes "b \<noteq> []"
  shows "dechunk (Suc fuel) (concat (chunk_iov b) @ t) =
    map_option (\<lambda>(body, rest). (b @ body, rest)) (dechunk fuel t)"
proof -
  have "concat (chunk_iov b) @ t = bytes_of (show_hex (length b) @ crlf) @ b @ [13, 10] @ t"
    by (simp add: chunk_iov_def bytes_of_crlf)
  then have "chunk_size (concat (chunk_iov b) @ t) = Some (length b, b @ [13, 10] @ t)"
    using chunk_size_line [of "length b" "b @ [13, 10] @ t"] by simp
  with assms show ?thesis by (cases "dechunk fuel t") auto
qed

lemma dechunk_last: "dechunk (Suc fuel) (bytes_of (''0'' @ crlf @ crlf) @ t) = Some ([], t)"
proof -
  have "digit_char 0 = CHR ''0''" by code_simp
  then have "show_hex 0 = ''0''" by (simp add: show_base.simps)
  then have "chunk_size (bytes_of (''0'' @ crlf) @ [13, 10] @ t) = Some (0, [13, 10] @ t)"
    using chunk_size_line [of 0 "[13, 10] @ t"] by simp
  moreover have "bytes_of (''0'' @ crlf @ crlf) @ t = bytes_of (''0'' @ crlf) @ [13, 10] @ t"
    by (simp add: bytes_of_def crlf_def)
  ultimately show ?thesis by simp
qed

lemma dechunk_chunks:
  "dechunk (Suc (length bss)) (concat (map (\<lambda>b. if b = [] then [] else concat (chunk_iov b)) bss) @
     bytes_of (''0'' @ crlf @ crlf) @ t) = Some (concat bss, t)"
proof (induction bss)
  case Nil
  show ?case using dechunk_last [of 0 t] by simp
next
  case (Cons b bss)
  show ?case
  proof (cases "b = []")
    case True
    have "dechunk n bs = Some r \<Longrightarrow> dechunk (Suc n) bs = Some r" for n bs r
    proof (induction n arbitrary: bs r)
      case (Suc n)
      from Suc.prems show ?case
        by (subst dechunk.simps, subst (asm) dechunk.simps)
          (auto split: bind_splits if_splits simp: Suc.IH simp del: dechunk.simps)
    qed simp
    with Cons True show ?thesis by simp
  next
    case False
    with Cons show ?thesis using dechunk_chunk [OF False] by (simp del: dechunk.simps)
  qed
qed

text \<open>What a sequence of writes leaves on the wire and in the request, when all of them succeed.\<close>

lemma Request_Write_OK:
  assumes "Request_Write b r c = Some (H_OK, r', c')"
  shows "r' = r\<lparr>rq_sent := rq_sent r + int (length b)\<rparr> \<and>
    wire c' = wire c @ (if rq_content_length r > 0 \<or> b = [] then b else concat (chunk_iov b))"
proof (cases "b = []")
  case True
  with assms show ?thesis by (auto simp: Request_Write_def)
next
  case b: False
  show ?thesis
  proof (cases "rq_content_length r > 0")
    case True
    with assms b have "conn_send b c = Some (None, c')" "r' = r\<lparr>rq_sent := rq_sent r + int (length b)\<rparr>"
      by (auto simp: Request_Write_def split: bind_splits if_splits)
    with cn_buf.send_prefix [of b c None c'] True show ?thesis by auto
  next
    case False
    with assms b have "conn_send_iov (chunk_iov b) c = Some (None, c')"
      "r' = r\<lparr>rq_sent := rq_sent r + int (length b)\<rparr>"
      by (auto simp: Request_Write_def split: bind_splits if_splits)
    with cn_iov.send_prefix [of "chunk_iov b" c None c'] False b show ?thesis by auto
  qed
qed

lemma write_all_OK:
  assumes "write_all bss r c = Some (H_OK, r', c')"
  shows "r' = r\<lparr>rq_sent := rq_sent r + int (length (concat bss))\<rparr> \<and>
    wire c' = wire c @ concat (map (\<lambda>b. if rq_content_length r > 0 \<or> b = [] then b
      else concat (chunk_iov b)) bss)"
  using assms
proof (induction bss arbitrary: r c)
  case (Cons b bss)
  from Cons.prems obtain r1 c1 where 1: "Request_Write b r c = Some (H_OK, r1, c1)"
    "write_all bss r1 c1 = Some (H_OK, r', c')"
    by (auto split: bind_splits if_splits)
  from Request_Write_OK [OF 1(1)] Cons.IH [OF 1(2)] show ?case by (auto simp: if_distrib)
qed simp

lemma http_chunked_body_nil:
  assumes "rq_content_length r < 0" and "FinishRequest r c = Some (H_OK, c')"
  shows "\<exists>w. wire c' = wire c @ w \<and> dechunk 1 w = Some ([], bytes_of (concat (trailer_lines r)))"
proof -
  from assms obtain c1 where
    f: "conn_send (bytes_of (''0'' @ crlf @ crlf)) c = Some (None, c1)"
    "conn_send_iov (map bytes_of (trailer_lines r)) c1 = Some (None, c')"
    by (auto simp: FinishRequest_def split: bind_splits if_splits)
  from cn_buf.send_prefix [OF f(1)] cn_iov.send_prefix [OF f(2)]
  have "wire c' = wire c @ bytes_of (''0'' @ crlf @ crlf) @ bytes_of (concat (trailer_lines r))"
    by (auto simp: bytes_of_concat)
  with dechunk_last [of 0 "bytes_of (concat (trailer_lines r))"] show ?thesis by auto
qed

section \<open>Properties\<close>

text \<open>C9. A request with chunked encoding, when every call answers OK: read back by the grammar
  of the encoding, the wire carries exactly the bytes written, in order, whatever the sizes of the
  writes (empty ones included).  The trailers, though, are sent after the end of the message: they
  are what is left on the wire.\<close>

theorem http_chunked_body:
  assumes "rq_content_length r < 0"
    and "write_all bss r c = Some (H_OK, r', c')" and "FinishRequest r' c' = Some (H_OK, c'')"
  shows "\<exists>w. wire c'' = wire c @ w \<and>
    dechunk (Suc (length bss)) w = Some (concat bss, bytes_of (concat (trailer_lines r)))"
proof -
  from write_all_OK [OF assms(2)] assms(1) have w: "r' = r\<lparr>rq_sent := rq_sent r + int (length (concat bss))\<rparr>"
    "wire c' = wire c @ concat (map (\<lambda>b. if b = [] then [] else concat (chunk_iov b)) bss)"
    by (auto intro!: arg_cong [where f = concat] map_cong)
  from assms(1,3) w(1) obtain c1 where
    f: "conn_send (bytes_of (''0'' @ crlf @ crlf)) c' = Some (None, c1)"
    "conn_send_iov (map bytes_of (trailer_lines r')) c1 = Some (None, c'')"
    by (auto simp: FinishRequest_def split: bind_splits if_splits)
  have "trailer_lines r' = trailer_lines r" unfolding w(1) by (simp add: trailer_lines_def)
  with cn_buf.send_prefix [OF f(1)] cn_iov.send_prefix [OF f(2)]
  have "wire c'' = wire c' @ bytes_of (''0'' @ crlf @ crlf) @ bytes_of (concat (trailer_lines r))"
    by (auto simp: bytes_of_concat)
  with w(2) dechunk_chunks [of bss "bytes_of (concat (trailer_lines r))"] show ?thesis by auto
qed

definition open_conn :: "bytes \<Rightarrow> rd_ev list \<Rightarrow> wr_ev list \<Rightarrow> conn" where
  "open_conn inp rd wr = \<lparr>cn_open = True,
     cn_chan = \<lparr>ch_in = inp, ch_out = [], ch_rd = rd, ch_wr = wr\<rparr>, cn_next = []\<rparr>"

theorem http_chunked_body_witness:
  "\<exists>r' c' c'' w. write_all [[1, 2], [], [3]] Request (open_conn [] [] [Wr_n 99, Wr_n 99, Wr_n 99]) = Some (H_OK, r', c') \<and>
    FinishRequest r' c' = Some (H_OK, c'') \<and> wire c'' = wire (open_conn [] [] [Wr_n 99, Wr_n 99, Wr_n 99]) @ w \<and>
    dechunk 4 w = Some ([1, 2, 3], [])"
proof -
  have w: "\<exists>r' c' c''. write_all [[1, 2], [], [3]] Request (open_conn [] [] [Wr_n 99, Wr_n 99, Wr_n 99]) = Some (H_OK, r', c') \<and>
      FinishRequest r' c' = Some (H_OK, c'')"
    by (simp add: Request_Write_def Request_def open_conn_def conn_send_iov_one
        chunk_iov_def show_base.simps crlf_def FinishRequest_def conn_send_one trailer_lines_def)
  then obtain r' c' c'' where 1: "write_all [[1, 2], [], [3]] Request (open_conn [] [] [Wr_n 99, Wr_n 99, Wr_n 99]) = Some (H_OK, r', c')"
    "FinishRequest r' c' = Some (H_OK, c'')" by blast
  have "rq_content_length Request < 0" "bytes_of (concat (trailer_lines Request)) = []"
    by (simp_all add: Request_def trailer_lines_def)
  with http_chunked_body [OF _ 1] 1 show ?thesis by (auto simp: numeral_eq_Suc)
qed

text \<open>With an announced length, the body goes out as it is and \<open>FinishRequest\<close> answers OK exactly
  when as many bytes as announced were sent over the life of the object, the count never being
  reset; announced as empty, a body is nevertheless sent, in the framing of chunks.\<close>

theorem http_content_length:
  assumes "rq_content_length r \<ge> 0" and "write_all bss r c = Some (H_OK, r', c')"
  shows "wire c' = wire c @ (if rq_content_length r > 0 then concat bss
      else concat (map (\<lambda>b. if b = [] then [] else concat (chunk_iov b)) bss))
    \<and> FinishRequest r' c' = Some (if rq_sent r + int (length (concat bss)) = rq_content_length r
        then H_OK else H_ClientError, c')"
  using write_all_OK [OF assms(2)] assms(1)
  by (auto simp: FinishRequest_def intro!: arg_cong [where f = concat] map_cong)

theorem http_content_length_witness:
  "\<exists>r' c'. write_all [[7]] (Request_ContentLength 0 Request) (open_conn [] [] [Wr_n 99]) = Some (H_OK, r', c')
    \<and> wire c' = concat (chunk_iov [7]) \<and> FinishRequest r' c' = Some (H_ClientError, c')"
proof -
  let ?r = "Request_ContentLength 0 Request" and ?c = "open_conn [] [] [Wr_n 99]"
  obtain r' c' where w: "write_all [[7]] ?r ?c = Some (H_OK, r', c')"
    by (simp add: Request_Write_def Request_def Request_ContentLength_def open_conn_def
        conn_send_iov_one chunk_iov_def show_base.simps crlf_def)
  from http_content_length [OF _ w] w show ?thesis
    by (auto simp: Request_ContentLength_def Request_def wire_def open_conn_def)
qed

end
