(* ===== verification/Http_Reply.thy ===== *)
theory Http_Reply
  imports Http_Request
begin

text \<open>
  The HTTP replies and the small calls of \<open>src/src/utils/http.hpp\<close> and \<open>http.cpp\<close>.  The HTTP parser
  is the third-party \<open>http_parser\<close>: a parameter \<open>hp\<close>, which maps its state and the bytes it is given
  to the callbacks it makes, in order, the number of bytes it has used, and its next state.  The
  callbacks are those of the source.  A failed assertion, and a read that has not returned yet, are
  \<open>None\<close>.  A slice of the body is its bytes; the input buffer is the part of it not parsed yet.
\<close>

datatype hevent = Ev_begin | Ev_field string | Ev_value string | Ev_headers_complete
  | Ev_body bytes | Ev_complete | Ev_chunk_header | Ev_chunk_complete

record 'p http_parser =
  hp_init :: 'p
  hp_execute :: "'p \<Rightarrow> bytes \<Rightarrow> hevent list \<times> nat \<times> 'p"
  hp_status_code :: "'p \<Rightarrow> nat"

datatype rstep = Beginning | Headers | Body | R_Done

fun rstep_number :: "rstep \<Rightarrow> nat" where
  "rstep_number Beginning = 0"
| "rstep_number Headers = 1"
| "rstep_number Body = 2"
| "rstep_number R_Done = 3"

fun show_rstep :: "rstep \<Rightarrow> string" where
  "show_rstep Beginning = ''Beginning/0''"
| "show_rstep Headers = ''Headers/1''"
| "show_rstep Body = ''Body/2''"
| "show_rstep R_Done = ''Done/3''"

instantiation rstep :: linorder
begin

definition less_eq_rstep :: "rstep \<Rightarrow> rstep \<Rightarrow> bool" where
  "less_eq_rstep a b = (rstep_number a \<le> rstep_number b)"

definition less_rstep :: "rstep \<Rightarrow> rstep \<Rightarrow> bool" where
  "less_rstep a b = (rstep_number a < rstep_number b)"

instance
proof
  fix x y :: rstep
  show "x \<le> y \<Longrightarrow> y \<le> x \<Longrightarrow> x = y"
    by (cases x; cases y) (simp_all add: less_eq_rstep_def)
qed (auto simp: less_eq_rstep_def less_rstep_def)

end

lemma rstep_order [simp]:
  "s \<le> Headers \<longleftrightarrow> s = Beginning \<or> s = Headers" "s < R_Done \<longleftrightarrow> s \<noteq> R_Done"
  "Headers < s \<longleftrightarrow> s = Body \<or> s = R_Done"
  by (cases s; simp add: less_eq_rstep_def less_rstep_def)+

record 'p reply =
  rp_fields :: "(string, string) omap"
  rp_content_length :: int
  rp_received :: int
  rp_step :: rstep
  rp_tmp :: string
  rp_body :: "bytes list"
  rp_bufsize :: nat
  rp_pending :: bytes
  rp_parser :: 'p

definition Reply :: "'p http_parser \<Rightarrow> 'p reply" where
  "Reply hp = \<lparr>rp_fields = [], rp_content_length = - 1, rp_received = 0, rp_step = Beginning,
     rp_tmp = [], rp_body = [], rp_bufsize = 2048, rp_pending = [], rp_parser = hp_init hp\<rparr>"

definition Context_Reset :: "'p http_parser \<Rightarrow> 'p reply \<Rightarrow> 'p reply" where
  "Context_Reset hp r = r\<lparr>rp_step := Beginning, rp_fields := [], rp_body := [], rp_bufsize := 2048,
     rp_received := 0, rp_content_length := - 1, rp_parser := hp_init hp\<rparr>"

section \<open>Callbacks\<close>

definition on_reply_begin :: "'p reply \<Rightarrow> 'p reply option" where
  "on_reply_begin r = (if rp_step r = Beginning then Some (r\<lparr>rp_step := Headers\<rparr>) else None)"

definition on_header_field :: "string \<Rightarrow> 'p reply \<Rightarrow> 'p reply option" where
  "on_header_field b r = (if rp_step r = Headers then Some (r\<lparr>rp_tmp := b\<rparr>) else None)"

definition on_header_value :: "string \<Rightarrow> 'p reply \<Rightarrow> 'p reply option" where
  "on_header_value b r =
     (if rp_step r = Headers then Some (r\<lparr>rp_fields := om_put (rp_tmp r) b (rp_fields r)\<rparr>) else None)"

definition on_headers_complete :: "'p reply \<Rightarrow> 'p reply option" where
  "on_headers_complete r =
     (if rp_step r = Headers then
        Some (r\<lparr>rp_step := Body,
          rp_bufsize := (if rp_content_length r > 32 * 1024 \<or> rp_content_length r < 0 then 128 * 1024
            else if rp_content_length r > 2048 then 8192 else rp_bufsize r)\<rparr>)
      else None)"

definition on_body :: "bytes \<Rightarrow> 'p reply \<Rightarrow> 'p reply option" where
  "on_body b r = (if rp_step r = Body then Some (r\<lparr>rp_body := rp_body r @ [b]\<rparr>) else None)"

definition on_reply_complete :: "'p reply \<Rightarrow> 'p reply option" where
  "on_reply_complete r = (if rp_step r = Body then Some (r\<lparr>rp_step := R_Done\<rparr>) else None)"

definition on_chunk_header :: "'p reply \<Rightarrow> 'p reply option" where
  "on_chunk_header r = (if rp_step r = Body then Some r else None)"

definition on_chunk_complete :: "'p reply \<Rightarrow> 'p reply option" where
  "on_chunk_complete r = (if rp_step r = Body then Some r else None)"

text \<open>The settings: which callback answers which event.\<close>

fun on_event :: "hevent \<Rightarrow> 'p reply \<Rightarrow> 'p reply option" where
  "on_event Ev_begin r = on_reply_begin r"
| "on_event (Ev_field b) r = on_header_field b r"
| "on_event (Ev_value b) r = on_header_value b r"
| "on_event Ev_headers_complete r = on_headers_complete r"
| "on_event (Ev_body b) r = on_body b r"
| "on_event Ev_complete r = on_reply_complete r"
| "on_event Ev_chunk_header r = on_chunk_header r"
| "on_event Ev_chunk_complete r = on_chunk_complete r"

fun on_events :: "hevent list \<Rightarrow> 'p reply \<Rightarrow> 'p reply option" where
  "on_events [] r = Some r"
| "on_events (e # es) r = do { r' \<leftarrow> on_event e r; on_events es r' }"

section \<open>Reading\<close>

text \<open>
  \<open>Socket::read\<close> answers \<open>-2\<close> when the peer has closed: the branch of \<open>consumeInput\<close> for a result
  of 0, which tells the parser about the end of the input, is never taken.
\<close>

definition fill :: "'p reply \<Rightarrow> conn \<Rightarrow> (hcode \<times> 'p reply \<times> conn) option" where
  "fill r c =
     (if rp_pending r \<noteq> [] then Some (H_OK, r, c)
      else case conn_read (rp_bufsize r) c of
        None \<Rightarrow> None
      | Some (Got b, c') \<Rightarrow> Some (H_OK, r\<lparr>rp_pending := b\<rparr>, c')
      | Some (_, c') \<Rightarrow> Some (H_NetworkError, r, c'))"

definition consumeInput :: "'p http_parser \<Rightarrow> 'p reply \<Rightarrow> conn \<Rightarrow> (hcode \<times> 'p reply \<times> conn) option" where
  "consumeInput hp r c =
     (if rp_body r \<noteq> [] then None
      else case fill r c of
        None \<Rightarrow> None
      | Some (e, r1, c1) \<Rightarrow>
          if e \<noteq> H_OK then Some (e, r1, c1)
          else (case hp_execute hp (rp_parser r1) (rp_pending r1) of
            (evs, done, p) \<Rightarrow>
              (case on_events evs (r1\<lparr>rp_parser := p\<rparr>) of
                 None \<Rightarrow> None
               | Some r2 \<Rightarrow>
                   if done > 0 then Some (H_OK, r2\<lparr>rp_pending := drop done (rp_pending r1)\<rparr>, c1)
                   else Some (H_ServerError, r2, c1))))"

text \<open>What is still to be parsed, here and at the peer, shrinks with every success.\<close>

definition input_left :: "'p reply \<Rightarrow> conn \<Rightarrow> nat" where
  "input_left r c = length (unread_of c) + length (rp_pending r)"

lemma Socket_read_Got:
  "Socket_read len evs inp = Some (Got b, inp', evs') \<Longrightarrow> inp = b @ inp' \<and> b \<noteq> []"
  by (induction len evs inp rule: Socket_read.induct)
    (auto simp: Let_def delivered_def min_def max_def split: if_splits)

lemma conn_read_Got:
  "conn_read len c = Some (Got b, c') \<Longrightarrow> unread_of c = b @ unread_of c' \<and> b \<noteq> [] \<and> cn_open c' \<and> wire c' = wire c"
  by (auto simp: conn_read_def chan_read_def unread_of_def wire_def split: option.splits if_splits
      dest: Socket_read_Got)

lemma fill_OK:
  "fill r c = Some (H_OK, r', c') \<Longrightarrow> rp_pending r' \<noteq> [] \<and> input_left r' c' = input_left r c
    \<and> r' = r\<lparr>rp_pending := rp_pending r'\<rparr>"
  by (auto simp: fill_def input_left_def split: option.splits prod.splits rd_result.splits if_splits
      dest!: conn_read_Got)

lemma on_event_pending: "on_event e r = Some r' \<Longrightarrow> rp_pending r' = rp_pending r \<and> rp_parser r' = rp_parser r"
  by (cases e) (auto simp: on_reply_begin_def on_header_field_def on_header_value_def
      on_headers_complete_def on_body_def on_reply_complete_def on_chunk_header_def
      on_chunk_complete_def split: if_splits)

lemma on_events_pending:
  "on_events es r = Some r' \<Longrightarrow> rp_pending r' = rp_pending r \<and> rp_parser r' = rp_parser r"
  by (induction es arbitrary: r) (auto split: bind_splits dest: on_event_pending)

lemma consumeInput_less:
  assumes "consumeInput hp r c = Some (H_OK, r', c')"
  shows "input_left r' c' < input_left r c"
proof -
  from assms obtain r1 n where 1: "fill r c = Some (H_OK, r1, c')"
    and r': "0 < n" "rp_pending r' = drop n (rp_pending r1)"
    by (auto simp: consumeInput_def split: option.splits prod.splits if_splits)
  from fill_OK [OF 1] have "0 < length (rp_pending r1)" "input_left r1 c' = input_left r c" by simp_all
  with r'(1) show ?thesis unfolding input_left_def r'(2) length_drop by linarith
qed

function ReadHeaders_loop :: "'p http_parser \<Rightarrow> 'p reply \<Rightarrow> conn \<Rightarrow> (hcode \<times> 'p reply \<times> conn) option" where
  "ReadHeaders_loop hp r c =
     (if rp_step r \<le> Headers then
        (case consumeInput hp r c of
           None \<Rightarrow> None
         | Some (rc, r', c') \<Rightarrow> if rc \<noteq> H_OK then Some (rc, r', c') else ReadHeaders_loop hp r' c')
      else Some (H_OK, r, c))"
  by pat_completeness auto
termination
  by (relation "measure (\<lambda>(hp, r, c). input_left r c)") (auto dest: consumeInput_less)

definition ReadHeaders :: "'p http_parser \<Rightarrow> 'p reply \<Rightarrow> conn \<Rightarrow> (hcode \<times> 'p reply \<times> conn) option" where
  "ReadHeaders hp r c = (if rp_step r > Headers then Some (H_ClientError, r, c) else ReadHeaders_loop hp r c)"

fun GetHeaders_loop :: "(string \<times> string) list \<Rightarrow> string \<Rightarrow> (string, string) omap \<Rightarrow> (string, string) omap" where
  "GetHeaders_loop [] prefix data = data"
| "GetHeaders_loop ((k, v) # es) prefix data =
     GetHeaders_loop es prefix
       (case find_str prefix k of
          None \<Rightarrow> data
        | Some pos \<Rightarrow> om_put (drop (pos + length prefix) k) v data)"

definition GetHeaders :: "'p reply \<Rightarrow> string \<Rightarrow> (string, string) omap \<Rightarrow> hcode \<times> (string, string) omap" where
  "GetHeaders r prefix data = (H_OK, GetHeaders_loop (rp_fields r) prefix data)"

text \<open>\<open>ReadBody\<close>: the code, the slice, the reply and the connection.\<close>

function ReadBody :: "'p http_parser \<Rightarrow> 'p reply \<Rightarrow> conn \<Rightarrow> (hcode \<times> bytes \<times> 'p reply \<times> conn) option" where
  "ReadBody hp r c =
     (case rp_body r of
        b # bs \<Rightarrow> Some (H_OK, b, r\<lparr>rp_body := bs\<rparr>, c)
      | [] \<Rightarrow>
          if rp_step r = R_Done then Some (H_Done, [], r, c)
          else if rp_step r \<noteq> Body then Some (H_ClientError, [], r, c)
          else (case consumeInput hp r c of
            None \<Rightarrow> None
          | Some (rc, r', c') \<Rightarrow> if rc \<noteq> H_OK then Some (rc, [], r', c') else ReadBody hp r' c'))"
  by pat_completeness auto
termination
  by (relation "measure (\<lambda>(hp, r, c). input_left r c)") (auto dest: consumeInput_less)

declare ReadHeaders_loop.simps [simp del] ReadBody.simps [simp del]

definition AppendBody :: "'p http_parser \<Rightarrow> bytes \<Rightarrow> 'p reply \<Rightarrow> conn \<Rightarrow>
    (hcode \<times> bytes \<times> 'p reply \<times> conn) option" where
  "AppendBody hp out r c =
     (case ReadBody hp r c of
        None \<Rightarrow> None
      | Some (rc, sl, r', c') \<Rightarrow> Some (rc, if rc \<noteq> H_OK then out else out @ sl, r', c'))"

function Skip_loop :: "'p http_parser \<Rightarrow> 'p reply \<Rightarrow> conn \<Rightarrow> ('p reply \<times> conn) option" where
  "Skip_loop hp r c =
     (if rp_step r < R_Done then
        (case consumeInput hp r c of
           None \<Rightarrow> None
         | Some (rc, r', c') \<Rightarrow> if rc \<noteq> H_OK then Some (r', c') else Skip_loop hp r' c')
      else Some (r, c))"
  by pat_completeness auto
termination
  by (relation "measure (\<lambda>(hp, r, c). input_left r c)") (auto dest: consumeInput_less)

declare Skip_loop.simps [simp del]

definition Skip :: "'p http_parser \<Rightarrow> 'p reply \<Rightarrow> conn \<Rightarrow> ('p reply \<times> conn) option" where
  "Skip hp r c = do { (r', c') \<leftarrow> Skip_loop hp r c; Some (Context_Reset hp r', c') }"

text \<open>Every slice that is served, or the input it needed, is used up.\<close>

lemma ReadBody_less:
  "ReadBody hp r c = Some (H_OK, b, r', c') \<Longrightarrow>
    input_left r' c' < input_left r c \<or>
    input_left r' c' = input_left r c \<and> length (rp_body r') < length (rp_body r)"
proof (induction hp r c rule: ReadBody.induct)
  case (1 hp r c)
  show ?case
  proof (cases "rp_body r")
    case (Cons x xs)
    with "1.prems" show ?thesis by (auto simp: ReadBody.simps [of hp r] input_left_def)
  next
    case Nil
    with "1.prems" obtain r1 c1 where s: "rp_step r \<noteq> R_Done" "\<not> rp_step r \<noteq> Body"
      "consumeInput hp r c = Some (H_OK, r1, c1)" "ReadBody hp r1 c1 = Some (H_OK, b, r', c')"
      by (auto simp: ReadBody.simps [of hp r] split: if_splits option.splits)
    from "1.IH" [OF Nil s(1,2,3) refl _ _ s(4)] consumeInput_less [OF s(3)] show ?thesis by auto
  qed
qed

section \<open>Calls\<close>

text \<open>The loop of \<open>Run\<close> over the body.\<close>

function read_all :: "'p http_parser \<Rightarrow> bytes \<Rightarrow> 'p reply \<Rightarrow> conn \<Rightarrow> (hcode \<times> bytes \<times> 'p reply \<times> conn) option" where
  "read_all hp tmp r c =
     (case AppendBody hp tmp r c of
        None \<Rightarrow> None
      | Some (rc, tmp', r', c') \<Rightarrow> if rc = H_OK then read_all hp tmp' r' c' else Some (rc, tmp', r', c'))"
  by pat_completeness auto
termination
  by (relation "measures [\<lambda>(hp, tmp, r, c). input_left r c, \<lambda>(hp, tmp, r, c). length (rp_body r)]")
    (auto simp: AppendBody_def split: option.splits if_splits dest: ReadBody_less)

declare read_all.simps [simp del]

text \<open>\<open>Call::Run\<close>: the code, the output, the request, the reply and the connection.\<close>

definition Call_Run :: "'p http_parser \<Rightarrow> bytes \<Rightarrow> request \<Rightarrow> 'p reply \<Rightarrow> conn \<Rightarrow>
    (hcode \<times> bytes option \<times> request \<times> 'p reply \<times> conn) option" where
  "Call_Run hp body rq0 rp c0 = do {
     let rq = Request_ContentLength (int (length body)) rq0;
     (e1, c1) \<leftarrow> WriteHeaders rq c0;
     if e1 \<noteq> H_OK then Some (e1, None, rq, rp, c1)
     else do {
       (e2, rq2, c2) \<leftarrow> Request_Write body rq c1;
       if e2 \<noteq> H_OK then Some (e2, None, rq2, rp, c2)
       else do {
         (e3, c3) \<leftarrow> FinishRequest rq2 c2;
         if e3 \<noteq> H_OK then Some (e3, None, rq2, rp, c3)
         else do {
           (e4, rp4, c4) \<leftarrow> ReadHeaders hp rp c3;
           if e4 \<noteq> H_OK then Some (H_OK, Some [], rq2, rp4, c4)
           else do {
             (e5, tmp, rp5, c5) \<leftarrow> read_all hp [] rp4 c4;
             Some (H_OK, Some tmp, rq2, rp5, c5)
           }
         }
       }
     }
   }"

definition Call_GetReplyHeaders :: "'p reply \<Rightarrow> string \<Rightarrow> (string, string) omap \<Rightarrow>
    hcode \<times> (string, string) omap" where
  "Call_GetReplyHeaders rp prefix data = GetHeaders rp prefix data"

record parameters =
  pm_method :: string
  pm_selector :: string
  pm_body_in :: bytes
  pm_header_in :: "(string, string) omap"
  pm_header_out :: "(string, string) omap option"
  pm_header_out_filter :: string

fun add_fields :: "(string \<times> string) list \<Rightarrow> request \<Rightarrow> request" where
  "add_fields [] r = r"
| "add_fields ((k, v) # es) r = add_fields es (Request_Field k v r)"

text \<open>\<open>Parameters::DoCall\<close>: the code, the body and the headers it gives back, and the connection.\<close>

definition DoCall :: "'p http_parser \<Rightarrow> parameters \<Rightarrow> conn \<Rightarrow>
    (hcode \<times> bytes option \<times> (string, string) omap option \<times> conn) option" where
  "DoCall hp pm c = do {
     let rq = add_fields (pm_header_in pm) (Request_Field ''Connection'' ''keep-alive''
       (Request_Selector (pm_selector pm) (Request_Method (pm_method pm) Request)));
     (rc, out, rq', rp, c') \<leftarrow> Call_Run hp (pm_body_in pm) rq (Reply hp) c;
     Some (case pm_header_out pm of
       None \<Rightarrow> (rc, out, None, c')
     | Some data \<Rightarrow>
         if rc = H_OK then
           (let (rc', data') = Call_GetReplyHeaders rp (pm_header_out_filter pm) data
            in (rc', out, Some data', c'))
         else (rc, out, Some data, c'))
   }"

section \<open>Laws\<close>

text \<open>The body bytes among the events, and a parser that also remembers those it has announced.\<close>

fun bodies :: "hevent list \<Rightarrow> bytes" where
  "bodies [] = []"
| "bodies (Ev_body b # es) = b @ bodies es"
| "bodies (e # es) = bodies es"

definition log_body :: "'p http_parser \<Rightarrow> ('p \<times> bytes) http_parser" where
  "log_body hp = \<lparr>hp_init = (hp_init hp, []),
     hp_execute = (\<lambda>(p, l) bs. case hp_execute hp p bs of (evs, n, p') \<Rightarrow> (evs, n, p', l @ bodies evs)),
     hp_status_code = (\<lambda>(p, l). hp_status_code hp p)\<rparr>"

definition announced :: "('p \<times> bytes) reply \<Rightarrow> bytes" where
  "announced r = snd (rp_parser r)"

lemma on_event_body:
  "on_event e r = Some r' \<Longrightarrow> concat (rp_body r') = concat (rp_body r) @ bodies [e]"
  by (cases e) (auto simp: on_reply_begin_def on_header_field_def on_header_value_def
      on_headers_complete_def on_body_def on_reply_complete_def on_chunk_header_def
      on_chunk_complete_def split: if_splits)

lemma bodies_Cons: "bodies (e # es) = bodies [e] @ bodies es"
  by (cases e) simp_all

lemma on_events_body:
  "on_events es r = Some r' \<Longrightarrow> concat (rp_body r') = concat (rp_body r) @ bodies es"
proof (induction es arbitrary: r)
  case (Cons e es)
  then obtain r1 where "on_event e r = Some r1" "on_events es r1 = Some r'"
    by (auto split: bind_splits)
  with Cons.IH on_event_body [of e r r1] show ?case by (simp add: bodies_Cons [of e es])
qed simp

lemma consumeInput_announced:
  assumes "consumeInput (log_body hp) r c = Some (rc, r', c')"
  shows "rp_body r = [] \<and> announced r' = announced r @ concat (rp_body r')"
proof -
  have body: "rp_body r = []" using assms by (auto simp: consumeInput_def split: if_splits)
  obtain e r1 c1 where f: "fill r c = Some (e, r1, c1)"
    using assms body by (auto simp: consumeInput_def split: option.splits)
  then have r1: "rp_body r1 = []" "rp_parser r1 = rp_parser r"
    using body by (auto simp: fill_def split: option.splits rd_result.splits if_splits)
  show ?thesis
  proof (cases "e = H_OK")
    case False
    with assms body f have "r' = r1" by (auto simp: consumeInput_def)
    with r1 body show ?thesis by (simp add: announced_def)
  next
    case True
    obtain q l where pl: "rp_parser r = (q, l)" by fastforce
    obtain evs n p where x: "hp_execute hp q (rp_pending r1) = (evs, n, p)" by (metis prod_cases3)
    from assms body f True r1 pl x obtain r2 where
      2: "on_events evs (r1\<lparr>rp_parser := (p, l @ bodies evs)\<rparr>) = Some r2"
        "r' = r2 \<or> r' = r2\<lparr>rp_pending := drop n (rp_pending r1)\<rparr>"
      by (auto simp: consumeInput_def log_body_def split: option.splits if_splits)
    from on_events_body [OF 2(1)] on_events_pending [OF 2(1)] r1 2(2) pl body
    show ?thesis by (auto simp: announced_def)
  qed
qed

lemma ReadBody_announced:
  "ReadBody (log_body hp) r c = Some (rc, sl, r', c') \<Longrightarrow> announced r = d @ concat (rp_body r) \<Longrightarrow>
    announced r' = d @ sl @ concat (rp_body r') \<and> (rc \<noteq> H_OK \<longrightarrow> sl = []) \<and>
    (rc = H_Done \<longrightarrow> rp_body r' = [])"
proof (induction "log_body hp" r c arbitrary: d rule: ReadBody.induct)
  case (1 r c)
  show ?case
  proof (cases "rp_body r")
    case (Cons x xs)
    with "1.prems" show ?thesis by (auto simp: ReadBody.simps [of _ r] announced_def)
  next
    case Nil
    show ?thesis
    proof (cases "rp_step r = Body")
      case False
      with Nil "1.prems" show ?thesis
        by (auto simp: ReadBody.simps [of _ r] split: if_splits)
    next
      case True
      then have s: "rp_step r \<noteq> R_Done" "\<not> rp_step r \<noteq> Body" by simp_all
      from "1.prems"(1) Nil s obtain e r1 c1 where
        c: "consumeInput (log_body hp) r c = Some (e, r1, c1)"
        by (auto simp: ReadBody.simps [of _ r] split: option.splits)
      from consumeInput_announced [OF c] "1.prems"(2) Nil
      have a: "announced r1 = d @ concat (rp_body r1)" by simp
      have nd: "e \<noteq> H_Done"
        using c by (auto simp: consumeInput_def fill_def split: option.splits prod.splits if_splits
            rd_result.splits)
      show ?thesis
      proof (cases "e = H_OK")
        case True
        with "1.prems"(1) Nil s c have "ReadBody (log_body hp) r1 c1 = Some (rc, sl, r', c')"
          by (auto simp: ReadBody.simps [of _ r])
        with "1.hyps" [OF Nil s c refl refl _ _ a] True show ?thesis by simp
      next
        case False
        with "1.prems"(1) Nil s c have "rc = e" "sl = []" "r' = r1"
          by (auto simp: ReadBody.simps [of _ r])
        with a nd show ?thesis by simp
      qed
    qed
  qed
qed

lemma read_all_announced:
  "read_all (log_body hp) tmp r c = Some (rc, tmp', r', c') \<Longrightarrow> announced r = tmp @ concat (rp_body r) \<Longrightarrow>
    announced r' = tmp' @ concat (rp_body r') \<and> (rc = H_Done \<longrightarrow> rp_body r' = [])"
proof (induction "log_body hp" tmp r c rule: read_all.induct)
  case (1 tmp r c)
  from "1.prems"(1) obtain e sl r1 c1 where
    b: "ReadBody (log_body hp) r c = Some (e, sl, r1, c1)"
    by (auto simp: read_all.simps [of _ tmp] AppendBody_def split: option.splits)
  from ReadBody_announced [OF b "1.prems"(2)] have a: "announced r1 = tmp @ sl @ concat (rp_body r1)"
    "e \<noteq> H_OK \<longrightarrow> sl = []" "e = H_Done \<longrightarrow> rp_body r1 = []" by auto
  have ab: "AppendBody (log_body hp) tmp r c = Some (e, tmp @ sl, r1, c1)"
    using b a(2) by (simp add: AppendBody_def)
  show ?case
  proof (cases "e = H_OK")
    case True
    with "1.prems"(1) ab have "read_all (log_body hp) (tmp @ sl) r1 c1 = Some (rc, tmp', r', c')"
      by (simp add: read_all.simps [of _ tmp])
    with "1.hyps" [OF ab refl refl refl True] a(1) show ?thesis by simp
  next
    case False
    with "1.prems"(1) ab a show ?thesis by (auto simp: read_all.simps [of _ tmp])
  qed
qed

lemma ReadHeaders_announced:
  "ReadHeaders_loop (log_body hp) r c = Some (rc, r', c') \<Longrightarrow> announced r = concat (rp_body r) \<Longrightarrow>
    announced r' = concat (rp_body r')"
proof (induction "log_body hp" r c rule: ReadHeaders_loop.induct)
  case (1 r c)
  show ?case
  proof (cases "rp_step r \<le> Headers")
    case False
    with "1.prems" show ?thesis by (simp add: ReadHeaders_loop.simps [of _ r])
  next
    case True
    with "1.prems"(1) obtain e r1 c1 where c: "consumeInput (log_body hp) r c = Some (e, r1, c1)"
      by (auto simp: ReadHeaders_loop.simps [of _ r] split: option.splits)
    from consumeInput_announced [OF c] "1.prems"(2) have a: "announced r1 = concat (rp_body r1)" by simp
    show ?thesis
    proof (cases "e = H_OK")
      case False
      with "1.prems"(1) True c a show ?thesis by (simp add: ReadHeaders_loop.simps [of _ r])
    next
      case ok: True
      with "1.prems"(1) True c have "ReadHeaders_loop (log_body hp) r1 c1 = Some (rc, r', c')"
        by (simp add: ReadHeaders_loop.simps [of _ r])
      with "1.hyps" [OF True c refl refl _ _ a] ok show ?thesis by simp
    qed
  qed
qed

section \<open>Properties\<close>

text \<open>A parser that plays a script, for the witnesses.\<close>

definition script_parser :: "nat \<Rightarrow> (hevent list \<times> nat) list \<Rightarrow> (hevent list \<times> nat) list http_parser" where
  "script_parser st script = \<lparr>hp_init = script,
     hp_execute = (\<lambda>p bs. case p of [] \<Rightarrow> ([], 0, []) | (evs, n) # p' \<Rightarrow> (evs, n, p')),
     hp_status_code = (\<lambda>p. st)\<rparr>"

text \<open>C16. For any parser, and however the reply is cut into reads: the slices that \<open>AppendBody\<close>
  collects are, in order and without loss or repetition, the body bytes the parser has announced;
  when the loop ends with \<open>Done\<close> none of them is left in the queue.\<close>

theorem http_reply_body:
  assumes "ReadHeaders (log_body hp) (Reply (log_body hp)) c = Some (H_OK, r1, c1)"
    and "read_all (log_body hp) [] r1 c1 = Some (rc, out, r2, c2)"
  shows "announced r2 = out @ concat (rp_body r2) \<and> (rc = H_Done \<longrightarrow> announced r2 = out)"
proof -
  have "ReadHeaders_loop (log_body hp) (Reply (log_body hp)) c = Some (H_OK, r1, c1)"
    using assms(1) by (simp add: ReadHeaders_def Reply_def split: if_splits)
  from ReadHeaders_announced [OF this] have "announced r1 = [] @ concat (rp_body r1)"
    by (simp add: announced_def Reply_def log_body_def)
  from read_all_announced [OF assms(2) this] show ?thesis by auto
qed

lemmas http_eval = ReadHeaders_def ReadHeaders_loop.simps read_all.simps AppendBody_def ReadBody.simps
  consumeInput_def fill_def conn_read_def chan_read_def delivered_def on_reply_begin_def
  on_header_field_def on_header_value_def on_headers_complete_def on_body_def on_reply_complete_def
  Reply_def script_parser_def open_conn_def

theorem http_reply_body_witness:
  "\<exists>r1 c1 r2 c2. let hp = log_body (script_parser 200
      [([Ev_begin, Ev_headers_complete], 1), ([Ev_body [1, 2]], 1), ([Ev_body [3], Ev_complete], 1)]) in
    ReadHeaders hp (Reply hp) (open_conn [0, 0, 0] [Rd_data 1, Rd_data 9] []) = Some (H_OK, r1, c1) \<and>
    read_all hp [] r1 c1 = Some (H_Done, [1, 2, 3], r2, c2) \<and> announced r2 = [1, 2, 3]"
proof -
  let ?s = "script_parser 200
      [([Ev_begin, Ev_headers_complete], 1), ([Ev_body [1, 2]], 1), ([Ev_body [3], Ev_complete], 1)]"
  let ?hp = "log_body ?s"
  obtain r1 c1 r2 c2 where 1:
    "ReadHeaders ?hp (Reply ?hp) (open_conn [0, 0, 0] [Rd_data 1, Rd_data 9] []) = Some (H_OK, r1, c1)"
    "read_all ?hp [] r1 c1 = Some (H_Done, [1, 2, 3], r2, c2)"
    by (simp add: http_eval log_body_def)
  with http_reply_body [OF 1] show ?thesis by (auto simp: Let_def)
qed

text \<open>The callbacks replace where the parser's contract asks to append (it hands a name or a value
  over in as many pieces as the reads cut it into): a header whose name and value come in two
  pieces each is recorded under the last piece of the name, with the last piece of the value.\<close>

theorem http_split_header_lost:
  assumes "rp_step r = Headers" and "om_inv (rp_fields r)" and "a \<noteq> []"
  shows "\<exists>r'. on_events [Ev_field a, Ev_field b, Ev_value u, Ev_value v] r = Some r' \<and>
    om_get (rp_fields r') b = Some v \<and> om_get (rp_fields r') (a @ b) = om_get (rp_fields r) (a @ b)"
  using assms
  by (auto simp: on_header_field_def on_header_value_def om_get_put om_inv_put)

theorem http_split_header_lost_witness:
  "\<exists>r'. on_events [Ev_field ''Content-'', Ev_field ''Length'', Ev_value ''1'', Ev_value ''0'']
      ((Reply (script_parser 200 []))\<lparr>rp_step := Headers\<rparr>) = Some r' \<and>
    om_get (rp_fields r') ''Length'' = Some ''0'' \<and> om_get (rp_fields r') ''Content-Length'' = None"
  using http_split_header_lost [of "(Reply (script_parser 200 []))\<lparr>rp_step := Headers\<rparr>" "''Content-''"
      "''Length''" "''1''" "''0''"]
  by (simp add: Reply_def)

text \<open>\<open>Call::Run\<close> reports the errors of the request only: once the request is out, it answers
  \<open>OK\<close> whatever happens to the reply.  When the peer closes without answering, the caller gets
  \<open>OK\<close> and an empty body.\<close>

theorem http_run_hides_reply_errors:
  assumes "WriteHeaders (Request_ContentLength (int (length body)) rq) c0 = Some (H_OK, c1)"
    and "Request_Write body (Request_ContentLength (int (length body)) rq) c1 = Some (H_OK, rq2, c2)"
    and "FinishRequest rq2 c2 = Some (H_OK, c3)"
  shows "(Call_Run hp body rq rp c0 = Some (e, out, rq', rp', c') \<longrightarrow> e = H_OK \<and> out \<noteq> None)
    \<and> (ReadHeaders hp rp c3 = Some (H_NetworkError, rp4, c4) \<longrightarrow>
        Call_Run hp body rq rp c0 = Some (H_OK, Some [], rq2, rp4, c4))"
  using assms
  by (auto simp: Call_Run_def Let_def split: bind_splits if_splits)

theorem http_run_hides_reply_errors_witness:
  "\<exists>rq2 rp4 c4. Call_Run (script_parser 200 []) [] Request (Reply (script_parser 200 []))
      (open_conn [] [Rd_eof] [Wr_n 99]) = Some (H_OK, Some [], rq2, rp4, c4)"
proof -
  let ?rq = "Request_ContentLength (int (length ([] :: bytes))) Request" and ?c = "open_conn [] [Rd_eof] [Wr_n 99]"
    and ?hp = "script_parser 200 []"
  obtain c1 where 1: "WriteHeaders ?rq ?c = Some (H_OK, c1)" "cn_open c1" "ch_rd (cn_chan c1) = [Rd_eof]"
    by (simp add: WriteHeaders_def request_headers_def request_line_def Request_ContentLength_def
        Request_def open_conn_def conn_send_iov_one crlf_def show_int_def show_base.simps)
  have 2: "Request_Write [] ?rq c1 = Some (H_OK, ?rq, c1)" by (simp add: Request_Write_def)
  have 3: "FinishRequest ?rq c1 = Some (H_OK, c1)"
    by (simp add: FinishRequest_def Request_ContentLength_def Request_def)
  obtain rp4 c4 where 4: "ReadHeaders ?hp (Reply ?hp) c1 = Some (H_NetworkError, rp4, c4)"
    using 1(2,3) by (simp add: http_eval)
  from http_run_hides_reply_errors [OF 1(1) 2 3, of ?hp "Reply ?hp"] 4 show ?thesis by blast
qed

text \<open>\<open>Skip\<close> discards a reply only when what is left of its body reaches it with the end of the
  reply: as soon as a piece of body comes alone, the next turn of its loop fails the assertion
  that the queue of slices is empty, and the process ends.\<close>

theorem http_skip_assertion:
  assumes "rp_step r = Body" and "rp_body r = []" and "rp_pending r = bs" and "bs \<noteq> []"
    and "hp_execute hp (rp_parser r) bs = ([Ev_body b], n, p)" and "0 < n"
  shows "Skip hp r c = None"
proof -
  let ?r = "r\<lparr>rp_parser := p, rp_body := [b], rp_pending := drop n bs\<rparr>"
  have "consumeInput hp r c = Some (H_OK, ?r, c)"
    using assms by (simp add: consumeInput_def fill_def on_body_def)
  moreover have "consumeInput hp ?r c = None" by (simp add: consumeInput_def)
  ultimately show ?thesis using assms(1)
    by (simp add: Skip_def Skip_loop.simps [of hp r] Skip_loop.simps [of hp ?r])
qed

theorem http_skip_assertion_witness:
  "Skip (script_parser 404 []) ((Reply (script_parser 404 [([Ev_body [65]], 1)]))
      \<lparr>rp_step := Body, rp_pending := [65, 66]\<rparr>) (open_conn [] [] []) = None"
  by (rule http_skip_assertion [where bs = "[65, 66]" and b = "[65]" and n = 1 and p = "[]"])
    (simp_all add: Reply_def script_parser_def)

end
