(* ===== verification/Http_Blob.thy ===== *)
theory Http_Blob
  imports Http_Reply Upload_Contract Download_Contract
begin

text \<open>
  Blobs over HTTP (\<open>src/src/oio/blob/http/blob.hpp\<close>, \<open>blob.cpp\<close>): the removal, upload and download
  objects that put a request and a reply on one connection.  An operation maps the object and the
  connection; \<open>None\<close> is a failed assertion of the HTTP layer, or a call that has not returned.
\<close>

section \<open>Removal\<close>

record 'p http_removal =
  hr_request :: request
  hr_reply :: "'p reply"
  hr_step :: tstep

definition removal_skipAndReturn :: "'p http_parser \<Rightarrow> status \<Rightarrow> 'p http_removal \<times> conn \<Rightarrow>
    (status \<times> 'p http_removal \<times> conn) option" where
  "removal_skipAndReturn hp s = (\<lambda>(h, c). do {
     (rp, c') \<leftarrow> Skip hp (hr_reply h) c;
     Some (s, h\<lparr>hr_reply := rp\<rparr>, Request_Abort c')
   })"

definition status_of_code :: "hcode \<Rightarrow> status" where
  "status_of_code e = (if e = H_NetworkError then status_of NetworkError else status_of InternalError)"

definition HttpRemoval_Prepare :: "'p http_parser \<Rightarrow> ('p http_removal \<times> conn) tx_op" where
  "HttpRemoval_Prepare hp = (\<lambda>(h, c0).
     if hr_step h \<noteq> Init then Some (status_of InternalError, h, c0)
     else do {
       (err, c1) \<leftarrow> (if Request_Connected c0 then Some (None, c0) else conn_Reconnect c0);
       case err of
         Some e \<Rightarrow> Some (Errno e, h, c1)
       | None \<Rightarrow> do {
           (e2, c2) \<leftarrow> WriteHeaders (hr_request h) c1;
           if e2 \<noteq> H_OK then removal_skipAndReturn hp (status_of_code e2) (h, c2)
           else do {
             (e3, rp, c3) \<leftarrow> ReadHeaders hp (hr_reply h) c2;
             let h3 = h\<lparr>hr_reply := rp\<rparr>; let status = hp_status_code hp (rp_parser rp);
             if e3 \<noteq> H_OK \<and> e3 \<noteq> H_ServerError then
               removal_skipAndReturn hp (status_of_code e3) (h3, c3)
             else if status = 100 then do {
               (rp', c4) \<leftarrow> Skip hp rp c3;
               Some (status_ok, h3\<lparr>hr_reply := rp', hr_step := Prepared\<rparr>, c4)
             }
             else removal_skipAndReturn hp
               (status_of (if status = 400 then ProtocolError else if status = 403 then Forbidden
                 else if status = 404 then NotFound else InternalError)) (h3, c3)
           }
         }
     })"

definition HttpRemoval_Commit :: "'p http_parser \<Rightarrow> ('p http_removal \<times> conn) tx_op" where
  "HttpRemoval_Commit hp = (\<lambda>(h0, c0).
     if hr_step h0 \<noteq> Prepared then Some (status_of InternalError, h0, c0)
     else if \<not> Request_Connected c0 then Some (status_of NetworkError, h0, c0)
     else do {
       let h = h0\<lparr>hr_step := Done\<rparr>;
       (e1, c1) \<leftarrow> FinishRequest (hr_request h) c0;
       if e1 \<noteq> H_OK then removal_skipAndReturn hp (status_of_code e1) (h, c1)
       else do {
         (e2, rp, c2) \<leftarrow> ReadHeaders hp (hr_reply h) c1;
         let h2 = h\<lparr>hr_reply := rp\<rparr>; let status = hp_status_code hp (rp_parser rp);
         if e2 \<noteq> H_OK then removal_skipAndReturn hp (status_of_code e2) (h2, c2)
         else if status \<in> {200, 201, 204} then do {
           (rp', c3) \<leftarrow> Skip hp rp c2;
           Some (status_ok, h2\<lparr>hr_reply := rp'\<rparr>, c3)
         }
         else removal_skipAndReturn hp
           (status_of (if status = 403 then Forbidden else if status = 404 then NotFound
             else InternalError)) (h2, c2)
       }
     })"

definition HttpRemoval_Abort :: "('p http_removal \<times> conn) tx_op" where
  "HttpRemoval_Abort = (\<lambda>(h, c).
     if hr_step h \<noteq> Prepared then Some (status_of InternalError, h, c)
     else if \<not> Request_Connected c then Some (status_of NetworkError, h, c)
     else Some (status_ok, h\<lparr>hr_step := Done\<rparr>, Request_Abort c))"

record http_builder =
  hb_name :: string
  hb_host :: string
  hb_fields :: "(string, string) omap"
  hb_trailers :: "string list"

definition Builder_Name :: "string \<Rightarrow> http_builder \<Rightarrow> http_builder" where
  "Builder_Name s b = b\<lparr>hb_name := s\<rparr>"

definition Builder_Host :: "string \<Rightarrow> http_builder \<Rightarrow> http_builder" where
  "Builder_Host s b = b\<lparr>hb_host := s\<rparr>"

definition Builder_Field :: "string \<Rightarrow> string \<Rightarrow> http_builder \<Rightarrow> http_builder" where
  "Builder_Field k v b = b\<lparr>hb_fields := om_put k v (hb_fields b)\<rparr>"

definition Builder_Trailer :: "string \<Rightarrow> http_builder \<Rightarrow> http_builder" where
  "Builder_Trailer k b = b\<lparr>hb_trailers := os_insert k (hb_trailers b)\<rparr>"

fun add_trailers :: "string list \<Rightarrow> request \<Rightarrow> request" where
  "add_trailers [] r = r"
| "add_trailers (t # ts) r = add_trailers ts (Request_Trailer t r)"

definition HttpRemoval_Build :: "'p http_parser \<Rightarrow> http_builder \<Rightarrow> 'p http_removal" where
  "HttpRemoval_Build hp b =
     (let r0 = Request_Field ''Host'' (hb_host b) (Request_Selector (hb_name b)
                 (Request_Method ''DELETE'' Request));
          r1 = Request_Field ''Expect'' ''100-continue'' (Request_ContentLength (- 1) r0)
      in \<lparr>hr_request = add_fields (hb_fields b) (add_trailers (hb_trailers b) r1),
          hr_reply = Reply hp, hr_step = Init\<rparr>)"

section \<open>Upload\<close>

record 'p http_upload =
  hu_request :: request
  hu_reply :: "'p reply"
  hu_step :: tstep

definition HttpUpload_SetXattr :: "string \<Rightarrow> string \<Rightarrow> 'p http_upload \<Rightarrow> 'p http_upload" where
  "HttpUpload_SetXattr k v h =
     (if hu_step h \<noteq> Done then h\<lparr>hu_request := Request_Field k v (hu_request h)\<rparr> else h)"

definition HttpUpload_Prepare :: "('p http_upload \<times> conn) tx_op" where
  "HttpUpload_Prepare = (\<lambda>(h, c).
     if hu_step h \<noteq> Init then Some (status_of InternalError, h, c)
     else do {
       (e, c') \<leftarrow> WriteHeaders (hu_request h) c;
       if e \<noteq> H_OK then Some (status_of_code e, h, c')
       else Some (status_ok, h\<lparr>hu_step := Prepared\<rparr>, c')
     })"

definition HttpUpload_Commit :: "'p http_parser \<Rightarrow> ('p http_upload \<times> conn) tx_op" where
  "HttpUpload_Commit hp = (\<lambda>(h0, c0).
     if hu_step h0 \<noteq> Prepared then Some (status_of InternalError, h0, c0)
     else do {
       let h = h0\<lparr>hu_step := Done\<rparr>;
       (e1, c1) \<leftarrow> FinishRequest (hu_request h) c0;
       if e1 \<noteq> H_OK then Some (status_of_code e1, h, c1)
       else do {
         (e2, rp2, c2) \<leftarrow> ReadHeaders hp (hu_reply h) c1;
         (rp3, c3) \<leftarrow> (if e2 \<noteq> H_OK then Some (rp2, c2)
           else case read_all hp [] rp2 c2 of None \<Rightarrow> None | Some (_, _, rp, c) \<Rightarrow> Some (rp, c));
         let h3 = h\<lparr>hu_reply := rp3\<rparr>;
         if hp_status_code hp (rp_parser rp3) div 100 = 2 then Some (status_ok, h3, c3)
         else Some (status_of InternalError, h3, c3)
       }
     })"

definition HttpUpload_Abort :: "('p http_upload \<times> conn) tx_op" where
  "HttpUpload_Abort = (\<lambda>(h, c).
     if hu_step h \<noteq> Prepared then Some (status_of InternalError, h, c)
     else Some (status_ok, h\<lparr>hu_step := Done\<rparr>, Request_Abort c))"

text \<open>The code of the inner \<open>Write\<close> is dropped.\<close>

definition HttpUpload_Write :: "bytes \<Rightarrow> 'p http_upload \<times> conn \<Rightarrow> ('p http_upload \<times> conn) option" where
  "HttpUpload_Write buf = (\<lambda>(h, c).
     if buf = [] then Some (h, c)
     else do {
       (e, r, c') \<leftarrow> Request_Write buf (hu_request h) c;
       Some (h\<lparr>hu_request := r\<rparr>, c')
     })"

definition HttpUpload_Build :: "'p http_parser \<Rightarrow> http_builder \<Rightarrow> 'p http_upload" where
  "HttpUpload_Build hp b =
     (let r0 = Request_Field ''Host'' (hb_host b) (Request_Selector (hb_name b)
                 (Request_Method ''PUT'' Request));
          r1 = Request_ContentLength (- 1) r0
      in \<lparr>hu_request = add_fields (hb_fields b) (add_trailers (hb_trailers b) r1),
          hu_reply = Reply hp, hu_step = Init\<rparr>)"

section \<open>Download\<close>

record 'p http_download =
  hd_request :: request
  hd_reply :: "'p reply"
  hd_step :: tstep

definition download_skipAndReturn :: "'p http_parser \<Rightarrow> status \<Rightarrow> 'p http_download \<times> conn \<Rightarrow>
    (status \<times> 'p http_download \<times> conn) option" where
  "download_skipAndReturn hp s = (\<lambda>(h, c). do {
     (rp, c') \<leftarrow> Skip hp (hd_reply h) (Request_Abort c);
     Some (s, h\<lparr>hd_reply := rp\<rparr>, c')
   })"

definition HttpDownload_IsEof :: "'p http_download \<Rightarrow> bool" where
  "HttpDownload_IsEof h = (rp_step (hd_reply h) = R_Done)"

definition HttpDownload_Prepare :: "'p http_parser \<Rightarrow> 'p http_download \<times> conn \<Rightarrow>
    (status \<times> 'p http_download \<times> conn) option" where
  "HttpDownload_Prepare hp = (\<lambda>(h, c0).
     if hd_step h \<noteq> Init then Some (status_of InternalError, h, c0)
     else do {
       (err, c1) \<leftarrow> (if Request_Connected c0 then Some (None, c0) else conn_Reconnect c0);
       case err of
         Some e \<Rightarrow> Some (Errno e, h, c1)
       | None \<Rightarrow> do {
           (e2, c2) \<leftarrow> WriteHeaders (hd_request h) c1;
           if e2 \<noteq> H_OK \<and> e2 \<noteq> H_Done then download_skipAndReturn hp (status_of_code e2) (h, c2)
           else do {
             (e3, c3) \<leftarrow> FinishRequest (hd_request h) c2;
             if e3 \<noteq> H_OK \<and> e3 \<noteq> H_Done then download_skipAndReturn hp (status_of_code e3) (h, c3)
             else do {
               (e4, rp, c4) \<leftarrow> ReadHeaders hp (hd_reply h) c3;
               let h4 = h\<lparr>hd_reply := rp\<rparr>;
               if e4 \<noteq> H_OK \<and> e4 \<noteq> H_Done then download_skipAndReturn hp (status_of_code e4) (h4, c4)
               else if hp_status_code hp (rp_parser rp) = 404
                 then download_skipAndReturn hp (status_of NotFound) (h4, c4)
               else Some (status_of OK, h4\<lparr>hd_step := Prepared\<rparr>, c4)
             }
           }
         }
     })"

definition HttpDownload_Read :: "'p http_parser \<Rightarrow> bytes \<Rightarrow> 'p http_download \<times> conn \<Rightarrow>
    (int \<times> bytes \<times> 'p http_download \<times> conn) option" where
  "HttpDownload_Read hp buf = (\<lambda>(h, c).
     if hd_step h \<noteq> Prepared then Some (- 1, buf, h, c)
     else do {
       (e, buf', rp, c') \<leftarrow> AppendBody hp buf (hd_reply h) c;
       Some (i32_of_nat (length buf'), buf', h\<lparr>hd_reply := rp\<rparr>, c')
     })"

definition HttpDownload_Build :: "'p http_parser \<Rightarrow> http_builder \<Rightarrow> 'p http_download" where
  "HttpDownload_Build hp b =
     (let r0 = Request_Field ''Host'' (hb_host b) (Request_Selector (hb_name b)
                 (Request_Method ''GET'' Request));
          r1 = Request_ContentLength 0 r0
      in \<lparr>hd_request = add_fields (hb_fields b) r1, hd_reply = Reply hp, hd_step = Init\<rparr>)"

section \<open>Laws\<close>

lemma status_of_code_not_Ok [simp]: "\<not> Ok (status_of_code e)"
  by (simp add: status_of_code_def)

lemma removal_skip_step:
  "removal_skipAndReturn hp s (h, c) = Some (r, h', c') \<Longrightarrow> r = s \<and> hr_step h' = hr_step h"
  by (auto simp: removal_skipAndReturn_def split: bind_splits)

lemma Reconnect_error: "conn_Reconnect c = Some (e, c') \<Longrightarrow> e \<noteq> Some E_none"
  by (auto simp: conn_Reconnect_def split: list.splits if_splits)

lemma HttpRemoval_Prepare_step:
  assumes "HttpRemoval_Prepare hp (h, c) = Some (r, h', c')" and "hr_step h = Init"
  shows "hr_step h' = (if Ok r then Prepared else Init)"
  using assms
  by (auto simp: HttpRemoval_Prepare_def Let_def split: bind_splits if_splits option.splits
      dest!: removal_skip_step Reconnect_error)

interpretation http_rm: transaction "hr_step \<circ> fst" "HttpRemoval_Prepare hp" "HttpRemoval_Commit hp"
  "HttpRemoval_Abort" for hp
proof (standard, goal_cases)
  case (2 s r s')
  then show ?case
    using HttpRemoval_Prepare_step [of hp "fst s" "snd s" r "fst s'" "snd s'"] by simp
next
  case (4 s r s')
  then show ?case
    by (cases s; cases s') (auto simp: HttpRemoval_Commit_def Let_def split: bind_splits if_splits
        dest!: removal_skip_step)
qed (auto simp: HttpRemoval_Prepare_def HttpRemoval_Commit_def HttpRemoval_Abort_def split: if_splits)

interpretation http_ul: transaction "hu_step \<circ> fst" HttpUpload_Prepare "HttpUpload_Commit hp"
  HttpUpload_Abort for hp
proof (standard, goal_cases)
  case (4 s r s')
  then show ?case
    by (cases s; cases s') (auto simp: HttpUpload_Commit_def Let_def split: bind_splits if_splits)
qed (auto simp: HttpUpload_Prepare_def HttpUpload_Commit_def HttpUpload_Abort_def
    split: bind_splits if_splits)

lemma HttpDownload_Read_Some:
  "hd_step g = Prepared \<Longrightarrow> HttpDownload_Read hp [] (g, c) = Some (i, buf, s) \<Longrightarrow>
    \<exists>e sl rp c1. ReadBody hp (hd_reply g) c = Some (e, sl, rp, c1) \<and>
      buf = (if e \<noteq> H_OK then [] else sl) \<and> s = (g\<lparr>hd_reply := rp\<rparr>, c1)"
  by (auto simp: HttpDownload_Read_def AppendBody_def split: bind_splits option.splits)

section \<open>Properties\<close>

text \<open>C23. Whatever calls a client makes on a removal over HTTP, at most one \<open>Commit\<close> or \<open>Abort\<close>
  succeeds and only after a \<open>Prepare\<close> that did; \<open>Prepare\<close> succeeds exactly on the answer 100 to its
  headers, and a successful \<open>Commit\<close> has read one of 200, 201 and 204.\<close>

theorem http_removal_protocol:
  shows "(tx_run (HttpRemoval_Prepare hp) (HttpRemoval_Commit hp) HttpRemoval_Abort xs (h, c) =
      Some (rs, h', c') \<longrightarrow> length (final_calls rs) \<le> 1 \<and>
      (hr_step h = Init \<and> final_calls rs \<noteq> [] \<longrightarrow>
        (\<exists>i r. i < length rs \<and> rs ! i = (Call_Prepare, r) \<and> Ok r \<and> final_calls (take i rs) = [])))
    \<and> (HttpRemoval_Prepare hp (h, c) = Some (r, h1, c1) \<and> Ok r \<longrightarrow>
      (\<exists>d e rp d'. ReadHeaders hp (hr_reply h) d = Some (e, rp, d') \<and> hp_status_code hp (rp_parser rp) = 100))
    \<and> (HttpRemoval_Commit hp (h, c) = Some (q, h2, c2) \<and> Ok q \<longrightarrow>
      (\<exists>d rp d'. ReadHeaders hp (hr_reply h) d = Some (H_OK, rp, d')
        \<and> hp_status_code hp (rp_parser rp) \<in> {200, 201, 204}))"
proof (intro conjI impI)
  assume run: "tx_run (HttpRemoval_Prepare hp) (HttpRemoval_Commit hp) HttpRemoval_Abort xs (h, c) = Some (rs, h', c')"
  from http_rm.one_final_call [OF run] show "length (final_calls rs) \<le> 1" .
  assume "hr_step h = Init \<and> final_calls rs \<noteq> []"
  then show "\<exists>i r. i < length rs \<and> rs ! i = (Call_Prepare, r) \<and> Ok r \<and> final_calls (take i rs) = []"
    using http_rm.final_needs_prepare [OF run] by simp
next
  assume "HttpRemoval_Prepare hp (h, c) = Some (r, h1, c1) \<and> Ok r"
  then show "\<exists>d e rp d'. ReadHeaders hp (hr_reply h) d = Some (e, rp, d') \<and> hp_status_code hp (rp_parser rp) = 100"
    by (auto simp: HttpRemoval_Prepare_def Let_def split: bind_splits if_splits option.splits
        dest!: removal_skip_step Reconnect_error; blast)
next
  assume "HttpRemoval_Commit hp (h, c) = Some (q, h2, c2) \<and> Ok q"
  then show "\<exists>d rp d'. ReadHeaders hp (hr_reply h) d = Some (H_OK, rp, d')
        \<and> hp_status_code hp (rp_parser rp) \<in> {200, 201, 204}"
    by (auto simp: HttpRemoval_Commit_def Let_def split: bind_splits if_splits
        dest!: removal_skip_step; blast)
qed

theorem http_removal_protocol_witness:
  "\<exists>hp h1 c1 d e rp d'.
    HttpRemoval_Prepare hp (\<lparr>hr_request = Request, hr_reply = Reply (script_parser 100
      [([Ev_begin, Ev_headers_complete, Ev_complete], 1)]), hr_step = Init\<rparr>,
      open_conn [0] [Rd_data 1] [Wr_n 99]) = Some (status_ok, h1, c1) \<and>
    ReadHeaders hp (Reply hp) d = Some (e, rp, d') \<and> hp_status_code hp (rp_parser rp) = 100"
proof -
  let ?hp = "script_parser 100 [([Ev_begin, Ev_headers_complete, Ev_complete], 1)]"
  let ?h = "\<lparr>hr_request = Request, hr_reply = Reply ?hp, hr_step = Init\<rparr>"
  obtain h1 c1 where p: "HttpRemoval_Prepare ?hp (?h, open_conn [0] [Rd_data 1] [Wr_n 99]) =
      Some (status_ok, h1, c1)"
    by (simp add: HttpRemoval_Prepare_def WriteHeaders_def request_headers_def request_line_def
        Request_def Request_Connected_def conn_send_iov_one crlf_def http_eval
        Skip_def Skip_loop.simps Context_Reset_def)
  have "\<exists>d e rp d'. ReadHeaders ?hp (hr_reply ?h) d = Some (e, rp, d') \<and>
      hp_status_code ?hp (rp_parser rp) = 100"
    using http_removal_protocol [of ?hp "[]" ?h "open_conn [0] [Rd_data 1] [Wr_n 99]" "[]" ?h
        "open_conn [] [] []" status_ok h1 c1] p by simp
  with p show ?thesis by (metis http_removal.select_convs(2))
qed

text \<open>A write that puts nothing on the wire because the peer does not take it in time is
  forgotten: \<open>Write\<close> reports nothing, and a later \<open>Commit\<close> that the server accepts answers success,
  although the body on the wire ends without those bytes.\<close>

theorem http_upload_forgets_failed_write:
  assumes "hu_step h = Prepared" and "rq_content_length (hu_request h) < 0"
    and "rq_trailers (hu_request h) = []" and "b \<noteq> []"
    and "Request_Write b (hu_request h) c = Some (H_NetworkError, r, c1)" and "wire c1 = wire c"
    and "HttpUpload_Commit hp (h\<lparr>hu_request := r\<rparr>, c1) = Some (q, h2, c2)" and "Ok q"
  shows "HttpUpload_Write b (h, c) = Some (h\<lparr>hu_request := r\<rparr>, c1) \<and>
    (\<exists>d. FinishRequest r c1 = Some (H_OK, d) \<and>
      (\<exists>w. wire d = wire c @ w \<and> dechunk 1 w = Some ([], [])))"
proof -
  have r: "r = hu_request h"
    using assms(4,5) by (auto simp: Request_Write_def split: bind_splits if_splits)
  from assms(1,7,8) obtain d where d: "FinishRequest r c1 = Some (H_OK, d)"
    by (auto simp: HttpUpload_Commit_def Let_def split: bind_splits if_splits)
  have "write_all [] r c1 = Some (H_OK, r, c1)" by simp
  from http_chunked_body_nil [OF _ d] assms(2,3) r have
    "\<exists>w. wire d = wire c1 @ w \<and> dechunk 1 w = Some ([], [])"
    by (simp add: trailer_lines_def)
  with assms(4,5,6) d show ?thesis by (simp add: HttpUpload_Write_def)
qed

theorem http_upload_forgets_failed_write_witness:
  "\<exists>(h :: (hevent list \<times> nat) list http_upload) c1 d w. HttpUpload_Write [7] (h, open_conn [0] [Rd_data 1] [Wr_again True False False, Wr_n 9]) = Some (h, c1)
    \<and> FinishRequest (hu_request h) c1 = Some (H_OK, d)
    \<and> wire d = wire (open_conn [0] [Rd_data 1] [Wr_again True False False, Wr_n 9]) @ w \<and> dechunk 1 w = Some ([], [])"
proof -
  let ?hp = "script_parser 201 [([Ev_begin, Ev_headers_complete, Ev_complete], 1)]"
  let ?h = "\<lparr>hu_request = Request, hu_reply = Reply ?hp, hu_step = Prepared\<rparr>"
    and ?c = "open_conn [0] [Rd_data 1] [Wr_again True False False, Wr_n 9]"
    and ?c1 = "open_conn [0] [Rd_data 1] [Wr_n 9]"
  have w: "Request_Write [7] (hu_request ?h) ?c = Some (H_NetworkError, Request, ?c1)"
    by (simp add: Request_Write_def Request_def chunk_iov_def conn_send_iov_def chan_send_iov_def
        send_iov_def send_iov_loop_simps open_conn_def show_base.simps crlf_def)
  obtain h2 c2 where c: "HttpUpload_Commit ?hp (?h\<lparr>hu_request := Request\<rparr>, ?c1) = Some (status_ok, h2, c2)"
    by (simp add: HttpUpload_Commit_def FinishRequest_def Request_def conn_send_one crlf_def
        trailer_lines_def http_eval)
  have "HttpUpload_Write [7] (?h, ?c) = Some (?h\<lparr>hu_request := Request\<rparr>, ?c1) \<and>
    (\<exists>d. FinishRequest Request ?c1 = Some (H_OK, d) \<and>
      (\<exists>w. wire d = wire ?c @ w \<and> dechunk 1 w = Some ([], [])))"
    by (rule http_upload_forgets_failed_write [OF _ _ _ _ w _ c])
      (simp_all add: Request_def wire_def open_conn_def)
  then obtain d w where "HttpUpload_Write [7] (?h, ?c) = Some (?h, ?c1)"
    "FinishRequest (hu_request ?h) ?c1 = Some (H_OK, d)" "wire d = wire ?c @ w" "dechunk 1 w = Some ([], [])"
    by (auto simp del: dechunk.simps)
  then show ?thesis by blast
qed

text \<open>\<open>Prepare\<close> of a download accepts every answer but 404: with any other code, 500 for one,
  it answers OK, and the body of the error is then delivered as the data of the blob.\<close>

theorem http_download_accepts_errors:
  assumes "hd_step h = Init" and "Request_Connected c0"
    and "WriteHeaders (hd_request h) c0 = Some (H_OK, c1)"
    and "FinishRequest (hd_request h) c1 = Some (H_OK, c2)"
    and "ReadHeaders hp (hd_reply h) c2 = Some (H_OK, rp, c3)"
    and "hp_status_code hp (rp_parser rp) \<noteq> 404"
  shows "\<exists>h'. HttpDownload_Prepare hp (h, c0) = Some (status_of OK, h', c3) \<and> hd_step h' = Prepared
    \<and> (\<forall>e out rp' c4. AppendBody hp [] rp c3 = Some (e, out, rp', c4) \<longrightarrow>
        HttpDownload_Read hp [] (h', c3) =
          Some (i32_of_nat (length out), out, h'\<lparr>hd_reply := rp'\<rparr>, c4))"
  using assms
  by (simp add: HttpDownload_Prepare_def HttpDownload_Read_def Let_def)

theorem http_download_accepts_errors_witness:
  "\<exists>h c0 h' c3. let hp = script_parser 500 [([Ev_begin, Ev_headers_complete, Ev_complete], 1)] in
    HttpDownload_Prepare hp (h, c0) = Some (status_of OK, h', c3) \<and> hd_step h' = Prepared
    \<and> hp_status_code hp (rp_parser (hd_reply h')) = 500"
proof -
  let ?hp = "script_parser 500 [([Ev_begin, Ev_headers_complete, Ev_complete], 1)]"
  let ?h = "\<lparr>hd_request = Request_ContentLength 0 Request, hd_reply = Reply ?hp, hd_step = Init\<rparr>"
    and ?c = "open_conn [0] [Rd_data 1] [Wr_n 99]"
  obtain c1 where 1: "WriteHeaders (hd_request ?h) ?c = Some (H_OK, c1)" "cn_open c1"
    "ch_rd (cn_chan c1) = [Rd_data 1]" "ch_in (cn_chan c1) = [0]"
    by (simp add: WriteHeaders_def request_headers_def request_line_def Request_ContentLength_def
        Request_def open_conn_def conn_send_iov_one crlf_def show_int_def show_base.simps)
  have 2: "FinishRequest (hd_request ?h) c1 = Some (H_OK, c1)"
    by (simp add: FinishRequest_def Request_ContentLength_def Request_def)
  obtain rp c3 where 3: "ReadHeaders ?hp (hd_reply ?h) c1 = Some (H_OK, rp, c3)"
    using 1(2-4) by (simp add: http_eval)
  have "Request_Connected ?c" by (simp add: Request_Connected_def open_conn_def)
  from http_download_accepts_errors [OF _ this 1(1) 2 3] obtain h' where
    "HttpDownload_Prepare ?hp (?h, ?c) = Some (status_of OK, h', c3)" "hd_step h' = Prepared"
    by (auto simp: script_parser_def)
  moreover have "hp_status_code ?hp (rp_parser (hd_reply h')) = 500" by (simp add: script_parser_def)
  ultimately show ?thesis unfolding Let_def by blast
qed

text \<open>C30. The client's loop on a download never ends once the parser has failed: a parser in
  error uses no byte of what is pending, every \<open>Read\<close> answers 0 and \<open>IsEof\<close> stays false.  A loop that
  does end has delivered, in order, the body bytes the parser announced, but for those still queued.\<close>

theorem http_download_loop:
  shows "(hd_step h = Prepared \<and> rp_step (hd_reply h) = Body \<and> rp_body (hd_reply h) = []
      \<and> rp_pending (hd_reply h) \<noteq> [] \<and> (\<forall>bs. hp_execute hp (rp_parser (hd_reply h)) bs =
          ([], 0, rp_parser (hd_reply h))) \<longrightarrow>
      drain (HttpDownload_IsEof \<circ> fst) (HttpDownload_Read hp []) n (h, c) = None)
    \<and> (drain (HttpDownload_IsEof \<circ> fst) (HttpDownload_Read (log_body hp) []) n (g, c) = Some (out, g', c')
        \<and> hd_step g = Prepared \<and> announced (hd_reply g) = concat (rp_body (hd_reply g)) \<longrightarrow>
      announced (hd_reply g') = out @ concat (rp_body (hd_reply g')))"
proof (intro conjI impI)
  assume a: "hd_step h = Prepared \<and> rp_step (hd_reply h) = Body \<and> rp_body (hd_reply h) = []
      \<and> rp_pending (hd_reply h) \<noteq> [] \<and> (\<forall>bs. hp_execute hp (rp_parser (hd_reply h)) bs =
          ([], 0, rp_parser (hd_reply h)))"
  then have "HttpDownload_Read hp [] (h, c) = Some (0, [], h, c)"
    by (simp add: HttpDownload_Read_def AppendBody_def ReadBody.simps consumeInput_def fill_def
        i32_of_nat_small)
  then show "drain (HttpDownload_IsEof \<circ> fst) (HttpDownload_Read hp []) n (h, c) = None"
    using a by (induction n) (auto simp: HttpDownload_IsEof_def)
next
  {
    fix d
    assume "drain (HttpDownload_IsEof \<circ> fst) (HttpDownload_Read (log_body hp) []) n (g, c) = Some (out, g', c')"
      and "hd_step g = Prepared" and "announced (hd_reply g) = d @ concat (rp_body (hd_reply g))"
    then have "announced (hd_reply g') = d @ out @ concat (rp_body (hd_reply g'))"
    proof (induction n arbitrary: g c d out)
      case 0
      then show ?case by (auto split: if_splits)
    next
      case (Suc n)
      show ?case
      proof (cases "HttpDownload_IsEof g")
        case True
        with Suc.prems show ?thesis by simp
      next
        case False
        then have "\<not> (HttpDownload_IsEof \<circ> fst) (g, c)" by simp
        from drain_SucD [OF Suc.prems(1) this] obtain i buf s bs where
          0: "HttpDownload_Read (log_body hp) [] (g, c) = Some (i, buf, s)"
            "drain (HttpDownload_IsEof \<circ> fst) (HttpDownload_Read (log_body hp) []) n s = Some (bs, g', c')"
            "out = buf @ bs"
          by blast
        from HttpDownload_Read_Some [OF Suc.prems(2) 0(1)] obtain e sl rp c1 where
          1: "ReadBody (log_body hp) (hd_reply g) c = Some (e, sl, rp, c1)"
            "buf = (if e \<noteq> H_OK then [] else sl)" "s = (g\<lparr>hd_reply := rp\<rparr>, c1)" by blast
        from ReadBody_announced [OF 1(1) Suc.prems(3)] have
          a: "announced rp = (d @ sl) @ concat (rp_body rp)" "e \<noteq> H_OK \<longrightarrow> sl = []" by auto
        from Suc.IH [OF 0(2) [unfolded 1(3)], of "d @ sl"] Suc.prems(2) a 1(2) 0(3) show ?thesis by auto
      qed
    qed
  }
  note loop = this
  assume "drain (HttpDownload_IsEof \<circ> fst) (HttpDownload_Read (log_body hp) []) n (g, c) = Some (out, g', c')
        \<and> hd_step g = Prepared \<and> announced (hd_reply g) = concat (rp_body (hd_reply g))"
  with loop [of "[]"] show "announced (hd_reply g') = out @ concat (rp_body (hd_reply g'))" by simp
qed

theorem http_download_loop_witness:
  "drain (HttpDownload_IsEof \<circ> fst) (HttpDownload_Read (script_parser 200 []) []) 100
    (\<lparr>hd_request = Request, hd_reply = (Reply (script_parser 200 []))\<lparr>rp_step := Body, rp_pending := [1]\<rparr>,
      hd_step = Prepared\<rparr>, open_conn [] [] []) = None"
proof -
  let ?hp = "script_parser 200 []"
  let ?h = "\<lparr>hd_request = Request, hd_reply = (Reply ?hp)\<lparr>rp_step := Body, rp_pending := [1]\<rparr>,
      hd_step = Prepared\<rparr>"
  have "hd_step ?h = Prepared \<and> rp_step (hd_reply ?h) = Body \<and> rp_body (hd_reply ?h) = []
      \<and> rp_pending (hd_reply ?h) \<noteq> [] \<and> (\<forall>bs. hp_execute ?hp (rp_parser (hd_reply ?h)) bs =
          ([], 0, rp_parser (hd_reply ?h)))"
    by (simp add: Reply_def script_parser_def)
  with http_download_loop [of ?h ?hp 100 "open_conn [] [] []"] show ?thesis by blast
qed

text \<open>The client's loop stops with body bytes still in the queue: when the last bytes of the
  network hold two pieces of the body and its end, the first \<open>Read\<close> returns the first piece, \<open>IsEof\<close>
  is then true, and the second piece is never returned.\<close>

theorem http_download_loses_slices:
  assumes "hd_step h = Prepared" and "rp_step (hd_reply h) = Body" and "rp_body (hd_reply h) = []"
    and "rp_pending (hd_reply h) \<noteq> []"
    and "hp_execute hp (rp_parser (hd_reply h)) (rp_pending (hd_reply h)) = ([Ev_body a, Ev_body b, Ev_complete], n, p)"
    and "0 < n"
  shows "\<exists>h'. drain (HttpDownload_IsEof \<circ> fst) (HttpDownload_Read hp []) (Suc 0) (h, c) = Some (a, h', c)
    \<and> rp_body (hd_reply h') = [b]"
proof -
  have "\<exists>h'. HttpDownload_Read hp [] (h, c) = Some (i32_of_nat (length a), a, h', c) \<and> HttpDownload_IsEof h'
      \<and> rp_body (hd_reply h') = [b]"
    using assms
    by (simp add: HttpDownload_Read_def HttpDownload_IsEof_def AppendBody_def ReadBody.simps consumeInput_def
        fill_def on_body_def on_reply_complete_def)
  moreover have "\<not> HttpDownload_IsEof h" using assms(2) by (simp add: HttpDownload_IsEof_def)
  ultimately show ?thesis by auto
qed

theorem http_download_loses_slices_witness:
  "\<exists>h'. drain (HttpDownload_IsEof \<circ> fst)
      (HttpDownload_Read (script_parser 200 [([Ev_body [1, 2], Ev_body [3], Ev_complete], 9)]) []) (Suc 0)
    (\<lparr>hd_request = Request, hd_reply = (Reply (script_parser 200 [([Ev_body [1, 2], Ev_body [3], Ev_complete], 9)]))
        \<lparr>rp_step := Body, rp_pending := [0, 0, 0, 0, 0, 0, 0, 0, 0]\<rparr>, hd_step = Prepared\<rparr>, open_conn [] [] []) =
    Some ([1, 2], h', open_conn [] [] []) \<and> rp_body (hd_reply h') = [[3]]"
  by (rule http_download_loses_slices [where n = 9]) (simp_all add: Reply_def script_parser_def)

end
