(* ===== verification/Rawx_Blob.thy ===== *)
theory Rawx_Blob
  imports Http_Blob
begin

text \<open>
  Blobs on a \<open>rawx\<close> service (\<open>src/src/oio/blob/rawx/blob.hpp\<close>, \<open>blob.cpp\<close>): the chunk URL and its
  parser, ranges and commands, the builders that turn them into HTTP requests, and the objects
  that wrap those of \<open>Http_Blob\<close>.  \<open>std::out_of_range\<close> is \<open>None\<close>.
\<close>

section \<open>URL, range and command\<close>

record range =
  rg_start :: nat
  rg_size :: nat

definition Range_Set :: "range \<Rightarrow> range \<Rightarrow> range" where
  "Range_Set arg r = r\<lparr>rg_start := rg_start arg, rg_size := rg_size arg\<rparr>"

definition Range_Clear :: "range \<Rightarrow> range" where
  "Range_Clear r = r\<lparr>rg_start := 0, rg_size := 0\<rparr>"

record rawx_url =
  ru_chunk_id :: string
  ru_host :: string
  ru_port :: int

definition RawxUrl :: rawx_url where
  "RawxUrl = \<lparr>ru_chunk_id = [], ru_host = [], ru_port = 0\<rparr>"

definition RawxUrl_Set :: "rawx_url \<Rightarrow> rawx_url \<Rightarrow> rawx_url" where
  "RawxUrl_Set u s = s\<lparr>ru_chunk_id := ru_chunk_id u, ru_host := ru_host u, ru_port := ru_port u\<rparr>"

definition RawxUrl_Clear :: "rawx_url \<Rightarrow> rawx_url" where
  "RawxUrl_Clear u = u\<lparr>ru_chunk_id := [], ru_host := [], ru_port := 0\<rparr>"

text \<open>\<open>stream >> port\<close> on a text of at most four characters: unchanged if there is nothing to read, 0 if
  it is not a number.\<close>

definition read_port :: "string \<Rightarrow> int \<Rightarrow> int" where
  "read_port s port =
     (if dropWhile is_space s = [] then port else case scan_int s of None \<Rightarrow> 0 | Some (i, _) \<Rightarrow> i)"

definition RawxUrl_Parse :: "string \<Rightarrow> rawx_url \<Rightarrow> rawx_url option" where
  "RawxUrl_Parse v u =
     (if find_str ''http'' v \<noteq> None then
        (case find_chr CHR '':'' v of
           None \<Rightarrow> Some u
         | Some pos \<Rightarrow>
             (case find_chr_from CHR '':'' (pos + 1) v of
                None \<Rightarrow> Some u
              | Some pos2 \<Rightarrow> do {
                  h \<leftarrow> (if pos2 < pos + 3 then substr_from v (pos + 3)
                       else substr v (pos + 3) (pos2 - pos - 3));
                  p \<leftarrow> substr v (pos2 + 1) 4;
                  c \<leftarrow> substr_from v (pos2 + 6);
                  Some (u\<lparr>ru_host := h, ru_port := read_port p (ru_port u), ru_chunk_id := c\<rparr>)
                }))
      else
        (case find_chr CHR '':'' v of
           None \<Rightarrow> Some u
         | Some pos \<Rightarrow> do {
             h \<leftarrow> substr v 0 pos;
             p \<leftarrow> substr v (pos + 1) 4;
             Some (u\<lparr>ru_host := h, ru_port := read_port p (ru_port u)\<rparr>)
           }))"

definition Host_Port :: "rawx_url \<Rightarrow> string" where
  "Host_Port u = ru_host u @ '':'' @ show_int (ru_port u)"

definition RawxUrl_GetString :: "rawx_url \<Rightarrow> string" where
  "RawxUrl_GetString u = ''http://'' @ ru_host u @ '':'' @ show_int (ru_port u) @ ''/'' @ ru_chunk_id u"

record rawx_command =
  rc_url :: rawx_url
  rc_range :: range
  rc_chunkSize :: "32 word"

definition RawxCommand :: rawx_command where
  "RawxCommand = \<lparr>rc_url = RawxUrl, rc_range = \<lparr>rg_start = 0, rg_size = 0\<rparr>, rc_chunkSize = 0\<rparr>"

definition RawxCommand_Clear :: "rawx_command \<Rightarrow> rawx_command" where
  "RawxCommand_Clear c = c\<lparr>rc_url := RawxUrl_Clear (rc_url c), rc_range := Range_Clear (rc_range c),
     rc_chunkSize := 0\<rparr>"

definition SetChunkSize :: "32 word \<Rightarrow> rawx_command \<Rightarrow> rawx_command" where
  "SetChunkSize v c = c\<lparr>rc_chunkSize := v\<rparr>"

definition SetUrl :: "rawx_url \<Rightarrow> rawx_command \<Rightarrow> rawx_command" where
  "SetUrl arg c = c\<lparr>rc_url := RawxUrl_Set arg (rc_url c)\<rparr>"

definition SetRange :: "range \<Rightarrow> rawx_command \<Rightarrow> rawx_command" where
  "SetRange arg c = c\<lparr>rc_range := Range_Set arg (rc_range c)\<rparr>"

text \<open>A URL with its place among the chunks; targets are ordered by that place alone.\<close>

record rawx_url_set = rawx_url +
  ru_chunk_number :: int

fun targets_insert :: "rawx_url_set \<Rightarrow> rawx_url_set list \<Rightarrow> rawx_url_set list" where
  "targets_insert t [] = [t]"
| "targets_insert t (a # ts) =
     (if ru_chunk_number t < ru_chunk_number a then t # a # ts
      else if ru_chunk_number t = ru_chunk_number a then a # ts else a # targets_insert t ts)"

section \<open>Wrappers\<close>

text \<open>Removal and upload wrap the operations \<open>p\<close>, \<open>c\<close> and \<open>a\<close> of the inner object.\<close>

definition Rawx_Prepare :: "'s tx_op \<Rightarrow> (tstep \<times> 's) tx_op" where
  "Rawx_Prepare p = (\<lambda>(st, s).
     if st \<noteq> Init then Some (status_of InternalError, st, s)
     else do { (rc, s') \<leftarrow> p s; Some (rc, if Ok rc then Prepared else st, s') })"

definition Rawx_Commit :: "'s tx_op \<Rightarrow> (tstep \<times> 's) tx_op" where
  "Rawx_Commit c = (\<lambda>(st, s).
     if st \<noteq> Prepared then Some (status_of InternalError, st, s)
     else do { (rc, s') \<leftarrow> c s; Some (rc, Done, s') })"

definition Rawx_Abort :: "'s tx_op \<Rightarrow> (tstep \<times> 's) tx_op" where
  "Rawx_Abort a = (\<lambda>(st, s).
     if st \<noteq> Prepared then Some (status_of InternalError, st, s)
     else do { (rc, s') \<leftarrow> a s; Some (rc, Done, s') })"

definition RawxUpload_Write :: "bytes \<Rightarrow> tstep \<times> 'p http_upload \<times> conn \<Rightarrow>
    (tstep \<times> 'p http_upload \<times> conn) option" where
  "RawxUpload_Write buf = (\<lambda>(st, s). do { s' \<leftarrow> HttpUpload_Write buf s; Some (st, s') })"

definition RawxUpload_SetXattr :: "string \<Rightarrow> string \<Rightarrow> tstep \<times> 'p http_upload \<times> conn \<Rightarrow>
    tstep \<times> 'p http_upload \<times> conn" where
  "RawxUpload_SetXattr k v = (\<lambda>(st, h, c). (st, HttpUpload_SetXattr k v h, c))"

definition no_builder :: http_builder where
  "no_builder = \<lparr>hb_name = [], hb_host = [], hb_fields = [], hb_trailers = []\<rparr>"

definition RawxRemoval_set_param :: "rawx_command \<Rightarrow> http_builder \<Rightarrow> http_builder" where
  "RawxRemoval_set_param pm b =
     Builder_Name (''/rawx/'' @ ru_chunk_id (rc_url pm)) (Builder_Host (Host_Port (rc_url pm)) b)"

definition RawxUpload_set_param :: "rawx_command \<Rightarrow> http_builder \<Rightarrow> http_builder" where
  "RawxUpload_set_param pm b =
     Builder_Name (''/rawx/'' @ ru_chunk_id (rc_url pm))
       (Builder_Field ''X-oio-chunk-meta-chunk-id'' (ru_chunk_id (rc_url pm))
         (Builder_Field ''X-oio-chunk-meta-chunk-pos'' (show_dec (rg_size (rc_range pm)) @ ''.0'')
           (Builder_Host (Host_Port (rc_url pm)) b)))"

definition ContainerId :: "string \<Rightarrow> http_builder \<Rightarrow> http_builder" where
  "ContainerId s = Builder_Field ''X-oio-chunk-meta-container-id'' s"

definition ContentPath :: "string \<Rightarrow> http_builder \<Rightarrow> http_builder" where
  "ContentPath s = Builder_Field ''X-oio-chunk-meta-content-path'' s"

definition ContentId :: "string \<Rightarrow> http_builder \<Rightarrow> http_builder" where
  "ContentId s = Builder_Field ''X-oio-chunk-meta-content-id'' s"

definition MimeType :: "string \<Rightarrow> http_builder \<Rightarrow> http_builder" where
  "MimeType s = Builder_Field ''X-oio-chunk-meta-content-mime-type'' s"

definition StoragePolicy :: "string \<Rightarrow> http_builder \<Rightarrow> http_builder" where
  "StoragePolicy s = Builder_Field ''X-oio-chunk-meta-content-storage-policy'' s"

definition ChunkMethod :: "string \<Rightarrow> http_builder \<Rightarrow> http_builder" where
  "ChunkMethod s = Builder_Field ''X-oio-chunk-meta-content-chunk-method'' s"

definition ContentVersion :: "int \<Rightarrow> http_builder \<Rightarrow> http_builder" where
  "ContentVersion v = Builder_Field ''X-oio-chunk-meta-content-version'' (show_int v)"

definition Rawx_Property :: "string \<Rightarrow> string \<Rightarrow> http_builder \<Rightarrow> http_builder" where
  "Rawx_Property k v = Builder_Field (''X-oio-chunk-meta-x-'' @ k) v"

definition RawxRemoval_Build :: "'p http_parser \<Rightarrow> http_builder \<Rightarrow> tstep \<times> 'p http_removal" where
  "RawxRemoval_Build hp b = (Init, HttpRemoval_Build hp b)"

definition RawxUpload_Build :: "'p http_parser \<Rightarrow> http_builder \<Rightarrow> tstep \<times> 'p http_upload" where
  "RawxUpload_Build hp b = (Init, HttpUpload_Build hp b)"

section \<open>Download\<close>

text \<open>The loop \<open>while (!IsEof()) Read(&buf)\<close> over one buffer; it may not end.\<close>

partial_function (option) drain_into :: "('d \<Rightarrow> bool) \<Rightarrow> (bytes \<Rightarrow> 'd \<Rightarrow> (int \<times> bytes \<times> 'd) option) \<Rightarrow>
    bytes \<Rightarrow> 'd \<Rightarrow> (bytes \<times> 'd) option" where
  "drain_into eof rd buf d =
     (if eof d then Some (buf, d)
      else do { (i, buf', d') \<leftarrow> rd buf d; drain_into eof rd buf' d' })"

record 'p rawx_download =
  xd_inner :: "'p http_download"
  xd_param :: rawx_command
  xd_step :: tstep

definition RawxDownload_set_param :: "rawx_command \<Rightarrow> http_builder \<Rightarrow> http_builder" where
  "RawxDownload_set_param pm b =
     Builder_Name (''/rawx/'' @ ru_chunk_id (rc_url pm)) (Builder_Host (Host_Port (rc_url pm)) b)"

definition RawxDownload_Build :: "'p http_parser \<Rightarrow> rawx_command \<Rightarrow> http_builder \<Rightarrow> 'p rawx_download" where
  "RawxDownload_Build hp pm b =
     \<lparr>xd_inner = HttpDownload_Build hp b, xd_param = pm, xd_step = Init\<rparr>"

definition RawxDownload_IsEof :: "'p rawx_download \<Rightarrow> bool" where
  "RawxDownload_IsEof x = HttpDownload_IsEof (xd_inner x)"

definition RawxDownload_Prepare :: "'p http_parser \<Rightarrow> 'p rawx_download \<times> conn \<Rightarrow>
    (status \<times> 'p rawx_download \<times> conn) option" where
  "RawxDownload_Prepare hp = (\<lambda>(x, c).
     if xd_step x \<noteq> Init then Some (status_of InternalError, x, c)
     else do {
       (rc, h, c') \<leftarrow> HttpDownload_Prepare hp (xd_inner x, c);
       let x' = x\<lparr>xd_inner := h\<rparr>;
       Some (rc, if Ok rc then x'\<lparr>xd_step := Prepared\<rparr> else x', c')
     })"

text \<open>The copy of the range; reading past the end of the bytes received is \<open>None\<close>.\<close>

definition take_range :: "range \<Rightarrow> bytes \<Rightarrow> bytes option" where
  "take_range r temp =
     (if length temp > rg_size r then
        (if rg_start r + rg_size r \<le> length temp then Some (take (rg_size r) (drop (rg_start r) temp))
         else None)
      else Some temp)"

definition RawxDownload_Read :: "'p http_parser \<Rightarrow> bytes \<Rightarrow> 'p rawx_download \<times> conn \<Rightarrow>
    (int \<times> bytes \<times> 'p rawx_download \<times> conn) option" where
  "RawxDownload_Read hp buf = (\<lambda>(x, c).
     if xd_step x \<noteq> Prepared then Some (- 1, buf, x, c)
     else do {
       (temp, h, c') \<leftarrow> drain_into (HttpDownload_IsEof \<circ> fst) (HttpDownload_Read hp) [] (xd_inner x, c);
       out \<leftarrow> take_range (rc_range (xd_param x)) temp;
       Some (i32_of_nat (length out), out, x\<lparr>xd_inner := h\<rparr>, c')
     })"

section \<open>Laws\<close>

interpretation rawx_tx: transaction fst "Rawx_Prepare p" "Rawx_Commit c" "Rawx_Abort a" for p c a
  by standard (auto simp: Rawx_Prepare_def Rawx_Commit_def Rawx_Abort_def split: bind_splits if_splits)

lemma RawxUrl_Parse_text:
  assumes "CHR '':'' \<notin> set h" and "4 \<le> length p" and "is_digit 10 (hd p)"
  shows "RawxUrl_Parse (''http://'' @ h @ '':'' @ p @ t) u =
    (if length p + length t < 5 then None
     else Some (u\<lparr>ru_host := h, ru_port := read_port (take 4 p) (ru_port u), ru_chunk_id := drop 5 (p @ t)\<rparr>))"
proof -
  let ?v = "''http://'' @ h @ '':'' @ p @ t"
  have "find_str ''http'' ?v = Some 0" using find_str_prefix [of "''http''" "''://'' @ h @ '':'' @ p @ t"] by simp
  moreover have "find_chr CHR '':'' ?v = Some 4" by (simp add: numeral_eq_Suc)
  moreover have "find_chr_from CHR '':'' 5 ?v = Some (7 + length h)"
    using find_chr_append [OF assms(1), of "p @ t"] by (simp add: find_chr_from_def numeral_eq_Suc)
  ultimately show ?thesis
    using assms(2) by (simp add: RawxUrl_Parse_def substr_def substr_from_def numeral_eq_Suc)
qed

lemma read_port_dec: "read_port (show_dec n) d = int n"
proof -
  obtain c where "c < 10" "hd (show_dec n) = digit_char c" by (rule hd_show_dec)
  then have "dropWhile is_space (show_dec n) = show_dec n"
    by (cases "show_dec n") auto
  then show ?thesis by (simp add: read_port_def)
qed

text \<open>What every \<open>Read\<close> keeps, the whole loop keeps.\<close>

lemma drain_into_invariant:
  assumes "drain_into eof rd buf d = Some r" and "I buf d"
    and "\<And>buf d i buf' d'. I buf d \<Longrightarrow> \<not> eof d \<Longrightarrow> rd buf d = Some (i, buf', d') \<Longrightarrow> I buf' d'"
  shows "I (fst r) (snd r) \<and> eof (snd r)"
proof -
  have "\<forall>I. I buf d \<longrightarrow> (\<forall>buf d i buf' d'. I buf d \<longrightarrow> \<not> eof d \<longrightarrow> rd buf d = Some (i, buf', d') \<longrightarrow> I buf' d')
      \<longrightarrow> I (fst r) (snd r) \<and> eof (snd r)"
  proof (rule drain_into.raw_induct [OF _ assms(1), where P = "\<lambda>eof rd buf d r. \<forall>I. I buf d \<longrightarrow>
      (\<forall>buf d i buf' d'. I buf d \<longrightarrow> \<not> eof d \<longrightarrow> rd buf d = Some (i, buf', d') \<longrightarrow> I buf' d')
      \<longrightarrow> I (fst r) (snd r) \<and> eof (snd r)"])
    fix f eof rd buf d r
    assume IH: "\<And>eof rd buf d r. f eof rd buf d = Some r \<Longrightarrow> \<forall>I. I buf d \<longrightarrow>
        (\<forall>buf d i buf' d'. I buf d \<longrightarrow> \<not> eof d \<longrightarrow> rd buf d = Some (i, buf', d') \<longrightarrow> I buf' d')
        \<longrightarrow> I (fst r) (snd r) \<and> eof (snd r)"
      and eq: "(if eof d then Some (buf, d)
        else rd buf d \<bind> (\<lambda>(i, buf', d'). f eof rd buf' d')) = Some r"
    show "\<forall>I. I buf d \<longrightarrow>
        (\<forall>buf d i buf' d'. I buf d \<longrightarrow> \<not> eof d \<longrightarrow> rd buf d = Some (i, buf', d') \<longrightarrow> I buf' d')
        \<longrightarrow> I (fst r) (snd r) \<and> eof (snd r)"
    proof (intro allI impI)
      fix I
      assume i: "I buf d"
        and st: "\<forall>buf d i buf' d'. I buf d \<longrightarrow> \<not> eof d \<longrightarrow> rd buf d = Some (i, buf', d') \<longrightarrow> I buf' d'"
      show "I (fst r) (snd r) \<and> eof (snd r)"
      proof (cases "eof d")
        case True
        with eq i show ?thesis by auto
      next
        case False
        with eq obtain n buf' d' where n: "rd buf d = Some (n, buf', d')" "f eof rd buf' d' = Some r"
          by (auto split: bind_splits)
        with i st False have "I buf' d'" by blast
        with IH [OF n(2)] st show ?thesis by blast
      qed
    qed
  qed
  with assms(2,3) show ?thesis by blast
qed

lemma HttpDownload_Read_announced:
  assumes "HttpDownload_Read (log_body hp) buf (h, c) = Some (i, buf', h', c')" and "hd_step h = Prepared"
    and "announced (hd_reply h) = buf @ concat (rp_body (hd_reply h))"
  shows "hd_step h' = Prepared \<and> announced (hd_reply h') = buf' @ concat (rp_body (hd_reply h'))"
proof -
  from assms(1,2) obtain e sl rp where b: "ReadBody (log_body hp) (hd_reply h) c = Some (e, sl, rp, c')"
    "buf' = (if e \<noteq> H_OK then buf else buf @ sl)" "h' = h\<lparr>hd_reply := rp\<rparr>"
    by (auto simp: HttpDownload_Read_def AppendBody_def split: bind_splits option.splits)
  from ReadBody_announced [OF b(1) assms(3)] b(2,3) assms(2) show ?thesis by auto
qed

lemma drain_into_announced:
  assumes "drain_into (HttpDownload_IsEof \<circ> fst) (HttpDownload_Read (log_body hp)) [] (h, c) = Some (out, h', c')"
    and "hd_step h = Prepared" and "announced (hd_reply h) = concat (rp_body (hd_reply h))"
  shows "announced (hd_reply h') = out @ concat (rp_body (hd_reply h')) \<and> HttpDownload_IsEof h'"
  using drain_into_invariant [OF assms(1), of "\<lambda>buf (h, c). hd_step h = Prepared \<and>
      announced (hd_reply h) = buf @ concat (rp_body (hd_reply h))"] assms(2,3)
    HttpDownload_Read_announced by fastforce

section \<open>Properties\<close>

text \<open>C26. A chunk URL is read back from its text when its port has four digits and its host no
  colon.  A port of five digits loses its last one, and the slash after it stays in front of the
  chunk id.\<close>

theorem rawx_url_roundtrip:
  assumes "CHR '':'' \<notin> set (ru_host u)" and "ru_port u = int n"
  shows "(1000 \<le> n \<and> n < 10000 \<longrightarrow> RawxUrl_Parse (RawxUrl_GetString u) RawxUrl = Some u)
    \<and> (10000 \<le> n \<and> n < 100000 \<longrightarrow> RawxUrl_Parse (RawxUrl_GetString u) RawxUrl =
        Some (u\<lparr>ru_port := int (n div 10), ru_chunk_id := ''/'' @ ru_chunk_id u\<rparr>))"
proof (intro conjI impI)
  let ?t = "''/'' @ ru_chunk_id u"
  have str: "RawxUrl_GetString u = ''http://'' @ ru_host u @ '':'' @ show_dec n @ ?t"
    using assms(2) by (simp add: RawxUrl_GetString_def show_int_def)
  obtain d where "d < 10" "hd (show_dec n) = digit_char d" by (rule hd_show_dec)
  then have hd: "is_digit 10 (hd (show_dec n))" by simp
  {
    assume n: "1000 \<le> n \<and> n < 10000"
    then have "length (show_dec n) = 4" using length_show_base [of 10 3 n] by simp
    then show "RawxUrl_Parse (RawxUrl_GetString u) RawxUrl = Some u"
      unfolding str using RawxUrl_Parse_text [OF assms(1), of "show_dec n" ?t RawxUrl] hd assms(2)
      by (simp add: read_port_dec RawxUrl_def)
  next
    assume n: "10000 \<le> n \<and> n < 100000"
    then have "length (show_dec n) = 5" "take 4 (show_dec n) = show_dec (n div 10)"
      using length_show_base [of 10 4 n] take_show_dec [of 3 n] by simp_all
    then show "RawxUrl_Parse (RawxUrl_GetString u) RawxUrl =
        Some (u\<lparr>ru_port := int (n div 10), ru_chunk_id := ''/'' @ ru_chunk_id u\<rparr>)"
      unfolding str using RawxUrl_Parse_text [OF assms(1), of "show_dec n" ?t RawxUrl] hd
      by (simp add: read_port_dec RawxUrl_def)
  }
qed

theorem rawx_url_roundtrip_witness:
  "RawxUrl_Parse (RawxUrl_GetString \<lparr>ru_chunk_id = ''AB'', ru_host = ''h'', ru_port = 6010\<rparr>) RawxUrl =
      Some \<lparr>ru_chunk_id = ''AB'', ru_host = ''h'', ru_port = 6010\<rparr>
    \<and> RawxUrl_Parse (RawxUrl_GetString \<lparr>ru_chunk_id = ''AB'', ru_host = ''h'', ru_port = 60101\<rparr>) RawxUrl =
      Some \<lparr>ru_chunk_id = ''/AB'', ru_host = ''h'', ru_port = 6010\<rparr>"
  using rawx_url_roundtrip [of "\<lparr>ru_chunk_id = ''AB'', ru_host = ''h'', ru_port = 6010\<rparr>" 6010]
    rawx_url_roundtrip [of "\<lparr>ru_chunk_id = ''AB'', ru_host = ''h'', ru_port = 60101\<rparr>" 60101]
  by simp

text \<open>A \<open>Read\<close> of a rawx download first collects the whole body the server sent; what it
  returns is the requested range when that is shorter than the body, else all of it.  With the
  range no command sets, (0, 0), it returns nothing at all of any blob.\<close>

theorem rawx_download_read:
  assumes "RawxDownload_Read (log_body hp) buf (x, c) = Some (i, out, x', c')"
    and "xd_step x = Prepared" and "hd_step (xd_inner x) = Prepared"
    and "announced (hd_reply (xd_inner x)) = concat (rp_body (hd_reply (xd_inner x)))"
  shows "\<exists>body. announced (hd_reply (xd_inner x')) = body @ concat (rp_body (hd_reply (xd_inner x')))
    \<and> RawxDownload_IsEof x'
    \<and> out = (let r = rc_range (xd_param x) in
        if rg_size r < length body then take (rg_size r) (drop (rg_start r) body) else body)
    \<and> (rc_range (xd_param x) = rc_range RawxCommand \<longrightarrow> out = [])"
proof -
  from assms(1,2) obtain body h where
    d: "drain_into (HttpDownload_IsEof \<circ> fst) (HttpDownload_Read (log_body hp)) [] (xd_inner x, c) = Some (body, h, c')"
    and o: "take_range (rc_range (xd_param x)) body = Some out" "x' = x\<lparr>xd_inner := h\<rparr>"
    by (auto simp: RawxDownload_Read_def split: bind_splits)
  from drain_into_announced [OF d assms(3,4)] o show ?thesis
    by (intro exI [of _ body])
      (auto simp: take_range_def Let_def RawxDownload_IsEof_def RawxCommand_def split: if_splits)
qed

theorem rawx_download_read_witness:
  "\<exists>x c x' c'. RawxDownload_Read (log_body (script_parser 200 [([Ev_body [1, 2, 3], Ev_complete], 1)])) [] (x, c) =
      Some (1, [2], x', c') \<and> announced (hd_reply (xd_inner x')) = [1, 2, 3]"
proof -
  let ?hp = "log_body (script_parser 200 [([Ev_body [1, 2, 3], Ev_complete], 1)])"
  let ?h = "\<lparr>hd_request = Request, hd_reply = (Reply ?hp)\<lparr>rp_step := Body, rp_pending := [0]\<rparr>, hd_step = Prepared\<rparr>"
    and ?c = "open_conn [] [] []"
  let ?x = "\<lparr>xd_inner = ?h, xd_param = RawxCommand\<lparr>rc_range := \<lparr>rg_start = 1, rg_size = 1\<rparr>\<rparr>, xd_step = Prepared\<rparr>"
  obtain h' where 1: "HttpDownload_Read ?hp [] (?h, ?c) = Some (3, [1, 2, 3], h', ?c)"
    "HttpDownload_IsEof h'" "rp_body (hd_reply h') = []"
    by (simp add: HttpDownload_Read_def http_eval log_body_def HttpDownload_IsEof_def i32_of_nat_small)
  have "\<not> HttpDownload_IsEof ?h" by (simp add: HttpDownload_IsEof_def)
  with 1 have "drain_into (HttpDownload_IsEof \<circ> fst) (HttpDownload_Read ?hp) [] (?h, ?c) = Some ([1, 2, 3], h', ?c)"
    by (subst drain_into.simps) (simp add: drain_into.simps)
  then have r: "RawxDownload_Read ?hp [] (?x, ?c) = Some (1, [2], ?x\<lparr>xd_inner := h'\<rparr>, ?c)"
    by (simp add: RawxDownload_Read_def take_range_def RawxCommand_def i32_of_nat_small)
  from rawx_download_read [OF r] obtain body where
    b: "announced (hd_reply h') = body @ concat (rp_body (hd_reply h'))"
    by (auto simp: announced_def Reply_def log_body_def)
  have "announced (hd_reply h') = [1, 2, 3]"
    using drain_into_announced [of "script_parser 200 [([Ev_body [1, 2, 3], Ev_complete], 1)]" ?h ?c "[1, 2, 3]" h' ?c]
      \<open>drain_into _ _ _ _ = _\<close> 1(3)
    by (simp add: announced_def Reply_def log_body_def)
  with r show ?thesis
    by (intro exI [of _ ?x] exI [of _ ?c] exI [of _ "?x\<lparr>xd_inner := h'\<rparr>"]) simp
qed

end
