(* ===== verification/Ec_Blob.thy ===== *)
theory Ec_Blob
  imports Rawx_Blob
begin

text \<open>
  Erasure-coded blobs (\<open>src/src/oio/blob/ec/blob.hpp\<close>, \<open>blob.cpp\<close>), the map of sockets they share
  (\<open>src/src/oio/blob/http/socket_map.h\<close>), and the router between them and the rawx
  (\<open>src/src/oio/blob/router/blob.hpp\<close>, \<open>blob.cpp\<close>).  The library liberasurecode is the parameter
  \<open>lib\<close>.  A pointer to a fragment is \<open>None\<close> when null, else the bytes of the fragment.
\<close>

section \<open>The map of sockets\<close>

record sock_elem =
  se_conn :: conn
  se_bopen :: bool
  se_timer :: int

record sock_map =
  sm_elem :: "string \<Rightarrow> sock_elem"
  sm_now :: int

definition MAX_DELAY :: int where
  "MAX_DELAY = 5000"

definition SocketElement_Close :: "sock_elem \<Rightarrow> sock_elem" where
  "SocketElement_Close e =
     (if se_bopen e then e\<lparr>se_conn := conn_close (se_conn e), se_bopen := False\<rparr> else e)"

definition SocketElement_Reconnect :: "sock_elem \<Rightarrow> sock_elem option" where
  "SocketElement_Reconnect e =
     (if se_bopen e then do {
        (err, c) \<leftarrow> conn_Reconnect (se_conn e);
        Some (e\<lparr>se_conn := c, se_bopen := (err = None)\<rparr>)
      } else Some e)"

text \<open>The first connection of a new socket and a reconnection take the next outcome of the host.\<close>

definition SocketElement_GetSocket :: "int \<Rightarrow> sock_elem \<Rightarrow> (bool \<times> sock_elem) option" where
  "SocketElement_GetSocket now e = do {
     e' \<leftarrow> (if \<not> se_bopen e \<or> now > se_timer e then do {
              (err, c) \<leftarrow> conn_Reconnect (se_conn e);
              Some (e\<lparr>se_conn := c, se_bopen := (err = None)\<rparr>)
            } else Some e);
     Some (se_bopen e', e'\<lparr>se_timer := now + MAX_DELAY\<rparr>)
   }"

definition SocketMap_GetSocket :: "string \<Rightarrow> sock_map \<Rightarrow> (bool \<times> sock_map) option" where
  "SocketMap_GetSocket host m = do {
     (ok, e) \<leftarrow> SocketElement_GetSocket (sm_now m) (sm_elem m host);
     Some (ok, m\<lparr>sm_elem := (sm_elem m)(host := e)\<rparr>)
   }"

definition sock_of :: "sock_map \<Rightarrow> string \<Rightarrow> conn" where
  "sock_of m host = se_conn (sm_elem m host)"

definition put_sock :: "string \<Rightarrow> conn \<Rightarrow> sock_map \<Rightarrow> sock_map" where
  "put_sock host c m = m\<lparr>sm_elem := (sm_elem m)(host := (sm_elem m host)\<lparr>se_conn := c\<rparr>)\<rparr>"

section \<open>Commands\<close>

record ec_command =
  ec_range :: range
  ec_targets :: "rawx_url_set list"
  ec_req_id :: string
  ec_kVal :: nat
  ec_mVal :: nat
  ec_nbChunks :: int
  ec_encodingMethod :: nat
  ec_chunkSize :: "32 word"

definition EcCommand_Clear :: "ec_command \<Rightarrow> ec_command" where
  "EcCommand_Clear c = c\<lparr>ec_range := Range_Clear (ec_range c), ec_targets := [], ec_req_id := [],
     ec_kVal := 0, ec_mVal := 0, ec_nbChunks := 0, ec_encodingMethod := 0, ec_chunkSize := 0\<rparr>"

definition AddTarget :: "rawx_url_set \<Rightarrow> ec_command \<Rightarrow> ec_command" where
  "AddTarget t c = c\<lparr>ec_targets := targets_insert t (ec_targets c)\<rparr>"

definition EcCommand_Set :: "ec_command \<Rightarrow> ec_command \<Rightarrow> ec_command" where
  "EcCommand_Set arg c = c\<lparr>ec_range := Range_Set (ec_range arg) (Range_Clear (ec_range c)),
     ec_targets := fold targets_insert (ec_targets arg) [], ec_req_id := ec_req_id arg,
     ec_kVal := ec_kVal arg, ec_mVal := ec_mVal arg, ec_nbChunks := ec_nbChunks arg,
     ec_encodingMethod := ec_encodingMethod arg, ec_chunkSize := ec_chunkSize arg\<rparr>"

section \<open>Fragments\<close>

text \<open>
  \<open>ec_create k m\<close>: whether a descriptor is obtained; \<open>ec_magic\<close>: whether a fragment starts with the
  magic number; \<open>ec_invalid\<close>: \<open>is_invalid_fragment\<close>; \<open>ec_encode k m d\<close>: the data fragments, the parity
  fragments and their length; \<open>ec_decode k m frags len\<close>: the decoded bytes.
\<close>

record ec_lib =
  ec_create :: "nat \<Rightarrow> nat \<Rightarrow> bool"
  ec_magic :: "bytes \<Rightarrow> bool"
  ec_invalid :: "bytes \<Rightarrow> bool"
  ec_encode :: "nat \<Rightarrow> nat \<Rightarrow> bytes \<Rightarrow> (bytes list \<times> bytes list \<times> nat) option"
  ec_decode :: "nat \<Rightarrow> nat \<Rightarrow> bytes list \<Rightarrow> nat \<Rightarrow> bytes option"

definition add_item_to_missing_mask :: "64 word \<Rightarrow> int \<Rightarrow> 64 word" where
  "add_item_to_missing_mask msk pos = (if pos < 0 then msk else msk OR push_bit (nat pos) 1)"

text \<open>The test of the source, with the precedence of C: \<open>(missing_mask | (1L << i)) == 1\<close>.\<close>

definition frag_skipped :: "64 word \<Rightarrow> nat \<Rightarrow> bool" where
  "frag_skipped missing_mask i = (missing_mask OR push_bit i 1 = 1)"

text \<open>One of the two loops: \<open>i\<close> is the index of the first fragment of the list.\<close>

fun collect_frags :: "ec_lib \<Rightarrow> 64 word \<Rightarrow> nat \<Rightarrow> bytes option list \<Rightarrow> bytes list" where
  "collect_frags lib msk i [] = []"
| "collect_frags lib msk i (p # ps) =
     (if frag_skipped msk i then collect_frags lib msk (Suc i) ps
      else case p of
        None \<Rightarrow> collect_frags lib msk (Suc i) ps
      | Some f \<Rightarrow>
          if \<not> ec_magic lib f then collect_frags lib msk (Suc i) ps
          else f # collect_frags lib msk (Suc i) ps)"

definition create_frags_array_set :: "ec_lib \<Rightarrow> bytes option list \<Rightarrow> bytes option list \<Rightarrow> 64 word \<Rightarrow> bytes list" where
  "create_frags_array_set lib data parity msk =
     collect_frags lib msk 0 data @ collect_frags lib msk (length data) parity"

text \<open>
  What \<open>Prepare\<close> reads of memory it never set: whether the first word of each of the two arrays just
  allocated happens to be null, and whether the word at an index past the array of the parity
  fragments is.
\<close>

record ec_heap =
  eh_data0 :: bool
  eh_parity0 :: bool
  eh_past :: "nat \<Rightarrow> bool"

text \<open>
  The mask of the missing fragments.  The source indexes both arrays with the same \<open>i\<close>: the parity
  fragment it looks at for \<open>i\<close> is \<open>encoded_parity[i]\<close>, not \<open>encoded_parity[i - K]\<close>.
\<close>

definition mask_missing :: "ec_heap \<Rightarrow> bytes option list \<Rightarrow> bytes option list \<Rightarrow> nat \<Rightarrow> bool" where
  "mask_missing h data parity i =
     (if i < length data then data ! i = None
      else if i < length parity then parity ! i = None
      else eh_past h i)"

definition missing_mask :: "ec_heap \<Rightarrow> bytes option list \<Rightarrow> bytes option list \<Rightarrow> 64 word" where
  "missing_mask h data parity =
     fold (\<lambda>i msk. if mask_missing h data parity i
             then add_item_to_missing_mask msk (int (length data + length parity) - 1 - int i) else msk)
       [0..<length data + length parity] 0"

section \<open>Download\<close>

record ec_download =
  ed_buffer :: bytes
  ed_xattr :: "(string, string) omap"
  ed_param :: ec_command
  ed_done :: bool

text \<open>
  The fragment of one target: a null pointer unless the socket, the preparation and the reads
  succeed.  \<open>None\<close>: the reads never end.  The length is that of the last fragment read.
\<close>

definition ec_fetch :: "'p http_parser \<Rightarrow> rawx_url_set \<Rightarrow> sock_map \<Rightarrow> (bytes option \<times> sock_map) option" where
  "ec_fetch hp to m0 = do {
     let url = rawx_url.truncate to;
     (ok, m) \<leftarrow> SocketMap_GetSocket (Host_Port url) m0;
     if \<not> ok then Some (None, m)
     else do {
       let pm = SetUrl url RawxCommand;
       let dl = RawxDownload_Build hp pm (RawxDownload_set_param pm no_builder);
       (rc, dl1, c1) \<leftarrow> RawxDownload_Prepare hp (dl, sock_of m (Host_Port url));
       if \<not> Ok rc then Some (None, put_sock (Host_Port url) c1 m)
       else do {
         (buf, dl2, c2) \<leftarrow> drain_into (RawxDownload_IsEof \<circ> fst) (RawxDownload_Read hp) [] (dl1, c1);
         Some (Some buf, put_sock (Host_Port url) c2 m)
       }
     }
   }"

text \<open>A slot of the arrays of fragments; writing past them is \<open>None\<close>.\<close>

definition put_frag :: "nat \<Rightarrow> int \<Rightarrow> bytes option \<Rightarrow> bytes option list \<times> bytes option list \<Rightarrow>
    (bytes option list \<times> bytes option list) option" where
  "put_frag k n p = (\<lambda>(data, parity).
     if n < int k then (if 0 \<le> n then Some (data[nat n := p], parity) else None)
     else if nat (n - int k) < length parity then Some (data, parity[nat (n - int k) := p])
     else None)"

text \<open>The bytes the caller will read; a copy past the decoded bytes is \<open>None\<close>.\<close>

definition decoded_range :: "range \<Rightarrow> bytes \<Rightarrow> bytes option" where
  "decoded_range r out =
     (if length out < rg_size r then Some out
      else if rg_start r + rg_size r \<le> length out then Some (take (rg_size r) (drop (rg_start r) out))
      else None)"

text \<open>The loop over the targets: the decoded bytes once enough fragments have come.\<close>

fun ec_scan :: "'p http_parser \<Rightarrow> ec_lib \<Rightarrow> ec_heap \<Rightarrow> ec_command \<Rightarrow> rawx_url_set list \<Rightarrow> nat \<Rightarrow> nat \<Rightarrow>
    bytes option list \<times> bytes option list \<Rightarrow> sock_map \<Rightarrow> (bytes option \<times> sock_map) option" where
  "ec_scan hp lib hv pm [] nbValid len frags m = Some (None, m)"
| "ec_scan hp lib hv pm (to # ts) nbValid len frags m = do {
     (p0, m1) \<leftarrow> ec_fetch hp to m;
     let len' = (case p0 of None \<Rightarrow> len | Some f \<Rightarrow> length f);
     let p = (case p0 of None \<Rightarrow> None | Some f \<Rightarrow> if ec_invalid lib f then None else Some f);
     let nbValid' = (if p \<noteq> None then nbValid + 1 else nbValid);
     (data, parity) \<leftarrow> put_frag (ec_kVal pm) (ru_chunk_number to) p frags;
     if nbValid' \<ge> ec_kVal pm then
       (case ec_decode lib (ec_kVal pm) (ec_mVal pm)
               (create_frags_array_set lib data parity (missing_mask hv data parity)) len' of
          None \<Rightarrow> ec_scan hp lib hv pm ts nbValid' len' (data, parity) m1
        | Some out \<Rightarrow> do { buf \<leftarrow> decoded_range (ec_range pm) out; Some (Some buf, m1) })
     else ec_scan hp lib hv pm ts nbValid' len' (data, parity) m1
   }"

definition EcDownload_Prepare :: "'p http_parser \<Rightarrow> ec_lib \<Rightarrow> ec_heap \<Rightarrow> ec_download \<times> sock_map \<Rightarrow>
    (status \<times> ec_download \<times> sock_map) option" where
  "EcDownload_Prepare hp lib hv = (\<lambda>(d0, m).
     let d = d0\<lparr>ed_done := False\<rparr>; pm = ed_param d in
     if \<not> ec_create lib (ec_kVal pm) (ec_mVal pm) then Some (status_of InternalError, d, m)
     else if eh_data0 hv \<or> eh_parity0 hv then Some (status_of InternalError, d, m)
     else do {
       (res, m') \<leftarrow> ec_scan hp lib hv pm (ec_targets pm) 0 0
         (replicate (ec_kVal pm) None, replicate (ec_mVal pm) None) m;
       case res of
         None \<Rightarrow> Some (status_of InternalError, d, m')
       | Some buf \<Rightarrow> Some (status_of OK, d\<lparr>ed_buffer := buf\<rparr>, m')
     })"

definition EcDownload_IsEof :: "ec_download \<Rightarrow> bool" where
  "EcDownload_IsEof d = ed_done d"

definition EcDownload_Read :: "bytes \<Rightarrow> ec_download \<Rightarrow> int \<times> bytes \<times> ec_download" where
  "EcDownload_Read buf d =
     (if ed_buffer d = [] then (0, buf, d)
      else (i32_of_nat (length (ed_buffer d)), ed_buffer d, d\<lparr>ed_buffer := [], ed_done := True\<rparr>))"

definition EcDownload_SetXattr :: "string \<Rightarrow> string \<Rightarrow> ec_download \<Rightarrow> ec_download" where
  "EcDownload_SetXattr k v d = d\<lparr>ed_xattr := om_put k v (ed_xattr d)\<rparr>"

section \<open>Removal\<close>

text \<open>It answers success to everything and does nothing.\<close>

definition EcRemoval_Prepare :: "'s tx_op" where
  "EcRemoval_Prepare s = Some (status_of OK, s)"

definition EcRemoval_Commit :: "'s tx_op" where
  "EcRemoval_Commit s = Some (status_ok, s)"

definition EcRemoval_Abort :: "'s tx_op" where
  "EcRemoval_Abort s = Some (status_ok, s)"

section \<open>Upload\<close>

record ec_upload =
  eu_param :: ec_command
  eu_buffer :: bytes
  eu_xattr :: "(string, string) omap"

definition EcUpload_SetXattr :: "string \<Rightarrow> string \<Rightarrow> ec_upload \<Rightarrow> ec_upload" where
  "EcUpload_SetXattr k v u = u\<lparr>eu_xattr := om_put k v (eu_xattr u)\<rparr>"

definition EcUpload_Prepare :: "(ec_upload \<times> sock_map) tx_op" where
  "EcUpload_Prepare s = Some (status_of OK, s)"

text \<open>\<open>stream >> v\<close> into a variable with no value: \<open>None\<close> when it stays without one.\<close>

definition read_version :: "string \<Rightarrow> int option" where
  "read_version s =
     (if dropWhile is_space s = [] then None
      else case scan_int s of None \<Rightarrow> Some 0 | Some (i, _) \<Rightarrow> Some i)"

text \<open>The headers of a fragment; a missing attribute is a dereferenced \<open>end()\<close>, \<open>None\<close>.\<close>

definition chunk_headers :: "(string, string) omap \<Rightarrow> http_builder \<Rightarrow> http_builder option" where
  "chunk_headers xattr b = do {
     ci \<leftarrow> om_get xattr ''container-id'';
     cp \<leftarrow> om_get xattr ''content-path'';
     cid \<leftarrow> om_get xattr ''content-id'';
     cv \<leftarrow> om_get xattr ''content-version'';
     mt \<leftarrow> om_get xattr ''content-mime-type'';
     v \<leftarrow> read_version cv;
     Some (ChunkMethod ''plain/nb_copy=1'' (MimeType mt (StoragePolicy ''SINGLE''
       (ContentVersion v (ContentId cid (ContentPath cp (ContainerId ci b)))))))
   }"

text \<open>One blob written to a rawx; the statuses of \<open>Commit\<close> and \<open>Abort\<close> are dropped.\<close>

definition rawx_put :: "'p http_parser \<Rightarrow> http_builder \<Rightarrow> bytes \<Rightarrow> conn \<Rightarrow> conn option" where
  "rawx_put hp b body c0 = do {
     let (st, h) = RawxUpload_Build hp b;
     (rc, s1) \<leftarrow> Rawx_Prepare HttpUpload_Prepare (st, h, c0);
     if Ok rc then do {
       s2 \<leftarrow> RawxUpload_Write body s1;
       (_, s3) \<leftarrow> Rawx_Commit (HttpUpload_Commit hp) s2;
       Some (snd (snd s3))
     }
     else do {
       (_, s2) \<leftarrow> Rawx_Abort HttpUpload_Abort s1;
       Some (snd (snd s2))
     }
   }"

text \<open>The fragment of a target; an index past the arrays is \<open>None\<close>.\<close>

definition frag_of :: "nat \<Rightarrow> bytes list \<Rightarrow> bytes list \<Rightarrow> int \<Rightarrow> bytes option" where
  "frag_of k data parity n =
     (if n < int k then (if 0 \<le> n \<and> nat n < length data then Some (data ! nat n) else None)
      else if nat (n - int k) < length parity then Some (parity ! nat (n - int k)) else None)"

fun ec_store :: "'p http_parser \<Rightarrow> ec_upload \<Rightarrow> bytes list \<times> bytes list \<times> nat \<Rightarrow> rawx_url_set list \<Rightarrow>
    sock_map \<Rightarrow> sock_map option" where
  "ec_store hp u frs [] m = Some m"
| "ec_store hp u frs (to # ts) m = do {
     let url = rawx_url.truncate to;
     (ok, m1) \<leftarrow> SocketMap_GetSocket (Host_Port url) m;
     if \<not> ok then ec_store hp u frs ts m1
     else do {
       let pm = SetRange (ec_range (eu_param u)) (SetUrl url RawxCommand);
       b \<leftarrow> chunk_headers (eu_xattr u) (RawxUpload_set_param pm no_builder);
       body \<leftarrow> frag_of (ec_kVal (eu_param u)) (fst frs) (fst (snd frs)) (ru_chunk_number to);
       c \<leftarrow> rawx_put hp b (take (snd (snd frs)) body) (sock_of m1 (Host_Port url));
       ec_store hp u frs ts (put_sock (Host_Port url) c m1)
     }
   }"

definition EcUpload_Commit :: "'p http_parser \<Rightarrow> ec_lib \<Rightarrow> (ec_upload \<times> sock_map) tx_op" where
  "EcUpload_Commit hp lib = (\<lambda>(u, m).
     let pm = eu_param u in
     if \<not> ec_create lib (ec_kVal pm) (ec_mVal pm) then Some (status_of InternalError, u, m)
     else case ec_encode lib (ec_kVal pm) (ec_mVal pm) (eu_buffer u) of
       None \<Rightarrow> Some (status_of InternalError, u, m)
     | Some frs \<Rightarrow> do { m' \<leftarrow> ec_store hp u frs (ec_targets pm) m; Some (status_of OK, u, m') })"

fun ec_remove :: "'p http_parser \<Rightarrow> rawx_url_set list \<Rightarrow> sock_map \<Rightarrow> sock_map option" where
  "ec_remove hp [] m = Some m"
| "ec_remove hp (to # ts) m = do {
     let url = rawx_url.truncate to;
     (ok, m1) \<leftarrow> SocketMap_GetSocket (Host_Port url) m;
     if \<not> ok then ec_remove hp ts m1
     else do {
       let (st, h) = RawxRemoval_Build hp (RawxRemoval_set_param (SetUrl url RawxCommand) no_builder);
       (rc, s1) \<leftarrow> Rawx_Prepare (HttpRemoval_Prepare hp) (st, h, sock_of m1 (Host_Port url));
       s2 \<leftarrow> (if Ok rc then do { (_, s2) \<leftarrow> Rawx_Commit (HttpRemoval_Commit hp) s1; Some s2 } else Some s1);
       ec_remove hp ts (put_sock (Host_Port url) (snd (snd s2)) m1)
     }
   }"

definition EcUpload_Abort :: "'p http_parser \<Rightarrow> (ec_upload \<times> sock_map) tx_op" where
  "EcUpload_Abort hp = (\<lambda>(u, m). do {
     m' \<leftarrow> ec_remove hp (ec_targets (eu_param u)) m;
     Some (status_of OK, u, m')
   })"

text \<open>
  The loop of \<open>Write\<close>, which \<open>EcUpload\<close> and \<open>RouterUpload\<close> share: \<open>avail\<close> is computed in 32 bits, and
  a turn that can store nothing changes nothing.
\<close>

partial_function (option) bounded_write :: "32 word \<Rightarrow> bytes \<Rightarrow> bytes \<Rightarrow> bytes option" where
  "bounded_write chunkSize buffer buf =
     (if buf = [] then Some buffer
      else let avail = chunkSize - word_of_nat (length buffer);
               local = min (unat avail) (length buf)
        in bounded_write chunkSize (buffer @ take local buf) (drop local buf))"

definition EcUpload_Write :: "bytes \<Rightarrow> ec_upload \<times> sock_map \<Rightarrow> (ec_upload \<times> sock_map) option" where
  "EcUpload_Write buf = (\<lambda>(u, m). do {
     b \<leftarrow> bounded_write (ec_chunkSize (eu_param u)) (eu_buffer u) buf;
     Some (u\<lparr>eu_buffer := b\<rparr>, m)
   })"

section \<open>Router\<close>

datatype encoding_type = Enc_ec | Enc_rawx

record router_download =
  td_buffer :: bytes
  td_xattr :: "(string, string) omap"
  td_ec_param :: ec_command
  td_rawx_param :: rawx_command
  td_type :: encoding_type
  td_done :: bool

definition RouterDownload_set_ec_param :: "ec_command \<Rightarrow> router_download \<Rightarrow> router_download" where
  "RouterDownload_set_ec_param pm d = d\<lparr>td_ec_param := pm, td_type := Enc_ec\<rparr>"

definition RouterDownload_set_rawx_param :: "rawx_command \<Rightarrow> router_download \<Rightarrow> router_download" where
  "RouterDownload_set_rawx_param pm d = d\<lparr>td_rawx_param := pm, td_type := Enc_rawx\<rparr>"

definition RouterDownload_Prepare :: "'p http_parser \<Rightarrow> ec_lib \<Rightarrow> ec_heap \<Rightarrow> router_download \<times> sock_map \<Rightarrow>
    (status \<times> router_download \<times> sock_map) option" where
  "RouterDownload_Prepare hp lib hv = (\<lambda>(d0, m0).
     let d = d0\<lparr>td_done := False\<rparr> in
     case td_type d of
       Enc_ec \<Rightarrow> do {
         (rc, e, m1) \<leftarrow> EcDownload_Prepare hp lib hv
           (\<lparr>ed_buffer = [], ed_xattr = [], ed_param = td_ec_param d, ed_done = False\<rparr>, m0);
         if \<not> Ok rc then Some (status_of InternalError, d, m1)
         else do {
           (buf, e') \<leftarrow> drain_into EcDownload_IsEof (\<lambda>b e. Some (EcDownload_Read b e)) (td_buffer d) e;
           Some (status_of OK, d\<lparr>td_buffer := buf\<rparr>, m1)
         }
       }
     | Enc_rawx \<Rightarrow> do {
         let host = Host_Port (rc_url (td_rawx_param d));
         (ok, m1) \<leftarrow> SocketMap_GetSocket host m0;
         if \<not> ok then Some (status_of InternalError, d, m1)
         else do {
           let dl = RawxDownload_Build hp (td_rawx_param d) (RawxDownload_set_param (td_rawx_param d) no_builder);
           (rc, dl1, c1) \<leftarrow> RawxDownload_Prepare hp (dl, sock_of m1 host);
           if \<not> Ok rc then Some (status_of InternalError, d, put_sock host c1 m1)
           else do {
             (buf, dl2, c2) \<leftarrow>
               drain_into (RawxDownload_IsEof \<circ> fst) (RawxDownload_Read hp) (td_buffer d) (dl1, c1);
             Some (status_of OK, d\<lparr>td_buffer := buf\<rparr>, put_sock host c2 m1)
           }
         }
       })"

definition RouterDownload_IsEof :: "router_download \<Rightarrow> bool" where
  "RouterDownload_IsEof d = td_done d"

definition RouterDownload_Read :: "bytes \<Rightarrow> router_download \<Rightarrow> int \<times> bytes \<times> router_download" where
  "RouterDownload_Read buf d =
     (if td_buffer d = [] then (0, buf, d)
      else (i32_of_nat (length (td_buffer d)), td_buffer d, d\<lparr>td_buffer := [], td_done := True\<rparr>))"

record router_upload =
  tu_buffer :: bytes
  tu_xattrs :: "(string, string) omap"
  tu_ec_param :: ec_command
  tu_rawx_param :: rawx_command
  tu_chunkSize :: "32 word"
  tu_type :: encoding_type

definition RouterUpload_set_ec_param :: "ec_command \<Rightarrow> router_upload \<Rightarrow> router_upload" where
  "RouterUpload_set_ec_param pm u = u\<lparr>tu_ec_param := pm, tu_chunkSize := ec_chunkSize pm, tu_type := Enc_ec\<rparr>"

definition RouterUpload_set_rawx_param :: "rawx_command \<Rightarrow> router_upload \<Rightarrow> router_upload" where
  "RouterUpload_set_rawx_param pm u =
     u\<lparr>tu_rawx_param := pm, tu_chunkSize := rc_chunkSize pm, tu_type := Enc_rawx\<rparr>"

definition RouterUpload_SetXattr :: "string \<Rightarrow> string \<Rightarrow> router_upload \<Rightarrow> router_upload" where
  "RouterUpload_SetXattr k v u = u\<lparr>tu_xattrs := om_put k v (tu_xattrs u)\<rparr>"

definition RouterUpload_Prepare :: "(router_upload \<times> sock_map) tx_op" where
  "RouterUpload_Prepare s = Some (status_of OK, s)"

definition RouterUpload_Commit :: "'p http_parser \<Rightarrow> ec_lib \<Rightarrow> (router_upload \<times> sock_map) tx_op" where
  "RouterUpload_Commit hp lib = (\<lambda>(u, m0).
     case tu_type u of
       Enc_ec \<Rightarrow> do {
         let ul = \<lparr>eu_param = tu_ec_param u, eu_buffer = [], eu_xattr = tu_xattrs u\<rparr>;
         s1 \<leftarrow> EcUpload_Write (tu_buffer u) (ul, m0);
         (_, s2) \<leftarrow> EcUpload_Commit hp lib s1;
         Some (status_of OK, u, snd s2)
       }
     | Enc_rawx \<Rightarrow> do {
         let host = Host_Port (rc_url (tu_rawx_param u));
         (ok, m1) \<leftarrow> SocketMap_GetSocket host m0;
         if \<not> ok then Some (status_of OK, u, m1)
         else do {
           b \<leftarrow> chunk_headers (tu_xattrs u) (RawxUpload_set_param (tu_rawx_param u) no_builder);
           c \<leftarrow> rawx_put hp b (tu_buffer u) (sock_of m1 host);
           Some (status_of OK, u, put_sock host c m1)
         }
       })"

definition RouterUpload_Abort :: "(router_upload \<times> sock_map) tx_op" where
  "RouterUpload_Abort s = Some (status_of OK, s)"

definition RouterUpload_Write :: "bytes \<Rightarrow> router_upload \<times> sock_map \<Rightarrow> (router_upload \<times> sock_map) option" where
  "RouterUpload_Write buf = (\<lambda>(u, m). do {
     b \<leftarrow> bounded_write (tu_chunkSize u) (tu_buffer u) buf;
     Some (u\<lparr>tu_buffer := b\<rparr>, m)
   })"

section \<open>Laws\<close>

lemma bounded_write_full:
  assumes "bounded_write cs buffer buf = Some r" and "length buffer = unat cs"
  shows "buf = []"
proof -
  have "length buffer = unat cs \<longrightarrow> buf = []"
  proof (rule bounded_write.raw_induct [OF _ assms(1), where
      P = "\<lambda>cs buffer buf r. length buffer = unat cs \<longrightarrow> buf = []"])
    fix f :: "32 word \<Rightarrow> bytes \<Rightarrow> bytes \<Rightarrow> bytes option" and cs :: "32 word" and buffer buf r :: bytes
    assume IH: "\<And>cs buffer buf r. f cs buffer buf = Some r \<Longrightarrow> length buffer = unat cs \<longrightarrow> buf = []"
      and eq: "(if buf = [] then Some buffer
        else let avail = cs - word_of_nat (length buffer); local = min (unat avail) (length buf)
          in f cs (buffer @ take local buf) (drop local buf)) = Some r"
    show "length (buffer :: bytes) = unat (cs :: 32 word) \<longrightarrow> buf = []"
    proof
      assume l: "length buffer = unat cs"
      then have "cs - word_of_nat (length buffer) = 0" by simp
      with eq l IH [of cs buffer buf r] show "buf = []" by (auto split: if_splits)
    qed
  qed
  with assms(2) show ?thesis by blast
qed

lemma frag_skipped_iff: "i < 64 \<Longrightarrow> frag_skipped m i \<longleftrightarrow> i = 0 \<and> (m = 0 \<or> m = 1)"
proof -
  assume i: "i < 64"
  have "i = 0 \<and> (m = 0 \<or> m = 1)" if eq: "m OR push_bit i 1 = 1"
  proof -
    have bit: "bit m n \<or> n = i \<longleftrightarrow> n = 0" if "n < 64" for n
      using arg_cong [OF eq, of "\<lambda>w. bit w n"] that i by (auto simp: bit_simps)
    from bit [OF i] have 0: "i = 0" by simp
    have "bit m n = bit (if bit m 0 then 1 else 0 :: 64 word) n" if "n < 64" for n
      using bit [OF that] 0 by (cases "n = 0") (simp_all add: bit_1_iff)
    then have "m = (if bit m 0 then 1 else 0)" by (intro bit_word_eqI) simp
    then have "m = 0 \<or> m = 1" by metis
    with 0 show ?thesis by simp
  qed
  then show ?thesis by (auto simp: frag_skipped_def)
qed

text \<open>A fragment is read with the range no command sets, so every \<open>Read\<close> returns nothing.\<close>

lemma take_range_default: "take_range (rc_range RawxCommand) body = Some out \<Longrightarrow> out = []"
  by (auto simp: take_range_def RawxCommand_def split: if_splits)

lemma ec_fetch_empty: "ec_fetch hp to m = Some (Some f, m') \<Longrightarrow> f = []" for hp :: "'p http_parser"
proof -
  let ?pm = "SetUrl (rawx_url.truncate to) RawxCommand"
  assume "ec_fetch hp to m = Some (Some f, m')"
  then obtain c rc dl1 c1 dl2 c2 where
    p: "RawxDownload_Prepare hp (RawxDownload_Build hp ?pm (RawxDownload_set_param ?pm no_builder), c) =
        Some (rc, dl1, c1)"
    and d: "drain_into (RawxDownload_IsEof \<circ> fst) (RawxDownload_Read hp) [] (dl1, c1) = Some (f, dl2, c2)"
    by (auto simp: ec_fetch_def Let_def split: bind_splits if_splits)
  from p have r: "rc_range (xd_param dl1) = rc_range RawxCommand"
    by (auto simp: RawxDownload_Prepare_def RawxDownload_Build_def SetUrl_def Let_def split: bind_splits if_splits)
  let ?I = "\<lambda>buf (x :: 'p rawx_download, c :: conn). buf = [] \<and> rc_range (xd_param x) = rc_range RawxCommand"
  have keeps: "?I buf' s'" if "?I buf s" "RawxDownload_Read hp buf s = Some (i, buf', s')" for buf s i buf' s'
  proof -
    obtain x c where "s = (x, c)" by (cases s)
    with that show ?thesis
      by (auto simp: RawxDownload_Read_def split: bind_splits if_splits dest: take_range_default)
  qed
  have "?I f (dl2, c2)"
    using drain_into_invariant [OF d, of ?I] r keeps by auto
  then show ?thesis by simp
qed

lemma ec_scan_never:
  "ec_scan hp lib hv pm ts nv len frags m = Some (res, m') \<Longrightarrow> ec_invalid lib [] \<Longrightarrow> nv < ec_kVal pm \<Longrightarrow> res = None"
  by (induction hp lib hv pm ts nv len frags m rule: ec_scan.induct)
    (auto dest: ec_fetch_empty split: bind_splits option.splits if_splits)

lemma collect_frags_eq:
  "i + length ps \<le> 64 \<Longrightarrow> collect_frags lib msk i ps =
    filter (ec_magic lib) (List.map_filter id (if i = 0 \<and> (msk = 0 \<or> msk = 1) then drop 1 ps else ps))"
proof (induction lib msk i ps rule: collect_frags.induct)
  case (2 lib msk i p ps)
  then show ?case
    by (cases p) (auto simp: frag_skipped_iff List.map_filter_def)
qed (simp add: List.map_filter_def)

lemma bounded_write_some:
  "length buffer + length buf \<le> unat cs \<Longrightarrow> bounded_write cs buffer buf = Some (buffer @ buf)"
proof (cases "buf = []")
  case False
  assume fits: "length buffer + length buf \<le> unat cs"
  then have "min (unat (cs - word_of_nat (length buffer))) (length buf) = length buf"
    using unat_minus_nat [of buffer cs] by simp
  with False have "bounded_write cs buffer buf = bounded_write cs (buffer @ buf) []"
    by (subst bounded_write.simps) (simp only: if_False Let_def take_all drop_all order_refl)
  then show ?thesis by (simp add: bounded_write.simps)
qed (simp add: bounded_write.simps)

lemma bounded_write_none:
  assumes "length buffer \<le> unat cs" and "unat cs < length buffer + length buf"
  shows "bounded_write cs buffer buf = None"
proof -
  let ?l = "unat cs - length buffer"
  have "min (unat (cs - word_of_nat (length buffer))) (length buf) = ?l"
    using assms unat_minus_nat [OF assms(1)] by simp
  moreover have "buf \<noteq> []" using assms by auto
  ultimately have "bounded_write cs buffer buf = bounded_write cs (buffer @ take ?l buf) (drop ?l buf)"
    by (subst bounded_write.simps) (simp only: if_False Let_def)
  moreover have "bounded_write cs (buffer @ take ?l buf) (drop ?l buf) = None"
    using bounded_write_full [of cs "buffer @ take ?l buf" "drop ?l buf"] assms
    by (cases "bounded_write cs (buffer @ take ?l buf) (drop ?l buf)") simp_all
  ultimately show ?thesis by simp
qed

text \<open>A host that refuses the next connection is skipped, and nothing is known of the others.\<close>

definition refuses :: "sock_map \<Rightarrow> string \<Rightarrow> bool" where
  "refuses m h = (\<not> se_bopen (sm_elem m h) \<and>
     (\<exists>e ch rest. cn_next (se_conn (sm_elem m h)) = (Some e, ch) # rest \<and> e \<noteq> E_none))"

lemma refused_GetSocket:
  assumes "refuses m h"
  obtains m' where "SocketMap_GetSocket h m = Some (False, m')" and "\<not> se_bopen (sm_elem m' h)"
    and "\<And>h'. h' \<noteq> h \<Longrightarrow> sm_elem m' h' = sm_elem m h'"
  using assms
  by (auto simp: refuses_def SocketMap_GetSocket_def SocketElement_GetSocket_def conn_Reconnect_def)

lemma ec_store_refused:
  assumes "distinct (map (Host_Port \<circ> rawx_url.truncate) ts)"
    and "\<forall>to \<in> set ts. refuses m (Host_Port (rawx_url.truncate to))"
  shows "\<exists>m'. ec_store hp u frs ts m = Some m' \<and>
    (\<forall>h. if h \<in> set (map (Host_Port \<circ> rawx_url.truncate) ts) then \<not> se_bopen (sm_elem m' h)
      else sm_elem m' h = sm_elem m h)"
  using assms
proof (induction ts arbitrary: m)
  case (Cons to ts)
  let ?h = "Host_Port (rawx_url.truncate to)"
  obtain m1 where 1: "SocketMap_GetSocket ?h m = Some (False, m1)" "\<not> se_bopen (sm_elem m1 ?h)"
    "\<And>h'. h' \<noteq> ?h \<Longrightarrow> sm_elem m1 h' = sm_elem m h'"
    using refused_GetSocket [of m ?h] Cons.prems(2) by auto
  have "\<forall>to' \<in> set ts. refuses m1 (Host_Port (rawx_url.truncate to'))"
    using Cons.prems 1(3) by (auto simp: refuses_def) (metis imageI)+
  with Cons.IH [of m1] Cons.prems(1) obtain m' where 2: "ec_store hp u frs ts m1 = Some m'"
    "\<forall>h. if h \<in> set (map (Host_Port \<circ> rawx_url.truncate) ts) then \<not> se_bopen (sm_elem m' h)
      else sm_elem m' h = sm_elem m1 h" by auto
  have "ec_store hp u frs (to # ts) m = Some m'" using 1(1) 2(1) by (simp add: Let_def)
  moreover have "if h \<in> set (map (Host_Port \<circ> rawx_url.truncate) (to # ts)) then \<not> se_bopen (sm_elem m' h)
      else sm_elem m' h = sm_elem m h" for h
    using 2(2) [rule_format, of h] 1(2,3) by (auto split: if_splits)
  ultimately show ?case by blast
qed simp

section \<open>Properties\<close>

text \<open>C31. No erasure-coded blob can be downloaded: whatever the servers answer, \<open>Prepare\<close> fails and
  leaves the buffer as it was, and no \<open>Read\<close> ever moves the download to its end.  The command each
  fragment is read with has no range, so each fragment comes back empty and is discarded, provided
  the library takes an empty fragment for invalid.\<close>

theorem ec_download_never_succeeds:
  assumes "EcDownload_Prepare hp lib hv (d, m) = Some (st, d', m')"
    and "ec_invalid lib []" and "0 < ec_kVal (ed_param d)"
  shows "\<not> Ok st \<and> ed_buffer d' = ed_buffer d \<and> \<not> EcDownload_IsEof d'
    \<and> (ed_buffer d = [] \<longrightarrow> (\<forall>buf. EcDownload_Read buf d' = (0, buf, d')))"
  using assms
  by (auto simp: EcDownload_Prepare_def EcDownload_IsEof_def EcDownload_Read_def Let_def
      split: bind_splits if_splits option.splits dest: ec_scan_never)

text \<open>A server that delivers two bytes to the first target, and a library that would decode them.\<close>

abbreviation demo_parser :: "(hevent list \<times> nat) list http_parser" where
  "demo_parser \<equiv> script_parser 200 [([Ev_begin, Ev_headers_complete], 1), ([Ev_body [7, 8], Ev_complete], 1)]"

abbreviation demo_lib :: ec_lib where
  "demo_lib \<equiv> \<lparr>ec_create = \<lambda>k m. True, ec_magic = \<lambda>f. f \<noteq> [], ec_invalid = \<lambda>f. f = [],
     ec_encode = \<lambda>k m b. Some ([b], [], length b), ec_decode = \<lambda>k m fs n. Some (concat fs)\<rparr>"

definition demo_target :: rawx_url_set where
  "demo_target = \<lparr>ru_chunk_id = ''AB'', ru_host = ''h'', ru_port = 6010, ru_chunk_number = 0\<rparr>"

definition demo_map :: sock_map where
  "demo_map = \<lparr>sm_elem = \<lambda>h. \<lparr>se_conn = (open_conn [] [] [])\<lparr>cn_open := False,
     cn_next := [(None, cn_chan (open_conn [0, 0] [Rd_data 2] [Wr_n 999]))]\<rparr>, se_bopen = False, se_timer = 0\<rparr>, sm_now = 0\<rparr>"

lemma ec_fetch_demo: "\<exists>m. ec_fetch demo_parser demo_target demo_map = Some (Some [], m) \<and>
    unread_of (sock_of m ''h:6010'') = []"
proof -
  let ?pm = "SetUrl (rawx_url.truncate demo_target) RawxCommand"
  let ?dl = "RawxDownload_Build demo_parser ?pm (RawxDownload_set_param ?pm no_builder)"
  let ?c = "(open_conn [0, 0] [Rd_data 2] [Wr_n 999])"
  have host: "Host_Port (rawx_url.truncate demo_target) = ''h:6010''"
    by (simp add: demo_target_def Host_Port_def show_int_def show_base.simps rawx_url.truncate_def) code_simp
  obtain m where m: "SocketMap_GetSocket ''h:6010'' demo_map = Some (True, m)" "sock_of m ''h:6010'' = ?c"
    by (simp add: SocketMap_GetSocket_def SocketElement_GetSocket_def demo_map_def conn_Reconnect_def
        sock_of_def open_conn_def)
  have host2: "Host_Port (rc_url ?pm) = ''h:6010''"
    using host by (simp add: SetUrl_def RawxUrl_Set_def Host_Port_def)
  have rq: "hd_request (xd_inner ?dl) = Request_ContentLength 0
      (Request_Field ''Host'' ''h:6010'' (Request_Selector ''/rawx/AB'' (Request_Method ''GET'' Request)))"
    by (simp add: RawxDownload_Build_def RawxDownload_set_param_def no_builder_def HttpDownload_Build_def
        Builder_Name_def Builder_Host_def host2)
      (simp add: demo_target_def rawx_url.truncate_def SetUrl_def RawxUrl_Set_def)
  obtain c1 where 1: "WriteHeaders (hd_request (xd_inner ?dl)) ?c = Some (H_OK, c1)" "cn_open c1"
    "ch_rd (cn_chan c1) = [Rd_data 2]" "ch_in (cn_chan c1) = [0, 0]"
    unfolding rq
    by (simp add: WriteHeaders_def request_headers_def request_line_def Request_ContentLength_def
        Request_Field_def Request_Selector_def Request_Method_def field_line_def
        Request_def open_conn_def conn_send_iov_one crlf_def show_int_def show_base.simps)
  have 2: "FinishRequest (hd_request (xd_inner ?dl)) c1 = Some (H_OK, c1)"
    unfolding rq by (simp add: FinishRequest_def Request_ContentLength_def Request_Field_def
        Request_Selector_def Request_Method_def Request_def)
  have rp: "hd_reply (xd_inner ?dl) = Reply demo_parser" "hd_step (xd_inner ?dl) = Init" "xd_step ?dl = Init"
    "rc_range (xd_param ?dl) = rc_range RawxCommand"
    by (simp_all add: RawxDownload_Build_def HttpDownload_Build_def SetUrl_def Let_def)
  obtain rp c3 where 3: "ReadHeaders demo_parser (Reply demo_parser) c1 = Some (H_OK, rp, c3)"
    "rp_body rp = []" "rp_step rp = Body" "rp_pending rp = [0]" "rp_parser rp = [([Ev_body [7, 8], Ev_complete], 1)]"
    "unread_of c3 = []"
    using 1(2-4) by (simp add: http_eval unread_of_def)
  let ?h = "(xd_inner ?dl)\<lparr>hd_reply := rp, hd_step := Prepared\<rparr>"
  let ?x = "?dl\<lparr>xd_inner := ?h, xd_step := Prepared\<rparr>"
  have "Request_Connected ?c" by (simp add: Request_Connected_def open_conn_def)
  then have p: "RawxDownload_Prepare demo_parser (?dl, ?c) = Some (status_of OK, ?x, c3)"
    using 1(1) 2 3(1) rp
    by (simp add: RawxDownload_Prepare_def HttpDownload_Prepare_def script_parser_def Let_def)
  obtain rp' where 4: "HttpDownload_Read demo_parser [] (?h, c3) = Some (2, [7, 8], ?h\<lparr>hd_reply := rp'\<rparr>, c3)"
    "rp_body rp' = []" "rp_step rp' = R_Done"
    using 3 by (simp add: HttpDownload_Read_def http_eval i32_of_nat_small)
  let ?h' = "?h\<lparr>hd_reply := rp'\<rparr>"
  have e: "\<not> HttpDownload_IsEof ?h" "HttpDownload_IsEof ?h'" using 3 4 by (simp_all add: HttpDownload_IsEof_def)
  have "drain_into (HttpDownload_IsEof \<circ> fst) (HttpDownload_Read demo_parser) [] (?h, c3) = Some ([7, 8], ?h', c3)"
    using 4(1) e by (subst drain_into.simps, simp) (subst drain_into.simps, simp)
  then have "RawxDownload_Read demo_parser [] (?x, c3) = Some (0, [], ?x\<lparr>xd_inner := ?h'\<rparr>, c3)"
    using rp(4) by (simp add: RawxDownload_Read_def take_range_def RawxCommand_def i32_of_nat_small)
  then have "drain_into (RawxDownload_IsEof \<circ> fst) (RawxDownload_Read demo_parser) [] (?x, c3) =
      Some ([], ?x\<lparr>xd_inner := ?h'\<rparr>, c3)"
    using e by (subst drain_into.simps, simp add: RawxDownload_IsEof_def)
      (subst drain_into.simps, simp add: RawxDownload_IsEof_def)
  with m p 3(6) show ?thesis
    by (simp add: ec_fetch_def host sock_of_def put_sock_def Let_def)
qed

theorem ec_download_never_succeeds_witness:
  "\<exists>d st d' m'. EcDownload_Prepare demo_parser demo_lib \<lparr>eh_data0 = False, eh_parity0 = False, eh_past = \<lambda>i. True\<rparr>
      (d, demo_map) = Some (st, d', m')
    \<and> \<not> Ok st \<and> unread_of (sock_of m' ''h:6010'') = []"
proof -
  let ?hv = "\<lparr>eh_data0 = False, eh_parity0 = False, eh_past = \<lambda>i. True\<rparr>"
  let ?d = "\<lparr>ed_buffer = [], ed_xattr = [], ed_param = \<lparr>ec_range = \<lparr>rg_start = 0, rg_size = 2\<rparr>,
      ec_targets = [demo_target], ec_req_id = [], ec_kVal = 1, ec_mVal = 0, ec_nbChunks = 1, ec_encodingMethod = 0,
      ec_chunkSize = 0\<rparr>, ed_done = False\<rparr>"
  obtain m' where "ec_fetch demo_parser demo_target demo_map = Some (Some [], m')"
    "unread_of (sock_of m' ''h:6010'') = []" using ec_fetch_demo by blast
  then obtain st d' where "EcDownload_Prepare demo_parser demo_lib ?hv (?d, demo_map) = Some (st, d', m')"
    by (simp add: EcDownload_Prepare_def put_frag_def demo_target_def)
  with ec_download_never_succeeds [OF this] \<open>unread_of _ = []\<close> show ?thesis by fastforce
qed

text \<open>C32. The fragments handed to the decoder are those present whose header carries the magic
  number, data first, in order, except that the first data fragment is left out when the mask of
  the missing ones is 0 or 1: the test was meant to be a conjunction of bits.\<close>

theorem ec_frags:
  "length data + length parity \<le> 64 \<Longrightarrow> create_frags_array_set lib data parity msk =
    filter (ec_magic lib) (List.map_filter id
      ((if msk = 0 \<or> msk = 1 then drop 1 data else data) @
       (if data = [] \<and> (msk = 0 \<or> msk = 1) then drop 1 parity else parity)))"
  by (simp add: create_frags_array_set_def collect_frags_eq List.map_filter_def)

theorem ec_frags_witness:
  "create_frags_array_set \<lparr>ec_create = \<lambda>k m. True, ec_magic = \<lambda>f. f \<noteq> [], ec_invalid = \<lambda>f. f = [],
      ec_encode = \<lambda>k m b. None, ec_decode = \<lambda>k m fs n. None\<rparr> [Some [1], None, Some [3]] [Some [], Some [5]] 0
    = [[3], [5]]"
  by (subst ec_frags) (simp_all add: List.map_filter_def)

text \<open>C33. A write of an erasure-coded upload is stored whole when it fits in the chunk size; one byte
  too many and the loop never ends.\<close>

theorem ec_write_capacity:
  assumes "length (eu_buffer u) \<le> unat (ec_chunkSize (eu_param u))"
  shows "EcUpload_Write buf (u, m) =
    (if length (eu_buffer u) + length buf \<le> unat (ec_chunkSize (eu_param u))
     then Some (u\<lparr>eu_buffer := eu_buffer u @ buf\<rparr>, m) else None)"
  using assms by (simp add: EcUpload_Write_def bounded_write_some bounded_write_none)

theorem ec_write_capacity_witness:
  "\<exists>u. \<forall>m. ec_chunkSize (eu_param u) = 4 \<and> EcUpload_Write [1, 2, 3] (u, m) = Some (u\<lparr>eu_buffer := [0, 1, 2, 3]\<rparr>, m)
    \<and> EcUpload_Write [1, 2, 3, 4] (u, m) = None"
proof -
  let ?u = "\<lparr>eu_param = \<lparr>ec_range = \<lparr>rg_start = 0, rg_size = 0\<rparr>, ec_targets = [], ec_req_id = [], ec_kVal = 1,
      ec_mVal = 0, ec_nbChunks = 1, ec_encodingMethod = 0, ec_chunkSize = 4\<rparr>, eu_buffer = [0], eu_xattr = []\<rparr>"
  show ?thesis
    using ec_write_capacity [of ?u "[1, 2, 3]"] ec_write_capacity [of ?u "[1, 2, 3, 4]"]
    by (intro exI [of _ ?u]) simp
qed

text \<open>An erasure-coded upload answers OK when no fragment was stored anywhere: every target's host
  refused the connection, and none is connected in the end.\<close>

theorem ec_commit_ignores_targets:
  assumes "ec_create lib (ec_kVal (eu_param u)) (ec_mVal (eu_param u))"
    and "ec_encode lib (ec_kVal (eu_param u)) (ec_mVal (eu_param u)) (eu_buffer u) = Some frs"
    and "distinct (map (Host_Port \<circ> rawx_url.truncate) (ec_targets (eu_param u)))"
    and "\<forall>to \<in> set (ec_targets (eu_param u)). refuses m (Host_Port (rawx_url.truncate to))"
  shows "\<exists>m'. EcUpload_Commit hp lib (u, m) = Some (status_of OK, u, m')
    \<and> (\<forall>to \<in> set (ec_targets (eu_param u)). \<not> se_bopen (sm_elem m' (Host_Port (rawx_url.truncate to))))"
proof -
  from ec_store_refused [OF assms(3,4), of hp u frs] obtain m' where
    m: "ec_store hp u frs (ec_targets (eu_param u)) m = Some m'"
    and h: "\<forall>h. if h \<in> set (map (Host_Port \<circ> rawx_url.truncate) (ec_targets (eu_param u)))
      then \<not> se_bopen (sm_elem m' h) else sm_elem m' h = sm_elem m h" by blast
  have "\<not> se_bopen (sm_elem m' (Host_Port (rawx_url.truncate to)))" if "to \<in> set (ec_targets (eu_param u))" for to
    using h [rule_format, of "Host_Port (rawx_url.truncate to)"] that by (auto split: if_splits)
  with m assms(1,2) show ?thesis by (simp add: EcUpload_Commit_def Let_def)
qed

theorem ec_commit_ignores_targets_witness:
  "\<exists>u m m'. ec_targets (eu_param u) = [demo_target] \<and> eu_buffer u = [7, 8] \<and>
    EcUpload_Commit demo_parser demo_lib (u, m) = Some (status_of OK, u, m') \<and>
    \<not> se_bopen (sm_elem m' (Host_Port (rawx_url.truncate demo_target)))"
proof -
  let ?u = "\<lparr>eu_param = \<lparr>ec_range = \<lparr>rg_start = 0, rg_size = 0\<rparr>, ec_targets = [demo_target], ec_req_id = [],
      ec_kVal = 1, ec_mVal = 0, ec_nbChunks = 1, ec_encodingMethod = 0, ec_chunkSize = 4\<rparr>,
      eu_buffer = [7, 8], eu_xattr = []\<rparr>"
  let ?m = "\<lparr>sm_elem = \<lambda>h. \<lparr>se_conn = (open_conn [] [] [])\<lparr>cn_open := False,
     cn_next := [(Some ECONNREFUSED, cn_chan (open_conn [] [] []))]\<rparr>, se_bopen = False, se_timer = 0\<rparr>, sm_now = 0\<rparr>"
  have "refuses ?m h" for h by (simp add: refuses_def)
  then obtain m' where
    "EcUpload_Commit demo_parser demo_lib (?u, ?m) = Some (status_of OK, ?u, m')"
    "\<forall>to \<in> set (ec_targets (eu_param ?u)). \<not> se_bopen (sm_elem m' (Host_Port (rawx_url.truncate to)))"
    using ec_commit_ignores_targets [of demo_lib ?u "([[7, 8]], [], 2)" ?m demo_parser] by auto
  then show ?thesis
    by (intro exI [of _ ?u] exI [of _ ?m] exI [of _ m']) simp
qed

end
