(* ===== verification/Utils.thy ===== *)
theory Utils
  imports Prelude
begin

text \<open>
  The helpers of \<open>src/src/utils/utils.hpp\<close> and \<open>utils.cpp\<close>: digests, the order of bytes on the wire and
  random texts.  The primitives of OpenSSL and the random device are parameters.
\<close>

section \<open>Digests\<close>

definition bin2hex :: "bytes \<Rightarrow> string" where
  "bin2hex b = concat (map hex2 b)"

text \<open>A digest of the library: its initial state, \<open>Update\<close> and \<open>Final\<close>; MD5 and SHA1 are two of them.\<close>

record 'd digest =
  dg_init :: 'd
  dg_update :: "'d \<Rightarrow> bytes \<Rightarrow> 'd"
  dg_final :: "'d \<Rightarrow> bytes"

definition Checksum :: "'d digest \<Rightarrow> 'd" where
  "Checksum dg = dg_init dg"

definition Checksum_Update :: "'d digest \<Rightarrow> bytes \<Rightarrow> 'd \<Rightarrow> 'd" where
  "Checksum_Update dg b c = dg_update dg c b"

definition Checksum_Final :: "'d digest \<Rightarrow> 'd \<Rightarrow> string" where
  "Checksum_Final dg c = bin2hex (dg_final dg c)"

definition compute_sha1 :: "'d digest \<Rightarrow> bytes \<Rightarrow> bytes" where
  "compute_sha1 sha1 b = dg_final sha1 (dg_update sha1 (dg_init sha1) b)"

text \<open>\<open>htonl\<close> and \<open>ntohl\<close>: the four bytes on the wire.\<close>

definition htonl :: "32 word \<Rightarrow> bytes" where
  "htonl w = (let n = unat w in
     [word_of_nat (n div 2 ^ 24), word_of_nat (n div 2 ^ 16 mod 256), word_of_nat (n div 2 ^ 8 mod 256),
      word_of_nat (n mod 256)])"

definition ntohl :: "bytes \<Rightarrow> 32 word" where
  "ntohl bs = word_of_nat (foldl (\<lambda>n b. n * 256 + unat b) 0 bs)"

definition compute_sha1_hmac :: "(string \<Rightarrow> 'd digest) \<Rightarrow> string \<Rightarrow> bytes \<Rightarrow> bytes" where
  "compute_sha1_hmac hmac key val =
     (let dg = hmac key; c = dg_init dg;
          c' = (if val \<noteq> [] then dg_update dg (dg_update dg c (htonl (word_of_nat (length val)))) val else c)
      in dg_final dg c')"

section \<open>Random texts\<close>

text \<open>The draws of the generator, each below the number of possible characters; \<open>None\<close> without any.\<close>

fun append_string_random :: "string \<Rightarrow> nat \<Rightarrow> string \<Rightarrow> nat list \<Rightarrow> (string \<times> nat list) option" where
  "append_string_random dst 0 chars ds = Some (dst, ds)"
| "append_string_random dst (Suc len) chars [] = None"
| "append_string_random dst (Suc len) chars (d # ds) =
     (if d < length chars then append_string_random (dst @ [chars ! d]) len chars ds else None)"

definition generate_string_random :: "nat \<Rightarrow> string \<Rightarrow> nat list \<Rightarrow> (string \<times> nat list) option" where
  "generate_string_random len chars ds = append_string_random [] len chars ds"

section \<open>Laws\<close>

lemma length_htonl [simp]: "length (htonl w) = 4"
  by (simp add: htonl_def Let_def)

lemma ntohl_htonl [simp]: "ntohl (htonl w) = w"
proof -
  let ?n = "unat w"
  have "?n < 2 ^ 32" using unsigned_less [of w] by simp
  then have "?n div 2 ^ 24 < 256" by simp
  then have "foldl (\<lambda>n b. n * 256 + unat b) 0 (htonl w) =
      ((?n div 2 ^ 24 * 256 + ?n div 2 ^ 16 mod 256) * 256 + ?n div 2 ^ 8 mod 256) * 256 + ?n mod 256"
    by (simp add: htonl_def Let_def unat_of_nat take_bit_nat_eq_self)
  also have "\<dots> = ?n"
  proof -
    have "m div (k * 256) * 256 + m div k mod 256 = m div k" for m k :: nat
      by (simp add: div_mult2_eq)
    from this [of ?n "2 ^ 16"] this [of ?n "2 ^ 8"] this [of ?n 1] show ?thesis by simp
  qed
  finally show ?thesis by (simp add: ntohl_def)
qed

lemma unat_ntohl_htonl: "n < 2 ^ 32 \<Longrightarrow> unat (ntohl (htonl (word_of_nat n))) = n"
  by (simp add: unat_of_nat take_bit_nat_eq_self)

end
