(* ===== verification/Kinetic_Rpc.thy ===== *)
theory Kinetic_Rpc
  imports Net Utils
begin

text \<open>
  The messages exchanged with a kinetic drive (\<open>src/src/oio/blob/kinetic/coro/RPC.h\<close>, \<open>RPC.cpp\<close>).
  The classes protoc generates and the primitives of OpenSSL are the
  fields of \<open>pb_lib\<close>; the arithmetic on \<open>double\<close> is the parameter \<open>fl\<close>.
\<close>

definition the_default :: "'a \<Rightarrow> 'a option \<Rightarrow> 'a" where
  "the_default d x = (case x of None \<Rightarrow> d | Some y \<Rightarrow> y)"

lemma the_default_simps [simp]: "the_default d None = d" "the_default d (Some y) = y"
  by (simp_all add: the_default_def)

section \<open>Protocol messages\<close>

datatype msg_type = MT_NONE | MT_PUT | MT_GET | MT_DELETE | MT_GETKEYRANGE | MT_GETLOG | MT_GETNEXT

datatype sync_mode = WRITEBACK | WRITETHROUGH

record pb_header =
  ph_type :: msg_type
  ph_normal :: bool
  ph_clusterversion :: int
  ph_connectionid :: int
  ph_timeout :: int
  ph_sequence :: int
  ph_acksequence :: int

record pb_keyvalue =
  kv_key :: "string option"
  kv_sync :: "sync_mode option"
  kv_sha1 :: bool
  kv_force :: "bool option"
  kv_dbversion :: "string option"
  kv_newversion :: "string option"
  kv_tag :: "bytes option"

record pb_range =
  rg_startkey :: "string option"
  rg_endkey :: "string option"
  rg_startinclusive :: "bool option"
  rg_endinclusive :: "bool option"
  rg_maxreturned :: "int option"
  rg_keys :: "string list"

datatype log_type = CAPACITIES | TEMPERATURES | UTILIZATIONS

text \<open>A temperature is its minimum, its maximum and its current value.\<close>

record 'n pb_getlog =
  gl_types :: "log_type list"
  gl_capacity :: "'n option"
  gl_temperatures :: "('n \<times> 'n \<times> 'n) list"
  gl_utilizations :: "(string \<times> 'n) list"

record 'n pb_command =
  pc_header :: pb_header
  pc_keyvalue :: pb_keyvalue
  pc_range :: pb_range
  pc_getlog :: "'n pb_getlog"
  pc_success :: bool

record pb_message =
  pm_commandbytes :: "bytes option"
  pm_hmacauth :: bool
  pm_identity :: int
  pm_hmac :: bytes

text \<open>\<open>pb_default\<close>: a message of the generated classes before any field of it is set.\<close>

record ('n, 'd) pb_lib =
  pb_default :: "'n pb_command"
  pb_command_bytes :: "'n pb_command \<Rightarrow> bytes"
  pb_command_parse :: "bytes \<Rightarrow> 'n pb_command option"
  pb_message_bytes :: "pb_message \<Rightarrow> bytes"
  pb_message_parse :: "bytes \<Rightarrow> pb_message option"
  pb_sha1 :: "'d digest"
  pb_hmac :: "string \<Rightarrow> 'd digest"

section \<open>Context\<close>

record kcontext =
  cx_cnx_id :: int
  cx_sequence_id :: int
  cx_cluster_version :: int
  cx_identity :: int
  cx_sha_salt :: string

definition KContext_Reset :: "int \<Rightarrow> kcontext \<Rightarrow> kcontext" where
  "KContext_Reset now ctx = ctx\<lparr>cx_cnx_id := now, cx_sequence_id := 1\<rparr>"

definition Context :: "int \<Rightarrow> kcontext" where
  "Context now = KContext_Reset now \<lparr>cx_cnx_id = 0, cx_sequence_id = 0, cx_cluster_version = 0, cx_identity = 1,
     cx_sha_salt = ''asdfasdf''\<rparr>"

section \<open>Frames\<close>

record kframe =
  fr_msg :: bytes
  fr_val :: bytes

text \<open>The nine bytes in front of a frame.\<close>

definition frame_header :: "nat \<Rightarrow> nat \<Rightarrow> bytes" where
  "frame_header lenmsg lenval = 0x46 # htonl (word_of_nat lenmsg) @ htonl (word_of_nat lenval)"

text \<open>A part of the frame that may be empty.\<close>

definition read_part :: "nat \<Rightarrow> chan \<Rightarrow> ((errno option \<times> bytes) \<times> chan) option" where
  "read_part len c = (if len > 0 then chan_read_exactly len c else Some ((None, []), c))"

text \<open>\<open>Frame::Read\<close>: \<open>None\<close> for 0, else the error; \<open>maxsize\<close> is the flag \<open>max_frame_size\<close>.\<close>

definition Frame_Read :: "nat \<Rightarrow> chan \<Rightarrow> ((errno option \<times> kframe) \<times> chan) option" where
  "Frame_Read maxsize c0 = do {
     let f0 = \<lparr>fr_msg = [], fr_val = []\<rparr>;
     ((e, hdr), c1) \<leftarrow> chan_read_exactly 9 c0;
     if e \<noteq> None then Some ((e, f0), c1)
     else if hd hdr \<noteq> 0x46 then Some ((Some EBADMSG, f0), c1)
     else do {
       let lenmsg = unat (ntohl (take 4 (drop 1 hdr)));
       let lenval = unat (ntohl (take 4 (drop 5 hdr)));
       if lenval > maxsize \<or> lenmsg > maxsize then Some ((Some E2BIG, f0), c1)
       else do {
         ((e1, msg), c2) \<leftarrow> read_part lenmsg c1;
         if e1 \<noteq> None then Some ((e1, f0), c2)
         else do {
           ((e2, val), c3) \<leftarrow> read_part lenval c2;
           if e2 \<noteq> None then Some ((e2, f0), c3)
           else Some ((None, \<lparr>fr_msg = msg, fr_val = val\<rparr>), c3)
         }
       }
     }
   }"

section \<open>Replies\<close>

record 'n kreq =
  kr_cmd :: "'n pb_command"
  kr_value :: bytes

definition Request_Parse :: "('n, 'd) pb_lib \<Rightarrow> kframe \<Rightarrow> 'n kreq \<Rightarrow> bool \<times> 'n kreq" where
  "Request_Parse lib f r0 =
     (let r = r0\<lparr>kr_value := []\<rparr> in
      case pb_message_parse lib (fr_msg f) of
        None \<Rightarrow> (False, r)
      | Some m \<Rightarrow>
          (case pm_commandbytes m of
             None \<Rightarrow> (True, r)
           | Some b \<Rightarrow>
               (case pb_command_parse lib b of
                  None \<Rightarrow> (False, r)
                | Some cmd \<Rightarrow> (True, r\<lparr>kr_cmd := cmd, kr_value := fr_val f\<rparr>))))"

definition Request_new :: "('n, 'd) pb_lib \<Rightarrow> 'n kreq" where
  "Request_new lib = \<lparr>kr_cmd = pb_default lib, kr_value = []\<rparr>"

definition Request_Read :: "('n, 'd) pb_lib \<Rightarrow> nat \<Rightarrow> chan \<Rightarrow> ((errno option \<times> 'n kreq) \<times> chan) option" where
  "Request_Read lib maxsize c = do {
     ((e, f), c') \<leftarrow> Frame_Read maxsize c;
     if e \<noteq> None then Some ((e, Request_new lib), c')
     else let (ok, r) = Request_Parse lib f (Request_new lib) in
       Some ((if ok then None else Some EINVAL, r), c')
   }"

section \<open>Exchanges\<close>

record 'n klog =
  lg_cpu :: 'n
  lg_temp :: 'n
  lg_space :: 'n
  lg_io :: 'n

text \<open>
  The classes derived from \<open>Exchange\<close> in one record: the type in the header tells which one it is.
  \<open>ex_payload\<close> is \<open>None\<close> for a null pointer; \<open>ex_buf\<close> is the \<open>out_\<close> of a \<open>Get\<close> and the \<open>value_copy\<close> of a \<open>Put\<close>.
\<close>

record 'n exch =
  ex_cmd :: "'n pb_command"
  ex_payload :: "bytes option"
  ex_status :: bool
  ex_buf :: bytes
  ex_keys :: "string list"
  ex_next :: string
  ex_log :: "'n klog"

record 'n float_ops =
  fl_of :: "int \<Rightarrow> 'n"
  fl_sub :: "'n \<Rightarrow> 'n \<Rightarrow> 'n"
  fl_mul :: "'n \<Rightarrow> 'n \<Rightarrow> 'n"
  fl_div :: "'n \<Rightarrow> 'n \<Rightarrow> 'n"
  fl_less :: "'n \<Rightarrow> 'n \<Rightarrow> bool"

definition upd_header :: "(pb_header \<Rightarrow> pb_header) \<Rightarrow> 'n exch \<Rightarrow> 'n exch" where
  "upd_header f x = x\<lparr>ex_cmd := (ex_cmd x)\<lparr>pc_header := f (pc_header (ex_cmd x))\<rparr>\<rparr>"

definition upd_keyvalue :: "(pb_keyvalue \<Rightarrow> pb_keyvalue) \<Rightarrow> 'n exch \<Rightarrow> 'n exch" where
  "upd_keyvalue f x = x\<lparr>ex_cmd := (ex_cmd x)\<lparr>pc_keyvalue := f (pc_keyvalue (ex_cmd x))\<rparr>\<rparr>"

definition upd_range :: "(pb_range \<Rightarrow> pb_range) \<Rightarrow> 'n exch \<Rightarrow> 'n exch" where
  "upd_range f x = x\<lparr>ex_cmd := (ex_cmd x)\<lparr>pc_range := f (pc_range (ex_cmd x))\<rparr>\<rparr>"

definition Exchange :: "'n float_ops \<Rightarrow> ('n, 'd) pb_lib \<Rightarrow> 'n exch" where
  "Exchange fl lib = \<lparr>ex_cmd = pb_default lib, ex_payload = None, ex_status = False, ex_buf = [], ex_keys = [],
     ex_next = [], ex_log = \<lparr>lg_cpu = fl_of fl 0, lg_temp = fl_of fl 0, lg_space = fl_of fl 0, lg_io = fl_of fl 0\<rparr>\<rparr>"

definition SetSequence :: "int \<Rightarrow> 'n exch \<Rightarrow> 'n exch" where
  "SetSequence s x = upd_header (\<lambda>h. h\<lparr>ph_sequence := s\<rparr>) x"

definition exch_checkStatus :: "'n kreq \<Rightarrow> 'n exch \<Rightarrow> 'n exch" where
  "exch_checkStatus rep x = x\<lparr>ex_status := pc_success (kr_cmd rep)\<rparr>"

definition exch_ManageError :: "errno \<Rightarrow> 'n exch \<Rightarrow> 'n exch" where
  "exch_ManageError e x = x\<lparr>ex_status := False\<rparr>"

definition exch_Ok :: "'n exch \<Rightarrow> bool" where
  "exch_Ok x = ex_status x"

text \<open>\<open>Exchange::Write\<close>: the header that is completed, the message around the command, the frame.\<close>

definition exch_header :: "kcontext \<Rightarrow> 'n exch \<Rightarrow> 'n exch" where
  "exch_header ctx x = upd_header (\<lambda>h. h\<lparr>ph_normal := True, ph_clusterversion := cx_cluster_version ctx,
     ph_connectionid := cx_cnx_id ctx, ph_timeout := 1000\<rparr>) x"

definition exch_message :: "('n, 'd) pb_lib \<Rightarrow> kcontext \<Rightarrow> 'n exch \<Rightarrow> pb_message" where
  "exch_message lib ctx x =
     (let b = pb_command_bytes lib (ex_cmd x) in
      \<lparr>pm_commandbytes = Some b, pm_hmacauth = True, pm_identity = cx_identity ctx,
       pm_hmac = compute_sha1_hmac (pb_hmac lib) (cx_sha_salt ctx) b\<rparr>)"

definition exch_Write :: "('n, 'd) pb_lib \<Rightarrow> kcontext \<Rightarrow> 'n exch \<Rightarrow> chan \<Rightarrow>
    ((errno option \<times> 'n exch) \<times> chan) option" where
  "exch_Write lib ctx x0 c = do {
     let x = exch_header ctx x0;
     let tmp = pb_message_bytes lib (exch_message lib ctx x);
     let len = (case ex_payload x of None \<Rightarrow> 0 | Some p \<Rightarrow> length p);
     let iov = [frame_header (length tmp) len, tmp] @ (case ex_payload x of None \<Rightarrow> [] | Some p \<Rightarrow> [p]);
     (e, c') \<leftarrow> chan_send_iov iov c;
     Some ((e, x), c')
   }"

section \<open>The commands\<close>

definition Delete_new :: "'n float_ops \<Rightarrow> ('n, 'd) pb_lib \<Rightarrow> 'n exch" where
  "Delete_new fl lib = upd_keyvalue (\<lambda>kv. kv\<lparr>kv_sync := Some WRITEBACK, kv_sha1 := True\<rparr>)
     (upd_header (\<lambda>h. h\<lparr>ph_type := MT_DELETE\<rparr>) (Exchange fl lib))"

definition Get_new :: "'n float_ops \<Rightarrow> ('n, 'd) pb_lib \<Rightarrow> 'n exch" where
  "Get_new fl lib = upd_keyvalue (\<lambda>kv. kv\<lparr>kv_sha1 := True\<rparr>)
     (upd_header (\<lambda>h. h\<lparr>ph_type := MT_GET\<rparr>) (Exchange fl lib))"

definition GetKeyRange_new :: "'n float_ops \<Rightarrow> ('n, 'd) pb_lib \<Rightarrow> 'n exch" where
  "GetKeyRange_new fl lib =
     upd_range (\<lambda>r. r\<lparr>rg_startinclusive := Some True, rg_endinclusive := Some True, rg_maxreturned := Some 200\<rparr>)
       (upd_header (\<lambda>h. h\<lparr>ph_type := MT_GETKEYRANGE\<rparr>) (Exchange fl lib))"

definition GetLog_new :: "'n float_ops \<Rightarrow> ('n, 'd) pb_lib \<Rightarrow> 'n exch" where
  "GetLog_new fl lib =
     (let x = upd_header (\<lambda>h. h\<lparr>ph_type := MT_GETLOG\<rparr>) (Exchange fl lib);
          g = pc_getlog (ex_cmd x)
      in x\<lparr>ex_cmd := (ex_cmd x)\<lparr>pc_getlog :=
           g\<lparr>gl_types := gl_types g @ [CAPACITIES, TEMPERATURES, UTILIZATIONS]\<rparr>\<rparr>\<rparr>)"

definition GetNext_new :: "'n float_ops \<Rightarrow> ('n, 'd) pb_lib \<Rightarrow> 'n exch" where
  "GetNext_new fl lib = upd_keyvalue (\<lambda>kv. kv\<lparr>kv_sha1 := True\<rparr>)
     (upd_header (\<lambda>h. h\<lparr>ph_type := MT_GETNEXT\<rparr>) (Exchange fl lib))"

definition Put_new :: "'n float_ops \<Rightarrow> ('n, 'd) pb_lib \<Rightarrow> 'n exch" where
  "Put_new fl lib =
     upd_keyvalue (\<lambda>kv. kv\<lparr>kv_sync := Some WRITEBACK, kv_sha1 := True, kv_force := Some True\<rparr>)
       (upd_header (\<lambda>h. h\<lparr>ph_type := MT_PUT\<rparr>) (Exchange fl lib))"

text \<open>\<open>Key\<close> is the same in \<open>Delete\<close>, \<open>Get\<close>, \<open>GetNext\<close> and \<open>Put\<close>.\<close>

definition exch_Key :: "string \<Rightarrow> 'n exch \<Rightarrow> 'n exch" where
  "exch_Key k x = upd_keyvalue (\<lambda>kv. kv\<lparr>kv_key := Some k\<rparr>) x"

definition Get_Steal :: "bytes \<Rightarrow> 'n exch \<Rightarrow> bytes \<times> 'n exch" where
  "Get_Steal v x = (ex_buf x, x\<lparr>ex_buf := v\<rparr>)"

definition GKR_Start :: "string \<Rightarrow> 'n exch \<Rightarrow> 'n exch" where
  "GKR_Start k x = upd_range (\<lambda>r. r\<lparr>rg_startkey := Some k\<rparr>) x"

definition GKR_End :: "string \<Rightarrow> 'n exch \<Rightarrow> 'n exch" where
  "GKR_End k x = upd_range (\<lambda>r. r\<lparr>rg_endkey := Some k\<rparr>) x"

definition GKR_IncludeStart :: "bool \<Rightarrow> 'n exch \<Rightarrow> 'n exch" where
  "GKR_IncludeStart v x = upd_range (\<lambda>r. r\<lparr>rg_startinclusive := Some v\<rparr>) x"

definition GKR_IncludeEnd :: "bool \<Rightarrow> 'n exch \<Rightarrow> 'n exch" where
  "GKR_IncludeEnd v x = upd_range (\<lambda>r. r\<lparr>rg_endinclusive := Some v\<rparr>) x"

definition GKR_MaxItems :: "int \<Rightarrow> 'n exch \<Rightarrow> 'n exch" where
  "GKR_MaxItems v x = upd_range (\<lambda>r. r\<lparr>rg_maxreturned := Some v\<rparr>) x"

definition GKR_Steal :: "string list \<Rightarrow> 'n exch \<Rightarrow> string list \<times> 'n exch" where
  "GKR_Steal v x = (ex_keys x, x\<lparr>ex_keys := v\<rparr>)"

definition GetNext_Steal :: "string \<Rightarrow> 'n exch \<Rightarrow> string \<times> 'n exch" where
  "GetNext_Steal v x = (ex_next x, x\<lparr>ex_next := v\<rparr>)"

text \<open>A null \<open>p\<close> is dereferenced, \<open>None\<close>; any other is taken for an empty version.\<close>

definition Put_PreVersion :: "string option \<Rightarrow> 'n exch \<Rightarrow> 'n exch option" where
  "Put_PreVersion p x =
     (case p of
        None \<Rightarrow> None
      | Some v \<Rightarrow>
          let empty = True;
              x' = upd_keyvalue (\<lambda>kv. kv\<lparr>kv_force := Some empty\<rparr>) x
          in Some (if \<not> empty then upd_keyvalue (\<lambda>kv. kv\<lparr>kv_dbversion := Some v\<rparr>) x' else x'))"

definition Put_PostVersion :: "string option \<Rightarrow> 'n exch \<Rightarrow> 'n exch option" where
  "Put_PostVersion p x =
     (case p of
        None \<Rightarrow> None
      | Some v \<Rightarrow>
          let empty = True
          in Some (if \<not> empty then upd_keyvalue (\<lambda>kv. kv\<lparr>kv_newversion := Some v\<rparr>) x else x))"

definition Put_rehash :: "('n, 'd) pb_lib \<Rightarrow> 'n exch \<Rightarrow> 'n exch" where
  "Put_rehash lib x =
     (let p = (case ex_payload x of None \<Rightarrow> [] | Some p \<Rightarrow> p)
      in upd_keyvalue (\<lambda>kv. kv\<lparr>kv_tag := Some (compute_sha1 (pb_sha1 lib) p)\<rparr>) x)"

text \<open>A value that is copied, one whose vector is swapped with the copy, one that stays where it is.\<close>

definition Put_Value :: "('n, 'd) pb_lib \<Rightarrow> bytes \<Rightarrow> 'n exch \<Rightarrow> 'n exch" where
  "Put_Value lib v x = Put_rehash lib (x\<lparr>ex_buf := v, ex_payload := Some v\<rparr>)"

definition Put_Value_swap :: "('n, 'd) pb_lib \<Rightarrow> bytes \<Rightarrow> 'n exch \<Rightarrow> bytes \<times> 'n exch" where
  "Put_Value_swap lib v x = (ex_buf x, Put_rehash lib (x\<lparr>ex_buf := v, ex_payload := Some v\<rparr>))"

definition Put_Value_slice :: "('n, 'd) pb_lib \<Rightarrow> bytes option \<Rightarrow> 'n exch \<Rightarrow> 'n exch" where
  "Put_Value_slice lib v x = Put_rehash lib (x\<lparr>ex_payload := v\<rparr>)"

definition Put_Sync :: "bool \<Rightarrow> 'n exch \<Rightarrow> 'n exch" where
  "Put_Sync on x = upd_keyvalue (\<lambda>kv. kv\<lparr>kv_sync := Some (if on then WRITETHROUGH else WRITEBACK)\<rparr>) x"

section \<open>Managing a reply\<close>

definition Get_ManageReply :: "'n kreq \<Rightarrow> 'n exch \<Rightarrow> 'n exch" where
  "Get_ManageReply rep x0 =
     (let x = exch_checkStatus rep x0 in if ex_status x then x\<lparr>ex_buf := kr_value rep\<rparr> else x)"

definition GKR_ManageReply :: "'n kreq \<Rightarrow> 'n exch \<Rightarrow> 'n exch" where
  "GKR_ManageReply rep x0 =
     (let x = exch_checkStatus rep x0 in
      if ex_status x then x\<lparr>ex_keys := ex_keys x @ rg_keys (pc_range (kr_cmd rep))\<rparr> else x)"

definition log_temperature :: "'n float_ops \<Rightarrow> ('n \<times> 'n \<times> 'n) list \<Rightarrow> 'n" where
  "log_temperature fl ts = foldl (\<lambda>t0 (minimum, maximum, current).
     let mx = fl_sub fl maximum minimum; cur = fl_sub fl current minimum;
         t = fl_mul fl (fl_of fl 100) (fl_sub fl (fl_of fl 1) (fl_div fl cur mx))
     in if fl_less fl t t0 then t else t0) (fl_of fl 100) ts"

definition log_utilization :: "'n float_ops \<Rightarrow> (string \<times> 'n) list \<Rightarrow> 'n klog \<Rightarrow> 'n klog" where
  "log_utilization fl us l = foldl (\<lambda>l (name, value).
     let val = fl_mul fl (fl_of fl 100) (fl_sub fl (fl_of fl 1) value);
         l1 = (if take 3 name = ''CPU'' then l\<lparr>lg_cpu := val\<rparr> else l)
     in if take 2 name = ''HD'' then l1\<lparr>lg_io := val\<rparr> else l1) l us"

definition GetLog_ManageReply :: "'n float_ops \<Rightarrow> 'n kreq \<Rightarrow> 'n exch \<Rightarrow> 'n exch" where
  "GetLog_ManageReply fl rep x0 =
     (let x = exch_checkStatus rep x0; gl = pc_getlog (kr_cmd rep); l0 = ex_log x;
          l1 = (case gl_capacity gl of None \<Rightarrow> l0
                | Some usage \<Rightarrow> l0\<lparr>lg_space := fl_mul fl (fl_of fl 100) (fl_sub fl (fl_of fl 1) usage)\<rparr>);
          l2 = (if gl_temperatures gl \<noteq> [] then l1\<lparr>lg_temp := log_temperature fl (gl_temperatures gl)\<rparr> else l1);
          l3 = (if gl_utilizations gl \<noteq> [] then log_utilization fl (gl_utilizations gl) l2 else l2)
      in x\<lparr>ex_log := l3\<rparr>)"

text \<open>The virtual call, by the class of the exchange.\<close>

definition exch_ManageReply :: "'n float_ops \<Rightarrow> 'n kreq \<Rightarrow> 'n exch \<Rightarrow> 'n exch" where
  "exch_ManageReply fl rep x =
     (case ph_type (pc_header (ex_cmd x)) of
        MT_GET \<Rightarrow> Get_ManageReply rep x
      | MT_GETKEYRANGE \<Rightarrow> GKR_ManageReply rep x
      | MT_GETLOG \<Rightarrow> GetLog_ManageReply fl rep x
      | _ \<Rightarrow> exch_checkStatus rep x)"

section \<open>Laws\<close>

lemma length_frame_header [simp]: "length (frame_header m v) = 9"
  by (simp add: frame_header_def)

text \<open>A frame that is all there, on a channel that delivers: it is read, and nothing after it.\<close>

lemma frame_header_lengths:
  "m < 2 ^ 32 \<Longrightarrow> unat (ntohl (take 4 (drop (Suc 0) (frame_header m v)))) = m"
  "v < 2 ^ 32 \<Longrightarrow> unat (ntohl (drop 5 (frame_header m v))) = v"
  "hd (frame_header m v) = 0x46"
  by (simp_all add: frame_header_def unat_ntohl_htonl del: ntohl_htonl)

lemma read_part_delivers:
  assumes "ch_in c = b @ rest" and "length b \<le> deliveries (ch_rd c)" and "delivering (ch_rd c)"
  obtains c' where "read_part (length b) c = Some ((None, b), c')"
    "ch_in c' = rest" "delivering (ch_rd c')" "deliveries (ch_rd c) \<le> deliveries (ch_rd c') + length b"
proof (cases "b = []")
  case True
  with assms that [of c] show ?thesis by (simp add: read_part_def)
next
  case False
  from assms have "length b \<le> length (ch_in c)" by simp
  from chan_read_exactly_delivers [OF this assms(2,3)] obtain c' where
    "chan_read_exactly (length b) c = Some ((None, take (length b) (ch_in c)), c')" "ch_in c' = drop (length b) (ch_in c)"
    "delivering (ch_rd c')" "deliveries (ch_rd c) \<le> deliveries (ch_rd c') + length b" .
  with False assms(1) that [of c'] show ?thesis by (simp add: read_part_def)
qed

lemma Frame_Read_whole:
  assumes "ch_in c = frame_header (length m) (length v) @ m @ v @ rest"
    and "length m \<le> maxsize" and "length v \<le> maxsize" and "maxsize < 2 ^ 32"
    and "9 + length m + length v \<le> deliveries (ch_rd c)" and "delivering (ch_rd c)"
  obtains c' where "Frame_Read maxsize c = Some ((None, \<lparr>fr_msg = m, fr_val = v\<rparr>), c')" "ch_in c' = rest"
proof -
  let ?h = "frame_header (length m) (length v)"
  have "9 \<le> length (ch_in c)" "9 \<le> deliveries (ch_rd c)" using assms(1,5) by simp_all
  from chan_read_exactly_delivers [OF this assms(6)] obtain c1 where
    1: "chan_read_exactly 9 c = Some ((None, take 9 (ch_in c)), c1)" "ch_in c1 = drop 9 (ch_in c)"
    "delivering (ch_rd c1)" "deliveries (ch_rd c) \<le> deliveries (ch_rd c1) + 9" .
  have h: "take 9 (ch_in c) = ?h" "ch_in c1 = m @ v @ rest" using 1(2) assms(1) by simp_all
  from read_part_delivers [OF h(2) _ 1(3)] 1(4) assms(5) obtain c2 where
    2: "read_part (length m) c1 = Some ((None, m), c2)"
    "ch_in c2 = v @ rest" "delivering (ch_rd c2)" "deliveries (ch_rd c1) \<le> deliveries (ch_rd c2) + length m"
    by auto
  from read_part_delivers [OF 2(2) _ 2(3)] 1(4) 2(4) assms(5) obtain c3 where
    3: "read_part (length v) c2 = Some ((None, v), c3)"
    "ch_in c3 = rest" by auto
  have "length m < 2 ^ 32" "length v < 2 ^ 32" using assms(2-4) by simp_all
  with 1(1) 2(1) 3 assms(2,3) show ?thesis
    by (intro that [of c3])
      (simp_all add: Frame_Read_def h(1) frame_header_lengths Let_def del: length_greater_0_conv)
qed

section \<open>Properties\<close>

text \<open>C13. What an exchange writes on a channel, the peer reads back: the same command, with the header
  the context completes, the same payload, and nothing of what follows, provided the message and
  the payload are within the size the peer accepts and the generated classes parse what they print.\<close>

theorem kinetic_exchange_roundtrip:
  assumes "pb_command_parse lib (pb_command_bytes lib (ex_cmd x')) = Some (ex_cmd x')"
    and "pb_message_parse lib (pb_message_bytes lib (exch_message lib ctx x')) = Some (exch_message lib ctx x')"
    and "exch_Write lib ctx x c = Some ((None, x'), c')"
    and "ch_in r = drop (length (ch_out c)) (ch_out c') @ rest"
    and "delivering (ch_rd r)" and "length (ch_out c') \<le> length (ch_out c) + deliveries (ch_rd r)"
    and "length (pb_message_bytes lib (exch_message lib ctx x')) \<le> maxsize"
    and "length (the_default [] (ex_payload x)) \<le> maxsize" and "maxsize < 2 ^ 32"
  shows "\<exists>req r'. Request_Read lib maxsize r = Some ((None, req), r') \<and> ch_in r' = rest
    \<and> kr_cmd req = ex_cmd x' \<and> kr_value req = the_default [] (ex_payload x)
    \<and> x' = exch_header ctx x"
proof -
  let ?m = "pb_message_bytes lib (exch_message lib ctx x')" and ?v = "the_default [] (ex_payload x)"
  have x': "x' = exch_header ctx x"
    using assms(3) by (auto simp: exch_Write_def Let_def split: bind_splits)
  then have p: "ex_payload x' = ex_payload x" by (simp add: exch_header_def upd_header_def)
  obtain iov where iov: "chan_send_iov iov c = Some (None, c')" "concat iov = frame_header (length ?m) (length ?v) @ ?m @ ?v"
    using assms(3) p unfolding x'
    by (cases "ex_payload x") (auto simp: exch_Write_def Let_def split: bind_splits)
  have out: "ch_out c' = ch_out c @ frame_header (length ?m) (length ?v) @ ?m @ ?v"
    using ch_iov.send_prefix [OF iov(1)] iov(2) by auto
  with assms(4) have i: "ch_in r = frame_header (length ?m) (length ?v) @ ?m @ ?v @ rest" by simp
  from out assms(6) have "9 + length ?m + length ?v \<le> deliveries (ch_rd r)" by simp
  from Frame_Read_whole [OF i assms(7,8,9) this assms(5)] obtain r' where
    "Frame_Read maxsize r = Some ((None, \<lparr>fr_msg = ?m, fr_val = ?v\<rparr>), r')" "ch_in r' = rest" .
  then show ?thesis
    using assms(1,2) p by (simp add: Request_Read_def Request_Parse_def exch_message_def x' Let_def)
qed

text \<open>A library with one command and one message, for the witness.\<close>

definition demo_command :: "nat pb_command" where
  "demo_command = \<lparr>pc_header = \<lparr>ph_type = MT_NONE, ph_normal = False, ph_clusterversion = 0, ph_connectionid = 0,
       ph_timeout = 0, ph_sequence = 0, ph_acksequence = 0\<rparr>,
     pc_keyvalue = \<lparr>kv_key = None, kv_sync = None, kv_sha1 = False, kv_force = None, kv_dbversion = None,
       kv_newversion = None, kv_tag = None\<rparr>,
     pc_range = \<lparr>rg_startkey = None, rg_endkey = None, rg_startinclusive = None, rg_endinclusive = None,
       rg_maxreturned = None, rg_keys = []\<rparr>,
     pc_getlog = \<lparr>gl_types = [], gl_capacity = None, gl_temperatures = [], gl_utilizations = []\<rparr>,
     pc_success = False\<rparr>"

definition demo_floats :: "nat float_ops" where
  "demo_floats = \<lparr>fl_of = nat, fl_sub = (-), fl_mul = (*), fl_div = (div), fl_less = (<)\<rparr>"

definition demo_digest :: "bytes digest" where
  "demo_digest = \<lparr>dg_init = [], dg_update = (\<lambda>c b. c @ b), dg_final = (\<lambda>c. [of_nat (length c)])\<rparr>"

definition demo_pb :: "nat pb_command \<Rightarrow> pb_message \<Rightarrow> (nat, bytes) pb_lib" where
  "demo_pb cmd m = \<lparr>pb_default = demo_command, pb_command_bytes = \<lambda>_. [1], pb_command_parse = \<lambda>_. Some cmd,
     pb_message_bytes = \<lambda>_. [2, 2], pb_message_parse = \<lambda>_. Some m, pb_sha1 = demo_digest, pb_hmac = \<lambda>_. demo_digest\<rparr>"

theorem kinetic_exchange_roundtrip_witness:
  "\<exists>(lib :: (nat, bytes) pb_lib) x c x' c' r req r'. exch_Write lib (Context 5) x c = Some ((None, x'), c') \<and> ex_payload x = Some [7, 8, 9]
    \<and> ch_out c' = 0x46 # [0, 0, 0, 2] @ [0, 0, 0, 3] @ [2, 2] @ [7, 8, 9]
    \<and> Request_Read lib 1000 r = Some ((None, req), r') \<and> ch_in r' = [6]
    \<and> kr_cmd req = ex_cmd x' \<and> kr_value req = [7, 8, 9] \<and> ph_connectionid (pc_header (kr_cmd req)) = 5"
proof -
  let ?l0 = "demo_pb demo_command \<lparr>pm_commandbytes = None, pm_hmacauth = True, pm_identity = 0, pm_hmac = []\<rparr>"
  let ?x = "Put_Value ?l0 [7, 8, 9] (exch_Key ''k'' (Put_new demo_floats ?l0))"
  let ?x' = "exch_header (Context 5) ?x"
  let ?m = "exch_message ?l0 (Context 5) ?x'"
  let ?lib = "demo_pb (ex_cmd ?x') ?m"
  let ?c = "\<lparr>ch_in = [], ch_out = [], ch_rd = [], ch_wr = [Wr_n 99]\<rparr>"
  let ?w = "0x46 # [0, 0, 0, 2] @ [0, 0, 0, 3] @ [2, 2] @ [7, 8, 9] :: bytes"
  let ?r = "\<lparr>ch_in = ?w @ [6], ch_out = [], ch_rd = replicate 14 (Rd_data 1), ch_wr = []\<rparr>"
  have p: "ex_payload ?x = Some [7, 8, 9]" by (simp add: Put_Value_def Put_rehash_def upd_keyvalue_def)
  have m: "exch_message ?lib (Context 5) ?x' = ?m" by (simp add: exch_message_def demo_pb_def)
  have h: "frame_header (length [2, 2 :: byte]) (length [7, 8, 9 :: byte]) = 0x46 # [0, 0, 0, 2] @ [0, 0, 0, 3]" by (simp add: frame_header_def htonl_def Let_def)
  have "ex_payload ?x' = Some [7, 8, 9]" using p by (simp add: exch_header_def upd_header_def)
  then have w: "exch_Write ?lib (Context 5) ?x ?c = Some ((None, ?x'), ?c\<lparr>ch_out := ?w, ch_wr := []\<rparr>)"
    by (simp add: exch_Write_def chan_send_iov_one h [simplified] demo_pb_def [of "ex_cmd ?x'"])
  have "\<exists>req r'. Request_Read ?lib 1000 ?r = Some ((None, req), r') \<and> ch_in r' = [6]
    \<and> kr_cmd req = ex_cmd ?x' \<and> kr_value req = the_default [] (ex_payload ?x) \<and> ?x' = exch_header (Context 5) ?x"
    by (rule kinetic_exchange_roundtrip [OF _ _ w])
      (simp_all add: m p, simp_all add: demo_pb_def deliveries_def delivering_def)
  then obtain req r' where "Request_Read ?lib 1000 ?r = Some ((None, req), r')" "ch_in r' = [6]"
    "kr_cmd req = ex_cmd ?x'" "kr_value req = [7, 8, 9]" using p by auto
  moreover have "ph_connectionid (pc_header (ex_cmd ?x')) = 5"
    by (simp add: exch_header_def upd_header_def Context_def KContext_Reset_def)
  ultimately show ?thesis using w p
    by (intro exI [of _ ?lib] exI [of _ ?x] exI [of _ ?c] exI [of _ ?x'] exI [of _ "?c\<lparr>ch_out := ?w, ch_wr := []\<rparr>"]
        exI [of _ ?r] exI [of _ req] exI [of _ r']) simp
qed

end
