(* ===== verification/Kinetic_Client.thy ===== *)
theory Kinetic_Client
  imports Kinetic_Rpc
begin

text \<open>
  The connection to a kinetic drive (\<open>CoroutineClient.h\<close>, \<open>CoroutineClient.cpp\<close>, \<open>PendingExchange.h\<close>,
  \<open>PendingExchange.cpp\<close>, \<open>CoroutineClientFactory.cpp\<close> of \<open>src/src/oio/blob/kinetic/coro/\<close>): the queues of RPC, what
  each coroutine does between two points where it waits, and the step relation that interleaves
  them.  A pending exchange is named by the order in which \<open>RPC\<close> made it; the queues and the caller
  share it through that name.  \<open>None\<close>: a call that blocks for ever, or undefined behaviour.
\<close>

section \<open>Pending exchanges\<close>

text \<open>\<open>pe_signals\<close> and \<open>pe_waits\<close>: how often \<open>Signal\<close> and \<open>Wait\<close> have completed.\<close>

record 'n pending =
  pe_exch :: "'n exch"
  pe_sequence :: int
  pe_deadline :: int
  pe_signals :: nat
  pe_waits :: nat

definition rpc_default_ttl :: int where
  "rpc_default_ttl = 10000"

definition PendingExchange :: "int \<Rightarrow> 'n exch \<Rightarrow> 'n pending" where
  "PendingExchange now e =
     \<lparr>pe_exch = e, pe_sequence = 0, pe_deadline = now + rpc_default_ttl, pe_signals = 0, pe_waits = 0\<rparr>"

definition pe_SetDeadline :: "int \<Rightarrow> 'n pending \<Rightarrow> 'n pending" where
  "pe_SetDeadline dl p = p\<lparr>pe_deadline := dl\<rparr>"

definition pe_SetSequence :: "int \<Rightarrow> 'n pending \<Rightarrow> 'n pending" where
  "pe_SetSequence s p = p\<lparr>pe_sequence := s, pe_exch := SetSequence s (pe_exch p)\<rparr>"

text \<open>The channel holds one signal: a second one blocks until the first has been taken.\<close>

definition pe_Signal :: "'n pending \<Rightarrow> 'n pending option" where
  "pe_Signal p = (if pe_signals p > pe_waits p then None else Some (p\<lparr>pe_signals := pe_signals p + 1\<rparr>))"

definition pe_Wait :: "'n pending \<Rightarrow> 'n pending option" where
  "pe_Wait p = (if pe_signals p > pe_waits p then Some (p\<lparr>pe_waits := pe_waits p + 1\<rparr>) else None)"

definition pe_ManageReply :: "'n float_ops \<Rightarrow> 'n kreq \<Rightarrow> 'n pending \<Rightarrow> 'n pending" where
  "pe_ManageReply fl rep p = p\<lparr>pe_exch := exch_ManageReply fl rep (pe_exch p)\<rparr>"

definition pe_ManageError :: "errno \<Rightarrow> 'n pending \<Rightarrow> 'n pending" where
  "pe_ManageError e p = p\<lparr>pe_exch := exch_ManageError e (pe_exch p)\<rparr>"

definition pe_Write :: "('n, 'd) pb_lib \<Rightarrow> 'n pending \<Rightarrow> kcontext \<Rightarrow> chan \<Rightarrow>
    ((errno option \<times> 'n pending \<times> kcontext) \<times> chan) option" where
  "pe_Write lib p ctx c = do {
     let p1 = pe_SetSequence (cx_sequence_id ctx) p;
     let ctx1 = ctx\<lparr>cx_sequence_id := cx_sequence_id ctx + 1\<rparr>;
     ((e, x), c') \<leftarrow> exch_Write lib ctx1 (pe_exch p1) c;
     Some ((e, p1\<lparr>pe_exch := x\<rparr>, ctx1), c')
   }"

section \<open>The client\<close>

datatype signal = SIGNAL_AGENT_STOP | SIGNAL_AGENT_DATA

text \<open>Where the consumer coroutine is: not started, before the banner, reading frames, waiting for the
  producer to end, ended.\<close>

datatype cstate = C_off | C_handshake | C_reading | C_draining | C_ended

text \<open>
  \<open>cl_agents\<close>: the coroutine \<open>run_agents\<close> has been started and has not sent its last signal on \<open>stopped_\<close>.
  \<open>cl_stopping\<close>: the destructor has been entered.
\<close>

record 'n client =
  cl_url :: string
  cl_sock :: chan
  cl_ctx :: kcontext
  cl_waiting :: "nat list"
  cl_pending :: "nat list"
  cl_pe :: "nat \<Rightarrow> 'n pending"
  cl_next :: nat
  cl_to_agent :: "signal list"
  cl_running :: bool
  cl_consumer :: cstate
  cl_producer :: bool
  cl_next_check :: int
  cl_agents :: bool
  cl_stopping :: bool

definition upd_pe :: "nat \<Rightarrow> 'n pending \<Rightarrow> 'n client \<Rightarrow> 'n client" where
  "upd_pe i p c = c\<lparr>cl_pe := (cl_pe c)(i := p)\<rparr>"

definition CoroutineClient :: "string \<Rightarrow> int \<Rightarrow> chan \<Rightarrow> (nat \<Rightarrow> 'n pending) \<Rightarrow> 'n client" where
  "CoroutineClient u now ch pe = \<lparr>cl_url = u, cl_sock = ch, cl_ctx = Context now, cl_waiting = [], cl_pending = [],
     cl_pe = pe, cl_next = 0, cl_to_agent = [], cl_running = False, cl_consumer = C_off, cl_producer = False,
     cl_next_check = 0, cl_agents = False, cl_stopping = False\<rparr>"

definition CoroutineClient_Id :: "'n client \<Rightarrow> string" where
  "CoroutineClient_Id c = cl_url c"

text \<open>\<open>std::find_if\<close> and \<open>erase\<close> of what it found.\<close>

fun pop_first :: "('a \<Rightarrow> bool) \<Rightarrow> 'a list \<Rightarrow> 'a option \<times> 'a list" where
  "pop_first P [] = (None, [])"
| "pop_first P (x # xs) =
     (if P x then (Some x, xs) else let (r, ys) = pop_first P xs in (r, x # ys))"

definition pop_rpc :: "int \<Rightarrow> 'n client \<Rightarrow> nat option \<times> 'n client" where
  "pop_rpc seqid c =
     (let (r, ps) = pop_first (\<lambda>i. seqid = pe_sequence (cl_pe c i)) (cl_pending c)
      in (r, c\<lparr>cl_pending := ps\<rparr>))"

definition manage :: "'n float_ops \<Rightarrow> 'n kreq \<Rightarrow> 'n client \<Rightarrow> (bool \<times> 'n client) option" where
  "manage fl req c0 = do {
     let i = ph_connectionid (pc_header (kr_cmd req));
     let c = (if i > 0 then c0\<lparr>cl_ctx := (cl_ctx c0)\<lparr>cx_cnx_id := i\<rparr>\<rparr> else c0);
     let ack = ph_acksequence (pc_header (kr_cmd req));
     case pop_rpc ack c of
       (None, c1) \<Rightarrow> Some (True, c1)
     | (Some pe, c1) \<Rightarrow> do {
         p \<leftarrow> pe_Signal (pe_ManageReply fl req (cl_pe c1 pe));
         Some (True, upd_pe pe p c1)
       }
   }"

definition abort_rpc :: "nat \<Rightarrow> errno \<Rightarrow> 'n client \<Rightarrow> 'n client option" where
  "abort_rpc pe e c = do {
     let s = pe_sequence (cl_pe c pe);
     p \<leftarrow> pe_Signal (pe_ManageError e (cl_pe c pe));
     Some (snd (pop_rpc s (upd_pe pe p c)))
   }"

fun signal_all :: "nat list \<Rightarrow> 'n client \<Rightarrow> 'n client option" where
  "signal_all [] c = Some c"
| "signal_all (i # is) c = do { p \<leftarrow> pe_Signal (cl_pe c i); signal_all is (upd_pe i p c) }"

definition abort_all_rpc :: "'n client \<Rightarrow> 'n client option" where
  "abort_all_rpc c0 =
     (let tmp = cl_pending c0 @ cl_waiting c0;
          c1 = c0\<lparr>cl_waiting := [], cl_pending := []\<rparr>;
          c2 = fold (\<lambda>i c. upd_pe i (pe_ManageError ECONNRESET (cl_pe c i)) c) tmp c1
      in signal_all tmp c2)"

text \<open>
  The loop runs over \<open>pending_\<close> itself, and \<open>abort_rpc\<close> erases from it: the iterators of the loop are
  then invalid, and going on with them is undefined.
\<close>

fun abort_stalled_loop :: "int \<Rightarrow> nat list \<Rightarrow> 'n client \<Rightarrow> 'n client option" where
  "abort_stalled_loop now [] c = Some c"
| "abort_stalled_loop now (i # is) c =
     (if now > pe_deadline (cl_pe c i) then do { _ \<leftarrow> abort_rpc i ETIMEDOUT c; None }
      else abort_stalled_loop now is c)"

definition abort_stalled_rpc :: "int \<Rightarrow> 'n client \<Rightarrow> 'n client option" where
  "abort_stalled_rpc now c = abort_stalled_loop now (cl_pending c) c"

definition start_rpc :: "('n, 'd) pb_lib \<Rightarrow> nat \<Rightarrow> 'n client \<Rightarrow> (bool \<times> 'n client) option" where
  "start_rpc lib pe c0 = do {
     let c1 = c0\<lparr>cl_pending := cl_pending c0 @ [pe]\<rparr>;
     ((e, p, ctx), ch) \<leftarrow> pe_Write lib (cl_pe c1 pe) (cl_ctx c1) (cl_sock c1);
     let c2 = (upd_pe pe p c1)\<lparr>cl_ctx := ctx, cl_sock := ch\<rparr>;
     case e of
       None \<Rightarrow> Some (True, c2)
     | Some x \<Rightarrow> do { c3 \<leftarrow> abort_rpc pe x c2; Some (False, c3) }
   }"

definition Boot :: "'n client \<Rightarrow> 'n client" where
  "Boot c = (if \<not> cl_running c then c\<lparr>cl_running := True, cl_agents := True\<rparr> else c)"

text \<open>
  The destructor up to the point where it waits for \<open>stopped_\<close>; its signal waits in line too.  It has
  returned when the signal is in the channel and the agents have ended.
\<close>

definition agent_room :: nat where
  "agent_room = 64"

definition client_destroy :: "'n client \<Rightarrow> 'n client" where
  "client_destroy c = (if cl_running c
     then c\<lparr>cl_running := False, cl_to_agent := cl_to_agent c @ [SIGNAL_AGENT_STOP], cl_stopping := True\<rparr>
     else c\<lparr>cl_stopping := True\<rparr>)"

definition client_destroyed :: "'n client \<Rightarrow> bool" where
  "client_destroyed c = (cl_stopping c \<and> \<not> cl_agents c \<and> length (cl_to_agent c) \<le> agent_room)"

text \<open>The signal of a caller that finds the 64 places of \<open>to_agent_\<close> taken waits in line, and the caller with it.\<close>

definition RPC :: "int \<Rightarrow> 'n exch \<Rightarrow> 'n client \<Rightarrow> nat \<times> 'n client" where
  "RPC now ei c0 =
     (let c = Boot c0;
          ex = pe_SetSequence (cx_sequence_id (cl_ctx c)) (PendingExchange now ei);
          i = cl_next c
      in (i, (upd_pe i ex c)\<lparr>cl_next := i + 1, cl_waiting := cl_waiting c @ [i],
        cl_ctx := (cl_ctx c)\<lparr>cx_sequence_id := cx_sequence_id (cl_ctx c) + 1\<rparr>,
        cl_to_agent := cl_to_agent c @ [SIGNAL_AGENT_DATA]\<rparr>))"

section \<open>The coroutines\<close>

definition MILLSOCKET_EVENT :: "32 word" where
  "MILLSOCKET_EVENT = 1"

definition MILLSOCKET_ERROR :: "32 word" where
  "MILLSOCKET_ERROR = 2"

text \<open>
  Whether the consumer has a connection, for what \<open>connect\<close> and \<open>PollOut\<close> have returned: \<open>connect\<close> returns a \<open>bool\<close>, which as a number is never less than 0.
\<close>

definition consumer_connect :: "bool \<Rightarrow> 32 word \<Rightarrow> bool" where
  "consumer_connect connected evt = (\<not> 0 > (of_bool connected :: int) \<and> evt AND MILLSOCKET_ERROR = 0 \<and> evt AND MILLSOCKET_EVENT \<noteq> 0)"

text \<open>One turn of the loop that waits for the banner, and what follows it when it ends the loop.\<close>

definition banner_turn :: "'n float_ops \<Rightarrow> ('n, 'd) pb_lib \<Rightarrow> nat \<Rightarrow> 'n client \<Rightarrow> (cstate \<times> 'n client) option" where
  "banner_turn fl lib maxsize c = do {
     ((e, banner), ch) \<leftarrow> Request_Read lib maxsize (cl_sock c);
     let c1 = c\<lparr>cl_sock := ch\<rparr>;
     case e of
       None \<Rightarrow>
         if \<not> pc_success (kr_cmd banner) then Some (C_ended, c1)
         else do { (_, c2) \<leftarrow> manage fl banner c1; Some (if cl_running c2 then C_reading else C_ended, c2) }
     | Some x \<Rightarrow> Some (if x \<noteq> EAGAIN \<or> \<not> cl_running c1 then C_ended else C_handshake, c1)
   }"

text \<open>One turn of the loop that reads the frames: whether it goes on.\<close>

definition consumer_turn :: "'n float_ops \<Rightarrow> ('n, 'd) pb_lib \<Rightarrow> nat \<Rightarrow> 'n client \<Rightarrow> (bool \<times> 'n client) option" where
  "consumer_turn fl lib maxsize c = do {
     ((e, msg), ch) \<leftarrow> Request_Read lib maxsize (cl_sock c);
     let c1 = c\<lparr>cl_sock := ch\<rparr>;
     case e of
       None \<Rightarrow> manage fl msg c1
     | Some x \<Rightarrow> Some (x = EAGAIN, c1)
   }"

text \<open>One turn of the producer that takes a signal: whether it goes on.\<close>

definition producer_turn :: "('n, 'd) pb_lib \<Rightarrow> 'n client \<Rightarrow> (bool \<times> 'n client) option" where
  "producer_turn lib c0 =
     (case cl_to_agent c0 of
        [] \<Rightarrow> None
      | sig # rest \<Rightarrow>
          let c = c0\<lparr>cl_to_agent := rest\<rparr> in
          if sig = SIGNAL_AGENT_STOP then Some (False, c)
          else (case cl_waiting c of
                  [] \<Rightarrow> Some (True, c)
                | pe # ws \<Rightarrow> start_rpc lib pe (c\<lparr>cl_waiting := ws\<rparr>)))"

text \<open>
  One turn of the loop of the producer: a signal, if there is one before the deadline of a second, then the
  check for stalled exchanges when it is time; whether the loop goes on.
\<close>

definition producer_loop :: "('n, 'd) pb_lib \<Rightarrow> bool \<Rightarrow> int \<Rightarrow> 'n client \<Rightarrow> (bool \<times> 'n client) option" where
  "producer_loop lib sig now c = do {
     (ok, c1) \<leftarrow> (if sig then producer_turn lib c else Some (True, c));
     if \<not> ok then Some (False, c1)
     else do {
       c2 \<leftarrow> (if now > cl_next_check c1 then abort_stalled_rpc now (c1\<lparr>cl_next_check := now + 1000\<rparr>) else Some c1);
       Some (cl_running c2, c2)
     }
   }"

text \<open>The whole loop of the consumer, which ends because each turn takes an answer of the kernel.\<close>

lemma read_loop_events:
  "read_loop len0 len acc evs inp = Some (r, inp', evs') \<Longrightarrow>
    length evs' \<le> length evs \<and> (len > 0 \<longrightarrow> length evs' < length evs)"
proof (induction evs arbitrary: len acc inp)
  case (Cons ev evs)
  show ?case
  proof (cases "len = 0")
    case False
    with Cons show ?thesis by (cases ev) (fastforce simp: Let_def split: if_splits)+
  qed (use Cons.prems in simp)
qed (auto simp: read_loop.simps split: if_splits)

lemma chan_read_exactly_events:
  assumes "chan_read_exactly len c = Some (r, c')"
  shows "length (ch_rd c') \<le> length (ch_rd c) \<and> (len > 0 \<longrightarrow> length (ch_rd c') < length (ch_rd c))"
  using assms read_loop_events [of len len "[]" "ch_rd c" "ch_in c" r]
  by (auto simp: chan_read_exactly_def read_exactly_def split: option.splits)

lemma read_part_events: "read_part len c = Some (r, c') \<Longrightarrow> length (ch_rd c') \<le> length (ch_rd c)"
  by (auto simp: read_part_def split: if_splits dest: chan_read_exactly_events)

lemma Frame_Read_events:
  assumes "Frame_Read maxsize c = Some (f, c')"
  shows "length (ch_rd c') < length (ch_rd c)"
proof -
  from assms obtain e hdr c1 where 1: "chan_read_exactly 9 c = Some ((e, hdr), c1)"
    by (auto simp: Frame_Read_def Let_def split: bind_splits)
  let ?m = "unat (ntohl (take 4 (drop 1 hdr)))" and ?v = "unat (ntohl (take 4 (drop 5 hdr)))"
  have "length (ch_rd c') \<le> length (ch_rd c1)"
  proof (cases "e \<noteq> None \<or> hd hdr \<noteq> 0x46 \<or> ?v > maxsize \<or> ?m > maxsize")
    case True
    with assms 1 show ?thesis by (auto simp: Frame_Read_def Let_def split: if_splits)
  next
    case False
    with assms 1 obtain e1 msg c2 where 2: "read_part ?m c1 = Some ((e1, msg), c2)"
      by (auto simp: Frame_Read_def Let_def split: bind_splits)
    show ?thesis
    proof (cases e1)
      case None
      with assms 1 2 False obtain e2 val c3 where 3: "read_part ?v c2 = Some ((e2, val), c3)"
        by (auto simp: Frame_Read_def Let_def split: bind_splits)
      with assms 1 2 False None have "c' = c3" by (auto simp: Frame_Read_def Let_def split: if_splits)
      with read_part_events [OF 2] read_part_events [OF 3] show ?thesis by simp
    next
      case (Some x)
      with assms 1 2 False have "c' = c2" by (auto simp: Frame_Read_def Let_def)
      with read_part_events [OF 2] show ?thesis by simp
    qed
  qed
  with chan_read_exactly_events [OF 1] show ?thesis by simp
qed

lemma Request_Read_events:
  "Request_Read lib maxsize c = Some (r, c') \<Longrightarrow> length (ch_rd c') < length (ch_rd c)"
  by (auto simp: Request_Read_def split: bind_splits if_splits prod.splits dest: Frame_Read_events)

lemma manage_sock: "manage fl req c = Some (ok, c') \<Longrightarrow> cl_sock c' = cl_sock c"
  by (auto simp: manage_def pop_rpc_def upd_pe_def Let_def split: bind_splits option.splits prod.splits if_splits)

lemma consumer_turn_events:
  assumes "consumer_turn fl lib maxsize c = Some (ok, c')"
  shows "length (ch_rd (cl_sock c')) < length (ch_rd (cl_sock c))"
proof -
  from assms obtain e msg ch where r: "Request_Read lib maxsize (cl_sock c) = Some ((e, msg), ch)"
    "cl_sock c' = ch"
    by (auto simp: consumer_turn_def Let_def split: bind_splits option.splits dest!: manage_sock)
  with Request_Read_events show ?thesis by blast
qed

function consume :: "'n float_ops \<Rightarrow> ('n, 'd) pb_lib \<Rightarrow> nat \<Rightarrow> 'n client \<Rightarrow> 'n client option" where
  "consume fl lib maxsize c =
     (case consumer_turn fl lib maxsize c of
        None \<Rightarrow> None
      | Some (ok, c') \<Rightarrow> if ok \<and> cl_running c' then consume fl lib maxsize c' else Some (c'\<lparr>cl_consumer := C_draining\<rparr>))"
  by pat_completeness auto
termination
  by (relation "measure (\<lambda>(fl, lib, maxsize, c). length (ch_rd (cl_sock c)))")
    (auto dest: consumer_turn_events)

declare consume.simps [simp del]

text \<open>
  The interleavings.  \<open>Connect\<close> is the head of the loop of \<open>run_agents\<close> and the beginning of the consumer, on a new
  socket whose connection and readiness the kernel decides; \<open>Close\<close> is the tail of the loop, \<open>Exit\<close> what follows it.
  \<open>Finish\<close> is the end of a consumer whose producer has ended.  The condition \<open>running_\<close> of a loop is looked
  at when a turn ends, and what the \<open>shutdown\<close> of a socket does is part of the answers of the kernel; \<open>Skip\<close> is for a destructor that comes before the first turn.  The client is not used once its destructor has been entered.
\<close>

inductive agent_step :: "'n float_ops \<Rightarrow> ('n, 'd) pb_lib \<Rightarrow> nat \<Rightarrow> 'n client \<Rightarrow> 'n client \<Rightarrow> bool"
  for fl :: "'n float_ops" and lib :: "('n, 'd) pb_lib" and maxsize :: nat where
  Call: "\<not> cl_stopping c \<Longrightarrow> RPC now ei c = (i, c') \<Longrightarrow> agent_step fl lib maxsize c c'"
| Start: "\<not> cl_stopping c \<Longrightarrow> agent_step fl lib maxsize c (Boot c)"
| Destroy: "\<not> cl_stopping c \<Longrightarrow> agent_step fl lib maxsize c (client_destroy c)"
| Wait: "i < cl_next c \<Longrightarrow> pe_Wait (cl_pe c i) = Some p \<Longrightarrow> agent_step fl lib maxsize c (upd_pe i p c)"
| Connect: "cl_agents c \<Longrightarrow> cl_running c \<Longrightarrow> cl_consumer c = C_off \<Longrightarrow>
    agent_step fl lib maxsize c (c\<lparr>cl_ctx := KContext_Reset now (cl_ctx c), cl_sock := ch,
      cl_consumer := if consumer_connect connected evt then C_handshake else C_ended\<rparr>)"
| Banner: "cl_consumer c = C_handshake \<Longrightarrow> banner_turn fl lib maxsize c = Some (s, c') \<Longrightarrow>
    agent_step fl lib maxsize c (c'\<lparr>cl_consumer := s, cl_producer := (s = C_reading), cl_next_check := now + 1000\<rparr>)"
| Skip: "cl_consumer c = C_handshake \<Longrightarrow> \<not> cl_running c \<Longrightarrow> agent_step fl lib maxsize c (c\<lparr>cl_consumer := C_ended\<rparr>)"
| Consume: "cl_consumer c = C_reading \<Longrightarrow> consumer_turn fl lib maxsize c = Some (ok, c') \<Longrightarrow>
    agent_step fl lib maxsize c (if ok \<and> cl_running c' then c' else c'\<lparr>cl_consumer := C_draining\<rparr>)"
| Produce: "cl_producer c \<Longrightarrow> producer_loop lib sig now c = Some (ok, c') \<Longrightarrow>
    agent_step fl lib maxsize c (c'\<lparr>cl_producer := ok\<rparr>)"
| Finish: "cl_consumer c = C_draining \<Longrightarrow> \<not> cl_producer c \<Longrightarrow> agent_step fl lib maxsize c (c\<lparr>cl_consumer := C_ended\<rparr>)"
| Close: "cl_consumer c = C_ended \<Longrightarrow> abort_all_rpc c = Some c' \<Longrightarrow>
    agent_step fl lib maxsize c (c'\<lparr>cl_consumer := C_off\<rparr>)"
| Exit: "cl_agents c \<Longrightarrow> \<not> cl_running c \<Longrightarrow> cl_consumer c = C_off \<Longrightarrow> agent_step fl lib maxsize c (c\<lparr>cl_agents := False\<rparr>)"

section \<open>The factory\<close>

text \<open>The clients made so far, by number; a URL is given the client it was given before.\<close>

definition Factory_Get :: "string \<Rightarrow> (string, nat) omap \<times> nat \<Rightarrow> nat \<times> (string, nat) omap \<times> nat" where
  "Factory_Get url = (\<lambda>(cnx, n).
     case om_get cnx url of
       Some i \<Rightarrow> (i, cnx, n)
     | None \<Rightarrow> (n, om_put url n cnx, n + 1))"

section \<open>Laws\<close>

definition queued :: "'n client \<Rightarrow> nat set" where
  "queued c = set (cl_waiting c) \<union> set (cl_pending c)"

text \<open>
  Every exchange is in one queue at most, and has been signalled once if it is in none, else not at
  all; the exchanges sent have distinct sequence numbers, older than the next one.
\<close>

definition client_inv :: "'n client \<Rightarrow> bool" where
  "client_inv c \<longleftrightarrow> distinct (cl_waiting c @ cl_pending c) \<and> (\<forall>i \<in> queued c. i < cl_next c)
     \<and> (\<forall>i < cl_next c. pe_signals (cl_pe c i) = (if i \<in> queued c then 0 else 1)
          \<and> pe_waits (cl_pe c i) \<le> (if i \<in> queued c then 0 else 1))
     \<and> inj_on (\<lambda>i. pe_sequence (cl_pe c i)) (set (cl_pending c))
     \<and> (\<forall>i \<in> set (cl_pending c). pe_sequence (cl_pe c i) < cx_sequence_id (cl_ctx c))
     \<and> (cl_consumer c = C_off \<or> cl_consumer c = C_handshake \<longrightarrow> cl_pending c = [])
     \<and> (cl_producer c \<longrightarrow> cl_consumer c = C_reading \<or> cl_consumer c = C_draining)"

lemma upd_pe_simps [simp]:
  "cl_pe (upd_pe i p c) = (cl_pe c)(i := p)" "cl_pending (upd_pe i p c) = cl_pending c"
  "cl_waiting (upd_pe i p c) = cl_waiting c" "cl_next (upd_pe i p c) = cl_next c" "cl_ctx (upd_pe i p c) = cl_ctx c"
  "cl_consumer (upd_pe i p c) = cl_consumer c" "cl_producer (upd_pe i p c) = cl_producer c"
  by (simp_all add: upd_pe_def)

lemma pe_simps [simp]:
  "pe_signals (pe_ManageError e p) = pe_signals p" "pe_waits (pe_ManageError e p) = pe_waits p"
  "pe_sequence (pe_ManageError e p) = pe_sequence p"
  "pe_signals (pe_ManageReply fl r p) = pe_signals p" "pe_waits (pe_ManageReply fl r p) = pe_waits p"
  "pe_sequence (pe_ManageReply fl r p) = pe_sequence p"
  by (simp_all add: pe_ManageError_def pe_ManageReply_def)

lemma pe_Signal_fresh:
  "pe_signals p = 0 \<Longrightarrow> pe_waits p = 0 \<Longrightarrow> pe_Signal p = Some (p\<lparr>pe_signals := 1\<rparr>)"
  by (simp add: pe_Signal_def)

lemma pop_first_cases:
  "(\<forall>x \<in> set xs. \<not> P x) \<and> pop_first P xs = (None, xs)
    \<or> (\<exists>us x vs. xs = us @ x # vs \<and> P x \<and> (\<forall>u \<in> set us. \<not> P u) \<and> pop_first P xs = (Some x, us @ vs))"
proof (induction xs)
  case (Cons a xs)
  show ?case
  proof (cases "P a")
    case True
    then have "pop_first P (a # xs) = (Some a, [] @ xs)" by simp
    with True show ?thesis by fastforce
  next
    case False
    from Cons show ?thesis
    proof (elim disjE exE conjE)
      fix us x vs
      assume "xs = us @ x # vs" "P x" "\<forall>u \<in> set us. \<not> P u" "pop_first P xs = (Some x, us @ vs)"
      with False show ?thesis by (intro disjI2 exI [of _ "a # us"] exI [of _ x] exI [of _ vs]) simp
    qed (use False in simp)
  qed
qed simp

text \<open>Taking the exchange with a given number out of the queue.\<close>

lemma pop_rpc_unique:
  assumes "i \<in> set (cl_pending c)" and "inj_on (\<lambda>i. pe_sequence (cl_pe c i)) (set (cl_pending c))"
  obtains us vs where "cl_pending c = us @ i # vs"
    "pop_rpc (pe_sequence (cl_pe c i)) c = (Some i, c\<lparr>cl_pending := us @ vs\<rparr>)"
proof -
  let ?P = "\<lambda>j. pe_sequence (cl_pe c i) = pe_sequence (cl_pe c j)"
  from pop_first_cases [of "cl_pending c" ?P] assms(1) obtain us x vs where
    1: "cl_pending c = us @ x # vs" "?P x" "pop_first ?P (cl_pending c) = (Some x, us @ vs)" by auto
  from assms(2) have "x = i" using 1(1,2) assms(1) by (elim inj_onD) auto
  with 1 that show ?thesis by (simp add: pop_rpc_def)
qed

text \<open>An exchange that leaves the queue with its signal.\<close>

lemma client_inv_notify:
  assumes "client_inv c" and "cl_pending c = us @ i # vs" and "pe_signals p = 1" and "pe_waits p = 0"
  shows "client_inv ((upd_pe i p c)\<lparr>cl_pending := us @ vs\<rparr>)"
  using assms by (auto simp: client_inv_def queued_def inj_on_def)

lemma client_inv_fresh:
  assumes "client_inv c" and "i \<in> queued c"
  shows "pe_signals (cl_pe c i) = 0" and "pe_waits (cl_pe c i) = 0"
  using assms by (auto simp: client_inv_def)

lemma client_inv_signals:
  "client_inv c \<Longrightarrow> i < cl_next c \<Longrightarrow> pe_signals (cl_pe c i) = (if i \<in> queued c then 0 else 1)"
  "client_inv c \<Longrightarrow> i < cl_next c \<Longrightarrow> pe_waits (cl_pe c i) \<le> (if i \<in> queued c then 0 else 1)"
  by (simp_all add: client_inv_def)

lemma client_inv_sock [simp]: "client_inv (c\<lparr>cl_sock := ch\<rparr>) = client_inv c"
  by (simp add: client_inv_def queued_def)

lemma client_inv_cnx [simp]: "client_inv (c\<lparr>cl_ctx := (cl_ctx c)\<lparr>cx_cnx_id := i\<rparr>\<rparr>) = client_inv c"
  by (simp add: client_inv_def queued_def)

lemma manage_inv:
  assumes "client_inv c"
  shows "\<exists>c'. manage fl req c = Some (True, c') \<and> client_inv c' \<and> cl_consumer c' = cl_consumer c
    \<and> cl_producer c' = cl_producer c"
proof -
  let ?i = "ph_connectionid (pc_header (kr_cmd req))" and ?a = "ph_acksequence (pc_header (kr_cmd req))"
  define c1 where "c1 = (if ?i > 0 then c\<lparr>cl_ctx := (cl_ctx c)\<lparr>cx_cnx_id := ?i\<rparr>\<rparr> else c)"
  have c1: "client_inv c1" "cl_consumer c1 = cl_consumer c" "cl_producer c1 = cl_producer c"
    using assms by (simp_all add: c1_def)
  from pop_first_cases [of "cl_pending c1" "\<lambda>i. ?a = pe_sequence (cl_pe c1 i)"]
  show ?thesis
  proof (elim disjE exE conjE)
    fix us x vs
    assume 2: "cl_pending c1 = us @ x # vs"
      "pop_first (\<lambda>i. ?a = pe_sequence (cl_pe c1 i)) (cl_pending c1) = (Some x, us @ vs)"
    then have "x \<in> queued c1" by (simp add: queued_def)
    from client_inv_fresh [OF c1(1) this]
    have s: "pe_Signal (pe_ManageReply fl req (cl_pe c1 x)) =
        Some ((pe_ManageReply fl req (cl_pe c1 x))\<lparr>pe_signals := 1\<rparr>)" (is "_ = Some ?p")
      by (simp add: pe_Signal_fresh)
    have "client_inv ((upd_pe x ?p c1)\<lparr>cl_pending := us @ vs\<rparr>)"
      using client_inv_notify [OF c1(1) 2(1)] client_inv_fresh [OF c1(1) \<open>x \<in> queued c1\<close>] by simp
    moreover have "manage fl req c = Some (True, (upd_pe x ?p c1)\<lparr>cl_pending := us @ vs\<rparr>)"
      using s 2(2) by (simp add: manage_def c1_def [symmetric] pop_rpc_def Let_def upd_pe_def)
    ultimately show ?thesis using c1(2,3) by simp
  qed (use c1 in \<open>simp add: manage_def c1_def [symmetric] pop_rpc_def Let_def\<close>)
qed

lemma abort_rpc_inv:
  assumes "client_inv c" and "i \<in> set (cl_pending c)"
  shows "\<exists>c'. abort_rpc i e c = Some c' \<and> client_inv c' \<and> cl_consumer c' = cl_consumer c
    \<and> cl_producer c' = cl_producer c"
proof -
  have f: "pe_signals (cl_pe c i) = 0" "pe_waits (cl_pe c i) = 0"
    using client_inv_fresh [OF assms(1)] assms(2) by (simp_all add: queued_def)
  let ?p = "(pe_ManageError e (cl_pe c i))\<lparr>pe_signals := 1\<rparr>"
  have "pe_sequence ?p = pe_sequence (cl_pe c i)" by simp
  then have s: "(\<lambda>j. pe_sequence (cl_pe (upd_pe i ?p c) j)) = (\<lambda>j. pe_sequence (cl_pe c j))" by auto
  have inj: "inj_on (\<lambda>j. pe_sequence (cl_pe c j)) (set (cl_pending c))"
    using assms(1) by (simp add: client_inv_def)
  have i2: "i \<in> set (cl_pending (upd_pe i ?p c))" using assms(2) by simp
  from pop_rpc_unique [OF i2] inj s obtain us vs where
    "cl_pending c = us @ i # vs"
    "pop_rpc (pe_sequence (cl_pe c i)) (upd_pe i ?p c) = (Some i, (upd_pe i ?p c)\<lparr>cl_pending := us @ vs\<rparr>)"
    by auto
  with client_inv_notify [OF assms(1) this(1), of ?p] f show ?thesis
    by (simp add: abort_rpc_def pe_Signal_fresh)
qed

text \<open>Signals to exchanges that had none.\<close>

lemma signal_all_fresh:
  "distinct is \<Longrightarrow> \<forall>i \<in> set is. pe_signals (cl_pe c i) = 0 \<and> pe_waits (cl_pe c i) = 0 \<Longrightarrow>
    signal_all is c = Some (c\<lparr>cl_pe := \<lambda>i. if i \<in> set is then (cl_pe c i)\<lparr>pe_signals := 1\<rparr> else cl_pe c i\<rparr>)"
proof (induction "is" arbitrary: c)
  case (Cons i "is")
  have "signal_all (i # is) c = signal_all is (upd_pe i ((cl_pe c i)\<lparr>pe_signals := 1\<rparr>) c)"
    using Cons.prems by (simp add: pe_Signal_fresh)
  also have "\<dots> = Some (c\<lparr>cl_pe := \<lambda>j. if j \<in> set (i # is) then (cl_pe c j)\<lparr>pe_signals := 1\<rparr> else cl_pe c j\<rparr>)"
    using Cons by (subst Cons.IH) (auto simp: upd_pe_def fun_eq_iff)
  finally show ?case .
qed simp

lemma fold_error:
  "fold (\<lambda>i c. upd_pe i (pe_ManageError e (cl_pe c i)) c) is c =
    c\<lparr>cl_pe := \<lambda>i. if i \<in> set is then pe_ManageError e (cl_pe c i) else cl_pe c i\<rparr>"
  by (induction "is" arbitrary: c) (auto simp: upd_pe_def fun_eq_iff pe_ManageError_def exch_ManageError_def)

lemma abort_all_eq:
  assumes "client_inv c"
  shows "abort_all_rpc c = Some (c\<lparr>cl_waiting := [], cl_pending := [], cl_pe := \<lambda>i.
    if i \<in> queued c then (pe_ManageError ECONNRESET (cl_pe c i))\<lparr>pe_signals := 1\<rparr> else cl_pe c i\<rparr>)"
proof -
  let ?is = "cl_pending c @ cl_waiting c" and ?c0 = "c\<lparr>cl_waiting := [], cl_pending := []\<rparr>"
  let ?c = "?c0\<lparr>cl_pe := \<lambda>i. if i \<in> set ?is then pe_ManageError ECONNRESET (cl_pe ?c0 i) else cl_pe ?c0 i\<rparr>"
  have mem: "i \<in> set ?is \<longleftrightarrow> i \<in> queued c" for i by (auto simp: queued_def)
  have "distinct ?is" using assms by (auto simp: client_inv_def)
  moreover have "\<forall>i \<in> set ?is. pe_signals (cl_pe ?c i) = 0 \<and> pe_waits (cl_pe ?c i) = 0"
    using client_inv_fresh [OF assms] mem by simp
  ultimately have "signal_all ?is ?c =
      Some (?c\<lparr>cl_pe := \<lambda>i. if i \<in> set ?is then (cl_pe ?c i)\<lparr>pe_signals := 1\<rparr> else cl_pe ?c i\<rparr>)"
    by (rule signal_all_fresh)
  moreover have "abort_all_rpc c = signal_all ?is ?c"
    by (simp only: abort_all_rpc_def Let_def fold_error)
  ultimately show ?thesis unfolding mem by (simp add: fun_eq_iff)
qed

lemma abort_all_inv:
  assumes "client_inv c"
  shows "\<exists>c'. abort_all_rpc c = Some c' \<and> queued c' = {} \<and> cl_next c' = cl_next c
    \<and> (\<forall>i < cl_next c. pe_signals (cl_pe c' i) = 1)
    \<and> (\<forall>i \<in> queued c. \<not> exch_Ok (pe_exch (cl_pe c' i)))
    \<and> client_inv c' \<and> cl_producer c' = cl_producer c
    \<and> (\<not> cl_producer c \<longrightarrow> client_inv (c'\<lparr>cl_consumer := C_off\<rparr>))"
proof -
  let ?d = "c\<lparr>cl_waiting := [], cl_pending := [], cl_pe := \<lambda>i.
    if i \<in> queued c then (pe_ManageError ECONNRESET (cl_pe c i))\<lparr>pe_signals := 1\<rparr> else cl_pe c i\<rparr>"
  have q: "queued ?d = {}" by (simp add: queued_def)
  have n: "\<forall>i < cl_next c. pe_signals (cl_pe ?d i) = 1 \<and> pe_waits (cl_pe ?d i) \<le> 1"
    using assms client_inv_fresh [OF assms] by (auto simp: client_inv_def)
  have e: "\<forall>i \<in> queued c. \<not> exch_Ok (pe_exch (cl_pe ?d i))"
    by (auto simp: pe_ManageError_def exch_ManageError_def exch_Ok_def)
  have "client_inv ?d" "\<not> cl_producer c \<longrightarrow> client_inv (?d\<lparr>cl_consumer := C_off\<rparr>)"
    using q n assms by (auto simp: client_inv_def queued_def)
  with abort_all_eq [OF assms] q n e show ?thesis by (intro exI [of _ ?d]) simp
qed

text \<open>The state after an exchange has been sent.\<close>

lemma client_inv_send:
  assumes c: "client_inv c" "cl_producer c" "cl_waiting c = i # ws"
    and d: "cl_waiting d = ws" "cl_pending d = cl_pending c @ [i]" "cl_pe d = (cl_pe c)(i := p)" "cl_next d = cl_next c"
      "cx_sequence_id (cl_ctx d) = cx_sequence_id (cl_ctx c) + 1" "cl_consumer d = cl_consumer c"
    and p: "pe_sequence p = cx_sequence_id (cl_ctx c)" "pe_signals p = pe_signals (cl_pe c i)"
      "pe_waits p = pe_waits (cl_pe c i)"
  shows "client_inv d"
proof -
  have i: "i \<notin> set ws" "i \<notin> set (cl_pending c)" using c by (auto simp: client_inv_def)
  have q: "queued d = queued c" using c(3) d(1,2) by (auto simp: queued_def)
  have s: "\<And>j. pe_signals (cl_pe d j) = pe_signals (cl_pe c j)" "\<And>j. pe_waits (cl_pe d j) = pe_waits (cl_pe c j)"
    using d(3) p by simp_all
  have sq: "pe_sequence (cl_pe d j) = pe_sequence (cl_pe c j)" if "j \<in> set (cl_pending c)" for j
    using that i d(3) by auto
  have lt: "\<forall>j \<in> set (cl_pending c). pe_sequence (cl_pe c j) < cx_sequence_id (cl_ctx c)"
    using c(1) by (simp add: client_inv_def)
  have "inj_on (\<lambda>j. pe_sequence (cl_pe d j)) (set (cl_pending c))"
    using c(1) sq by (simp add: client_inv_def inj_on_def)
  moreover have "pe_sequence (cl_pe d i) \<notin> (\<lambda>j. pe_sequence (cl_pe d j)) ` set (cl_pending c)"
    using lt sq d(3) p(1) by fastforce
  ultimately have inj: "inj_on (\<lambda>j. pe_sequence (cl_pe d j)) (set (cl_pending d))"
    using i d(2) by (simp add: inj_on_insert)
  have "\<forall>j \<in> set (cl_pending d). pe_sequence (cl_pe d j) < cx_sequence_id (cl_ctx d)"
    using lt sq d(2,3,5) p(1) by fastforce
  moreover have "distinct (cl_waiting d @ cl_pending d)" using c(1,3) d(1,2) by (auto simp: client_inv_def)
  moreover have "cl_consumer d = C_off \<or> cl_consumer d = C_handshake \<longrightarrow> cl_pending d = []"
    "cl_producer d \<longrightarrow> cl_consumer d = C_reading \<or> cl_consumer d = C_draining"
    using c(1,2) d(6) by (auto simp: client_inv_def)
  moreover have "\<forall>j < cl_next d. pe_signals (cl_pe d j) = (if j \<in> queued d then 0 else 1)
      \<and> pe_waits (cl_pe d j) \<le> (if j \<in> queued d then 0 else 1)"
    using c(1) unfolding q s d(4) client_inv_def by blast
  moreover have "\<forall>j \<in> queued d. j < cl_next d" using c(1) unfolding q d(4) client_inv_def by blast
  ultimately show ?thesis using inj unfolding client_inv_def by blast
qed

lemma start_rpc_inv:
  assumes "client_inv c" and "cl_producer c" and "cl_waiting c = i # ws"
    and "start_rpc lib i (c\<lparr>cl_waiting := ws\<rparr>) = Some (ok, c')"
  shows "client_inv c' \<and> cl_consumer c' = cl_consumer c"
proof -
  let ?d = "\<lambda>p ctx ch. (upd_pe i p (c\<lparr>cl_waiting := ws, cl_pending := cl_pending c @ [i]\<rparr>))\<lparr>cl_ctx := ctx, cl_sock := ch\<rparr>"
  from assms(4) obtain e p ctx ch where
    w: "pe_Write lib (cl_pe c i) (cl_ctx c) (cl_sock c) = Some ((e, p, ctx), ch)"
    and r: "(case e of None \<Rightarrow> c' = ?d p ctx ch | Some x \<Rightarrow> abort_rpc i x (?d p ctx ch) = Some c')"
    by (auto simp: start_rpc_def Let_def split: bind_splits option.splits)
  from w have "pe_sequence p = cx_sequence_id (cl_ctx c)" "pe_signals p = pe_signals (cl_pe c i)"
    "pe_waits p = pe_waits (cl_pe c i)" "cx_sequence_id ctx = cx_sequence_id (cl_ctx c) + 1"
    by (auto simp: pe_Write_def pe_SetSequence_def Let_def split: bind_splits)
  then have "client_inv (?d p ctx ch)"
    by (intro client_inv_send [OF assms(1-3), of _ p]) simp_all
  moreover from abort_rpc_inv [OF this, of i] obtain f where
    "abort_rpc i x (?d p ctx ch) = Some (f x) \<and> client_inv (f x) \<and> cl_consumer (f x) = cl_consumer c" for x
    by simp metis
  ultimately show ?thesis using r by (cases e) auto
qed

lemma RPC_inv:
  assumes "client_inv c" and "RPC now ei c = (i, c')"
  shows "client_inv c'"
proof -
  let ?n = "cl_next c"
  have d: "cl_waiting c' = cl_waiting c @ [?n]" "cl_pending c' = cl_pending c" "cl_next c' = Suc ?n"
    "cl_consumer c' = cl_consumer c" "cl_producer c' = cl_producer c"
    "cx_sequence_id (cl_ctx c') = cx_sequence_id (cl_ctx c) + 1"
    "\<And>j. j \<noteq> ?n \<Longrightarrow> cl_pe c' j = cl_pe c j" "pe_signals (cl_pe c' ?n) = 0" "pe_waits (cl_pe c' ?n) = 0"
    using assms(2)
    by (cases "cl_running c"; auto simp: RPC_def Boot_def Let_def PendingExchange_def pe_SetSequence_def)+
  have n: "?n \<notin> queued c" using assms(1) by (auto simp: client_inv_def)
  have q: "queued c' = insert ?n (queued c)" using d by (auto simp: queued_def)
  have p: "\<And>j. j \<in> set (cl_pending c) \<Longrightarrow> cl_pe c' j = cl_pe c j" using n d(7) by (metis UnCI queued_def)
  have "inj_on (\<lambda>j. pe_sequence (cl_pe c' j)) (set (cl_pending c))"
    using assms(1) p by (simp add: client_inv_def inj_on_def)
  moreover have "\<forall>j \<in> set (cl_pending c). pe_sequence (cl_pe c' j) < cx_sequence_id (cl_ctx c) + 1"
    using assms(1) p by (fastforce simp: client_inv_def)
  moreover have "\<forall>j < Suc ?n. pe_signals (cl_pe c' j) = (if j \<in> queued c' then 0 else 1)
      \<and> pe_waits (cl_pe c' j) \<le> (if j \<in> queued c' then 0 else 1)"
    using assms(1) d(7-9) n unfolding q by (auto simp: client_inv_def less_Suc_eq)
  moreover have "distinct (cl_waiting c' @ cl_pending c')"
    using assms(1) n d(1,2) by (auto simp: client_inv_def queued_def)
  moreover have "\<forall>j \<in> queued c'. j < Suc ?n" using assms(1) unfolding q by (auto simp: client_inv_def less_SucI)
  moreover have "cl_consumer c' = C_off \<or> cl_consumer c' = C_handshake \<longrightarrow> cl_pending c' = []"
    "cl_producer c' \<longrightarrow> cl_consumer c' = C_reading \<or> cl_consumer c' = C_draining"
    using assms(1) unfolding client_inv_def d by blast+
  ultimately show ?thesis unfolding client_inv_def d(2,3,6) by blast
qed

lemma abort_stalled_None:
  "abort_stalled_rpc now c = None" if "i \<in> set (cl_pending c)" "pe_deadline (cl_pe c i) < now"
proof -
  have "i \<in> set is \<Longrightarrow> abort_stalled_loop now is c = None" for "is"
    using that(2) by (induction "is") (auto split: bind_splits)
  with that(1) show ?thesis by (simp add: abort_stalled_rpc_def)
qed

lemma abort_stalled_Some: "abort_stalled_rpc now c = Some c' \<Longrightarrow> c' = c \<and> (\<forall>i \<in> set (cl_pending c). now \<le> pe_deadline (cl_pe c i))"
proof -
  have "abort_stalled_loop now is c = Some c' \<Longrightarrow> c' = c \<and> (\<forall>i \<in> set is. now \<le> pe_deadline (cl_pe c i))" for "is"
    by (induction "is") (auto split: if_splits bind_splits)
  then show "abort_stalled_rpc now c = Some c' \<Longrightarrow> ?thesis" by (simp add: abort_stalled_rpc_def)
qed

inductive_cases agent_stepE: "agent_step fl lib maxsize c c'"

lemma client_inv_phase:
  assumes "client_inv c"
  shows "s = C_reading \<or> s = C_draining \<Longrightarrow> client_inv (c\<lparr>cl_consumer := s, cl_producer := b\<rparr>)"
    and "s = C_reading \<or> s = C_draining \<Longrightarrow> client_inv (c\<lparr>cl_consumer := s\<rparr>)"
    and "\<not> cl_producer c \<Longrightarrow> client_inv (c\<lparr>cl_consumer := C_ended\<rparr>)"
    and "client_inv (c\<lparr>cl_consumer := C_ended, cl_producer := False\<rparr>)"
    and "cl_consumer c = C_reading \<or> cl_consumer c = C_draining \<or> \<not> b \<Longrightarrow> client_inv (c\<lparr>cl_producer := b\<rparr>)"
  using assms by (auto simp: client_inv_def queued_def)

lemma client_inv_control [simp]:
  "client_inv (c\<lparr>cl_running := r\<rparr>) = client_inv c" "client_inv (c\<lparr>cl_agents := r\<rparr>) = client_inv c"
  "client_inv (c\<lparr>cl_stopping := r\<rparr>) = client_inv c" "client_inv (c\<lparr>cl_to_agent := q\<rparr>) = client_inv c"
  "client_inv (c\<lparr>cl_next_check := n\<rparr>) = client_inv c"
  by (simp_all add: client_inv_def queued_def)

lemma banner_turn_inv:
  assumes "client_inv c" and "cl_consumer c = C_handshake" and "banner_turn fl lib maxsize c = Some (s, c')"
  shows "client_inv (c'\<lparr>cl_consumer := s, cl_producer := (s = C_reading)\<rparr>)"
proof -
  from assms(3) obtain e banner ch where
    r: "(case e of None \<Rightarrow> if \<not> pc_success (kr_cmd banner) then Some (C_ended, c\<lparr>cl_sock := ch\<rparr>)
         else do { (_, c2) \<leftarrow> manage fl banner (c\<lparr>cl_sock := ch\<rparr>); Some (if cl_running c2 then C_reading else C_ended, c2) }
       | Some x \<Rightarrow> Some (if x \<noteq> EAGAIN \<or> \<not> cl_running (c\<lparr>cl_sock := ch\<rparr>) then C_ended else C_handshake, c\<lparr>cl_sock := ch\<rparr>)) = Some (s, c')"
    by (auto simp: banner_turn_def Let_def split: bind_splits)
  have c: "client_inv (c\<lparr>cl_sock := ch\<rparr>)" using assms(1) by simp
  show ?thesis
  proof (cases e)
    case None
    from manage_inv [OF c, of fl banner] obtain c2 where
      "manage fl banner (c\<lparr>cl_sock := ch\<rparr>) = Some (True, c2)" "client_inv c2" by auto
    with None r c show ?thesis by (auto split: if_splits intro: client_inv_phase)
  next
    case (Some x)
    have "client_inv (c\<lparr>cl_sock := ch, cl_consumer := C_handshake, cl_producer := False\<rparr>)"
      using assms(1,2) unfolding client_inv_def queued_def by auto
    with Some r c show ?thesis by (auto split: if_splits intro: client_inv_phase)
  qed
qed

lemma consumer_turn_inv:
  assumes "client_inv c" and "consumer_turn fl lib maxsize c = Some (ok, c')"
  shows "client_inv c' \<and> cl_consumer c' = cl_consumer c"
proof -
  from assms(2) obtain e msg ch where
    r: "(case e of None \<Rightarrow> manage fl msg (c\<lparr>cl_sock := ch\<rparr>) | Some x \<Rightarrow> Some (x = EAGAIN, c\<lparr>cl_sock := ch\<rparr>)) = Some (ok, c')"
    by (auto simp: consumer_turn_def Let_def split: bind_splits)
  from manage_inv [of "c\<lparr>cl_sock := ch\<rparr>" fl msg] assms(1) r show ?thesis by (cases e) auto
qed

lemma producer_turn_inv:
  assumes "client_inv c" and "cl_producer c" and "producer_turn lib c = Some (ok, c')"
  shows "client_inv c' \<and> cl_consumer c' = cl_consumer c"
proof -
  from assms(3) obtain sig rest where q: "cl_to_agent c = sig # rest"
    by (auto simp: producer_turn_def split: list.splits)
  let ?c = "c\<lparr>cl_to_agent := rest\<rparr>"
  have c: "client_inv ?c" "cl_producer ?c" using assms(1,2) by (simp_all add: client_inv_def queued_def)
  show ?thesis
  proof (cases "sig = SIGNAL_AGENT_STOP \<or> cl_waiting c = []")
    case True
    with q c assms(3) show ?thesis by (auto simp: producer_turn_def Let_def split: list.splits if_splits)
  next
    case False
    then obtain i ws where w: "cl_waiting ?c = i # ws" "sig \<noteq> SIGNAL_AGENT_STOP" by (auto simp: neq_Nil_conv)
    with q assms(3) have "start_rpc lib i (?c\<lparr>cl_waiting := ws\<rparr>) = Some (ok, c')"
      by (simp add: producer_turn_def Let_def)
    from start_rpc_inv [OF c w(1) this] show ?thesis by simp
  qed
qed

lemma producer_loop_inv:
  assumes "client_inv c" and "cl_producer c" and "producer_loop lib sig now c = Some (ok, c')"
  shows "client_inv c' \<and> cl_consumer c' = cl_consumer c"
proof -
  from assms(3) obtain ok1 c1 where 1: "(if sig then producer_turn lib c else Some (True, c)) = Some (ok1, c1)"
    "(if \<not> ok1 then Some (False, c1)
      else do {
       c2 \<leftarrow> (if now > cl_next_check c1 then abort_stalled_rpc now (c1\<lparr>cl_next_check := now + 1000\<rparr>) else Some c1);
       Some (cl_running c2, c2) }) = Some (ok, c')"
    by (auto simp: producer_loop_def split: bind_splits)
  with producer_turn_inv [OF assms(1,2)] assms(1) have "client_inv c1 \<and> cl_consumer c1 = cl_consumer c"
    by (auto split: if_splits)
  with 1(2) show ?thesis by (auto split: if_splits bind_splits dest!: abort_stalled_Some)
qed

lemma client_inv_wait:
  assumes "client_inv c" and "i < cl_next c" and "pe_Wait (cl_pe c i) = Some p"
  shows "client_inv (upd_pe i p c)"
proof -
  have p: "p = (cl_pe c i)\<lparr>pe_waits := pe_waits (cl_pe c i) + 1\<rparr>" "pe_waits (cl_pe c i) < pe_signals (cl_pe c i)"
    using assms(3) by (auto simp: pe_Wait_def split: if_splits)
  have q: "queued (upd_pe i p c) = queued c" by (simp add: queued_def)
  have s: "\<And>j. pe_signals (cl_pe (upd_pe i p c) j) = pe_signals (cl_pe c j)"
    "\<And>j. pe_sequence (cl_pe (upd_pe i p c) j) = pe_sequence (cl_pe c j)" by (simp_all add: p)
  have "\<forall>j < cl_next c. pe_waits (cl_pe (upd_pe i p c) j) \<le> (if j \<in> queued c then 0 else 1)"
  proof (intro allI impI)
    fix j assume "j < cl_next c"
    with client_inv_signals [OF assms(1), of j] assms(2) p
    show "pe_waits (cl_pe (upd_pe i p c) j) \<le> (if j \<in> queued c then 0 else 1)" by (cases "j = i") (auto split: if_splits)
  qed
  with assms(1) show ?thesis unfolding client_inv_def q s upd_pe_simps(2-7) by blast
qed

lemma client_inv_connect:
  assumes "client_inv c" and "cl_consumer c = C_off" and "s = C_handshake \<or> s = C_ended"
  shows "client_inv (c\<lparr>cl_ctx := ctx, cl_sock := ch, cl_consumer := s\<rparr>)"
proof -
  let ?d = "c\<lparr>cl_ctx := ctx, cl_sock := ch, cl_consumer := s\<rparr>"
  have d: "queued ?d = queued c" "cl_waiting ?d = cl_waiting c" "cl_pending ?d = cl_pending c" "cl_pe ?d = cl_pe c"
    "cl_next ?d = cl_next c" "cl_producer ?d = cl_producer c" by (simp_all add: queued_def)
  have p: "cl_pending c = []" "\<not> cl_producer c" using assms(1,2) by (auto simp: client_inv_def)
  show ?thesis using assms(1,3) unfolding client_inv_def d p(1) by (auto simp: p(2))
qed

lemma client_inv_step: "agent_step fl lib maxsize c c' \<Longrightarrow> client_inv c \<Longrightarrow> client_inv c'"
proof (induction rule: agent_step.induct)
  case (Consume c ok c')
  then show ?case using consumer_turn_inv [of c fl lib maxsize ok c'] by (auto intro: client_inv_phase)
next
  case (Produce c sig now ok c')
  then have "cl_consumer c = C_reading \<or> cl_consumer c = C_draining" by (auto simp: client_inv_def)
  with Produce producer_loop_inv [of c lib sig now ok c'] show ?case by (intro client_inv_phase(5)) auto
next
  case (Skip c)
  then have "\<not> cl_producer c" by (auto simp: client_inv_def)
  with Skip show ?case by (simp add: client_inv_phase)
next
  case (Close c c')
  then have "\<not> cl_producer c" by (auto simp: client_inv_def)
  with Close abort_all_inv [of c] show ?case by auto
qed (simp_all add: RPC_inv client_inv_wait client_inv_connect banner_turn_inv client_inv_phase Boot_def client_destroy_def)

lemma client_inv_init: "client_inv (CoroutineClient u now ch pe)"
  by (simp add: CoroutineClient_def client_inv_def queued_def)

text \<open>What the coroutines can reach from a new client.\<close>

definition reachable :: "'n float_ops \<Rightarrow> ('n, 'd) pb_lib \<Rightarrow> nat \<Rightarrow> 'n client \<Rightarrow> bool" where
  "reachable fl lib maxsize c = (\<exists>u now ch pe. (agent_step fl lib maxsize)\<^sup>*\<^sup>* (CoroutineClient u now ch pe) c)"

lemma reachable_inv: "reachable fl lib maxsize c \<Longrightarrow> client_inv c"
proof -
  have "(agent_step fl lib maxsize)\<^sup>*\<^sup>* c0 c \<Longrightarrow> client_inv c0 \<Longrightarrow> client_inv c" for c0
    by (induction rule: rtranclp_induct) (auto dest: client_inv_step)
  then show "reachable fl lib maxsize c \<Longrightarrow> ?thesis" unfolding reachable_def using client_inv_init by blast
qed

section \<open>Properties\<close>

text \<open>C7. In every state the coroutines can reach, an exchange is either queued, once, and its caller
  not yet signalled, or its caller has been signalled exactly once.  No reply blocks the consumer,
  and when the connection ends every exchange still queued is signalled, as failed.\<close>

theorem rpc_signalled_once:
  assumes "reachable fl lib maxsize c"
  shows "distinct (cl_waiting c @ cl_pending c)
    \<and> (\<forall>i < cl_next c. pe_signals (cl_pe c i) = (if i \<in> queued c then 0 else 1))
    \<and> (\<forall>req. \<exists>c'. manage fl req c = Some (True, c'))
    \<and> (\<exists>c'. abort_all_rpc c = Some c' \<and> queued c' = {} \<and> (\<forall>i < cl_next c. pe_signals (cl_pe c' i) = 1)
        \<and> (\<forall>i \<in> queued c. \<not> exch_Ok (pe_exch (cl_pe c' i))))"
proof -
  note inv = reachable_inv [OF assms]
  have "\<forall>req. \<exists>c'. manage fl req c = Some (True, c')" using manage_inv [OF inv] by blast
  moreover have "distinct (cl_waiting c @ cl_pending c)"
    "\<forall>i < cl_next c. pe_signals (cl_pe c i) = (if i \<in> queued c then 0 else 1)"
    using inv unfolding client_inv_def by blast+
  ultimately show ?thesis using abort_all_inv [OF inv] by blast
qed

theorem rpc_signalled_once_witness:
  "\<exists>(c :: nat client) c'. reachable demo_floats (demo_pb demo_command
      \<lparr>pm_commandbytes = None, pm_hmacauth = True, pm_identity = 0, pm_hmac = []\<rparr>) 9 c
    \<and> queued c = {0} \<and> abort_all_rpc c = Some c' \<and> queued c' = {} \<and> pe_signals (cl_pe c' 0) = 1"
proof -
  let ?lib = "demo_pb demo_command \<lparr>pm_commandbytes = None, pm_hmacauth = True, pm_identity = 0, pm_hmac = []\<rparr>"
  let ?ch = "\<lparr>ch_in = [], ch_out = [], ch_rd = [], ch_wr = []\<rparr>"
  let ?x = "Get_new demo_floats ?lib"
  let ?c0 = "CoroutineClient ''h:1'' 3 ?ch (\<lambda>_. PendingExchange 0 ?x)"
  obtain c where c: "RPC 4 ?x ?c0 = (0, c)" "queued c = {0}" "cl_next c = 1"
    by (simp add: RPC_def Boot_def CoroutineClient_def queued_def Let_def upd_pe_def)
  have "agent_step demo_floats ?lib 9 ?c0 c" using c(1) by (intro agent_step.Call) (simp add: CoroutineClient_def)
  then have r: "reachable demo_floats ?lib 9 c" unfolding reachable_def by blast
  from rpc_signalled_once [OF r] c(2,3) r show ?thesis by auto
qed

text \<open>A frame whose header comes alone, the rest more than a second later, breaks the connection: the
  consumer forgets the header it has read and takes the nine bytes that follow for the next one.
  The loop ends, and no exchange has got its reply.\<close>

theorem kinetic_pause_breaks_connection:
  assumes "ch_in (cl_sock c) = frame_header m v @ b # bs"
    and "ch_rd (cl_sock c) = Rd_data 9 # Rd_again True event error # evs"
    and "0 < m" and "m \<le> maxsize" and "v \<le> maxsize" and "maxsize < 2 ^ 32"
    and "b \<noteq> 0x46" and "8 \<le> length bs" and "delivering evs" and "9 \<le> deliveries evs"
  shows "\<exists>c'. consume fl lib maxsize c = Some c' \<and> cl_consumer c' = C_draining
    \<and> cl_pending c' = cl_pending c \<and> cl_pe c' = cl_pe c"
proof -
  let ?s0 = "cl_sock c"
  let ?s1 = "?s0\<lparr>ch_in := b # bs, ch_rd := Rd_again True event error # evs\<rparr>"
  let ?s2 = "?s0\<lparr>ch_in := b # bs, ch_rd := evs\<rparr>"
  have 1: "chan_read_exactly 9 ?s0 = Some ((None, frame_header m v), ?s1)"
    using assms(1,2) by (simp add: chan_read_exactly_def read_exactly_def delivered_def frame_header_def)
  have 2: "read_part m ?s1 = Some ((Some EAGAIN, []), ?s2)"
    using assms(3) by (simp add: read_part_def chan_read_exactly_def read_exactly_def)
  have len: "m < 2 ^ 32" "v < 2 ^ 32" using assms(4-6) by simp_all
  have "Frame_Read maxsize ?s0 = Some ((Some EAGAIN, \<lparr>fr_msg = [], fr_val = []\<rparr>), ?s2)"
    using 1 2 assms(3-5) len
    by (simp add: Frame_Read_def frame_header_lengths Let_def)
  then have t1: "consumer_turn fl lib maxsize c = Some (True, c\<lparr>cl_sock := ?s2\<rparr>)"
    by (simp add: consumer_turn_def Request_Read_def Let_def)
  have "9 \<le> length (ch_in ?s2)" "9 \<le> deliveries (ch_rd ?s2)" "delivering (ch_rd ?s2)" using assms(8-10) by simp_all
  from chan_read_exactly_delivers [OF this] obtain s3 where
    "chan_read_exactly 9 ?s2 = Some ((None, b # take 8 bs), s3)" by auto
  then have "Frame_Read maxsize ?s2 = Some ((Some EBADMSG, \<lparr>fr_msg = [], fr_val = []\<rparr>), s3)"
    using assms(7) by (simp add: Frame_Read_def Let_def)
  then have t2: "consumer_turn fl lib maxsize (c\<lparr>cl_sock := ?s2\<rparr>) = Some (False, c\<lparr>cl_sock := s3\<rparr>)"
    by (simp add: consumer_turn_def Request_Read_def Let_def)
  show ?thesis
  proof (cases "cl_running c")
    case True
    then show ?thesis by (subst consume.simps, simp add: t1, subst consume.simps, simp add: t2)
  qed (subst consume.simps, simp add: t1)
qed

theorem kinetic_pause_breaks_connection_witness:
  "\<exists>(c :: nat client) c'. ch_in (cl_sock c) = frame_header 9 0 @ replicate 9 1
    \<and> consume demo_floats (demo_pb demo_command
      \<lparr>pm_commandbytes = None, pm_hmacauth = True, pm_identity = 0, pm_hmac = []\<rparr>) 1000 c = Some c'
    \<and> cl_consumer c' = C_draining"
proof -
  let ?lib = "demo_pb demo_command \<lparr>pm_commandbytes = None, pm_hmacauth = True, pm_identity = 0, pm_hmac = []\<rparr>"
  let ?ch = "\<lparr>ch_in = frame_header 9 0 @ 1 # replicate 8 1, ch_out = [],
    ch_rd = Rd_data 9 # Rd_again True False False # replicate 9 (Rd_data 1), ch_wr = []\<rparr>"
  let ?c = "CoroutineClient ''h:1'' 3 ?ch (\<lambda>_. PendingExchange 0 (Get_new demo_floats ?lib))"
  have "\<exists>c'. consume demo_floats ?lib 1000 ?c = Some c' \<and> cl_consumer c' = C_draining
      \<and> cl_pending c' = cl_pending ?c \<and> cl_pe c' = cl_pe ?c"
    by (rule kinetic_pause_breaks_connection [where m = 9 and v = 0 and b = 1 and bs = "replicate 8 1"
          and event = False and error = False and evs = "replicate 9 (Rd_data 1)"])
      (simp_all add: CoroutineClient_def deliveries_def delivering_def)
  then obtain c' where "consume demo_floats ?lib 1000 ?c = Some c'" "cl_consumer c' = C_draining" by blast
  moreover have "ch_in (cl_sock ?c) = frame_header 9 0 @ replicate 9 1"
    by (simp add: CoroutineClient_def numeral_eq_Suc)
  ultimately show ?thesis by blast
qed

end
