(* ===== verification/Json_Props.thy ===== *)
theory Json_Props
  imports Json
begin

text \<open>
  Objects of texts: the properties of references, containers, contents and blobs travel as one JSON
  object, written member after member from a \<open>std::map\<close> and read back into one.
\<close>

text \<open>\<open>writer.Key(k.c_str()); writer.String(v.c_str());\<close> for every entry, inside an object.\<close>

definition object_toks :: "(string, string) omap \<Rightarrow> jtok list" where
  "object_toks m = StartObject # concat (map (\<lambda>(k, v). [Key (c_str k), String_tok (c_str v)]) m) @ [EndObject]"

definition object_doc :: "(string, string) omap \<Rightarrow> json" where
  "object_doc m = JObj (map (\<lambda>(k, v). (c_str k, JStr (c_str v))) m)"

text \<open>\<open>if (obj.IsObject()) for (auto &v : obj.GetObject()) m[v.name.GetString()] = v.value.GetString()\<close>.\<close>

fun put_members :: "(string \<times> json) list \<Rightarrow> (string, string) omap \<Rightarrow> (string, string) omap option" where
  "put_members [] m = Some m"
| "put_members ((k, j) # kvs) m = do { v \<leftarrow> get_string j; put_members kvs (om_put (c_str k) v m) }"

fun put_object :: "json \<Rightarrow> (string, string) omap \<Rightarrow> (string, string) omap option" where
  "put_object (JObj kvs) m = put_members kvs m"
| "put_object _ m = Some m"

section \<open>Laws\<close>

definition c_text :: "string \<Rightarrow> bool" where
  "c_text s = (CHR 0x00 \<notin> set s)"

lemma c_str_text [simp]: "c_text s \<Longrightarrow> c_str s = s"
  by (auto simp: c_text_def c_str_def takeWhile_eq_all_conv)

lemma c_text_c_str [simp]: "c_text (c_str s)"
  using set_takeWhileD [of "CHR 0x00" _ s] by (auto simp: c_text_def c_str_def)

lemma object_toks_doc: "object_toks m = toks (object_doc m)"
proof -
  have "concat (map (\<lambda>(k, v). [Key (c_str k), String_tok (c_str v)]) m) =
      concat (map (\<lambda>(k, v). Key k # toks v) (map (\<lambda>(k, v). (c_str k, JStr (c_str v))) m))"
    by (induction m) auto
  then show ?thesis by (simp add: object_toks_def object_doc_def)
qed

lemma toks_inject [simp]: "toks j = toks k \<longleftrightarrow> j = k"
  by (metis dom_of_toks_toks option.inject)

lemma put_members_append:
  assumes "om_inv (m1 @ m2)" and "\<forall>(k, v) \<in> set m2. c_text k \<and> c_text v"
  shows "put_members (map (\<lambda>(k, v). (c_str k, JStr (c_str v))) m2) m1 = Some (m1 @ m2)"
  using assms
proof (induction m2 arbitrary: m1)
  case (Cons e m2)
  obtain k v where e: "e = (k, v)" by fastforce
  with Cons.prems(1) have "om_put k v m1 = m1 @ [(k, v)]"
    by (intro om_put_last) (auto simp: om_inv_def sorted_wrt_append)
  with Cons.IH [of "m1 @ [(k, v)]"] Cons.prems e show ?case by simp
qed simp

lemma put_object_doc:
  "om_inv m \<Longrightarrow> \<forall>(k, v) \<in> set m. c_text k \<and> c_text v \<Longrightarrow> put_object (object_doc m) [] = Some m"
  using put_members_append [of "[]" m] by (simp add: object_doc_def)

lemma put_members_inv: "put_members kvs m = Some m' \<Longrightarrow> om_inv m \<Longrightarrow> om_inv m'"
  by (induction kvs m rule: put_members.induct) (auto simp: om_inv_put split: bind_splits)

lemma put_object_inv: "put_object j m = Some m' \<Longrightarrow> om_inv m \<Longrightarrow> om_inv m'"
  by (cases j) (auto simp: put_members_inv)

end
