(* ===== verification/Kinetic_Blob.thy ===== *)
theory Kinetic_Blob
  imports Kinetic_Client Json_Props Transaction Download_Contract
begin

text \<open>
  Blobs on kinetic drives (\<open>src/src/oio/blob/kinetic/coro/blob.hpp\<close>, \<open>blob.cpp\<close>): listing, download, removal
  and upload.  The client of a drive is known here by its URL.  The parameter \<open>dr\<close> is what becomes of an
  exchange between the call to \<open>RPC\<close> and the end of \<open>Wait\<close>, with the state of the drives: it is an
  argument because the interface is (\<open>ClientInterface\<close>), and it is given the exchanges in the order in
  which they are submitted.  \<open>None\<close>: an exception, a failed assertion or a loop that does not end.
\<close>

type_synonym ('n, 's) drives = "string \<Rightarrow> 'n exch \<Rightarrow> 's \<Rightarrow> 'n exch \<times> 's"

section \<open>Listing\<close>

record klisting =
  kl_clients :: "string list"
  kl_name :: string
  kl_items :: "(nat \<times> string) list"
  kl_next_item :: nat

text \<open>The request for the keys after a marker.\<close>

definition range_request :: "'n float_ops \<Rightarrow> ('n, 'd) pb_lib \<Rightarrow> string \<Rightarrow> string \<Rightarrow> 'n exch" where
  "range_request fl lib name marker =
     GKR_IncludeEnd False (GKR_IncludeStart False (GKR_End (name @ ''-X'') (GKR_Start marker (GetKeyRange_new fl lib))))"

text \<open>A slot: whether the drive may have more keys, and where to go on.  One round of requests.\<close>

fun list_batch :: "'n float_ops \<Rightarrow> ('n, 'd) pb_lib \<Rightarrow> ('n, 's) drives \<Rightarrow> string \<Rightarrow> string list \<Rightarrow>
    (bool \<times> string) list \<Rightarrow> 's \<Rightarrow> 'n exch option list \<times> 's" where
  "list_batch fl lib dr name (u # us) ((r, mk) # sl) s =
     (if \<not> r then let (xs, s') = list_batch fl lib dr name us sl s in (None # xs, s')
      else let (x, s1) = dr u (range_request fl lib name mk) s;
               (xs, s') = list_batch fl lib dr name us sl s1
           in (Some x # xs, s'))"
| "list_batch fl lib dr name _ _ s = ([], s)"

text \<open>The keys of a round: the slots of the drives, and the items found, in the order of the drives.\<close>

fun list_collect :: "nat \<Rightarrow> 'n exch option list \<Rightarrow> (bool \<times> string) list \<Rightarrow>
    (bool \<times> string) list \<times> (nat \<times> string) list" where
  "list_collect i (None # xs) (sl # sls) =
     (let (sls', items) = list_collect (Suc i) xs sls in (sl # sls', items))"
| "list_collect i (Some x # xs) ((r, mk) # sls) =
     (let keys = fst (GKR_Steal [] x);
          (sls', items) = list_collect (Suc i) xs sls
      in if keys = [] then ((False, mk) # sls', items)
         else ((r, last keys) # sls', map (Pair i) keys @ items))"
| "list_collect i _ sls = (sls, [])"

partial_function (option) list_loop :: "'n float_ops \<Rightarrow> ('n, 'd) pb_lib \<Rightarrow> ('n, 's) drives \<Rightarrow> string \<Rightarrow> string list \<Rightarrow>
    (bool \<times> string) list \<Rightarrow> (nat \<times> string) list \<Rightarrow> 's \<Rightarrow> ((nat \<times> string) list \<times> 's) option" where
  "list_loop fl lib dr name us sl items s =
     (if \<not> list_ex fst sl then Some (items, s)
      else let (xs, s') = list_batch fl lib dr name us sl s;
               (sl', more) = list_collect 0 xs sl
           in list_loop fl lib dr name us sl' (items @ more) s')"

definition KineticListing_Prepare :: "'n float_ops \<Rightarrow> ('n, 'd) pb_lib \<Rightarrow> ('n, 's) drives \<Rightarrow>
    klisting \<times> 's \<Rightarrow> (status \<times> klisting \<times> 's) option" where
  "KineticListing_Prepare fl lib dr = (\<lambda>(l, s). do {
     (items, s') \<leftarrow> list_loop fl lib dr (kl_name l) (kl_clients l)
       (map (\<lambda>_. (True, kl_name l @ ''-'')) (kl_clients l)) [] s;
     Some (if items = [] then status_of NotFound else status_ok, l\<lparr>kl_items := items\<rparr>, s')
   })"

definition KineticListing_Next :: "klisting \<Rightarrow> ((string \<times> string) \<times> klisting) option" where
  "KineticListing_Next l =
     (if kl_next_item l \<ge> length (kl_items l) then None
      else let (i, key) = kl_items l ! kl_next_item l
           in Some ((kl_clients l ! i, key), l\<lparr>kl_next_item := kl_next_item l + 1\<rparr>))"

text \<open>\<open>while (listing->Next(&id, &key))\<close>: all the items left.\<close>

definition listing_rest :: "klisting \<Rightarrow> (string \<times> string) list" where
  "listing_rest l = map (\<lambda>(i, key). (kl_clients l ! i, key)) (drop (kl_next_item l) (kl_items l))"

record kbuilder =
  kb_targets :: "string list"
  kb_name :: string

definition KB_Name :: "string \<Rightarrow> kbuilder \<Rightarrow> kbuilder" where
  "KB_Name n b = b\<lparr>kb_name := n\<rparr>"

definition KB_Target :: "string \<Rightarrow> kbuilder \<Rightarrow> kbuilder" where
  "KB_Target t b = b\<lparr>kb_targets := os_insert t (kb_targets b)\<rparr>"

definition ListingBuilder_Build :: "kbuilder \<Rightarrow> klisting option" where
  "ListingBuilder_Build b =
     (if kb_targets b = [] \<or> kb_name b = [] then None
      else Some \<lparr>kl_clients = kb_targets b, kl_name = kb_name b, kl_items = [], kl_next_item = 0\<rparr>)"

section \<open>Download\<close>

text \<open>\<open>std::stoi\<close>: an exception without a number, or with one that is no \<open>int\<close>.\<close>

definition stoi :: "string \<Rightarrow> int option" where
  "stoi s = (case scan_int s of
     None \<Rightarrow> None
   | Some (i, _) \<Rightarrow> if - (2 ^ 31) \<le> i \<and> i < 2 ^ 31 then Some i else None)"

datatype chunk_key = Malformed | Manifest | Chunk "32 word" "32 word"

text \<open>What a key of the listing is: \<open>Chunk\<close> its sequence number and size.\<close>

definition parse_key :: "string \<Rightarrow> chunk_key option" where
  "parse_key k =
     (case rfind CHR ''-'' k of
        None \<Rightarrow> Some Malformed
      | Some dash \<Rightarrow>
          if dash + 1 < length k \<and> k ! (dash + 1) = CHR ''#'' then Some Manifest
          else do {
            sz \<leftarrow> stoi (drop (dash + 1) k);
            let k1 = take dash k;
            case rfind CHR ''-'' k1 of
              None \<Rightarrow> Some Malformed
            | Some dash1 \<Rightarrow> do {
                sq \<leftarrow> stoi (drop (dash1 + 1) k1);
                Some (Chunk (word_of_int sq) (word_of_int sz))
              }
          })"

record 'n pending_get =
  pg_sequence :: "32 word"
  pg_size :: "32 word"
  pg_client :: string
  pg_op :: "'n exch"

definition PendingGet :: "'n float_ops \<Rightarrow> ('n, 'd) pb_lib \<Rightarrow> string \<Rightarrow> string \<Rightarrow> 'n pending_get" where
  "PendingGet fl lib c k = \<lparr>pg_sequence = 0, pg_size = 0, pg_client = c, pg_op = exch_Key k (Get_new fl lib)\<rparr>"

text \<open>The blocks of a listing, in its order.\<close>

fun listed_chunks :: "'n float_ops \<Rightarrow> ('n, 'd) pb_lib \<Rightarrow> (string \<times> string) list \<Rightarrow> 'n pending_get list option" where
  "listed_chunks fl lib [] = Some []"
| "listed_chunks fl lib ((cid, key) # items) = do {
     ck \<leftarrow> parse_key key;
     rest \<leftarrow> listed_chunks fl lib items;
     Some (case ck of
         Chunk sq sz \<Rightarrow> (PendingGet fl lib cid key)\<lparr>pg_size := sz, pg_sequence := sq\<rparr> # rest
       | _ \<Rightarrow> rest)
   }"

record 'n kdownload =
  kd_chunkid :: string
  kd_targets :: "string list"
  kd_running :: "'n pending_get list"
  kd_waiting :: "'n pending_get list"
  kd_parallel :: nat

definition KineticDownload :: "string \<Rightarrow> string list \<Rightarrow> 'n kdownload" where
  "KineticDownload n t = \<lparr>kd_chunkid = n, kd_targets = t, kd_running = [], kd_waiting = [], kd_parallel = 4\<rparr>"

definition DownloadBuilder_Build :: "kbuilder \<Rightarrow> 'n kdownload option" where
  "DownloadBuilder_Build b =
     (if kb_targets b = [] \<or> kb_name b = [] then None
      else Some (KineticDownload (kb_name b) (kb_targets b)))"

text \<open>The chunks are pushed in front, then sorted; the sort is stable.\<close>

definition KineticDownload_Prepare :: "'n float_ops \<Rightarrow> ('n, 'd) pb_lib \<Rightarrow> ('n, 's) drives \<Rightarrow>
    'n kdownload \<times> 's \<Rightarrow> (status \<times> 'n kdownload \<times> 's) option" where
  "KineticDownload_Prepare fl lib dr = (\<lambda>(d, s). do {
     let b = fold KB_Target (kd_targets d) (KB_Name (kd_chunkid d) \<lparr>kb_targets = [], kb_name = []\<rparr>);
     l \<leftarrow> ListingBuilder_Build b;
     (rc, l', s') \<leftarrow> KineticListing_Prepare fl lib dr (l, s);
     if Why rc \<noteq> OK then Some (rc, d, s')
     else do {
       chunks \<leftarrow> listed_chunks fl lib (listing_rest l');
       let sorted = sort_key pg_sequence (rev chunks);
       Some (status_ok, d\<lparr>kd_waiting := kd_waiting d @ sorted\<rparr>, s')
     }
   })"

definition KineticDownload_IsEof :: "'n kdownload \<Rightarrow> bool" where
  "KineticDownload_IsEof d = (kd_waiting d = [] \<and> kd_running d = [])"

text \<open>The chunks that are started, as long as fewer than \<open>parallel_factor\<close> run.\<close>

fun start_gets :: "('n, 's) drives \<Rightarrow> nat \<Rightarrow> 'n pending_get list \<Rightarrow> 'n pending_get list \<Rightarrow> 's \<Rightarrow>
    'n pending_get list \<times> 'n pending_get list \<times> 's" where
  "start_gets dr n running [] s = (running, [], s)"
| "start_gets dr n running (pg # waiting) s =
     (if length running < n
      then let (x, s') = dr (pg_client pg) (pg_op pg) s
           in start_gets dr n (running @ [pg\<lparr>pg_op := x\<rparr>]) waiting s'
      else (running, pg # waiting, s))"

definition KineticDownload_Read :: "('n, 's) drives \<Rightarrow> bytes \<Rightarrow> 'n kdownload \<times> 's \<Rightarrow>
    (int \<times> bytes \<times> 'n kdownload \<times> 's) option" where
  "KineticDownload_Read dr buf = (\<lambda>(d, s).
     let (running, waiting, s') = start_gets dr (kd_parallel d) (kd_running d) (kd_waiting d) s in
     case running of
       [] \<Rightarrow> Some (0, buf, d\<lparr>kd_running := running, kd_waiting := waiting\<rparr>, s')
     | pg # rest \<Rightarrow>
         let out = fst (Get_Steal buf (pg_op pg))
         in Some (i32_of_nat (length out), out, d\<lparr>kd_running := rest, kd_waiting := waiting\<rparr>, s'))"

section \<open>Removal\<close>

record 'n pending_delete =
  pd_op :: "'n exch"
  pd_client :: string
  pd_started :: bool

definition PendingDelete :: "'n float_ops \<Rightarrow> ('n, 'd) pb_lib \<Rightarrow> string \<Rightarrow> string \<Rightarrow> 'n pending_delete" where
  "PendingDelete fl lib c k = \<lparr>pd_op = exch_Key k (Delete_new fl lib), pd_client = c, pd_started = False\<rparr>"

definition pd_Start :: "('n, 's) drives \<Rightarrow> 'n pending_delete \<Rightarrow> 's \<Rightarrow> ('n pending_delete \<times> 's) option" where
  "pd_Start dr p s =
     (if pd_started p then None
      else let (x, s') = dr (pd_client p) (pd_op p) s in Some (p\<lparr>pd_op := x, pd_started := True\<rparr>, s'))"

definition start_at :: "('n, 's) drives \<Rightarrow> nat \<Rightarrow> 'n pending_delete list \<times> 's \<Rightarrow> ('n pending_delete list \<times> 's) option" where
  "start_at dr i = (\<lambda>(ops, s). do { (p, s') \<leftarrow> pd_Start dr (ops ! i) s; Some (ops[i := p], s') })"

text \<open>The operations started ahead, then the loop that waits for one and starts another.\<close>

fun prestart :: "('n, 's) drives \<Rightarrow> nat list \<Rightarrow> 'n pending_delete list \<times> 's \<Rightarrow> ('n pending_delete list \<times> 's) option" where
  "prestart dr [] st = Some st"
| "prestart dr (i # is) st = do { st' \<leftarrow> start_at dr i st; prestart dr is st' }"

fun wait_and_start :: "('n, 's) drives \<Rightarrow> nat \<Rightarrow> nat list \<Rightarrow> 'n pending_delete list \<times> 's \<Rightarrow>
    ('n pending_delete list \<times> 's) option" where
  "wait_and_start dr factor [] st = Some st"
| "wait_and_start dr factor (i # is) st =
     (if \<not> pd_started (fst st ! i) then None
      else do {
        st' \<leftarrow> (if i + factor < length (fst st) then start_at dr (i + factor) st else Some st);
        wait_and_start dr factor is st'
      })"

definition rolling_delete :: "('n, 's) drives \<Rightarrow> nat \<Rightarrow> 'n pending_delete list \<Rightarrow> 's \<Rightarrow>
    ('n pending_delete list \<times> 's) option" where
  "rolling_delete dr factor ops s = do {
     st \<leftarrow> prestart dr [0..<min factor (length ops)] (ops, s);
     wait_and_start dr factor [0..<length ops] st
   }"

record 'n kremoval =
  kr_parallelism :: nat
  kr_chunkid :: string
  kr_targets :: "string list"
  kr_ops :: "'n pending_delete list"
  kr_step :: tstep

definition RemovalBuilder_Build :: "kbuilder \<Rightarrow> 'n kremoval option" where
  "RemovalBuilder_Build b =
     (if kb_targets b = [] \<or> kb_name b = [] then None
      else Some \<lparr>kr_parallelism = 8, kr_chunkid = kb_name b, kr_targets = kb_targets b, kr_ops = [], kr_step = Init\<rparr>)"

definition KineticRemoval_Prepare :: "'n float_ops \<Rightarrow> ('n, 'd) pb_lib \<Rightarrow> ('n, 's) drives \<Rightarrow> ('n kremoval \<times> 's) tx_op" where
  "KineticRemoval_Prepare fl lib dr = (\<lambda>(r, s).
     if kr_step r \<noteq> Init then Some (status_of InternalError, r, s)
     else do {
       let b = fold KB_Target (kr_targets r) (KB_Name (kr_chunkid r) \<lparr>kb_targets = [], kb_name = []\<rparr>);
       l \<leftarrow> ListingBuilder_Build b;
       (rc, l', s') \<leftarrow> KineticListing_Prepare fl lib dr (l, s);
       Some (rc, if Ok rc then r\<lparr>kr_ops := kr_ops r @ map (\<lambda>(cid, key). PendingDelete fl lib cid key) (listing_rest l'),
           kr_step := Prepared\<rparr> else r, s')
     })"

definition KineticRemoval_Commit :: "('n, 's) drives \<Rightarrow> ('n kremoval \<times> 's) tx_op" where
  "KineticRemoval_Commit dr = (\<lambda>(r, s).
     if kr_step r \<noteq> Prepared then Some (status_of InternalError, r, s)
     else do {
       (ops, s') \<leftarrow> rolling_delete dr (kr_parallelism r) (kr_ops r) s;
       Some (status_ok, r\<lparr>kr_ops := ops, kr_step := Done\<rparr>, s')
     })"

definition KineticRemoval_Abort :: "('n kremoval \<times> 's) tx_op" where
  "KineticRemoval_Abort = (\<lambda>(r, s).
     if kr_step r \<noteq> Prepared then Some (status_of InternalError, r, s)
     else Some (status_ok, r\<lparr>kr_step := Done\<rparr>, s))"

section \<open>Upload\<close>

record 'n pending_put =
  pp_client :: string
  pp_put :: "'n exch"
  pp_key :: string

definition PendingPut :: "'n float_ops \<Rightarrow> ('n, 'd) pb_lib \<Rightarrow> string \<Rightarrow> string \<Rightarrow> 'n pending_put" where
  "PendingPut fl lib c k = \<lparr>pp_client = c, pp_put = exch_Key k (Put_new fl lib), pp_key = k\<rparr>"

definition PendingPut_Delete :: "'n float_ops \<Rightarrow> ('n, 'd) pb_lib \<Rightarrow> 'n pending_put \<Rightarrow> 'n pending_delete" where
  "PendingPut_Delete fl lib p = PendingDelete fl lib (pp_client p) (pp_key p)"

record 'n kupload =
  ku_clients :: "string list"
  ku_next_client :: "32 word"
  ku_ops :: "'n pending_put list"
  ku_buffer :: bytes
  ku_buffer_limit :: "32 word"
  ku_chunkid :: string
  ku_xattr :: "(string, string) omap"
  ku_step :: tstep

definition KineticUpload_SetXattr :: "string \<Rightarrow> string \<Rightarrow> 'n kupload \<Rightarrow> 'n kupload" where
  "KineticUpload_SetXattr k v u = u\<lparr>ku_xattr := om_put k v (ku_xattr u)\<rparr>"

definition TriggerUpload_suffix :: "'n float_ops \<Rightarrow> ('n, 'd) pb_lib \<Rightarrow> ('n, 's) drives \<Rightarrow> string \<Rightarrow>
    'n kupload \<times> 's \<Rightarrow> ('n kupload \<times> 's) option" where
  "TriggerUpload_suffix fl lib dr suffix = (\<lambda>(u, s).
     if ku_chunkid u = [] \<or> ku_clients u = [] then None
     else let client = ku_clients u ! (unat (ku_next_client u) mod length (ku_clients u));
              p = PendingPut fl lib client (ku_chunkid u @ ''-'' @ suffix);
              (buf, put) = Put_Value_swap lib (ku_buffer u) (pp_put p)
          in if buf \<noteq> [] then None
             else let (x, s') = dr client put s
               in Some (u\<lparr>ku_next_client := ku_next_client u + 1, ku_buffer := buf,
                    ku_ops := ku_ops u @ [p\<lparr>pp_put := x\<rparr>]\<rparr>, s'))"

definition TriggerUpload :: "'n float_ops \<Rightarrow> ('n, 'd) pb_lib \<Rightarrow> ('n, 's) drives \<Rightarrow> 'n kupload \<times> 's \<Rightarrow>
    ('n kupload \<times> 's) option" where
  "TriggerUpload fl lib dr = (\<lambda>(u, s). TriggerUpload_suffix fl lib dr
     (show_dec (unat (ku_next_client u)) @ ''-'' @ show_dec (length (ku_buffer u))) (u, s))"

partial_function (option) upload_write :: "'n float_ops \<Rightarrow> ('n, 'd) pb_lib \<Rightarrow> ('n, 's) drives \<Rightarrow> bytes \<Rightarrow>
    'n kupload \<Rightarrow> 's \<Rightarrow> ('n kupload \<times> 's) option" where
  "upload_write fl lib dr buf u s =
     (if buf = [] then Some (u, s)
      else let avail = ku_buffer_limit u - word_of_nat (length (ku_buffer u));
               local = min (unat avail) (length buf);
               u1 = u\<lparr>ku_buffer := ku_buffer u @ take local buf\<rparr>
           in if length (ku_buffer u1) \<ge> unat (ku_buffer_limit u1)
              then Option.bind (TriggerUpload fl lib dr (u1, s)) (\<lambda>(u2, s2). upload_write fl lib dr (drop local buf) u2 s2)
              else if local = 0 then None
              else upload_write fl lib dr (drop local buf) u1 s)"

definition KineticUpload_Write :: "'n float_ops \<Rightarrow> ('n, 'd) pb_lib \<Rightarrow> ('n, 's) drives \<Rightarrow> bytes \<Rightarrow>
    'n kupload \<times> 's \<Rightarrow> ('n kupload \<times> 's) option" where
  "KineticUpload_Write fl lib dr buf = (\<lambda>(u, s).
     if ku_step u \<noteq> Prepared \<or> ku_clients u = [] then None else upload_write fl lib dr buf u s)"

text \<open>The events of the writer for the attributes; \<open>render\<close> is the text the JSON library makes of them.\<close>

definition xattr_toks :: "(string, string) omap \<Rightarrow> jtok list" where
  "xattr_toks xattr = object_toks xattr"

definition KineticUpload_Commit :: "'n float_ops \<Rightarrow> ('n, 'd) pb_lib \<Rightarrow> (jtok list \<Rightarrow> string) \<Rightarrow> ('n, 's) drives \<Rightarrow>
    ('n kupload \<times> 's) tx_op" where
  "KineticUpload_Commit fl lib render dr = (\<lambda>(u0, s0).
     if ku_step u0 \<noteq> Prepared then Some (status_of InternalError, u0, s0)
     else do {
       (u1, s1) \<leftarrow> (if length (ku_buffer u0) > 0 then TriggerUpload fl lib dr (u0, s0) else Some (u0, s0));
       (u2, s2) \<leftarrow> KineticUpload_Write fl lib dr (bytes_of (render (xattr_toks (ku_xattr u1)))) (u1, s1);
       (u3, s3) \<leftarrow> TriggerUpload_suffix fl lib dr ''#'' (u2, s2);
       Some (status_ok, u3\<lparr>ku_step := Done\<rparr>, s3)
     })"

definition KineticUpload_Abort :: "'n float_ops \<Rightarrow> ('n, 'd) pb_lib \<Rightarrow> ('n, 's) drives \<Rightarrow> ('n kupload \<times> 's) tx_op" where
  "KineticUpload_Abort fl lib dr = (\<lambda>(u0, s).
     if ku_step u0 \<noteq> Prepared then Some (status_of InternalError, u0, s)
     else let u = u0\<lparr>ku_step := Done\<rparr> in
       if ku_ops u \<noteq> [] then do {
         (_, s') \<leftarrow> rolling_delete dr 8 (map (PendingPut_Delete fl lib) (ku_ops u)) s;
         Some (status_ok, u, s')
       }
       else Some (status_ok, u, s))"

text \<open>
  The requests of \<open>Prepare\<close>, one per client; the index of the loop that sends them is never
  incremented, so the first is sent to every client and the others to none.
\<close>

definition manifest_request :: "'n float_ops \<Rightarrow> ('n, 'd) pb_lib \<Rightarrow> string \<Rightarrow> 'n exch" where
  "manifest_request fl lib key = GKR_MaxItems 1 (GKR_IncludeEnd True (GKR_IncludeStart True
     (GKR_End key (GKR_Start key (GetKeyRange_new fl lib)))))"

fun send_first :: "('n, 's) drives \<Rightarrow> string list \<Rightarrow> 'n exch list \<times> 's \<Rightarrow> 'n exch list \<times> 's" where
  "send_first dr [] st = st"
| "send_first dr (cli # clis) (ops, s) =
     (let (x, s') = dr cli (ops ! 0) s in send_first dr clis (ops[0 := x], s'))"

definition KineticUpload_Prepare :: "'n float_ops \<Rightarrow> ('n, 'd) pb_lib \<Rightarrow> ('n, 's) drives \<Rightarrow> ('n kupload \<times> 's) tx_op" where
  "KineticUpload_Prepare fl lib dr = (\<lambda>(u, s).
     if ku_step u \<noteq> Init then Some (status_of InternalError, u, s)
     else let ops0 = map (\<lambda>_. manifest_request fl lib (ku_chunkid u @ ''-#'')) (ku_clients u);
              (ops, s') = send_first dr (ku_clients u) (ops0, s)
          in if \<not> list_all exch_Ok ops then Some (status_of NetworkError, u, s')
             else if list_ex (\<lambda>op. fst (GKR_Steal [] op) \<noteq> []) ops then Some (status_of Already, u, s')
             else Some (status_ok, u\<lparr>ku_step := Prepared\<rparr>, s'))"

record kupload_builder =
  kub_targets :: "string list"
  kub_name :: string
  kub_block_size :: "32 word"

definition UploadBuilder_new :: kupload_builder where
  "UploadBuilder_new = \<lparr>kub_targets = [], kub_name = [], kub_block_size = 1024 * 1024\<rparr>"

definition UploadBuilder_Target :: "string \<Rightarrow> kupload_builder \<Rightarrow> kupload_builder" where
  "UploadBuilder_Target t b = b\<lparr>kub_targets := os_insert t (kub_targets b)\<rparr>"

definition UploadBuilder_Name :: "string \<Rightarrow> kupload_builder \<Rightarrow> kupload_builder" where
  "UploadBuilder_Name n b = b\<lparr>kub_name := n\<rparr>"

definition UploadBuilder_BlockSize :: "32 word \<Rightarrow> kupload_builder \<Rightarrow> kupload_builder" where
  "UploadBuilder_BlockSize n b = b\<lparr>kub_block_size := n\<rparr>"

definition UploadBuilder_Build :: "kupload_builder \<Rightarrow> 'n kupload option" where
  "UploadBuilder_Build b =
     (if kub_name b = [] then None
      else Some \<lparr>ku_clients = map c_str (kub_targets b), ku_next_client = 0, ku_ops = [], ku_buffer = [],
        ku_buffer_limit = kub_block_size b, ku_chunkid = kub_name b, ku_xattr = [], ku_step = Init\<rparr>)"

section \<open>Laws\<close>

interpretation kinetic_rm: transaction "kr_step \<circ> fst" "KineticRemoval_Prepare fl lib dr"
  "KineticRemoval_Commit dr" KineticRemoval_Abort for fl lib dr
  by standard
    (auto simp: KineticRemoval_Prepare_def KineticRemoval_Commit_def KineticRemoval_Abort_def Let_def
      split: bind_splits if_splits)

lemma TriggerUpload_step: "TriggerUpload_suffix fl lib dr sfx (u, s) = Some (u', s') \<Longrightarrow> ku_step u' = ku_step u"
  by (auto simp: TriggerUpload_suffix_def Let_def split: if_splits prod.splits)

interpretation kinetic_ul: transaction "ku_step \<circ> fst" "KineticUpload_Prepare fl lib dr"
  "KineticUpload_Commit fl lib render dr" "KineticUpload_Abort fl lib dr" for fl lib render dr
  by standard
    (auto simp: KineticUpload_Prepare_def KineticUpload_Commit_def KineticUpload_Abort_def Let_def
      split: bind_splits if_splits prod.splits)

text \<open>The operations one after the other.\<close>

fun delete_all :: "('n, 's) drives \<Rightarrow> 'n pending_delete list \<Rightarrow> 's \<Rightarrow> 'n pending_delete list \<times> 's" where
  "delete_all dr [] s = ([], s)"
| "delete_all dr (p # ps) s =
     (let (x, s1) = dr (pd_client p) (pd_op p) s; (qs, s2) = delete_all dr ps s1
      in (p\<lparr>pd_op := x, pd_started := True\<rparr> # qs, s2))"

lemma delete_all_append:
  "delete_all dr (ps @ qs) s =
    (let (ps', s1) = delete_all dr ps s; (qs', s2) = delete_all dr qs s1 in (ps' @ qs', s2))"
  by (induction ps arbitrary: s) (auto simp: Let_def split: prod.splits)

lemma delete_all_length: "delete_all dr ps s = (qs, s') \<Longrightarrow> length qs = length ps \<and> list_all pd_started qs"
  by (induction ps arbitrary: s qs) (auto simp: Let_def split: prod.splits)

text \<open>The first \<open>k\<close> operations have been started.\<close>

definition started :: "('n, 's) drives \<Rightarrow> 'n pending_delete list \<Rightarrow> 's \<Rightarrow> nat \<Rightarrow> 'n pending_delete list \<times> 's" where
  "started dr ops s k = (let (qs, s') = delete_all dr (take k ops) s in (qs @ drop k ops, s'))"

lemma start_at_started:
  assumes "k < length ops" and "\<not> pd_started (ops ! k)"
  shows "start_at dr k (started dr ops s k) = Some (started dr ops s (Suc k))"
proof -
  obtain qs s1 where d: "delete_all dr (take k ops) s = (qs, s1)" by fastforce
  from delete_all_length [OF d] assms(1) have l: "length qs = k" by simp
  have "(qs @ drop k ops) ! k = ops ! k" using l assms(1) by (simp add: nth_append)
  moreover have "(qs @ drop k ops)[k := p] = qs @ p # drop (Suc k) ops" for p
    using l assms(1) by (simp add: list_update_append flip: Cons_nth_drop_Suc)
  moreover have "take (Suc k) ops = take k ops @ [ops ! k]" using assms(1) by (simp add: take_Suc_conv_app_nth)
  ultimately show ?thesis
    using assms(2) d by (auto simp: start_at_def started_def pd_Start_def delete_all_append split: prod.splits)
qed

lemma started_bounds: "length (fst (started dr ops s k)) = length ops"
  "i < k \<Longrightarrow> i < length ops \<Longrightarrow> pd_started (fst (started dr ops s k) ! i)"
proof -
  obtain qs s1 where d: "delete_all dr (take k ops) s = (qs, s1)" by fastforce
  from delete_all_length [OF d] have l: "length qs = min k (length ops)" "list_all pd_started qs" by simp_all
  show "length (fst (started dr ops s k)) = length ops" using d l by (simp add: started_def)
  assume "i < k" "i < length ops"
  with l d show "pd_started (fst (started dr ops s k) ! i)"
    by (simp add: started_def nth_append list_all_length)
qed

lemma prestart_started:
  "m \<le> length ops \<Longrightarrow> \<forall>p \<in> set ops. \<not> pd_started p \<Longrightarrow> j \<le> m \<Longrightarrow>
    prestart dr [j..<m] (started dr ops s j) = Some (started dr ops s m)"
  by (induction "m - j" arbitrary: j) (auto simp: upt_conv_Cons start_at_started)

lemma wait_started:
  "\<forall>p \<in> set ops. \<not> pd_started p \<Longrightarrow> 0 < factor \<Longrightarrow> j \<le> length ops \<Longrightarrow>
    wait_and_start dr factor [j..<length ops] (started dr ops s (min (length ops) (j + factor))) =
      Some (started dr ops s (length ops))"
proof (induction "length ops - j" arbitrary: j)
  case (Suc n)
  then have j: "j < length ops" "n = length ops - Suc j" by simp_all
  let ?st = "started dr ops s (min (length ops) (j + factor))"
  have "pd_started (fst ?st ! j)" 
    using started_bounds(2) [of j "min (length ops) (j + factor)" ops dr s] j Suc.prems(2) by simp
  moreover have "(if j + factor < length (fst ?st) then start_at dr (j + factor) ?st else Some ?st) =
      Some (started dr ops s (min (length ops) (Suc j + factor)))"
  proof (cases "j + factor < length ops")
    case True
    with Suc.prems(1) start_at_started [OF True] have
      "start_at dr (j + factor) (started dr ops s (j + factor)) = Some (started dr ops s (Suc (j + factor)))" by simp
    moreover have "min (length ops) (j + factor) = j + factor" "min (length ops) (Suc j + factor) = Suc (j + factor)"
      using True by simp_all
    ultimately show ?thesis using True by (simp only: started_bounds(1) if_True)
  next
    case False
    then show ?thesis by (simp add: started_bounds(1) min_def)
  qed
  ultimately show ?case
    using Suc.hyps(1) [OF j(2) Suc.prems(1,2)] j(1) by (simp add: upt_conv_Cons)
qed (simp add: min_def)

text \<open>\<open>Prepare\<close> leaves all the requests but the first as they were made.\<close>

lemma send_first_tail: "send_first dr clis (ops, s) = (ops', s') \<Longrightarrow> 0 < i \<Longrightarrow> ops' ! i = ops ! i \<and> length ops' = length ops"
  by (induction clis arbitrary: ops s) (fastforce simp: Let_def split: prod.splits)+

text \<open>The key of a block, as \<open>TriggerUpload\<close> composes it.\<close>

definition block_key :: "string \<Rightarrow> nat \<Rightarrow> nat \<Rightarrow> string" where
  "block_key name n len = name @ ''-'' @ show_dec n @ ''-'' @ show_dec len"

lemma less_append_same: "xs @ ys < xs @ zs \<longleftrightarrow> ys < zs" for xs :: string
  by (induction xs) simp_all

lemma stoi_show_dec: "n < 2 ^ 31 \<Longrightarrow> stoi (show_dec n) = Some (int n)"
  by (simp add: stoi_def)

lemma digit_not_hash: "hd (show_dec n) \<noteq> CHR ''#''"
proof -
  obtain d where "d < 10" "hd (show_dec n) = digit_char d" by (rule hd_show_dec)
  moreover have "digit_val CHR ''#'' = None" by (simp add: digit_val_def)
  moreover have "digit_val (digit_char d) \<noteq> None" if "d < 10" for d using that by simp
  ultimately show ?thesis by metis
qed

lemma parse_key_chunk:
  assumes "CHR ''-'' \<notin> set t" and "t \<noteq> []" and "hd t \<noteq> CHR ''#''" and "stoi t = Some z"
    and "rfind CHR ''-'' p = Some i" and "stoi (drop (i + 1) p) = Some q"
  shows "parse_key (p @ ''-'' @ t) = Some (Chunk (word_of_int q) (word_of_int z))"
proof -
  have "rfind CHR ''-'' (p @ ''-'' @ t) = Some (length p)" using assms(1) by simp
  moreover have "(p @ ''-'' @ t) ! (length p + 1) = hd t" using assms(2) by (simp add: nth_append hd_conv_nth)
  ultimately show ?thesis using assms(3-6) by (simp add: parse_key_def)
qed

lemma parse_block_key:
  assumes "n < 2 ^ 31" and "len < 2 ^ 31"
  shows "parse_key (block_key name n len) = Some (Chunk (word_of_nat n) (word_of_nat len))"
  using parse_key_chunk [OF _ show_base_not_Nil digit_not_hash stoi_show_dec [OF assms(2)],
      of "name @ ''-'' @ show_dec n" "length name" "int n"] stoi_show_dec [OF assms(1)]
  by (simp add: block_key_def)

text \<open>The exchanges submitted, for the statement of what an upload sends.\<close>

definition logged :: "('n, 's) drives \<Rightarrow> ('n, 's \<times> (string \<times> 'n exch) list) drives" where
  "logged dr u x = (\<lambda>(s, l). let (x', s') = dr u x s in (x', s', l @ [(u, x)]))"

text \<open>What the drives become when exchanges are submitted one after the other.\<close>

fun run_puts :: "('n, 's) drives \<Rightarrow> (string \<times> 'n exch) list \<Rightarrow> 's \<Rightarrow> 's" where
  "run_puts dr [] s = s"
| "run_puts dr ((u, x) # xs) s = run_puts dr xs (snd (dr u x s))"

lemma run_puts_append: "run_puts dr (xs @ ys) s = run_puts dr ys (run_puts dr xs s)"
  by (induction xs arbitrary: s) auto

lemma run_puts_logged: "run_puts (logged dr) xs (s, l) = (run_puts dr xs s, l @ xs)"
  by (induction xs arbitrary: s l) (auto simp: logged_def split: prod.splits)

definition block_put :: "'n float_ops \<Rightarrow> ('n, 'd) pb_lib \<Rightarrow> 'n kupload \<Rightarrow> nat \<Rightarrow> bytes \<Rightarrow> string \<times> 'n exch" where
  "block_put fl lib u n b = (ku_clients u ! (n mod length (ku_clients u)),
     snd (Put_Value_swap lib b (exch_Key (block_key (ku_chunkid u) n (length b)) (Put_new fl lib))))"

fun block_puts :: "'n float_ops \<Rightarrow> ('n, 'd) pb_lib \<Rightarrow> 'n kupload \<Rightarrow> 32 word \<Rightarrow> bytes list \<Rightarrow> (string \<times> 'n exch) list" where
  "block_puts fl lib u n [] = []"
| "block_puts fl lib u n (b # bs) = block_put fl lib u (unat n) b # block_puts fl lib u (n + 1) bs"

definition same_upload :: "'n kupload \<Rightarrow> 'n kupload \<Rightarrow> bool" where
  "same_upload u v = (ku_clients v = ku_clients u \<and> ku_chunkid v = ku_chunkid u \<and> ku_step v = ku_step u
     \<and> ku_buffer_limit v = ku_buffer_limit u \<and> ku_xattr v = ku_xattr u)"

lemma block_puts_same: "same_upload u v \<Longrightarrow> block_puts fl lib v n bs = block_puts fl lib u n bs"
  by (induction bs arbitrary: n) (simp_all add: block_put_def same_upload_def)

lemma TriggerUpload_puts:
  assumes "ku_chunkid u \<noteq> []" and "ku_clients u \<noteq> []"
  obtains u' where "TriggerUpload fl lib dr (u, s) =
      Some (u', run_puts dr [block_put fl lib u (unat (ku_next_client u)) (ku_buffer u)] s)"
    "same_upload u u'" "ku_buffer u' = []" "ku_next_client u' = ku_next_client u + 1"
proof -
  let ?c = "ku_clients u ! (unat (ku_next_client u) mod length (ku_clients u))"
    and ?k = "block_key (ku_chunkid u) (unat (ku_next_client u)) (length (ku_buffer u))"
  obtain x where b: "Put_Value_swap lib (ku_buffer u) (exch_Key ?k (Put_new fl lib)) = ([], x)"
    by (simp add: Put_Value_swap_def exch_Key_def Put_new_def Exchange_def upd_keyvalue_def upd_header_def)
  obtain x' s' where x: "dr ?c x s = (x', s')" by fastforce
  let ?u = "u\<lparr>ku_next_client := ku_next_client u + 1, ku_buffer := [],
    ku_ops := ku_ops u @ [(PendingPut fl lib ?c ?k)\<lparr>pp_put := x'\<rparr>]\<rparr>"
  have "TriggerUpload fl lib dr (u, s) = Some (?u, s')"
    using assms x b by (simp add: TriggerUpload_def TriggerUpload_suffix_def PendingPut_def block_key_def Let_def)
  then show ?thesis using b x by (intro that [of ?u]) (simp_all add: block_put_def same_upload_def)
qed

lemma upload_write_blocks:
  assumes "ku_chunkid u \<noteq> []" and "ku_clients u \<noteq> []" and "length (ku_buffer u) < unat (ku_buffer_limit u)"
  shows "\<exists>u' bs. upload_write fl lib dr buf u s =
      Some (u', run_puts dr (block_puts fl lib u (ku_next_client u) bs) s)
    \<and> concat bs @ ku_buffer u' = ku_buffer u @ buf \<and> (\<forall>b \<in> set bs. length b = unat (ku_buffer_limit u))
    \<and> length (ku_buffer u') < unat (ku_buffer_limit u) \<and> same_upload u u'
    \<and> ku_next_client u' = ku_next_client u + word_of_nat (length bs)"
  using assms
proof (induction "length buf" arbitrary: buf u s rule: less_induct)
  case less
  show ?case
  proof (cases "buf = []")
    case True
    with less.prems show ?thesis
      by (intro exI [of _ u] exI [of _ "[]"]) (simp add: upload_write.simps same_upload_def)
  next
    case False
    let ?room = "unat (ku_buffer_limit u) - length (ku_buffer u)" and ?limit = "unat (ku_buffer_limit u)"
    let ?local = "min ?room (length buf)"
    let ?u1 = "u\<lparr>ku_buffer := ku_buffer u @ take ?local buf\<rparr>"
    have room: "unat (ku_buffer_limit u - word_of_nat (length (ku_buffer u))) = ?room"
      using less.prems(3) by (intro unat_minus_nat) simp
    show ?thesis
    proof (cases "?room \<le> length buf")
      case full: True
      have len: "length (ku_buffer ?u1) = ?limit" using full less.prems(3) by simp
      let ?p = "block_put fl lib ?u1 (unat (ku_next_client u)) (ku_buffer ?u1)"
      from TriggerUpload_puts [of ?u1 fl lib dr s] less.prems(1,2) obtain u2 where
        t: "TriggerUpload fl lib dr (?u1, s) = Some (u2, run_puts dr [?p] s)"
        "same_upload ?u1 u2" "ku_buffer u2 = []" "ku_next_client u2 = ku_next_client u + 1" by auto
      let ?s2 = "run_puts dr [?p] s"
      have su: "same_upload u u2" using t(2) by (simp add: same_upload_def)
      have "length (drop ?local buf) < length buf" using False less.prems(3) full by simp
      from less.hyps [OF this, of u2 ?s2] su t(3) less.prems obtain u' bs where
        r: "upload_write fl lib dr (drop ?local buf) u2 ?s2 =
            Some (u', run_puts dr (block_puts fl lib u2 (ku_next_client u2) bs) ?s2)"
          "concat bs @ ku_buffer u' = drop ?local buf" "\<forall>b \<in> set bs. length b = ?limit"
          "length (ku_buffer u') < ?limit" "same_upload u2 u'"
          "ku_next_client u' = ku_next_client u2 + word_of_nat (length bs)"
        by (auto simp: same_upload_def)
      have "upload_write fl lib dr buf u s = Some (u', run_puts dr (block_puts fl lib u2 (ku_next_client u2) bs) ?s2)"
        using False len t(1) r(1) by (subst upload_write.simps) (simp add: room Let_def)
      moreover have "run_puts dr (block_puts fl lib u2 (ku_next_client u2) bs) ?s2 =
          run_puts dr (block_puts fl lib u (ku_next_client u) (ku_buffer ?u1 # bs)) s"
        using block_puts_same [OF su, of fl lib] t(4) by (simp add: block_put_def)
      moreover have "concat (ku_buffer ?u1 # bs) @ ku_buffer u' = ku_buffer u @ buf" using r(2) by simp
      moreover have "same_upload u u'" using su r(5) by (simp add: same_upload_def)
      moreover have "ku_next_client u' = ku_next_client u + word_of_nat (length (ku_buffer ?u1 # bs))"
        using r(6) t(4) by simp
      ultimately show ?thesis using r(3,4) len
        by (intro exI [of _ u'] exI [of _ "ku_buffer ?u1 # bs"]) simp
    next
      case fits: False
      then have "?local = length buf" by simp
      moreover have small: "length (ku_buffer u) + length buf < ?limit" using fits by simp
      ultimately have "upload_write fl lib dr buf u s = Some (u\<lparr>ku_buffer := ku_buffer u @ buf\<rparr>, s)"
        using False by (subst upload_write.simps) (simp add: room Let_def upload_write.simps)
      with small show ?thesis
        by (intro exI [of _ "u\<lparr>ku_buffer := ku_buffer u @ buf\<rparr>"] exI [of _ "[]"])
          (simp add: same_upload_def)
    qed
  qed
qed

text \<open>The blocks read one after the other.\<close>

fun fetch_all :: "('n, 's) drives \<Rightarrow> 'n pending_get list \<Rightarrow> 's \<Rightarrow> bytes list \<times> 's" where
  "fetch_all dr [] s = ([], s)"
| "fetch_all dr (pg # pgs) s =
     (let (x, s1) = dr (pg_client pg) (pg_op pg) s; (outs, s2) = fetch_all dr pgs s1 in (ex_buf x # outs, s2))"

lemma start_gets_spec:
  "start_gets dr n r w s = (r', w', s') \<Longrightarrow>
    \<exists>st. r' = r @ st \<and> map (ex_buf \<circ> pg_op) st @ fst (fetch_all dr w' s') = fst (fetch_all dr w s)
      \<and> snd (fetch_all dr w' s') = snd (fetch_all dr w s) \<and> length st + length w' = length w
      \<and> (0 < n \<longrightarrow> r' = [] \<longrightarrow> w = [])"
proof (induction dr n r w s rule: start_gets.induct)
  case (2 dr n r pg w s)
  show ?case
  proof (cases "length r < n")
    case True
    obtain x s1 where x: "dr (pg_client pg) (pg_op pg) s = (x, s1)" by fastforce
    with 2 True obtain st where "r' = (r @ [pg\<lparr>pg_op := x\<rparr>]) @ st"
      "map (ex_buf \<circ> pg_op) st @ fst (fetch_all dr w' s') = fst (fetch_all dr w s1)"
      "snd (fetch_all dr w' s') = snd (fetch_all dr w s1)" "length st + length w' = length w" by fastforce
    moreover obtain outs s2 where "fetch_all dr w s1 = (outs, s2)" by fastforce
    ultimately show ?thesis using x by (intro exI [of _ "pg\<lparr>pg_op := x\<rparr> # st"]) (simp add: o_def)
  qed (use 2 in auto)
qed simp

lemma drain_gets:
  assumes "0 < kd_parallel d" and "length (kd_running d) + length (kd_waiting d) \<le> n"
  shows "\<exists>d'. drain (KineticDownload_IsEof \<circ> fst) (KineticDownload_Read dr []) n (d, s) =
      Some (concat (map (ex_buf \<circ> pg_op) (kd_running d)) @ concat (fst (fetch_all dr (kd_waiting d) s)), d',
        snd (fetch_all dr (kd_waiting d) s)) \<and> KineticDownload_IsEof d'"
  using assms
proof (induction n arbitrary: d s)
  case (Suc n)
  show ?case
  proof (cases "KineticDownload_IsEof d")
    case True
    then show ?thesis by (auto simp: KineticDownload_IsEof_def)
  next
    case False
    obtain r' w' s' where g: "start_gets dr (kd_parallel d) (kd_running d) (kd_waiting d) s = (r', w', s')"
      by (cases "start_gets dr (kd_parallel d) (kd_running d) (kd_waiting d) s") auto
    from start_gets_spec [OF g] obtain st where st: "r' = kd_running d @ st"
      "map (ex_buf \<circ> pg_op) st @ fst (fetch_all dr w' s') = fst (fetch_all dr (kd_waiting d) s)"
      "snd (fetch_all dr w' s') = snd (fetch_all dr (kd_waiting d) s)" "length st + length w' = length (kd_waiting d)"
      "r' = [] \<longrightarrow> kd_waiting d = []" using Suc.prems(1) by blast
    with False have "r' \<noteq> []" by (auto simp: KineticDownload_IsEof_def)
    then obtain pg r where r: "r' = pg # r" by (cases r') auto
    let ?d = "d\<lparr>kd_running := r, kd_waiting := w'\<rparr>"
    have "length (kd_running ?d) + length (kd_waiting ?d) \<le> n"
      using Suc.prems(2) st(1,4) r by (auto dest: arg_cong [of _ _ length])
    moreover have "0 < kd_parallel ?d" using Suc.prems(1) by simp
    ultimately obtain d' where
      1: "drain (KineticDownload_IsEof \<circ> fst) (KineticDownload_Read dr []) n (?d, s') =
        Some (concat (map (ex_buf \<circ> pg_op) (kd_running ?d)) @ concat (fst (fetch_all dr (kd_waiting ?d) s')), d',
          snd (fetch_all dr (kd_waiting ?d) s'))"
      "KineticDownload_IsEof d'" using Suc.IH [of ?d s'] by blast
    have "KineticDownload_Read dr [] (d, s) = Some (i32_of_nat (length (ex_buf (pg_op pg))), ex_buf (pg_op pg), ?d, s')"
      using g r by (simp add: KineticDownload_Read_def Get_Steal_def Let_def)
    moreover have "ex_buf (pg_op pg) @ concat (map (ex_buf \<circ> pg_op) r) @ concat (fst (fetch_all dr w' s')) =
        concat (map (ex_buf \<circ> pg_op) (kd_running d)) @ concat (fst (fetch_all dr (kd_waiting d) s))"
      using arg_cong [OF st(1), of "\<lambda>xs. concat (map (ex_buf \<circ> pg_op) xs)"] r by (simp flip: st(2))
    moreover have "\<not> (KineticDownload_IsEof \<circ> fst) (d, s)" using False by simp
    ultimately have "drain (KineticDownload_IsEof \<circ> fst) (KineticDownload_Read dr []) (Suc n) (d, s) =
        Some (concat (map (ex_buf \<circ> pg_op) (kd_running d)) @ concat (fst (fetch_all dr (kd_waiting d) s)), d',
          snd (fetch_all dr (kd_waiting d) s))"
      using 1(1) st(3) by (simp del: comp_apply)
    with 1(2) show ?thesis by blast
  qed
qed (auto simp: KineticDownload_IsEof_def)

text \<open>A drive with two blocks, the second listed first: the first two requests are those of the listing.\<close>

definition demo_drive :: "string \<Rightarrow> nat exch \<Rightarrow> nat \<Rightarrow> nat exch \<times> nat" where
  "demo_drive u x s = (x\<lparr>ex_status := True, ex_keys := (if s = 0 then [''n-1-2'', ''n-#'', ''n-0-2''] else []),
     ex_buf := [of_nat s + 1, 7]\<rparr>, s + 1)"

lemma demo_listing:
  "list_loop fl lib demo_drive name [u] [(True, mk)] [] 0 = Some ([(0, ''n-1-2''), (0, ''n-#''), (0, ''n-0-2'')], 2)"
  by (subst list_loop.simps, simp add: demo_drive_def GKR_Steal_def Let_def, subst list_loop.simps,
      simp add: demo_drive_def GKR_Steal_def Let_def, subst list_loop.simps, simp)

lemma demo_keys: "parse_key ''n-1-2'' = Some (Chunk 1 2)" "parse_key ''n-#'' = Some Manifest"
    "parse_key ''n-0-2'' = Some (Chunk 0 2)"
  by code_simp+

lemma demo_download_prepared:
  "KineticDownload_Prepare fl lib demo_drive (KineticDownload ''n'' [''h:1''], 0) =
    Some (status_ok, (KineticDownload ''n'' [''h:1''])\<lparr>kd_waiting :=
      [(PendingGet fl lib ''h:1'' ''n-0-2'')\<lparr>pg_size := 2, pg_sequence := 0\<rparr>,
       (PendingGet fl lib ''h:1'' ''n-1-2'')\<lparr>pg_size := 2, pg_sequence := 1\<rparr>]\<rparr>, 2)"
  by (simp add: KineticDownload_Prepare_def KineticDownload_def KB_Name_def KB_Target_def
      ListingBuilder_Build_def KineticListing_Prepare_def demo_listing listing_rest_def demo_keys PendingGet_def status_ok_def Why_def)

section \<open>Properties\<close>

text \<open>C20. What is written to a kinetic upload leaves it in blocks of exactly the block size, in order
  and without loss: the blocks already sent followed by the buffer are the bytes written.  Block
  \<open>n\<close> goes to client \<open>n\<close> modulo their number, under a key made of the name, \<open>n\<close> and the size.\<close>

theorem kinetic_upload_blocks:
  assumes "ku_step u = Prepared" and "ku_chunkid u \<noteq> []" and "ku_clients u \<noteq> []"
    and "length (ku_buffer u) < unat (ku_buffer_limit u)"
  shows "\<exists>u' s' bs. KineticUpload_Write fl lib (logged dr) buf (u, s, l) =
      Some (u', s', l @ block_puts fl lib u (ku_next_client u) bs)
    \<and> concat bs @ ku_buffer u' = ku_buffer u @ buf \<and> (\<forall>b \<in> set bs. length b = unat (ku_buffer_limit u))
    \<and> length (ku_buffer u') < unat (ku_buffer_limit u) \<and> ku_next_client u' = ku_next_client u + word_of_nat (length bs)"
  using upload_write_blocks [OF assms(2-4), of fl lib "logged dr" buf "(s, l)"] assms(1,3)
  by (fastforce simp: KineticUpload_Write_def run_puts_logged)

theorem kinetic_upload_blocks_witness:
  "\<exists>(u :: nat kupload) u' bs. KineticUpload_Write demo_floats (demo_pb demo_command
        \<lparr>pm_commandbytes = None, pm_hmacauth = True, pm_identity = 0, pm_hmac = []\<rparr>) (logged (\<lambda>_ x s. (x, s)))
      [1, 2, 3, 4, 5] (u, (), []) =
    Some (u', (), block_puts demo_floats (demo_pb demo_command
        \<lparr>pm_commandbytes = None, pm_hmacauth = True, pm_identity = 0, pm_hmac = []\<rparr>) u 0 bs)
    \<and> concat bs @ ku_buffer u' = [1, 2, 3, 4, 5] \<and> (\<forall>b \<in> set bs. length b = 2)"
proof -
  let ?u = "\<lparr>ku_clients = [''h:1'', ''h:2''], ku_next_client = 0, ku_ops = [], ku_buffer = [], ku_buffer_limit = 2,
    ku_chunkid = ''n'', ku_xattr = [], ku_step = Prepared\<rparr>"
  let ?lib = "demo_pb demo_command \<lparr>pm_commandbytes = None, pm_hmacauth = True, pm_identity = 0, pm_hmac = []\<rparr>"
  obtain u' bs where "KineticUpload_Write demo_floats ?lib (logged (\<lambda>_ x s. (x, s))) [1, 2, 3, 4, 5] (?u, (), []) =
      Some (u', (), block_puts demo_floats ?lib ?u 0 bs)"
    "concat bs @ ku_buffer u' = [1, 2, 3, 4, 5]" "\<forall>b \<in> set bs. length b = 2"
    using kinetic_upload_blocks [of ?u demo_floats ?lib "\<lambda>_ x s. (x, s)" "[1, 2, 3, 4, 5]" "()" "[]"] by auto
  then show ?thesis by (intro exI [of _ ?u] exI [of _ u'] exI [of _ bs] conjI)
qed

text \<open>An upload to two drives or more can never be prepared: the existence of the blob is asked of
  every drive through the first request only, the others are never sent and count as failed.\<close>

theorem kinetic_upload_two_targets:
  assumes "ku_step u = Init" and "2 \<le> length (ku_clients u)"
  shows "\<exists>s'. KineticUpload_Prepare fl lib dr (u, s) = Some (status_of NetworkError, u, s')"
proof -
  let ?r = "manifest_request fl lib (ku_chunkid u @ ''-#'')"
  obtain ops s' where f: "send_first dr (ku_clients u) (map (\<lambda>_. ?r) (ku_clients u), s) = (ops, s')" by fastforce
  have "ops ! 1 = ?r" "1 < length ops" using send_first_tail [OF f, of 1] assms(2) by simp_all
  moreover have "\<not> exch_Ok ?r"
    by (simp add: exch_Ok_def manifest_request_def GKR_MaxItems_def GKR_IncludeEnd_def GKR_IncludeStart_def
        GKR_End_def GKR_Start_def GetKeyRange_new_def Exchange_def upd_range_def upd_header_def)
  ultimately have "\<not> list_all exch_Ok ops" by (auto simp: list_all_length)
  with f assms(1) show ?thesis by (simp add: KineticUpload_Prepare_def)
qed

theorem kinetic_upload_two_targets_witness:
  "\<exists>(u :: nat kupload) s'. ku_clients u = [''h:1'', ''h:2''] \<and> KineticUpload_Prepare demo_floats (demo_pb demo_command
      \<lparr>pm_commandbytes = None, pm_hmacauth = True, pm_identity = 0, pm_hmac = []\<rparr>)
      (\<lambda>_ x s. (x\<lparr>ex_status := True\<rparr>, s)) (u, ()) = Some (status_of NetworkError, u, s')"
proof -
  let ?u = "\<lparr>ku_clients = [''h:1'', ''h:2''], ku_next_client = 0, ku_ops = [], ku_buffer = [], ku_buffer_limit = 2,
    ku_chunkid = ''n'', ku_xattr = [], ku_step = Init\<rparr>"
  show ?thesis
    using kinetic_upload_two_targets [of ?u demo_floats "demo_pb demo_command
      \<lparr>pm_commandbytes = None, pm_hmacauth = True, pm_identity = 0, pm_hmac = []\<rparr>"
      "\<lambda>_ x s. (x\<lparr>ex_status := True\<rparr>, s)" "()"]
    by (intro exI [of _ ?u]) simp
qed

text \<open>The key of a block is read back as its number and size, that of the manifest as a manifest; but
  the range in which a blob is listed also holds the blocks of other blobs: those of any blob whose
  name is this one, a dash and a digit, for one.\<close>

theorem kinetic_block_keys:
  shows "(n < 2 ^ 31 \<and> len < 2 ^ 31 \<longrightarrow>
      parse_key (block_key name n len) = Some (Chunk (word_of_nat n) (word_of_nat len)))
    \<and> parse_key (name @ ''-#'') = Some Manifest
    \<and> name @ ''-'' < block_key (name @ ''-1'') n len \<and> block_key (name @ ''-1'') n len < name @ ''-X''"
proof (intro conjI impI)
  show "parse_key (block_key name n len) = Some (Chunk (word_of_nat n) (word_of_nat len))"
    if "n < 2 ^ 31 \<and> len < 2 ^ 31" using that parse_block_key by blast
  have "rfind CHR ''-'' (name @ CHR ''-'' # ''#'') = Some (length name)" by (rule rfind_append) simp
  then show "parse_key (name @ ''-#'') = Some Manifest" by (simp add: parse_key_def nth_append)
  have k: "block_key (name @ ''-1'') n len = name @ ''-1-'' @ show_dec n @ ''-'' @ show_dec len"
    by (simp add: block_key_def)
  show "name @ ''-'' < block_key (name @ ''-1'') n len" unfolding k less_append_same by simp
  show "block_key (name @ ''-1'') n len < name @ ''-X''" unfolding k less_append_same by (simp add: less_char_def)
qed

theorem kinetic_block_keys_witness:
  "parse_key (block_key ''ab-c'' 12 34) = Some (Chunk 12 34) \<and> ''a-'' < block_key ''a-1'' 0 5"
  using kinetic_block_keys [of 12 34 "''ab-c''"] kinetic_block_keys [of 0 5 "''a''"] by simp

text \<open>The blocks a prepared download will fetch are in the order of their numbers, and the client's
  loop returns what sequential fetches of them return, although four are always under way; a fetch
  that fails just contributes no byte.\<close>

theorem kinetic_download_blocks:
  assumes "KineticDownload_Prepare fl lib dr (KineticDownload name ts, s0) = Some (st, d, s)"
  shows "sorted (map pg_sequence (kd_waiting d))
    \<and> (\<exists>d'. drain (KineticDownload_IsEof \<circ> fst) (KineticDownload_Read dr []) (length (kd_waiting d)) (d, s) =
        Some (concat (fst (fetch_all dr (kd_waiting d) s)), d', snd (fetch_all dr (kd_waiting d) s))
      \<and> KineticDownload_IsEof d')"
proof -
  have d: "kd_parallel d = 4" "kd_running d = []" "sorted (map pg_sequence (kd_waiting d))"
    using assms by (auto simp: KineticDownload_Prepare_def KineticDownload_def Let_def split: bind_splits if_splits)
  with drain_gets [of d "length (kd_waiting d)" dr s] show ?thesis by simp
qed

theorem kinetic_download_blocks_witness:
  "\<exists>d :: nat kdownload. \<exists>d'. map pg_sequence (kd_waiting d) = [0, 1]
    \<and> drain (KineticDownload_IsEof \<circ> fst) (KineticDownload_Read demo_drive []) 2 (d, 2) = Some ([3, 7, 4, 7], d', 4)"
proof -
  let ?lib = "demo_pb demo_command \<lparr>pm_commandbytes = None, pm_hmacauth = True, pm_identity = 0, pm_hmac = []\<rparr>"
  let ?pg = "\<lambda>k n. (PendingGet demo_floats ?lib ''h:1'' k)\<lparr>pg_size := 2, pg_sequence := n\<rparr>"
  let ?d = "(KineticDownload ''n'' [''h:1''])\<lparr>kd_waiting := [?pg ''n-0-2'' 0, ?pg ''n-1-2'' 1]\<rparr>"
  have "KineticDownload_Prepare demo_floats ?lib demo_drive (KineticDownload ''n'' [''h:1''], 0) = Some (status_ok, ?d, 2)"
    by (simp add: demo_download_prepared)
  from kinetic_download_blocks [OF this] obtain d' where
    d: "drain (KineticDownload_IsEof \<circ> fst) (KineticDownload_Read demo_drive []) (length (kd_waiting ?d)) (?d, 2) =
      Some (concat (fst (fetch_all demo_drive (kd_waiting ?d) 2)), d', snd (fetch_all demo_drive (kd_waiting ?d) 2))"
    by blast
  have "length (kd_waiting ?d) = 2" "fetch_all demo_drive (kd_waiting ?d) 2 = ([[3, 7], [4, 7]], 4)"
    by (simp_all add: demo_drive_def)
  with d have "drain (KineticDownload_IsEof \<circ> fst) (KineticDownload_Read demo_drive []) 2 (?d, 2) = Some ([3, 7, 4, 7], d', 4)"
    by (simp only: fst_conv snd_conv) simp
  then show ?thesis by (intro exI [of _ ?d] exI [of _ d'] conjI) simp_all
qed

text \<open>C17. The removal orders sent eight at a time have the effect of sending them one after the other, each
  once: the next is started only as those before it end, and none is awaited before it was started.\<close>

theorem rolling_delete_sequential:
  assumes "0 < factor" and "\<forall>p \<in> set ops. \<not> pd_started p"
  shows "rolling_delete dr factor ops s = Some (delete_all dr ops s)"
proof -
  let ?m = "min factor (length ops)"
  have 0: "started dr ops s 0 = (ops, s)" by (simp add: started_def)
  have 1: "prestart dr [0..<?m] (ops, s) = Some (started dr ops s ?m)"
    using prestart_started [of ?m ops 0 dr s] assms(2) by (simp add: 0)
  have 2: "wait_and_start dr factor [0..<length ops] (started dr ops s ?m) = Some (started dr ops s (length ops))"
    using wait_started [OF assms(2,1), of 0 dr s] by (simp add: min.commute)
  have "started dr ops s (length ops) = delete_all dr ops s" by (simp add: started_def split: prod.splits)
  with 1 2 show ?thesis by (simp add: rolling_delete_def)
qed

theorem rolling_delete_sequential_witness:
  "rolling_delete (\<lambda>u x s. (x\<lparr>ex_status := True\<rparr>, s @ [u])) 2
      (map (\<lambda>u. PendingDelete demo_floats (demo_pb demo_command
        \<lparr>pm_commandbytes = None, pm_hmacauth = True, pm_identity = 0, pm_hmac = []\<rparr>) u ''k'') [''a'', ''b'', ''c'']) []
    = Some (delete_all (\<lambda>u x s. (x\<lparr>ex_status := True\<rparr>, s @ [u])) (map (\<lambda>u. PendingDelete demo_floats (demo_pb demo_command
        \<lparr>pm_commandbytes = None, pm_hmacauth = True, pm_identity = 0, pm_hmac = []\<rparr>) u ''k'') [''a'', ''b'', ''c'']) [])"
  by (rule rolling_delete_sequential) (simp_all add: PendingDelete_def)

end
