(* ===== verification/Kinetic_Store.thy ===== *)
theory Kinetic_Store
  imports Kinetic_Blob "HOL-Library.Multiset"
begin

text \<open>
  Kinetic blobs over drives that keep what they are given: a whole upload and a whole download of
  \<open>Kinetic_Blob\<close>, one after the other.  That the drives are ordered maps from keys to values is a
  hypothesis, \<open>stores_keys\<close>; it says what the protocol documents of the three requests that are used.
\<close>

section \<open>Drives that keep keys\<close>

definition is_put :: "'n exch \<Rightarrow> string \<Rightarrow> bytes \<Rightarrow> bool" where
  "is_put x k v = (ph_type (pc_header (ex_cmd x)) = MT_PUT \<and> kv_key (pc_keyvalue (ex_cmd x)) = Some k \<and> ex_payload x = Some v)"

definition is_get :: "'n exch \<Rightarrow> string \<Rightarrow> bool" where
  "is_get x k = (ph_type (pc_header (ex_cmd x)) = MT_GET \<and> kv_key (pc_keyvalue (ex_cmd x)) = Some k)"

definition is_range :: "'n exch \<Rightarrow> bool \<Rightarrow> string \<Rightarrow> bool \<Rightarrow> string \<Rightarrow> int \<Rightarrow> bool" where
  "is_range x ib b ie e n = (ph_type (pc_header (ex_cmd x)) = MT_GETKEYRANGE \<and> ex_keys x = []
     \<and> (let r = pc_range (ex_cmd x) in rg_startkey r = Some b \<and> rg_endkey r = Some e \<and> rg_startinclusive r = Some ib
       \<and> rg_endinclusive r = Some ie \<and> rg_maxreturned r = Some n))"

definition in_range :: "bool \<Rightarrow> string \<Rightarrow> bool \<Rightarrow> string \<Rightarrow> string \<Rightarrow> bool" where
  "in_range ib b ie e k = ((b < k \<or> ib \<and> k = b) \<and> (k < e \<or> ie \<and> k = e))"

text \<open>
  \<open>view s u\<close> are the keys and values of the drive \<open>u\<close>: a put adds one, a get finds one, a range gives its
  first keys in order.
\<close>

definition stores_keys :: "('n, 's) drives \<Rightarrow> ('s \<Rightarrow> string \<Rightarrow> (string, bytes) omap) \<Rightarrow> bool" where
  "stores_keys dr view = (\<forall>u x s x' s'. dr u x s = (x', s') \<longrightarrow>
     (\<forall>k v. is_put x k v \<longrightarrow> exch_Ok x' \<and> view s' = (view s)(u := om_put k v (view s u)))
   \<and> (\<forall>k v. is_get x k \<and> om_get (view s u) k = Some v \<longrightarrow> ex_buf x' = v \<and> view s' = view s)
   \<and> (\<forall>ib b ie e n. is_range x ib b ie e n \<longrightarrow> exch_Ok x' \<and> view s' = view s
       \<and> ex_keys x' = take (nat n) (filter (in_range ib b ie e) (map fst (view s u)))))"

lemma stores_put: "stores_keys dr view \<Longrightarrow> is_put x k v \<Longrightarrow> view (snd (dr u x s)) = (view s)(u := om_put k v (view s u))"
  by (cases "dr u x s") (simp add: stores_keys_def)

lemma stores_get:
  "stores_keys dr view \<Longrightarrow> is_get x k \<Longrightarrow> om_get (view s u) k = Some v \<Longrightarrow>
    ex_buf (fst (dr u x s)) = v \<and> view (snd (dr u x s)) = view s"
  by (cases "dr u x s") (fastforce simp: stores_keys_def)

lemma stores_range:
  "stores_keys dr view \<Longrightarrow> is_range x ib b ie e n \<Longrightarrow> exch_Ok (fst (dr u x s)) \<and> view (snd (dr u x s)) = view s
    \<and> ex_keys (fst (dr u x s)) = take (nat n) (filter (in_range ib b ie e) (map fst (view s u)))"
  by (cases "dr u x s") (fastforce simp: stores_keys_def)

text \<open>A drive that does.\<close>

definition map_drive :: "string \<Rightarrow> nat exch \<Rightarrow> (string \<Rightarrow> (string, bytes) omap) \<Rightarrow> nat exch \<times> (string \<Rightarrow> (string, bytes) omap)" where
  "map_drive u x s =
     (let key = kv_key (pc_keyvalue (ex_cmd x)); r = pc_range (ex_cmd x) in
      if ph_type (pc_header (ex_cmd x)) = MT_PUT then
        (x\<lparr>ex_status := True\<rparr>, s(u := om_put (the key) (the (ex_payload x)) (s u)))
      else if ph_type (pc_header (ex_cmd x)) = MT_GET then
        (x\<lparr>ex_status := True, ex_buf := the (om_get (s u) (the key))\<rparr>, s)
      else
        (x\<lparr>ex_status := True, ex_keys := take (nat (the (rg_maxreturned r)))
          (filter (in_range (the (rg_startinclusive r)) (the (rg_startkey r)) (the (rg_endinclusive r)) (the (rg_endkey r)))
            (map fst (s u)))\<rparr>, s))"

lemma map_drive_stores_keys: "stores_keys map_drive (\<lambda>s. s)"
  by (auto simp: stores_keys_def map_drive_def is_put_def is_get_def is_range_def exch_Ok_def Let_def)

text \<open>The requests of the blobs.\<close>

lemmas request_simps = exch_Key_def upd_keyvalue_def upd_header_def upd_range_def Exchange_def

lemma block_put_is_put: "is_put (snd (block_put fl lib u n b)) (block_key (ku_chunkid u) n (length b)) b"
  by (simp add: is_put_def block_put_def Put_Value_swap_def Put_rehash_def Put_new_def request_simps Let_def)

lemma get_is_get: "is_get (pg_op (PendingGet fl lib c k)) k"
  by (simp add: is_get_def PendingGet_def Get_new_def request_simps)

lemma range_is_range: "is_range (range_request fl lib name m) False m False (name @ ''-X'') 200"
  by (simp add: is_range_def range_request_def GKR_IncludeEnd_def GKR_IncludeStart_def GKR_End_def GKR_Start_def
      GetKeyRange_new_def request_simps)

lemma manifest_is_range: "is_range (manifest_request fl lib k) True k True k 1"
  by (simp add: is_range_def manifest_request_def GKR_IncludeEnd_def GKR_IncludeStart_def GKR_End_def GKR_Start_def
      GKR_MaxItems_def GetKeyRange_new_def request_simps)

section \<open>Listing\<close>

text \<open>Keys in order: those after the last of the first \<open>n\<close> are the others.\<close>

lemma after_last_take:
  fixes ks :: "'k::linorder list"
  assumes "sorted_wrt (<) ks" and "0 < n" and "ks \<noteq> []"
  shows "filter (\<lambda>k. last (take n ks) < k) ks = drop n ks"
  using assms
proof (induction ks arbitrary: n)
  case (Cons k ks)
  show ?case
  proof (cases "n = 1 \<or> ks = []")
    case True
    then have "last (take n (k # ks)) = k" using Cons.prems(2) by (cases n) auto
    with Cons.prems(1,2) True show ?thesis by (cases n) (auto simp: filter_id_conv)
  next
    case False
    with Cons.prems(2) obtain m where m: "n = Suc m" "0 < m" by (cases n) auto
    with False have "take m ks \<noteq> []" by simp
    then have "last (take m ks) \<in> set ks" using in_set_takeD last_in_set by metis
    with Cons m False show ?thesis by auto
  qed
qed simp

lemma list_loop_all:
  assumes drive: "stores_keys dr view" and sorted: "sorted_wrt (<) (map fst (view s u))"
    and ks: "ks = filter (in_range False mk False (name @ ''-X'')) (map fst (view s u))"
  shows "\<exists>s'. list_loop fl lib dr name [u] [(True, mk)] items s = Some (items @ map (Pair 0) ks, s') \<and> view s' = view s"
  using sorted ks
proof (induction "length ks" arbitrary: ks mk items s rule: less_induct)
  case less
  let ?e = "name @ ''-X''"
  obtain x s1 where x: "dr u (range_request fl lib name mk) s = (x, s1)" by fastforce
  from stores_range [OF drive range_is_range [of fl lib name mk], of u s] x
  have keys: "ex_keys x = take 200 ks" "view s1 = view s" by (simp_all add: less.prems(2))
  show ?case
  proof (cases "ks = []")
    case True
    have "list_loop fl lib dr name [u] [(True, mk)] items s = list_loop fl lib dr name [u] [(False, mk)] items s1"
      using x keys True by (subst list_loop.simps) (simp add: GKR_Steal_def)
    also have "\<dots> = Some (items, s1)" by (subst list_loop.simps) simp
    finally show ?thesis using True keys(2) by simp
  next
    case False
    let ?last = "last (take 200 ks)"
    have "take 200 ks \<noteq> []" using False by simp
    from last_in_set [OF this] have "?last \<in> set ks" by (rule in_set_takeD)
    then have after: "mk < ?last" by (simp add: less.prems(2) in_range_def)
    have "sorted_wrt (<) ks" unfolding less.prems(2) by (rule sorted_wrt_filter [OF less.prems(1)])
    from after_last_take [OF this _ False, of 200] have
      "drop 200 ks = filter (\<lambda>k. ?last < k) (filter (in_range False mk False ?e) (map fst (view s u)))"
      by (simp flip: less.prems(2))
    also have "\<dots> = filter (in_range False ?last False ?e) (map fst (view s1 u))"
      using after unfolding filter_filter keys(2) by (intro filter_cong) (auto simp: in_range_def)
    finally have rest: "drop 200 ks = filter (in_range False ?last False ?e) (map fst (view s1 u))" .
    have "length (drop 200 ks) < length ks" using False by simp
    from less.hyps [OF this _ rest, of "items @ map (Pair 0) (take 200 ks)"] less.prems(1) keys(2) obtain s' where
      s': "list_loop fl lib dr name [u] [(True, ?last)] (items @ map (Pair 0) (take 200 ks)) s1 =
        Some ((items @ map (Pair 0) (take 200 ks)) @ map (Pair 0) (drop 200 ks), s')" "view s' = view s1" by auto
    have "list_loop fl lib dr name [u] [(True, mk)] items s =
        list_loop fl lib dr name [u] [(True, ?last)] (items @ map (Pair 0) (take 200 ks)) s1"
      using x keys False by (subst list_loop.simps) (simp add: GKR_Steal_def Let_def)
    with s' keys(2) show ?thesis by (simp flip: map_append)
  qed
qed

section \<open>A blob put and got back\<close>

text \<open>The calls a client makes: build, set the attributes, prepare, write and commit.\<close>

fun kinetic_writes :: "'n float_ops \<Rightarrow> ('n, 'd) pb_lib \<Rightarrow> ('n, 's) drives \<Rightarrow> bytes list \<Rightarrow> 'n kupload \<times> 's \<Rightarrow>
    ('n kupload \<times> 's) option" where
  "kinetic_writes fl lib dr [] st = Some st"
| "kinetic_writes fl lib dr (b # bs) st = Option.bind (KineticUpload_Write fl lib dr b st) (kinetic_writes fl lib dr bs)"

definition kinetic_upload :: "string \<Rightarrow> string \<Rightarrow> 32 word \<Rightarrow> (string \<times> string) list \<Rightarrow> 'n kupload option" where
  "kinetic_upload t name limit xs = map_option (fold (\<lambda>(k, v). KineticUpload_SetXattr k v) xs)
     (UploadBuilder_Build (UploadBuilder_BlockSize limit (UploadBuilder_Name name (UploadBuilder_Target t UploadBuilder_new))))"

definition kinetic_put :: "'n float_ops \<Rightarrow> ('n, 'd) pb_lib \<Rightarrow> (jtok list \<Rightarrow> string) \<Rightarrow> ('n, 's) drives \<Rightarrow>
    'n kupload \<Rightarrow> bytes list \<Rightarrow> 's \<Rightarrow> (status \<times> 's) option" where
  "kinetic_put fl lib render dr u bufs s = do {
     (rc, st) \<leftarrow> KineticUpload_Prepare fl lib dr (u, s);
     if Why rc \<noteq> OK then Some (rc, snd st)
     else do {
       st1 \<leftarrow> kinetic_writes fl lib dr bufs st;
       (rc1, st2) \<leftarrow> KineticUpload_Commit fl lib render dr st1;
       Some (rc1, snd st2)
     }
   }"

definition kinetic_fetch :: "'n float_ops \<Rightarrow> ('n, 'd) pb_lib \<Rightarrow> ('n, 's) drives \<Rightarrow> string \<Rightarrow> string \<Rightarrow> 's \<Rightarrow>
    (status \<times> bytes \<times> 's) option" where
  "kinetic_fetch fl lib dr t name s = do {
     d \<leftarrow> DownloadBuilder_Build (KB_Target t (KB_Name name \<lparr>kb_targets = [], kb_name = []\<rparr>));
     (rc, d1, s1) \<leftarrow> KineticDownload_Prepare fl lib dr (d, s);
     if Why rc \<noteq> OK then Some (rc, [], s1)
     else do {
       (out, d2, s2) \<leftarrow> drain (KineticDownload_IsEof \<circ> fst) (KineticDownload_Read dr []) (length (kd_waiting d1)) (d1, s1);
       Some (rc, out, s2)
     }
   }"

section \<open>What an upload puts\<close>

definition entries :: "string \<Rightarrow> nat \<Rightarrow> bytes list \<Rightarrow> (string \<times> bytes) list" where
  "entries name n bs = map (\<lambda>(i, b). (block_key name i (length b), b)) (enumerate n bs)"

abbreviation om_puts :: "(string \<times> bytes) list \<Rightarrow> (string, bytes) omap \<Rightarrow> (string, bytes) omap" where
  "om_puts \<equiv> fold (\<lambda>(k, v). om_put k v)"

lemma block_puts_append:
  "block_puts fl lib u n (bs @ cs) = block_puts fl lib u n bs @ block_puts fl lib u (n + word_of_nat (length bs)) cs"
  by (induction bs arbitrary: n) (simp_all add: ac_simps)

lemma run_puts_view:
  assumes "stores_keys dr view" and "ku_clients u = [t]" and "n + length bs < 2 ^ 32"
  shows "view (run_puts dr (block_puts fl lib u (word_of_nat n) bs) s) =
    (view s)(t := om_puts (entries (ku_chunkid u) n bs) (view s t))"
  using assms(3)
proof (induction bs arbitrary: n s)
  case (Cons b bs)
  let ?p = "block_put fl lib u n b"
  have n: "unat (word_of_nat n :: 32 word) = n" using Cons.prems by (simp add: unat_of_nat)
  have fst: "fst ?p = t" by (simp add: block_put_def assms(2))
  let ?s1 = "snd (dr t (snd ?p) s)"
  have v: "view ?s1 = (view s)(t := om_put (block_key (ku_chunkid u) n (length b)) b (view s t))"
    by (rule stores_put [OF assms(1) block_put_is_put])
  have "view (run_puts dr (block_puts fl lib u (word_of_nat (Suc n)) bs) ?s1) =
      (view ?s1)(t := om_puts (entries (ku_chunkid u) (Suc n) bs) (view ?s1 t))"
    using Cons.prems by (intro Cons.IH) simp
  moreover have "run_puts dr (block_puts fl lib u (word_of_nat n) (b # bs)) s =
      run_puts dr (block_puts fl lib u (word_of_nat (Suc n)) bs) ?s1"
    using fst by (cases ?p) (simp add: n add.commute)
  ultimately show ?case by (simp add: entries_def v)
qed (simp add: entries_def)

lemma kinetic_writes_blocks:
  assumes "ku_step u = Prepared" and "ku_chunkid u \<noteq> []" and "ku_clients u \<noteq> []"
    and "length (ku_buffer u) < unat (ku_buffer_limit u)"
  shows "\<exists>u' bs. kinetic_writes fl lib dr bufs (u, s) = Some (u', run_puts dr (block_puts fl lib u (ku_next_client u) bs) s)
    \<and> concat bs @ ku_buffer u' = ku_buffer u @ concat bufs \<and> (\<forall>b \<in> set bs. length b = unat (ku_buffer_limit u))
    \<and> length (ku_buffer u') < unat (ku_buffer_limit u) \<and> same_upload u u'
    \<and> ku_next_client u' = ku_next_client u + word_of_nat (length bs)"
  using assms
proof (induction bufs arbitrary: u s)
  case Nil
  then show ?case by (intro exI [of _ u] exI [of _ "[]"]) (simp add: same_upload_def)
next
  case (Cons b bufs)
  from upload_write_blocks [OF Cons.prems(2-4), of fl lib dr b s] obtain u1 bs1 where
    1: "upload_write fl lib dr b u s = Some (u1, run_puts dr (block_puts fl lib u (ku_next_client u) bs1) s)"
      "concat bs1 @ ku_buffer u1 = ku_buffer u @ b" "\<forall>b \<in> set bs1. length b = unat (ku_buffer_limit u)"
      "length (ku_buffer u1) < unat (ku_buffer_limit u)" "same_upload u u1"
      "ku_next_client u1 = ku_next_client u + word_of_nat (length bs1)" by blast
  let ?s1 = "run_puts dr (block_puts fl lib u (ku_next_client u) bs1) s"
  from Cons.IH [of u1 ?s1] 1(4,5) Cons.prems obtain u2 bs2 where
    2: "kinetic_writes fl lib dr bufs (u1, ?s1) = Some (u2, run_puts dr (block_puts fl lib u1 (ku_next_client u1) bs2) ?s1)"
      "concat bs2 @ ku_buffer u2 = ku_buffer u1 @ concat bufs" "\<forall>b \<in> set bs2. length b = unat (ku_buffer_limit u)"
      "length (ku_buffer u2) < unat (ku_buffer_limit u)" "same_upload u1 u2"
      "ku_next_client u2 = ku_next_client u1 + word_of_nat (length bs2)" by (auto simp: same_upload_def)
  have "kinetic_writes fl lib dr (b # bufs) (u, s) =
      Some (u2, run_puts dr (block_puts fl lib u (ku_next_client u) (bs1 @ bs2)) s)"
    using 1(1,6) 2(1) Cons.prems(1,3) block_puts_same [OF 1(5), of fl lib]
    by (simp add: KineticUpload_Write_def block_puts_append run_puts_append)
  moreover have "concat (bs1 @ bs2) @ ku_buffer u2 = ku_buffer u @ concat (b # bufs)"
    using 2(2) by (simp flip: 1(2))
  moreover have "same_upload u u2" using 1(5) 2(5) by (simp add: same_upload_def)
  ultimately show ?case using 1(3,6) 2(3,4,6)
    by (intro exI [of _ u2] exI [of _ "bs1 @ bs2"]) auto
qed

lemma hash_put_is_put:
  "is_put (snd (Put_Value_swap lib b (exch_Key k (Put_new fl lib)))) k b \<and> fst (Put_Value_swap lib b (exch_Key k (Put_new fl lib))) = []"
  by (simp add: is_put_def Put_Value_swap_def Put_rehash_def Put_new_def request_simps Let_def)

text \<open>The commit of an upload: what the buffer holds, then the attributes under the key of the manifest.\<close>

lemma Commit_puts:
  assumes "stores_keys dr view" and u: "ku_step u = Prepared" "ku_chunkid u \<noteq> []" "ku_clients u = [t]"
    and json: "js = bytes_of (render (xattr_toks (ku_xattr u)))" "length js < unat (ku_buffer_limit u)"
  shows "\<exists>u' s'. KineticUpload_Commit fl lib render dr (u, s) = Some (status_ok, u', s')
    \<and> view s' = (view (run_puts dr (block_puts fl lib u (ku_next_client u) (if ku_buffer u = [] then [] else [ku_buffer u])) s))
        (t := om_put (ku_chunkid u @ ''-#'') js
          (view (run_puts dr (block_puts fl lib u (ku_next_client u) (if ku_buffer u = [] then [] else [ku_buffer u])) s) t))"
proof -
  define s1 where s1: "s1 = run_puts dr (block_puts fl lib u (ku_next_client u)
    (if ku_buffer u = [] then [] else [ku_buffer u])) s"
  have "\<exists>u1. (if length (ku_buffer u) > 0 then TriggerUpload fl lib dr (u, s) else Some (u, s)) = Some (u1, s1)
      \<and> same_upload u u1 \<and> ku_buffer u1 = []"
  proof (cases "ku_buffer u = []")
    case False
    obtain u1 where "TriggerUpload fl lib dr (u, s) =
        Some (u1, run_puts dr [block_put fl lib u (unat (ku_next_client u)) (ku_buffer u)] s)"
      "same_upload u u1" "ku_buffer u1 = []" using TriggerUpload_puts [of u fl lib dr s] u by auto
    with False show ?thesis by (auto simp: s1)
  qed (simp add: same_upload_def s1)
  then obtain u1 where
    1: "(if length (ku_buffer u) > 0 then TriggerUpload fl lib dr (u, s) else Some (u, s)) = Some (u1, s1)"
      "same_upload u u1" "ku_buffer u1 = []" by blast
  from 1(2) have same: "ku_step u1 = Prepared" "ku_chunkid u1 = ku_chunkid u" "ku_clients u1 = [t]"
      "ku_buffer_limit u1 = ku_buffer_limit u" "ku_xattr u1 = ku_xattr u" using u by (simp_all add: same_upload_def)
  from upload_write_blocks [of u1 fl lib dr js s1] u same 1(3) json(2) obtain u2 bs where
    2: "upload_write fl lib dr js u1 s1 = Some (u2, run_puts dr (block_puts fl lib u1 (ku_next_client u1) bs) s1)"
      "concat bs @ ku_buffer u2 = js" "\<forall>b \<in> set bs. length b = unat (ku_buffer_limit u)" "same_upload u1 u2" by auto
  have "bs = []" using 2(2,3) json(2) by (cases bs) (auto dest: arg_cong [of _ _ length])
  with 2 have w: "KineticUpload_Write fl lib dr js (u1, s1) = Some (u2, s1)" "ku_buffer u2 = js"
    using same by (simp_all add: KineticUpload_Write_def)
  obtain x where x: "Put_Value_swap lib js (exch_Key (ku_chunkid u @ ''-#'') (Put_new fl lib)) = ([], x)"
      "is_put x (ku_chunkid u @ ''-#'') js" using hash_put_is_put [of lib js "ku_chunkid u @ ''-#''" fl]
    by (metis fst_conv snd_conv surj_pair)
  obtain x' s' where d: "dr t x s1 = (x', s')" by fastforce
  obtain u3 where t: "TriggerUpload_suffix fl lib dr ''#'' (u2, s1) = Some (u3, s')"
    using 2(4) u same w(2) x(1) d by (simp add: TriggerUpload_suffix_def PendingPut_def same_upload_def Let_def)
  have "KineticUpload_Commit fl lib render dr (u, s) = Some (status_ok, u3\<lparr>ku_step := Done\<rparr>, s')"
    using u(1) unfolding KineticUpload_Commit_def prod.case 1(1) by (simp add: same(5) w(1) t flip: json(1))
  with stores_put [OF assms(1) x(2), of t s1] d show ?thesis by (auto simp flip: s1)
qed

lemma fold_SetXattr:
  "fold (\<lambda>(k, v). KineticUpload_SetXattr k v) xs u = u\<lparr>ku_xattr := fold (\<lambda>(k, v). om_put k v) xs (ku_xattr u)\<rparr>"
  by (induction xs arbitrary: u) (auto simp: KineticUpload_SetXattr_def)

text \<open>Where the keys of a name stand in the order of the drive.\<close>

abbreviation name_range :: "string \<Rightarrow> string \<Rightarrow> bool" where
  "name_range name \<equiv> in_range False (name @ ''-'') False (name @ ''-X'')"

lemma digit_before_X: "d < 10 \<Longrightarrow> digit_char d < CHR ''X''"
  by (auto simp: digit_char_def less_char_def)

lemma block_key_in_range: "name_range name (block_key name n l)"
proof -
  obtain d where "d < 10" "hd (show_dec n) = digit_char d" by (rule hd_show_dec)
  then obtain r where "show_dec n = digit_char d # r" by (metis list.collapse show_base_not_Nil)
  with digit_before_X [OF \<open>d < 10\<close>] show ?thesis
    by (simp add: in_range_def block_key_def less_append_same)
qed

lemma manifest_in_range: "name_range name (name @ ''-#'')"
  by (simp add: in_range_def less_append_same)

lemma block_key_inj:
  assumes "block_key name i l = block_key name j m" and "i < 2 ^ 31" "l < 2 ^ 31" "j < 2 ^ 31" "m < 2 ^ 31"
  shows "i = j"
proof -
  have "(word_of_nat i :: 32 word) = word_of_nat j"
    using parse_block_key [of i l name] parse_block_key [of j m name] assms by simp
  then have "unat (word_of_nat i :: 32 word) = unat (word_of_nat j :: 32 word)" by simp
  with assms show ?thesis by (simp add: unat_of_nat)
qed

lemma parse_manifest: "parse_key (name @ ''-#'') = Some Manifest"
proof -
  have "rfind CHR ''-'' (name @ ''-'' @ ''#'') = Some (length name)"
    using rfind_append [of "CHR ''-''" "''#''" name] by simp
  then show ?thesis by (simp add: parse_key_def nth_append)
qed

text \<open>The whole of an upload to a drive without a key in the range of the name.\<close>

lemma Prepare_free:
  assumes drive: "stores_keys dr view" and free: "\<forall>k \<in> set (map fst (view s t)). \<not> name_range (ku_chunkid u) k"
    and u: "ku_step u = Init" "ku_clients u = [t]"
  shows "\<exists>s'. KineticUpload_Prepare fl lib dr (u, s) = Some (status_ok, u\<lparr>ku_step := Prepared\<rparr>, s') \<and> view s' = view s"
proof -
  let ?k = "ku_chunkid u @ ''-#''"
  obtain x s' where x: "dr t (manifest_request fl lib ?k) s = (x, s')" by fastforce
  have "filter (in_range True ?k True ?k) (map fst (view s t)) = []"
    using free manifest_in_range [of "ku_chunkid u"] by (auto simp: filter_empty_conv in_range_def)
  with stores_range [OF drive manifest_is_range [of fl lib ?k], of t s] x
  have "exch_Ok x" "ex_keys x = []" "view s' = view s" by simp_all
  with x u show ?thesis by (simp add: KineticUpload_Prepare_def GKR_Steal_def)
qed

lemma length_le_concat: "[] \<notin> set bs \<Longrightarrow> length bs \<le> length (concat bs)"
proof (induction bs)
  case (Cons b bs)
  then show ?case by (cases b) auto
qed simp

lemma kinetic_put_entries:
  assumes drive: "stores_keys dr view" and free: "\<forall>k \<in> set (map fst (view s t)). \<not> name_range (ku_chunkid u) k"
    and u: "ku_step u = Init" "ku_clients u = [t]" "ku_chunkid u \<noteq> []" "ku_buffer u = []" "ku_next_client u = 0"
    and json: "js = bytes_of (render (xattr_toks (ku_xattr u)))" "length js < unat (ku_buffer_limit u)"
    and bound: "length (concat bufs) < 2 ^ 31"
  shows "\<exists>s' bs. kinetic_put fl lib render dr u bufs s = Some (status_ok, s')
    \<and> concat bs = concat bufs \<and> [] \<notin> set bs
    \<and> view s' = (view s)(t := om_put (ku_chunkid u @ ''-#'') js (om_puts (entries (ku_chunkid u) 0 bs) (view s t)))"
proof -
  let ?u = "u\<lparr>ku_step := Prepared\<rparr>"
  from Prepare_free [OF drive free u(1,2)] obtain s1 where
    p: "KineticUpload_Prepare fl lib dr (u, s) = Some (status_ok, ?u, s1)" "view s1 = view s" by blast
  from kinetic_writes_blocks [of ?u fl lib dr bufs s1] u json(2) obtain u2 bs where
    w: "kinetic_writes fl lib dr bufs (?u, s1) = Some (u2, run_puts dr (block_puts fl lib ?u 0 bs) s1)"
      "concat bs @ ku_buffer u2 = concat bufs" "\<forall>b \<in> set bs. length b = unat (ku_buffer_limit u)"
      "same_upload ?u u2" "ku_next_client u2 = word_of_nat (length bs)" by auto
  let ?s2 = "run_puts dr (block_puts fl lib ?u 0 bs) s1"
    and ?last = "if ku_buffer u2 = [] then [] else [ku_buffer u2]"
  let ?bs = "bs @ ?last"
  from Commit_puts [of dr view u2 t js render fl lib ?s2] drive u json w(4) obtain u3 s3 where
    c: "KineticUpload_Commit fl lib render dr (u2, ?s2) = Some (status_ok, u3, s3)"
      "view s3 = (view (run_puts dr (block_puts fl lib u2 (ku_next_client u2) ?last) ?s2))(t :=
        om_put (ku_chunkid u2 @ ''-#'') js (view (run_puts dr (block_puts fl lib u2 (ku_next_client u2) ?last) ?s2) t))"
    by (auto simp: same_upload_def)
  have nonempty: "[] \<notin> set ?bs" using w(3) json(2) by auto
  have bytes: "concat ?bs = concat bufs" using w(2) by (cases "ku_buffer u2 = []") simp_all
  have "length ?bs < 2 ^ 32" using length_le_concat [OF nonempty] bound unfolding bytes by simp
  with run_puts_view [OF drive, of ?u t 0 ?bs fl lib s1] u(2)
  have "view (run_puts dr (block_puts fl lib ?u 0 ?bs) s1) = (view s)(t := om_puts (entries (ku_chunkid u) 0 ?bs) (view s t))"
    by (simp add: p(2))
  moreover have "run_puts dr (block_puts fl lib u2 (ku_next_client u2) ?last) ?s2 =
      run_puts dr (block_puts fl lib ?u 0 ?bs) s1"
    by (simp only: block_puts_append run_puts_append block_puts_same [OF w(4), of fl lib] w(5) add_0)
  ultimately have "view s3 = (view s)(t :=
      om_put (ku_chunkid u @ ''-#'') js (om_puts (entries (ku_chunkid u) 0 ?bs) (view s t)))"
    using c(2) w(4) by (simp add: same_upload_def)
  moreover have "kinetic_put fl lib render dr u bufs s = Some (status_ok, s3)"
    using p(1) w(1) c(1) by (simp add: kinetic_put_def status_ok_def Why_def)
  ultimately show ?thesis using nonempty bytes by blast
qed

section \<open>What a download lists and gets\<close>

definition chunk_get :: "'n float_ops \<Rightarrow> ('n, 'd) pb_lib \<Rightarrow> string \<Rightarrow> string \<Rightarrow> nat \<times> bytes \<Rightarrow> 'n pending_get" where
  "chunk_get fl lib t name = (\<lambda>(i, b). (PendingGet fl lib t (block_key name i (length b)))
     \<lparr>pg_size := word_of_nat (length b), pg_sequence := word_of_nat i\<rparr>)"

lemma listed_chunks_filter:
  assumes "\<forall>k \<in> set ks. if P k then \<exists>sq sz. parse_key k = Some (Chunk sq sz)
      \<and> f k = (PendingGet fl lib t k)\<lparr>pg_size := sz, pg_sequence := sq\<rparr> else parse_key k = Some Manifest"
  shows "listed_chunks fl lib (map (Pair t) ks) = Some (map f (filter P ks))"
  using assms by (induction ks) (auto split: if_splits)

lemma fetch_chunks:
  assumes "stores_keys dr view" and "\<forall>x \<in> set xs. om_get (view s t) (block_key name (fst x) (length (snd x))) = Some (snd x)"
  shows "\<exists>s'. fetch_all dr (map (chunk_get fl lib t name) xs) s = (map snd xs, s') \<and> view s' = view s"
  using assms(2)
proof (induction xs arbitrary: s)
  case (Cons x xs)
  let ?k = "block_key name (fst x) (length (snd x))"
  obtain y s1 where y: "dr t (pg_op (PendingGet fl lib t ?k)) s = (y, s1)" by fastforce
  with stores_get [OF assms(1) get_is_get [of fl lib t ?k], of s t "snd x"] Cons.prems
  have b: "ex_buf y = snd x" "view s1 = view s" by auto
  with Cons.IH [of s1] Cons.prems obtain s' where
    "fetch_all dr (map (chunk_get fl lib t name) xs) s1 = (map snd xs, s')" "view s' = view s" by auto
  with y b show ?case by (cases x) (simp add: chunk_get_def PendingGet_def)
qed simp

lemma keys_om_puts: "set (map fst (om_puts kvs m)) = fst ` set kvs \<union> set (map fst m)"
  by (induction kvs arbitrary: m) (auto simp: keys_om_put simp del: set_map)

definition small_blocks :: "bytes list \<Rightarrow> bool" where
  "small_blocks bs = (length bs < 2 ^ 31 \<and> (\<forall>b \<in> set bs. length b < 2 ^ 31))"

lemma small_blocks_enumerate:
  "small_blocks bs \<Longrightarrow> (i, b) \<in> set (enumerate 0 bs) \<Longrightarrow> i < 2 ^ 31 \<and> length b < 2 ^ 31 \<and> b = bs ! i"
  by (auto simp: small_blocks_def in_set_enumerate_eq)

lemma distinct_entries:
  assumes "small_blocks bs"
  shows "distinct (map fst (entries name 0 bs))"
proof -
  have "inj_on (\<lambda>(i, b). block_key name i (length b)) (set (enumerate 0 bs))"
  proof (rule inj_onI, clarify)
    fix i b j c
    assume i: "(i, b) \<in> set (enumerate 0 bs)" and j: "(j, c) \<in> set (enumerate 0 bs)"
      and k: "block_key name i (length b) = block_key name j (length c)"
    note i = small_blocks_enumerate [OF assms i] and j = small_blocks_enumerate [OF assms j]
    have "i = j" using i j by (intro block_key_inj [OF k]) blast+
    with i j show "i = j \<and> b = c" by simp
  qed
  then show ?thesis by (simp add: entries_def distinct_map distinct_enumerate comp_def case_prod_unfold)
qed

lemma block_sequences:
  assumes "small_blocks bs"
  shows "sorted_wrt (<) (map pg_sequence (map (chunk_get fl lib t name) (enumerate 0 bs)))"
proof -
  have "map pg_sequence (map (chunk_get fl lib t name) (enumerate 0 bs)) = map word_of_nat [0..<length bs]"
    by (rule nth_equalityI) (simp_all add: chunk_get_def nth_enumerate_eq)
  moreover have "(word_of_nat i :: 32 word) < word_of_nat j" if "i < j" "j < length bs" for i j
    using that assms by (simp add: small_blocks_def word_less_nat_alt unat_of_nat)
  ultimately show ?thesis by (simp add: sorted_wrt_iff_nth_less)
qed

text \<open>The keys of a name once it is put, and what each of its blocks reads.\<close>

definition stored :: "string \<Rightarrow> bytes list \<Rightarrow> bytes \<Rightarrow> (string, bytes) omap \<Rightarrow> (string, bytes) omap" where
  "stored name bs js m = om_put (name @ ''-#'') js (om_puts (entries name 0 bs) m)"

lemma om_inv_stored: "om_inv m \<Longrightarrow> om_inv (stored name bs js m)"
  by (simp add: stored_def om.inv_put om.inv_puts)

lemma stored_block:
  assumes "om_inv m" and "small_blocks bs" and "(i, b) \<in> set (enumerate 0 bs)"
  shows "om_get (stored name bs js m) (block_key name i (length b)) = Some b"
proof -
  let ?k = "block_key name i (length b)"
  have "(?k, b) \<in> set (rev (entries name 0 bs))" using assms(3) by (force simp: entries_def)
  moreover have "distinct (map fst (rev (entries name 0 bs)))" using distinct_entries [OF assms(2)] by (simp flip: rev_map)
  ultimately have "map_of (rev (entries name 0 bs)) ?k = Some b" by (simp only: map_of_is_SomeI)
  moreover have "?k \<noteq> name @ ''-#''"
    using parse_block_key [of i "length b" name] parse_manifest [of name] small_blocks_enumerate [OF assms(2,3)] by auto
  ultimately show ?thesis using assms(1) by (simp add: stored_def om_get_put om.inv_puts om.get_puts)
qed

lemma stored_keys:
  assumes "\<forall>k \<in> set (map fst m). \<not> name_range name k"
  shows "set (filter (name_range name) (map fst (stored name bs js m))) = insert (name @ ''-#'') (fst ` set (entries name 0 bs))"
proof -
  have "set (map fst (stored name bs js m)) = insert (name @ ''-#'') (fst ` set (entries name 0 bs) \<union> set (map fst m))"
    by (simp only: stored_def keys_om_put keys_om_puts)
  moreover have "\<forall>k \<in> fst ` set (entries name 0 bs). name_range name k" by (auto simp: entries_def block_key_in_range)
  ultimately show ?thesis using assms manifest_in_range [of name] by (auto simp del: set_map)
qed

lemma stored_chunks:
  assumes "om_inv m" and "small_blocks bs" and "\<forall>k \<in> set (map fst m). \<not> name_range name k"
    and ks: "ks = filter (name_range name) (map fst (stored name bs js m))"
  shows "\<exists>cs. listed_chunks fl lib (map (Pair t) ks) = Some cs
    \<and> sort_key pg_sequence (rev cs) = map (chunk_get fl lib t name) (enumerate 0 bs)"
proof -
  let ?P = "\<lambda>k. k \<noteq> name @ ''-#''" and ?E = "entries name 0 bs" and ?G = "chunk_get fl lib t name"
  let ?f = "\<lambda>k. case parse_key k of
      Some (Chunk sq sz) \<Rightarrow> (PendingGet fl lib t k)\<lparr>pg_size := sz, pg_sequence := sq\<rparr> | _ \<Rightarrow> PendingGet fl lib t k"
  note small = small_blocks_enumerate [OF assms(2)]
  have parse: "\<exists>i b. (i, b) \<in> set (enumerate 0 bs) \<and> k = block_key name i (length b)
      \<and> parse_key k = Some (Chunk (word_of_nat i) (word_of_nat (length b)))" if "k \<in> fst ` set ?E" for k
  proof -
    from that obtain i b where "(i, b) \<in> set (enumerate 0 bs)" "k = block_key name i (length b)"
      by (auto simp: entries_def)
    moreover from this(1) have "parse_key (block_key name i (length b)) = Some (Chunk (word_of_nat i) (word_of_nat (length b)))"
      using small by (intro parse_block_key) blast+
    ultimately show ?thesis by blast
  qed
  have set_ks: "set ks = insert (name @ ''-#'') (fst ` set ?E)" unfolding ks by (rule stored_keys [OF assms(3)])
  have not_manifest: "name @ ''-#'' \<notin> fst ` set ?E" using parse [of "name @ ''-#''"] by (auto simp: parse_manifest)
  have "listed_chunks fl lib (map (Pair t) ks) = Some (map ?f (filter ?P ks))"
  proof (intro listed_chunks_filter ballI)
    fix k assume "k \<in> set ks"
    then show "if ?P k then \<exists>sq sz. parse_key k = Some (Chunk sq sz)
      \<and> ?f k = (PendingGet fl lib t k)\<lparr>pg_size := sz, pg_sequence := sq\<rparr> else parse_key k = Some Manifest"
      using parse [of k] by (cases "?P k") (auto simp: set_ks parse_manifest)
  qed
  moreover have "sort_key pg_sequence (rev (map ?f (filter ?P ks))) = map ?G (enumerate 0 bs)"
  proof (rule sort_key_inj_key_eq)
    have "distinct ks" using om_inv_distinct [OF om_inv_stored [OF assms(1)]] by (simp add: ks)
    moreover have "set (filter ?P ks) = set (map fst ?E)"
      using not_manifest unfolding set_filter set_ks set_map by blast
    ultimately have "mset (filter ?P ks) = mset (map fst ?E)"
      using distinct_entries [OF assms(2), of name] by (subst set_eq_iff_mset_eq_distinct [symmetric]) auto
    then have "mset (map ?f (filter ?P ks)) = mset (map ?f (map fst ?E))" by (simp only: mset_map)
    also have "map ?f (map fst ?E) = map ?G (enumerate 0 bs)"
      using small by (auto simp: entries_def chunk_get_def parse_block_key)
    finally show "mset (rev (map ?f (filter ?P ks))) = mset (map ?G (enumerate 0 bs))" by simp
    from mset_eq_setD [OF this] block_sequences [OF assms(2), of fl lib t name]
    show "inj_on pg_sequence (set (rev (map ?f (filter ?P ks))))"
      by (simp only: strict_sorted_iff distinct_map)
    show "sorted (map pg_sequence (map ?G (enumerate 0 bs)))"
      using block_sequences [OF assms(2), of fl lib t name] by (simp only: strict_sorted_iff)
  qed
  ultimately show ?thesis by blast
qed

lemma kinetic_fetch_stored:
  assumes drive: "stores_keys dr view" and name: "name \<noteq> []" and m: "om_inv m" "\<forall>k \<in> set (map fst m). \<not> name_range name k"
    and blocks: "small_blocks bs" and view: "view s t = stored name bs js m"
  shows "\<exists>s'. kinetic_fetch fl lib dr t name s = Some (status_ok, concat bs, s')"
proof -
  define ks where "ks = filter (name_range name) (map fst (view s t))"
  have sorted: "sorted_wrt (<) (map fst (view s t))" using om_inv_stored [OF m(1)] by (simp add: view om_inv_def)
  from list_loop_all [OF drive sorted, of ks "name @ ''-''" name fl lib "[]"] obtain s1 where
    l: "list_loop fl lib dr name [t] [(True, name @ ''-'')] [] s = Some (map (Pair 0) ks, s1)" "view s1 = view s"
    by (auto simp: ks_def)
  have "ks \<noteq> []" using stored_keys [OF m(2), of bs js] by (auto simp: ks_def view simp del: set_filter)
  from stored_chunks [OF m(1) blocks m(2), of ks js fl lib t] obtain cs where
    c: "listed_chunks fl lib (map (Pair t) ks) = Some cs"
      "sort_key pg_sequence (rev cs) = map (chunk_get fl lib t name) (enumerate 0 bs)" by (auto simp: ks_def view)
  let ?d = "(KineticDownload name [t])\<lparr>kd_waiting := map (chunk_get fl lib t name) (enumerate 0 bs)\<rparr>"
  have p: "KineticDownload_Prepare fl lib dr (KineticDownload name [t], s) = Some (status_ok, ?d, s1)"
    using name l(1) \<open>ks \<noteq> []\<close> c
    by (simp add: KineticDownload_Prepare_def KineticDownload_def KB_Name_def KB_Target_def ListingBuilder_Build_def
        KineticListing_Prepare_def listing_rest_def comp_def status_ok_def Why_def)
  have "\<forall>x \<in> set (enumerate 0 bs). om_get (view s1 t) (block_key name (fst x) (length (snd x))) = Some (snd x)"
    using stored_block [OF m(1) blocks] by (auto simp: l(2) view)
  from fetch_chunks [OF drive this, of fl lib] obtain s2 where
    "fetch_all dr (kd_waiting ?d) s1 = (bs, s2)" by auto
  with drain_gets [of ?d "length (kd_waiting ?d)" dr s1] obtain d' where
    "drain (KineticDownload_IsEof \<circ> fst) (KineticDownload_Read dr []) (length (kd_waiting ?d)) (?d, s1) = Some (concat bs, d', s2)"
    by (auto simp: KineticDownload_def)
  with p name show ?thesis
    by (simp add: kinetic_fetch_def DownloadBuilder_Build_def KB_Name_def KB_Target_def status_ok_def Why_def del: comp_apply)
qed

section \<open>Properties\<close>

text \<open>C5. A blob put on a drive that keeps its keys is got back byte for byte: whatever the buffers of the writes,
  the attributes and the block size, an upload succeeds when no key of its name exists, and the download that follows lists
  the blocks in any number of rounds, sorts them and returns the bytes written.  The attributes have to be
  shorter than a block: longer ones would be sent as blocks of the blob.\<close>

theorem kinetic_upload_download:
  assumes "stores_keys dr view" and "om_inv (view s t)" and "\<forall>k \<in> set (map fst (view s t)). \<not> name_range name k"
    and "c_str t = t" and "name \<noteq> []" and "length (concat bufs) < 2 ^ 31"
    and "length (bytes_of (render (xattr_toks (fold (\<lambda>(k, v). om_put k v) xs [])))) < unat limit"
  shows "\<exists>u s' s''. kinetic_upload t name limit xs = Some u
    \<and> kinetic_put fl lib render dr u bufs s = Some (status_ok, s')
    \<and> kinetic_fetch fl lib dr t name s' = Some (status_ok, concat bufs, s'')"
proof -
  let ?x = "fold (\<lambda>(k, v). om_put k v) xs []" and ?bytes = "concat bufs"
  let ?u = "\<lparr>ku_clients = [t], ku_next_client = 0, ku_ops = [], ku_buffer = [], ku_buffer_limit = limit, ku_chunkid = name,
    ku_xattr = ?x, ku_step = Init\<rparr>"
  have u: "kinetic_upload t name limit xs = Some ?u"
    using assms(4,5) by (simp add: kinetic_upload_def UploadBuilder_Build_def UploadBuilder_BlockSize_def
        UploadBuilder_Name_def UploadBuilder_Target_def UploadBuilder_new_def fold_SetXattr)
  let ?js = "bytes_of (render (xattr_toks ?x))"
  from kinetic_put_entries [OF assms(1), of s t ?u ?js render bufs fl lib] assms(3,5-7) obtain s' bs where
    p: "kinetic_put fl lib render dr ?u bufs s = Some (status_ok, s')" "concat bs = ?bytes" "[] \<notin> set bs"
      "view s' = (view s)(t := stored name bs ?js (view s t))" by (auto simp: stored_def)
  have "length b \<le> length (concat bs)" if "b \<in> set bs" for b
    using that by (induction bs) auto
  with length_le_concat [OF p(3)] have "small_blocks bs"
    using assms(6) unfolding small_blocks_def p(2) by (blast intro: le_less_trans)
  from kinetic_fetch_stored [OF assms(1,5,2,3) this, of s' t ?js fl lib] p(4) obtain s'' where
    "kinetic_fetch fl lib dr t name s' = Some (status_ok, concat bs, s'')" by auto
  with u p(1,2) show ?thesis by auto
qed

theorem kinetic_upload_download_witness:
  "\<exists>u s' s''. kinetic_upload ''h:1'' ''n'' 3 [] = Some u
    \<and> kinetic_put demo_floats (demo_pb demo_command \<lparr>pm_commandbytes = None, pm_hmacauth = True, pm_identity = 0, pm_hmac = []\<rparr>)
        (\<lambda>_. ''{}'') map_drive u [[1, 2], [3, 4, 5]] (\<lambda>_. []) = Some (status_ok, s')
    \<and> kinetic_fetch demo_floats (demo_pb demo_command \<lparr>pm_commandbytes = None, pm_hmacauth = True, pm_identity = 0, pm_hmac = []\<rparr>)
        map_drive ''h:1'' ''n'' s' = Some (status_ok, [1, 2, 3, 4, 5], s'')"
  using kinetic_upload_download [OF map_drive_stores_keys, of "\<lambda>_. []" "''h:1''" "''n''" "[[1, 2], [3, 4, 5]]" "\<lambda>_. ''{}''" "[]" 3
      demo_floats "demo_pb demo_command \<lparr>pm_commandbytes = None, pm_hmacauth = True, pm_identity = 0, pm_hmac = []\<rparr>"]
  by (simp add: c_str_def)

end
