(* ===== verification/Kinetic_Shutdown.thy ===== *)
theory Kinetic_Shutdown
  imports Kinetic_Client
begin

text \<open>
  The end of a client of a kinetic drive (the destructor and \<open>run_agents\<close> in \<open>CoroutineClient.cpp\<close>): from the
  destructor on, the coroutines end after a bounded number of steps, and which callers have their signal then.
\<close>

section \<open>What the turns of the coroutines leave alone\<close>

definition same_control :: "'n client \<Rightarrow> 'n client \<Rightarrow> bool" where
  "same_control c c' = (cl_next c' = cl_next c \<and> cl_running c' = cl_running c \<and> cl_agents c' = cl_agents c
     \<and> cl_stopping c' = cl_stopping c \<and> cl_consumer c' = cl_consumer c \<and> cl_producer c' = cl_producer c
     \<and> (\<forall>i. pe_waits (cl_pe c' i) = pe_waits (cl_pe c i)))"

lemma same_control_refl [simp]: "same_control c c"
  by (simp add: same_control_def)

lemma same_control_trans: "same_control c d \<Longrightarrow> same_control d e \<Longrightarrow> same_control c e"
  by (simp add: same_control_def)

lemma same_control_upd [simp]:
  "same_control c (c\<lparr>cl_sock := ch\<rparr>)" "same_control c (c\<lparr>cl_ctx := x\<rparr>)" "same_control c (c\<lparr>cl_pending := q\<rparr>)"
  "same_control c (c\<lparr>cl_waiting := q\<rparr>)" "same_control c (c\<lparr>cl_to_agent := s\<rparr>)" "same_control c (c\<lparr>cl_next_check := n\<rparr>)"
  by (simp_all add: same_control_def)

lemma same_control_upd_pe: "pe_waits p = pe_waits (cl_pe c i) \<Longrightarrow> same_control c (upd_pe i p c)"
  by (simp add: same_control_def upd_pe_def)

lemma pe_Signal_waits: "pe_Signal p = Some q \<Longrightarrow> pe_waits q = pe_waits p"
  by (auto simp: pe_Signal_def split: if_splits)

lemma pop_rpc_same: "same_control c (snd (pop_rpc s c))"
  by (simp add: pop_rpc_def split: prod.split)

lemma manage_same: "manage fl req c = Some (ok, c') \<Longrightarrow> same_control c c'"
  by (auto simp: manage_def pop_rpc_def Let_def same_control_def upd_pe_def dest!: pe_Signal_waits
      split: bind_splits option.splits prod.splits if_splits)

lemma abort_rpc_same: "abort_rpc i e c = Some c' \<Longrightarrow> same_control c c'"
  by (auto simp: abort_rpc_def Let_def dest!: pe_Signal_waits split: bind_splits
      intro: same_control_trans [OF same_control_upd_pe pop_rpc_same])

lemma signal_all_same: "signal_all is c = Some c' \<Longrightarrow> same_control c c'"
proof (induction "is" arbitrary: c)
  case (Cons i "is")
  then obtain p where "pe_Signal (cl_pe c i) = Some p" "signal_all is (upd_pe i p c) = Some c'"
    by (auto split: bind_splits)
  with Cons.IH show ?case by (blast intro: same_control_trans same_control_upd_pe pe_Signal_waits)
qed simp

lemma abort_all_same: "abort_all_rpc c = Some c' \<Longrightarrow> same_control c c'"
  by (auto simp: abort_all_rpc_def Let_def fold_error same_control_def dest!: signal_all_same)

lemma start_rpc_same:
  assumes "start_rpc lib i c = Some (ok, c')"
  shows "same_control c c'"
proof -
  from assms obtain e p ctx ch where
    w: "pe_Write lib (cl_pe c i) (cl_ctx c) (cl_sock c) = Some ((e, p, ctx), ch)"
    and r: "(case e of None \<Rightarrow> c' = (upd_pe i p (c\<lparr>cl_pending := cl_pending c @ [i]\<rparr>))\<lparr>cl_ctx := ctx, cl_sock := ch\<rparr>
      | Some x \<Rightarrow> abort_rpc i x ((upd_pe i p (c\<lparr>cl_pending := cl_pending c @ [i]\<rparr>))\<lparr>cl_ctx := ctx, cl_sock := ch\<rparr>) = Some c')"
    by (auto simp: start_rpc_def Let_def split: bind_splits option.splits)
  let ?d = "(upd_pe i p (c\<lparr>cl_pending := cl_pending c @ [i]\<rparr>))\<lparr>cl_ctx := ctx, cl_sock := ch\<rparr>"
  from w have "pe_waits p = pe_waits (cl_pe c i)"
    by (auto simp: pe_Write_def pe_SetSequence_def Let_def split: bind_splits)
  then have "same_control c ?d" by (simp add: same_control_def upd_pe_def)
  with r show ?thesis by (cases e) (auto intro: same_control_trans abort_rpc_same)
qed

lemma banner_turn_same: "banner_turn fl lib maxsize c = Some (s, c') \<Longrightarrow> same_control c c'"
  by (auto simp: banner_turn_def Let_def split: bind_splits option.splits if_splits
      intro: same_control_trans [OF same_control_upd(1) manage_same])

lemma consumer_turn_same: "consumer_turn fl lib maxsize c = Some (ok, c') \<Longrightarrow> same_control c c'"
  by (auto simp: consumer_turn_def Let_def split: bind_splits option.splits
      intro: same_control_trans [OF same_control_upd(1) manage_same])

lemma producer_turn_same: "producer_turn lib c = Some (ok, c') \<Longrightarrow> same_control c c'"
  by (auto simp: producer_turn_def Let_def same_control_def split: list.splits if_splits dest!: start_rpc_same)

lemma producer_loop_same: "producer_loop lib sig now c = Some (ok, c') \<Longrightarrow> same_control c c'"
  by (auto simp: producer_loop_def split: bind_splits if_splits dest!: producer_turn_same abort_stalled_Some
      elim!: same_control_trans [OF _ same_control_upd(6)])

lemma producer_loop_stopped: "producer_loop lib sig now c = Some (ok, c') \<Longrightarrow> \<not> cl_running c \<Longrightarrow> \<not> ok"
  by (auto simp: producer_loop_def same_control_def split: bind_splits if_splits dest!: producer_turn_same abort_stalled_Some)

section \<open>The life of a client\<close>

definition life_inv :: "'n client \<Rightarrow> bool" where
  "life_inv c = ((cl_stopping c \<longrightarrow> \<not> cl_running c) \<and> (cl_running c \<longrightarrow> cl_agents c) \<and> (cl_consumer c \<noteq> C_off \<longrightarrow> cl_agents c))"

lemma life_inv_same: "same_control c c' \<Longrightarrow> life_inv c' = life_inv c"
  by (simp add: life_inv_def same_control_def)

lemma life_inv_step: "agent_step fl lib maxsize c c' \<Longrightarrow> life_inv c \<Longrightarrow> life_inv c'"
proof (induction rule: agent_step.induct)
  case (Call c now ei i c')
  then show ?case by (cases "cl_running c") (auto simp: life_inv_def RPC_def Boot_def Let_def upd_pe_def)
next
  case (Banner c s c' now)
  with banner_turn_same show ?case by (fastforce simp: life_inv_def same_control_def)
next
  case (Consume c ok c')
  with consumer_turn_same show ?case by (fastforce simp: life_inv_def same_control_def)
next
  case (Produce c sig now ok c')
  with producer_loop_same show ?case by (fastforce simp: life_inv_def same_control_def)
next
  case (Close c c')
  with abort_all_same show ?case by (fastforce simp: life_inv_def same_control_def)
qed (auto simp: life_inv_def Boot_def client_destroy_def upd_pe_def)

lemma reachable_life: "reachable fl lib maxsize c \<Longrightarrow> life_inv c"
proof -
  have "(agent_step fl lib maxsize)\<^sup>*\<^sup>* c0 c \<Longrightarrow> life_inv c0 \<Longrightarrow> life_inv c" for c0
    by (induction rule: rtranclp_induct) (auto dest: life_inv_step)
  moreover have "life_inv (CoroutineClient u now ch pe)" for u now ch and pe :: "nat \<Rightarrow> 'a pending"
    by (simp add: CoroutineClient_def life_inv_def)
  ultimately show "reachable fl lib maxsize c \<Longrightarrow> ?thesis" unfolding reachable_def by blast
qed

lemma reachable_steps: "reachable fl lib maxsize c \<Longrightarrow> (agent_step fl lib maxsize)\<^sup>*\<^sup>* c c' \<Longrightarrow> reachable fl lib maxsize c'"
  unfolding reachable_def by (meson rtranclp_trans)

section \<open>The steps after the destructor\<close>

text \<open>How far the coroutines are from their end, and the callers that have not had their signal.\<close>

definition shutdown_rank :: "'n client \<Rightarrow> nat" where
  "shutdown_rank c = (case cl_consumer c of C_off \<Rightarrow> 0 | C_ended \<Rightarrow> 1 | C_draining \<Rightarrow> 2 | C_reading \<Rightarrow> 3 | C_handshake \<Rightarrow> 3)
     + of_bool (cl_producer c) + of_bool (cl_agents c)"

definition unwaited :: "'n client \<Rightarrow> nat set" where
  "unwaited c = {i. i < cl_next c \<and> pe_waits (cl_pe c i) = 0}"

lemma unwaited_same: "same_control c c' \<Longrightarrow> unwaited c' = unwaited c"
  by (simp add: unwaited_def same_control_def)

lemma finite_unwaited [simp]: "finite (unwaited c)"
  by (simp add: unwaited_def)

definition shutdown_bound :: "'n client \<Rightarrow> nat" where
  "shutdown_bound c = shutdown_rank c + card (unwaited c)"

lemma shutdown_bound_le: "shutdown_bound c \<le> 5 + cl_next c"
proof -
  have "card (unwaited c) \<le> card {i. i < cl_next c}" by (rule card_mono) (auto simp: unwaited_def)
  moreover have "shutdown_rank c \<le> 5" by (cases "cl_consumer c") (simp_all add: shutdown_rank_def)
  ultimately show ?thesis by (simp add: shutdown_bound_def)
qed

text \<open>A turn, whatever it is, that moves the coroutines on.\<close>

lemma shutdown_bound_turn:
  assumes "same_control c d" and "unwaited c' = unwaited d" and "shutdown_rank c' < shutdown_rank d"
  shows "shutdown_bound c' < shutdown_bound c"
  using assms unwaited_same [OF assms(1)] by (simp add: shutdown_bound_def shutdown_rank_def same_control_def)

lemma shutdown_step:
  assumes "agent_step fl lib maxsize c c'" and "client_inv c" and "life_inv c" and "cl_stopping c"
  shows "shutdown_bound c' < shutdown_bound c \<and> cl_stopping c' \<and> cl_next c' = cl_next c"
  using assms
proof (induction rule: agent_step.induct)
  case (Wait i c p)
  then have "pe_waits (cl_pe c i) = 0" "pe_waits p = 1"
    by (auto simp: client_inv_def pe_Wait_def split: if_splits)
  with Wait(1) have "unwaited (upd_pe i p c) = unwaited c - {i}" "i \<in> unwaited c" by (auto simp: unwaited_def)
  then have "card (unwaited (upd_pe i p c)) < card (unwaited c)" by (metis card_Diff1_less finite_unwaited)
  then show ?case using Wait by (simp add: shutdown_bound_def shutdown_rank_def upd_pe_def)
next
  case (Banner c s c' now)
  then have d: "same_control c c'" by (blast dest: banner_turn_same)
  have r: "\<not> cl_running c" "\<not> cl_running c'" using Banner d by (auto simp: life_inv_def same_control_def)
  have "s = C_ended"
    using Banner(2) r(1) by (auto simp: banner_turn_def Let_def same_control_def split: bind_splits option.splits if_splits dest!: manage_same)
  with Banner d show ?case
    by (auto intro!: shutdown_bound_turn [OF d] simp: unwaited_def shutdown_rank_def same_control_def)
next
  case (Consume c ok c')
  then have d: "same_control c c'" by (blast dest: consumer_turn_same)
  with Consume have "\<not> cl_running c'" by (auto simp: life_inv_def same_control_def)
  with Consume d show ?case
    by (auto intro!: shutdown_bound_turn [OF d] simp: unwaited_def shutdown_rank_def same_control_def)
next
  case (Produce c sig now ok c')
  then have d: "same_control c c'" by (blast dest: producer_loop_same)
  from Produce have "\<not> cl_running c" by (simp add: life_inv_def)
  with Produce producer_loop_stopped have "\<not> ok" by blast
  with Produce d show ?case
    by (auto intro!: shutdown_bound_turn [OF d] simp: unwaited_def shutdown_rank_def same_control_def)
next
  case (Close c c')
  then have d: "same_control c c'" by (blast dest: abort_all_same)
  with Close show ?case
    by (auto intro!: shutdown_bound_turn [OF d] simp: unwaited_def shutdown_rank_def same_control_def)
qed (auto simp: life_inv_def shutdown_bound_def shutdown_rank_def unwaited_def)

lemma shutdown_steps:
  assumes "(agent_step fl lib maxsize ^^ m) c c'" and "client_inv c" and "life_inv c" and "cl_stopping c"
  shows "m + shutdown_bound c' \<le> shutdown_bound c"
  using assms
proof (induction m arbitrary: c')
  case (Suc m)
  then obtain d where d: "(agent_step fl lib maxsize ^^ m) c d" "agent_step fl lib maxsize d c'" by auto
  have "client_inv d \<and> life_inv d \<and> cl_stopping d"
    using d(1) Suc.prems(2-4)
  proof (induction m arbitrary: d)
    case (Suc m)
    then obtain e where "(agent_step fl lib maxsize ^^ m) c e" "agent_step fl lib maxsize e d" by auto
    with Suc client_inv_step life_inv_step shutdown_step show ?case by blast
  qed auto
  with shutdown_step [OF d(2)] Suc.IH [OF d(1)] Suc.prems show ?case by auto
qed simp

text \<open>Once the connection is left behind, nothing is queued.\<close>

definition closing :: "'n client \<Rightarrow> bool" where
  "closing c = (cl_stopping c \<and> (cl_consumer c \<noteq> C_off \<or> queued c = {}))"

lemma closing_step:
  assumes "agent_step fl lib maxsize c c'" and "client_inv c" and "life_inv c" and "closing c"
  shows "closing c'"
  using assms
proof (induction rule: agent_step.induct)
  case (Close c c')
  with abort_all_inv [of c] abort_all_same [of c c'] show ?case by (auto simp: closing_def same_control_def queued_def)
next
  case (Banner c s c' now)
  then have "same_control c c'" by (blast dest: banner_turn_same)
  moreover have "s \<noteq> C_off" using Banner(2) by (auto simp: banner_turn_def Let_def split: bind_splits option.splits if_splits)
  ultimately show ?case using Banner by (auto simp: closing_def same_control_def)
next
  case (Consume c ok c')
  then have "same_control c c'" by (blast dest: consumer_turn_same)
  with Consume show ?case by (auto simp: closing_def same_control_def)
next
  case (Produce c sig now ok c')
  then have "same_control c c'" "cl_consumer c \<noteq> C_off" by (auto dest: producer_loop_same simp: client_inv_def)
  with Produce show ?case by (auto simp: closing_def same_control_def)
qed (auto simp: closing_def life_inv_def queued_def upd_pe_def)

lemma closing_steps:
  assumes "(agent_step fl lib maxsize)\<^sup>*\<^sup>* c c'" and "reachable fl lib maxsize c" and "closing c"
  shows "closing c'"
  using assms
proof (induction rule: rtranclp_induct)
  case (step d e)
  with reachable_steps [of fl lib maxsize c d] show ?case by (blast intro: closing_step reachable_inv reachable_life)
qed

text \<open>Some coroutine can go on, as long as a read ends.\<close>

lemma turn_total:
  assumes "client_inv c" and "Request_Read lib maxsize (cl_sock c) \<noteq> None"
  shows "banner_turn fl lib maxsize c \<noteq> None" and "consumer_turn fl lib maxsize c \<noteq> None"
proof -
  from assms(2) obtain e req ch where r: "Request_Read lib maxsize (cl_sock c) = Some ((e, req), ch)" by force
  have "client_inv (c\<lparr>cl_sock := ch\<rparr>)" using assms(1) by simp
  from manage_inv [OF this, of fl req] r show "banner_turn fl lib maxsize c \<noteq> None" "consumer_turn fl lib maxsize c \<noteq> None"
    by (auto simp: banner_turn_def consumer_turn_def Let_def split: option.splits)
qed

lemma shutdown_progress:
  assumes "client_inv c" and "life_inv c" and "cl_stopping c" and "cl_agents c" and "Request_Read lib maxsize (cl_sock c) \<noteq> None"
  shows "\<exists>c'. agent_step fl lib maxsize c c'"
proof (cases "cl_consumer c")
  case C_off
  with assms show ?thesis by (blast intro: agent_step.Exit elim: life_inv_def [THEN iffD1, elim_format])
next
  case C_handshake
  with turn_total(1) [OF assms(1,5), of fl] show ?thesis by (fastforce intro: agent_step.Banner)
next
  case C_reading
  with turn_total(2) [OF assms(1,5), of fl] show ?thesis by (fastforce intro: agent_step.Consume)
next
  case C_draining
  show ?thesis
  proof (cases "cl_producer c")
    case True
    moreover have "producer_loop lib False (cl_next_check c) c = Some (cl_running c, c)" by (simp add: producer_loop_def)
    ultimately show ?thesis by (blast intro: agent_step.Produce)
  qed (use C_draining in \<open>blast intro: agent_step.Finish\<close>)
next
  case C_ended
  with abort_all_inv [OF assms(1)] show ?thesis by (blast intro: agent_step.Close)
qed

section \<open>A client destroyed between two connections\<close>

text \<open>Nothing is left to do but for callers to take their signals, and for \<open>run_agents\<close> to end.\<close>

definition idle_after :: "'n client \<Rightarrow> 'n client \<Rightarrow> bool" where
  "idle_after c c' = (cl_stopping c' \<and> \<not> cl_running c' \<and> cl_consumer c' = C_off \<and> \<not> cl_producer c'
     \<and> cl_to_agent c' = cl_to_agent c \<and> (\<forall>i. pe_signals (cl_pe c' i) = pe_signals (cl_pe c i)))"

lemma idle_step: "agent_step fl lib maxsize c' d \<Longrightarrow> idle_after c c' \<Longrightarrow> idle_after c d"
  by (induction rule: agent_step.induct) (auto simp: idle_after_def upd_pe_def pe_Wait_def split: if_splits)

lemma idle_steps: "(agent_step fl lib maxsize)\<^sup>*\<^sup>* c' d \<Longrightarrow> idle_after c c' \<Longrightarrow> idle_after c d"
  by (induction rule: rtranclp_induct) (auto intro: idle_step)

lemma destroy_idle:
  assumes "cl_consumer c = C_off" and "client_inv c"
  shows "idle_after (client_destroy c) (client_destroy c)"
  using assms by (auto simp: idle_after_def client_destroy_def client_inv_def)

text \<open>One call while the drive refuses connections.\<close>

lemma refused_call:
  assumes "reachable fl lib maxsize c" and "\<not> cl_stopping c" and "cl_consumer c = C_off"
  shows "\<exists>c'. (agent_step fl lib maxsize)\<^sup>*\<^sup>* c c' \<and> \<not> cl_stopping c' \<and> cl_consumer c' = C_off \<and> cl_next c' = cl_next c + 1
    \<and> length (cl_to_agent c') = length (cl_to_agent c) + 1 \<and> (\<forall>i < cl_next c'. pe_signals (cl_pe c' i) = 1)"
proof -
  obtain ei now i d where d: "RPC now ei c = (i, d)" by fastforce
  have s: "agent_step fl lib maxsize c d" using assms(2) d by (rule agent_step.Call)
  have f: "cl_running d" "cl_consumer d = C_off" "\<not> cl_stopping d" "cl_next d = cl_next c + 1" "length (cl_to_agent d) = length (cl_to_agent c) + 1"
    using d assms(2,3) by (cases "cl_running c"; auto simp: RPC_def Boot_def Let_def upd_pe_def)+
  have a: "cl_agents d" using life_inv_step [OF s reachable_life [OF assms(1)]] f(1) by (simp add: life_inv_def)
  have "\<not> consumer_connect False 2" by (simp add: consumer_connect_def MILLSOCKET_ERROR_def MILLSOCKET_EVENT_def)
  with agent_step.Connect [OF a f(1,2), where connected = False and evt = 2 and now = 0 and ch = "cl_sock d"] obtain e where
    e: "agent_step fl lib maxsize d e" "e = d\<lparr>cl_ctx := KContext_Reset 0 (cl_ctx d), cl_sock := cl_sock d, cl_consumer := C_ended\<rparr>" by auto
  have "reachable fl lib maxsize e" by (rule reachable_steps [OF assms(1)]) (use s e(1) in simp)
  note inv = reachable_inv [OF this]
  from abort_all_inv [OF inv] obtain g where g: "abort_all_rpc e = Some g" "cl_next g = cl_next e" "\<forall>i < cl_next e. pe_signals (cl_pe g i) = 1"
    by blast
  have k: "same_control e g" "cl_to_agent g = cl_to_agent e" using abort_all_same [OF g(1)] abort_all_eq [OF inv] g(1) by auto
  have "agent_step fl lib maxsize e (g\<lparr>cl_consumer := C_off\<rparr>)" using g(1) e(2) by (intro agent_step.Close) simp_all
  with s e(1) have "(agent_step fl lib maxsize)\<^sup>*\<^sup>* c (g\<lparr>cl_consumer := C_off\<rparr>)" by (meson converse_rtranclp_into_rtranclp rtranclp.rtrancl_refl)
  then show ?thesis using f k g(2,3) e(2) by (intro exI [of _ "g\<lparr>cl_consumer := C_off\<rparr>"]) (simp add: same_control_def)
qed

lemma refused_calls:
  assumes "reachable fl lib maxsize c" and "\<not> cl_stopping c" and "cl_consumer c = C_off"
  shows "\<exists>c'. (agent_step fl lib maxsize)\<^sup>*\<^sup>* c c' \<and> \<not> cl_stopping c' \<and> cl_consumer c' = C_off \<and> cl_next c' = cl_next c + n
    \<and> length (cl_to_agent c') = length (cl_to_agent c) + n \<and> (\<forall>i < cl_next c'. n > 0 \<longrightarrow> pe_signals (cl_pe c' i) = 1)"
proof (induction n)
  case 0
  with assms show ?case by auto
next
  case (Suc n)
  then obtain d where d: "(agent_step fl lib maxsize)\<^sup>*\<^sup>* c d" "\<not> cl_stopping d" "cl_consumer d = C_off" "cl_next d = cl_next c + n"
    "length (cl_to_agent d) = length (cl_to_agent c) + n" by blast
  from refused_call [OF reachable_steps [OF assms(1) d(1)] d(2,3)] obtain e where
    "(agent_step fl lib maxsize)\<^sup>*\<^sup>* d e" "\<not> cl_stopping e" "cl_consumer e = C_off" "cl_next e = cl_next d + 1"
    "length (cl_to_agent e) = length (cl_to_agent d) + 1" "\<forall>i < cl_next e. pe_signals (cl_pe e i) = 1" by blast
  with d show ?case by (intro exI [of _ e]) (auto intro: rtranclp_trans)
qed

section \<open>Properties\<close>

text \<open>C8. When the destructor of a client is entered while its agents have a connection, or try to get one, at most
  five steps of the coroutines follow besides those of callers that take their signal; none of them is
  stuck as long as reads end, and when the destructor returns every exchange has been signalled
  exactly once.\<close>

theorem kinetic_client_shutdown:
  assumes "reachable fl lib maxsize c" and "cl_stopping c" and "cl_consumer c \<noteq> C_off"
  shows "(\<forall>m c'. (agent_step fl lib maxsize ^^ m) c c' \<longrightarrow> m \<le> 5 + cl_next c)
    \<and> (\<forall>c'. (agent_step fl lib maxsize)\<^sup>*\<^sup>* c c' \<longrightarrow>
        (client_destroyed c' \<longrightarrow> (\<forall>i < cl_next c'. pe_signals (cl_pe c' i) = 1))
      \<and> (\<not> client_destroyed c' \<and> length (cl_to_agent c') \<le> agent_room \<and> Request_Read lib maxsize (cl_sock c') \<noteq> None
          \<longrightarrow> (\<exists>c''. agent_step fl lib maxsize c' c'')))"
proof -
  note inv = reachable_inv [OF assms(1)] reachable_life [OF assms(1)]
  have "m \<le> 5 + cl_next c" if "(agent_step fl lib maxsize ^^ m) c c'" for m c'
    using shutdown_steps [OF that inv assms(2)] shutdown_bound_le [of c] by simp
  moreover have "(client_destroyed c' \<longrightarrow> (\<forall>i < cl_next c'. pe_signals (cl_pe c' i) = 1))
      \<and> (\<not> client_destroyed c' \<and> length (cl_to_agent c') \<le> agent_room \<and> Request_Read lib maxsize (cl_sock c') \<noteq> None
          \<longrightarrow> (\<exists>c''. agent_step fl lib maxsize c' c''))" if "(agent_step fl lib maxsize)\<^sup>*\<^sup>* c c'" for c'
  proof -
    note r = reachable_steps [OF assms(1) that]
    have "closing c" using assms(2,3) by (simp add: closing_def)
    then have "closing c'" by (rule closing_steps [OF that assms(1)])
    then have s: "cl_stopping c'" by (simp add: closing_def)
    have q: "queued c' = {}" if "client_destroyed c'"
      using that reachable_life [OF r] \<open>closing c'\<close> unfolding client_destroyed_def life_inv_def closing_def by argo
    with client_inv_signals [OF reachable_inv [OF r]] have "client_destroyed c' \<longrightarrow> (\<forall>i < cl_next c'. pe_signals (cl_pe c' i) = 1)" using q by simp
    moreover have "\<not> client_destroyed c' \<and> length (cl_to_agent c') \<le> agent_room \<longrightarrow> cl_agents c'"
      using s by (auto simp: client_destroyed_def)
    with shutdown_progress [OF reachable_inv [OF r] reachable_life [OF r] s]
    have "\<not> client_destroyed c' \<and> length (cl_to_agent c') \<le> agent_room \<and> Request_Read lib maxsize (cl_sock c') \<noteq> None
        \<longrightarrow> (\<exists>c''. agent_step fl lib maxsize c' c'')" by blast
    ultimately show ?thesis by blast
  qed
  ultimately show ?thesis by blast
qed

text \<open>A client with one caller, on a connection that has just been made.\<close>

definition demo_exch :: "nat exch" where
  "demo_exch = Get_new demo_floats (demo_pb demo_command \<lparr>pm_commandbytes = None, pm_hmacauth = True, pm_identity = 0, pm_hmac = []\<rparr>)"

definition demo_kclient :: "nat client" where
  "demo_kclient = CoroutineClient ''h:1'' 3 \<lparr>ch_in = [], ch_out = [], ch_rd = [], ch_wr = []\<rparr> (\<lambda>_. PendingExchange 0 demo_exch)"

definition demo_called :: "nat client" where
  "demo_called = snd (RPC 4 demo_exch demo_kclient)"

definition demo_connected :: "nat client" where
  "demo_connected = demo_called\<lparr>cl_ctx := KContext_Reset 5 (cl_ctx demo_called), cl_sock := cl_sock demo_called, cl_consumer := C_handshake\<rparr>"

lemma demo_called_simps:
  "cl_next demo_called = 1" "cl_stopping demo_called = False" "cl_running demo_called" "cl_agents demo_called"
  "cl_consumer demo_called = C_off" "cl_waiting demo_called = [0]" "cl_to_agent demo_called = [SIGNAL_AGENT_DATA]"
  by (simp_all add: demo_called_def demo_kclient_def RPC_def Boot_def CoroutineClient_def Let_def upd_pe_def)

lemma demo_reachable:
  "reachable fl lib maxsize demo_called" "reachable fl lib maxsize (client_destroy demo_connected)"
proof -
  have "agent_step fl lib maxsize demo_kclient demo_called"
    by (rule agent_step.Call [of _ 4 demo_exch 0]) (simp_all add: demo_kclient_def CoroutineClient_def demo_called_def RPC_def Boot_def Let_def)
  then show c: "reachable fl lib maxsize demo_called" unfolding reachable_def demo_kclient_def by blast
  have "consumer_connect True 1" by (simp add: consumer_connect_def MILLSOCKET_ERROR_def MILLSOCKET_EVENT_def)
  with agent_step.Connect [of demo_called fl lib maxsize, where connected = True and evt = 1 and now = 5 and ch = "cl_sock demo_called"]
    demo_called_simps have "agent_step fl lib maxsize demo_called demo_connected" by (simp add: demo_connected_def)
  moreover have "agent_step fl lib maxsize demo_connected (client_destroy demo_connected)"
    by (rule agent_step.Destroy) (simp add: demo_connected_def demo_called_simps)
  ultimately show "reachable fl lib maxsize (client_destroy demo_connected)"
    using reachable_steps [OF c] by (meson converse_rtranclp_into_rtranclp rtranclp.rtrancl_refl)
qed

theorem kinetic_client_shutdown_witness:
  "queued (client_destroy demo_connected) = {0} \<and> cl_consumer (client_destroy demo_connected) = C_handshake
    \<and> \<not> (\<exists>c'. (agent_step demo_floats (demo_pb demo_command \<lparr>pm_commandbytes = None, pm_hmacauth = True, pm_identity = 0, pm_hmac = []\<rparr>) 9 ^^ 7)
        (client_destroy demo_connected) c')"
proof -
  let ?lib = "demo_pb demo_command \<lparr>pm_commandbytes = None, pm_hmacauth = True, pm_identity = 0, pm_hmac = []\<rparr>"
  let ?c = "client_destroy demo_connected"
  have c: "cl_consumer ?c = C_handshake" "cl_stopping ?c" "cl_next ?c = 1" "cl_waiting ?c = [0]" "cl_pending ?c = []"
    by (simp_all add: client_destroy_def demo_connected_def demo_called_simps)
      (simp add: demo_called_def demo_kclient_def RPC_def Boot_def CoroutineClient_def Let_def upd_pe_def)
  from c(1) have "cl_consumer ?c \<noteq> C_off" by simp
  from kinetic_client_shutdown [OF demo_reachable(2) c(2) this, of demo_floats ?lib 9] c(3)
  have "\<not> (\<exists>c'. (agent_step demo_floats ?lib 9 ^^ 7) ?c c')" by fastforce
  with c show ?thesis by (simp add: queued_def)
qed

text \<open>When it is entered between two connections, as after a refused one, the exchanges that have been queued since are
  lost: \<open>run_agents\<close> leaves its loop without \<open>abort_all_rpc\<close>, the destructor returns, and a caller that waits for
  such an exchange waits for ever.\<close>

theorem kinetic_shutdown_loses_rpc:
  assumes "reachable fl lib maxsize c" and "cl_running c" and "cl_consumer c = C_off" and "i \<in> set (cl_waiting c)"
    and "length (cl_to_agent c) < agent_room"
  shows "\<exists>c'. (agent_step fl lib maxsize)\<^sup>*\<^sup>* c c' \<and> client_destroyed c'
    \<and> (\<forall>c''. (agent_step fl lib maxsize)\<^sup>*\<^sup>* c' c'' \<longrightarrow> pe_signals (cl_pe c'' i) = 0)"
proof -
  note inv = reachable_inv [OF assms(1)] reachable_life [OF assms(1)]
  define d where "d = client_destroy c"
  define e where "e = d\<lparr>cl_agents := False\<rparr>"
  have "agent_step fl lib maxsize c d" using inv(2) assms(2) unfolding d_def by (intro agent_step.Destroy) (auto simp: life_inv_def)
  moreover have "cl_agents d" "\<not> cl_running d" "cl_consumer d = C_off"
    using inv(2) assms(2,3) by (auto simp: d_def client_destroy_def life_inv_def)
  then have "agent_step fl lib maxsize d e" unfolding e_def by (intro agent_step.Exit)
  ultimately have "(agent_step fl lib maxsize)\<^sup>*\<^sup>* c e" by simp
  moreover have "client_destroyed e" using assms(2,5) by (simp add: client_destroyed_def e_def d_def client_destroy_def)
  moreover have "idle_after d e" using destroy_idle [OF assms(3) inv(1)] by (simp add: idle_after_def e_def d_def)
  moreover have "pe_signals (cl_pe d i) = 0"
    using client_inv_fresh(1) [OF inv(1)] assms(2,4) by (simp add: d_def client_destroy_def queued_def)
  ultimately show ?thesis using idle_steps [of fl lib maxsize e _ d] by (auto simp: idle_after_def)
qed

theorem kinetic_shutdown_loses_rpc_witness:
  "0 \<in> set (cl_waiting demo_called) \<and> (\<exists>c'. client_destroyed c' \<and> pe_signals (cl_pe c' 0) = 0
    \<and> (agent_step demo_floats (demo_pb demo_command \<lparr>pm_commandbytes = None, pm_hmacauth = True, pm_identity = 0, pm_hmac = []\<rparr>) 9)\<^sup>*\<^sup>*
        demo_called c')"
proof -
  let ?lib = "demo_pb demo_command \<lparr>pm_commandbytes = None, pm_hmacauth = True, pm_identity = 0, pm_hmac = []\<rparr>"
  have c: "length (cl_to_agent demo_called) < agent_room" "0 \<in> set (cl_waiting demo_called)"
    by (simp_all add: demo_called_simps agent_room_def)
  from kinetic_shutdown_loses_rpc [OF demo_reachable(1) demo_called_simps(3,5) c(2,1), of demo_floats ?lib 9] obtain c' where
    c': "(agent_step demo_floats ?lib 9)\<^sup>*\<^sup>* demo_called c'" "client_destroyed c'" "pe_signals (cl_pe c' 0) = 0" by blast
  with c(2) show ?thesis by blast
qed

text \<open>C15. The signals of a drive that refuses its connections pile up: each call leaves one in the channel of the producer, that
  nothing takes out when the exchange is given up.  From the 65th call on the caller stays in
  \<open>RPC\<close>, its exchange long signalled, until a connection is made; and if the client is destroyed then, the destructor
  never returns.\<close>

theorem kinetic_signals_pile_up:
  assumes "reachable fl lib maxsize c" and "\<not> cl_stopping c" and "cl_consumer c = C_off"
  shows "\<exists>c'. (agent_step fl lib maxsize)\<^sup>*\<^sup>* c c' \<and> cl_next c' = cl_next c + n \<and> length (cl_to_agent c') = length (cl_to_agent c) + n
    \<and> (\<forall>i \<in> {cl_next c..<cl_next c + n}. pe_signals (cl_pe c' i) = 1)
    \<and> (agent_room < length (cl_to_agent c') \<longrightarrow>
        (\<forall>c''. (agent_step fl lib maxsize)\<^sup>*\<^sup>* (client_destroy c') c'' \<longrightarrow> \<not> client_destroyed c''))"
proof -
  from refused_calls [OF assms, of n] obtain c' where
    c': "(agent_step fl lib maxsize)\<^sup>*\<^sup>* c c'" "cl_consumer c' = C_off" "cl_next c' = cl_next c + n"
      "length (cl_to_agent c') = length (cl_to_agent c) + n" "\<forall>i < cl_next c'. n > 0 \<longrightarrow> pe_signals (cl_pe c' i) = 1" by blast
  note inv = reachable_inv [OF reachable_steps [OF assms(1) c'(1)]]
  have "\<not> client_destroyed c''" if "agent_room < length (cl_to_agent c')" "(agent_step fl lib maxsize)\<^sup>*\<^sup>* (client_destroy c') c''" for c''
  proof -
    have "agent_room < length (cl_to_agent (client_destroy c'))" using that(1) by (simp add: client_destroy_def)
    with idle_steps [OF that(2) destroy_idle [OF c'(2) inv]] show ?thesis by (simp add: idle_after_def client_destroyed_def)
  qed
  with c' show ?thesis by (intro exI [of _ c']) auto
qed

theorem kinetic_signals_pile_up_witness:
  "\<exists>c'. (agent_step demo_floats (demo_pb demo_command \<lparr>pm_commandbytes = None, pm_hmacauth = True, pm_identity = 0, pm_hmac = []\<rparr>) 9)\<^sup>*\<^sup>*
      demo_called c' \<and> length (cl_to_agent c') = 65 \<and> pe_signals (cl_pe c' 64) = 1"
proof -
  let ?lib = "demo_pb demo_command \<lparr>pm_commandbytes = None, pm_hmacauth = True, pm_identity = 0, pm_hmac = []\<rparr>"
  have "\<not> cl_stopping demo_called" by (simp add: demo_called_simps)
  from kinetic_signals_pile_up [OF demo_reachable(1) this demo_called_simps(5), of demo_floats ?lib 9 64] show ?thesis
    by (auto simp: demo_called_simps)
qed

end
