(* ===== verification/Mill_Daemon.thy ===== *)
theory Mill_Daemon
  imports Http_Request Transaction Download_Contract Json Utils
begin

text \<open>
  The HTTP front of the server programs (\<open>src/bin/MillDaemon.h\<close>, \<open>MillDaemon.cpp\<close>,
  \<open>common-header-parser.h\<close>, \<open>common-server-headers.h\<close>): the replies, the callbacks of the parser, the loop
  over a connection and the loading of a configuration.  The parser, the lexer ragel generates, MD5 and
  rapidjson are parameters; so is the handler, an abstract class that each program implements.  A send
  that fails is not looked at.  \<open>None\<close> is a failed assertion, undefined behaviour, or a call that has
  not returned.
\<close>

section \<open>Errors\<close>

record soft_error =
  se_http :: int
  se_soft :: int
  se_why :: "string option"

definition SoftError_default :: soft_error where
  "SoftError_default = \<lparr>se_http = 0, se_soft = 0, se_why = None\<rparr>"

definition SoftError :: "int \<Rightarrow> int \<Rightarrow> string \<Rightarrow> soft_error" where
  "SoftError http soft why = \<lparr>se_http = http, se_soft = soft, se_why = Some why\<rparr>"

definition SoftError_Ok :: "soft_error \<Rightarrow> bool" where
  "SoftError_Ok e = (se_http e = 0 \<or> (se_http e = 200 \<and> se_soft e = 200))"

definition Pack_toks :: "soft_error \<Rightarrow> jtok list option" where
  "Pack_toks e = do {
     why \<leftarrow> se_why e;
     Some [StartObject, Key ''status'', Int_tok (se_soft e), Key ''message'', String_tok (c_str why), EndObject]
   }"

section \<open>The handler and the parser\<close>

text \<open>
  \<open>BlobHandler\<close> with the objects it gives: all their state is one \<open>'s\<close>, in which \<open>GetUpload\<close> and the like
  make the new object the current one.
\<close>

record 's blob_handler =
  bh_SetUrl :: "string \<Rightarrow> 's \<Rightarrow> (soft_error \<times> 's) option"
  bh_SetHeader :: "string \<Rightarrow> string \<Rightarrow> 's \<Rightarrow> (soft_error \<times> 's) option"
  bh_GetUpload :: "'s \<Rightarrow> 's option"
  bh_up_Prepare :: "'s tx_op"
  bh_up_Write :: "bytes \<Rightarrow> 's \<Rightarrow> 's option"
  bh_up_Commit :: "'s tx_op"
  bh_GetDownload :: "'s \<Rightarrow> 's option"
  bh_dl_Prepare :: "'s tx_op"
  bh_dl_IsEof :: "'s \<Rightarrow> bool"
  bh_dl_Read :: "'s \<Rightarrow> (bytes \<times> 's) option"
  bh_GetRemoval :: "'s \<Rightarrow> 's option"
  bh_rm_Prepare :: "'s tx_op"
  bh_rm_Commit :: "'s tx_op"

datatype header_value = Unexpected | ContentLength | ContentType | Expect | Connection | Host | Accept | UserAgent | Custom

definition header_Matched :: "header_value \<Rightarrow> bool" where
  "header_Matched v = (v \<noteq> Unexpected)"

definition header_IsCustom :: "header_value \<Rightarrow> bool" where
  "header_IsCustom v = (v = Custom)"

datatype http_method = HTTP_PUT | HTTP_GET | HTTP_DELETE | HTTP_other

datatype sevent = S_begin | S_url string | S_field string | S_value string | S_headers_complete http_method
  | S_body bytes | S_complete | S_chunk_header | S_chunk_complete

text \<open>
  A request parser: what it does next with the input it was given, either to call back, going on
  according to the code the callback returns, or to return, with the number of bytes consumed.
\<close>

record 'p req_parser =
  qp_init :: 'p
  qp_give :: "bytes \<Rightarrow> 'p \<Rightarrow> 'p"
  qp_next :: "'p \<Rightarrow> (sevent \<times> (int \<Rightarrow> 'p)) + (nat \<times> 'p)"
  qp_errno :: "'p \<Rightarrow> int"
  qp_version :: "'p \<Rightarrow> nat \<times> nat"

text \<open>\<open>ml_spent\<close>: what \<open>Final\<close> leaves of a context.\<close>

record 'd mill_lib =
  ml_md5 :: "'d digest"
  ml_spent :: "'d \<Rightarrow> 'd"
  ml_render :: "jtok list \<Rightarrow> string"
  ml_lex :: "string \<Rightarrow> header_value"

section \<open>The connection\<close>

datatype body_cb = Body_ignore | Body_upload

datatype complete_cb = Complete_ignore | Complete_null | Complete_upload | Complete_download | Complete_removal

datatype field_cb = Field_ignore | Field_common

datatype headers_cb = Headers_common | Headers_removal

record settings =
  on_field :: field_cb
  on_value :: field_cb
  on_headers :: headers_cb
  on_data :: body_cb
  on_message_complete :: complete_cb

record ('s, 'd) blob_client =
  bc_conn :: conn
  bc_version :: "nat \<times> nat"
  bc_settings :: settings
  bc_reply_headers :: "(string, string) omap"
  bc_defered :: soft_error
  bc_upload :: bool
  bc_download :: bool
  bc_removal :: bool
  bc_field :: string
  bc_expect_100 :: bool
  bc_want_closure :: bool
  bc_bytes_in :: int
  bc_md5 :: 'd
  bc_handler :: 's

definition start_settings :: settings where
  "start_settings = \<lparr>on_field = Field_common, on_value = Field_common, on_headers = Headers_common,
     on_data = Body_ignore, on_message_complete = Complete_ignore\<rparr>"

definition BlobClient :: "'d mill_lib \<Rightarrow> conn \<Rightarrow> 's \<Rightarrow> ('s, 'd) blob_client" where
  "BlobClient ml c h = \<lparr>bc_conn = c, bc_version = (0, 0), bc_settings = start_settings, bc_reply_headers = [],
     bc_defered = SoftError_default, bc_upload = False, bc_download = False, bc_removal = False, bc_field = [],
     bc_expect_100 = False, bc_want_closure = False, bc_bytes_in = 0, bc_md5 = Checksum (ml_md5 ml), bc_handler = h\<rparr>"

definition BlobClient_Reset :: "('s, 'd) blob_client \<Rightarrow> ('s, 'd) blob_client" where
  "BlobClient_Reset b = b\<lparr>bc_settings := start_settings, bc_expect_100 := False, bc_field := [],
     bc_defered := SoftError_default, bc_upload := False, bc_download := False, bc_removal := False\<rparr>"

definition upd_settings :: "(settings \<Rightarrow> settings) \<Rightarrow> ('s, 'd) blob_client \<Rightarrow> ('s, 'd) blob_client" where
  "upd_settings f b = b\<lparr>bc_settings := f (bc_settings b)\<rparr>"

definition SaveError :: "soft_error \<Rightarrow> ('s, 'd) blob_client \<Rightarrow> ('s, 'd) blob_client" where
  "SaveError e b =
     (let b' = b\<lparr>bc_defered := e\<rparr> in
      if SoftError_Ok e then b'
      else upd_settings (\<lambda>s. s\<lparr>on_field := Field_ignore, on_value := Field_ignore, on_data := Body_ignore\<rparr>) b')"

section \<open>Replies\<close>

type_synonym ('s, 'd) reply_op = "('s, 'd) blob_client \<Rightarrow> ('s, 'd) blob_client option"

definition client_send_iov :: "bytes list \<Rightarrow> ('s, 'd) reply_op" where
  "client_send_iov iov b = do { (_, c) \<leftarrow> conn_send_iov iov (bc_conn b); Some (b\<lparr>bc_conn := c\<rparr>) }"

definition client_send :: "string \<Rightarrow> ('s, 'd) reply_op" where
  "client_send s b = do { (_, c) \<leftarrow> conn_send (bytes_of s) (bc_conn b); Some (b\<lparr>bc_conn := c\<rparr>) }"

text \<open>\<open>%03d\<close>.\<close>

definition show_int3 :: "int \<Rightarrow> string" where
  "show_int3 i =
     (if i < 0 then (let s = show_dec (nat (- i)) in CHR ''-'' # replicate (2 - length s) CHR ''0'' @ s)
      else let s = show_dec (nat i) in replicate (3 - length s) CHR ''0'' @ s)"

definition preamble :: "nat \<times> nat \<Rightarrow> int \<Rightarrow> string \<Rightarrow> int \<Rightarrow> (string, string) omap \<Rightarrow> string list" where
  "preamble v code' msg l hs =
     [''HTTP/'' @ show_dec (fst v) @ ''.'' @ show_dec (snd v) @ '' '' @ show_int3 code' @ '' '' @ msg @ crlf,
      ''Host: nowhere'' @ crlf, ''User-Agent: OpenIO/oio-kinetic-proxy'' @ crlf] @
     concat (map (\<lambda>(k, w). [k, '': '', w, crlf]) hs) @
     [''Connection: close'' @ crlf,
      if l \<ge> 0 then ''Content-Length: '' @ show_int l @ crlf else ''Transfer-Encoding: chunked'' @ crlf,
      crlf]"

definition ReplyPreamble :: "int \<Rightarrow> string \<Rightarrow> int \<Rightarrow> ('s, 'd) reply_op" where
  "ReplyPreamble code' msg l b =
     client_send_iov (map bytes_of (preamble (bc_version b) code' msg l (bc_reply_headers b))) b"

definition ReplyError :: "'d mill_lib \<Rightarrow> soft_error \<Rightarrow> ('s, 'd) reply_op" where
  "ReplyError ml e b = do {
     ts \<leftarrow> Pack_toks e;
     let payload = ml_render ml ts;
     b1 \<leftarrow> ReplyPreamble (se_http e) ''Error'' (int (length payload)) b;
     client_send payload b1
   }"

definition ReplySuccess :: "('s, 'd) reply_op" where
  "ReplySuccess b = ReplyPreamble 200 ''OK'' 0 b"

definition ReplySuccess_payload :: "int \<Rightarrow> string \<Rightarrow> ('s, 'd) reply_op" where
  "ReplySuccess_payload code' payload b = do {
     b1 \<leftarrow> ReplyPreamble code' ''OK'' (int (length payload)) b;
     client_send payload b1
   }"

definition ReplyStream :: "('s, 'd) reply_op" where
  "ReplyStream b = ReplyPreamble 200 ''OK'' (- 1) b"

definition ReplyEndOfStream :: "('s, 'd) reply_op" where
  "ReplyEndOfStream b = client_send (''0'' @ crlf @ crlf) b"

definition Reply100 :: "('s, 'd) reply_op" where
  "Reply100 b =
     (if \<not> bc_expect_100 b then Some b
      else ReplyPreamble 100 ''Continue'' 0 (b\<lparr>bc_expect_100 := False\<rparr>))"

section \<open>Callbacks\<close>

text \<open>A callback returns its code and the connection.\<close>

type_synonym ('s, 'd) callback = "('s, 'd) blob_client \<Rightarrow> (int \<times> ('s, 'd) blob_client) option"

text \<open>An operation of the handler, on the state of the connection.\<close>

definition on_handler :: "'s tx_op \<Rightarrow> ('s, 'd) blob_client \<Rightarrow> (status \<times> ('s, 'd) blob_client) option" where
  "on_handler f b = do { (rc, h) \<leftarrow> f (bc_handler b); Some (rc, b\<lparr>bc_handler := h\<rparr>) }"

definition fail_with :: "'d mill_lib \<Rightarrow> int \<Rightarrow> int \<Rightarrow> string \<Rightarrow> ('s, 'd) callback" where
  "fail_with ml http soft why b = do { b' \<leftarrow> ReplyError ml (SoftError http soft why) b; Some (1, b') }"

definition ignore_upload :: "('s, 'd) blob_client \<Rightarrow> ('s, 'd) blob_client" where
  "ignore_upload b = upd_settings (\<lambda>s. s\<lparr>on_data := Body_ignore, on_message_complete := Complete_ignore\<rparr>) b"

definition on_headers_complete_UPLOAD :: "'d mill_lib \<Rightarrow> 's blob_handler \<Rightarrow> ('s, 'd) callback" where
  "on_headers_complete_UPLOAD ml bh b0 = do {
     b1 \<leftarrow> Reply100 b0;
     h \<leftarrow> bh_GetUpload bh (bc_handler b1);
     let b2 = b1\<lparr>bc_upload := True, bc_handler := h\<rparr>;
     (rc, b3) \<leftarrow> on_handler (bh_up_Prepare bh) b2;
     if Ok rc then Some (0, upd_settings (\<lambda>s. s\<lparr>on_field := Field_common, on_value := Field_common\<rparr>) b3)
     else case Why rc of
         Forbidden \<Rightarrow> do { b4 \<leftarrow> ReplyError ml (SoftError 403 403 ''Upload forbidden'') b3; Some (1, ignore_upload b4) }
       | Already \<Rightarrow> fail_with ml 406 421 ''blobs found'' b3
       | NetworkError \<Rightarrow> fail_with ml 503 503 ''network error to devices'' b3
       | ProtocolError \<Rightarrow> fail_with ml 502 502 ''protocol error to devices'' b3
       | _ \<Rightarrow> fail_with ml 500 500 ''Internal error'' b3
   }"

definition on_body_UPLOAD :: "'d mill_lib \<Rightarrow> 's blob_handler \<Rightarrow> bytes \<Rightarrow> ('s, 'd) callback" where
  "on_body_UPLOAD ml bh buf b =
     (if length buf \<ge> 2 ^ 32 - 1 then Some (1, b)
      else if buf = [] then Some (0, b)
      else if \<not> bc_upload b then None
      else do {
        h \<leftarrow> bh_up_Write bh buf (bc_handler b);
        Some (0, b\<lparr>bc_md5 := Checksum_Update (ml_md5 ml) buf (bc_md5 b), bc_bytes_in := bc_bytes_in b + int (length buf),
          bc_handler := h\<rparr>)
      })"

definition upload_toks :: "int \<Rightarrow> string \<Rightarrow> jtok list" where
  "upload_toks n md5 = [StartObject, Key ''stream'', StartObject, Key ''bytes'', Int_tok n, Key ''md5'',
     String_tok (c_str md5), EndObject, EndObject]"

definition on_message_complete_UPLOAD :: "'d mill_lib \<Rightarrow> 's blob_handler \<Rightarrow> ('s, 'd) callback" where
  "on_message_complete_UPLOAD ml bh b =
     (if \<not> bc_upload b then None
      else do {
        (rc, b1) \<leftarrow> on_handler (bh_up_Commit bh) b;
        if Ok rc then do {
          let md5 = Checksum_Final (ml_md5 ml) (bc_md5 b1);
          b2 \<leftarrow> ReplySuccess_payload 201 (c_str (ml_render ml (upload_toks (bc_bytes_in b1) md5)))
                 (b1\<lparr>bc_md5 := ml_spent ml (bc_md5 b1)\<rparr>);
          Some (0, b2)
        }
        else do { b2 \<leftarrow> ReplyError ml (SoftError 500 400 ''LocalUpload commit failed'') b1; Some (0, b2) }
      })"

definition on_headers_complete_DOWNLOAD :: "'d mill_lib \<Rightarrow> 's blob_handler \<Rightarrow> ('s, 'd) callback" where
  "on_headers_complete_DOWNLOAD ml bh b0 = do {
     h \<leftarrow> bh_GetDownload bh (bc_handler b0);
     let b1 = b0\<lparr>bc_download := True, bc_handler := h\<rparr>;
     (rc, b2) \<leftarrow> on_handler (bh_dl_Prepare bh) b1;
     let null = upd_settings (\<lambda>s. s\<lparr>on_message_complete := Complete_null\<rparr>);
     case Why rc of
       OK \<Rightarrow> do { b3 \<leftarrow> Reply100 b2; b4 \<leftarrow> ReplyStream b3; Some (0, b4) }
     | NotFound \<Rightarrow> do { b3 \<leftarrow> ReplyError ml (SoftError 404 420 ''blobs not found'') b2; Some (1, null b3) }
     | NetworkError \<Rightarrow> do { b3 \<leftarrow> ReplyError ml (SoftError 503 500 ''devices unreachable'') b2; Some (1, null b3) }
     | ProtocolError \<Rightarrow> do { b3 \<leftarrow> ReplyError ml (SoftError 502 500 ''invalid reply from device'') b2; Some (1, null b3) }
     | _ \<Rightarrow> do { b3 \<leftarrow> ReplyError ml (SoftError 500 500 ''invalid reply from device'') b2; Some (1, null b3) }
   }"

text \<open>The loop over the download; the size line and the end of a chunk are those of \<open>chunk_iov\<close>.\<close>

partial_function (option) stream_loop :: "'s blob_handler \<Rightarrow> ('s, 'd) blob_client \<Rightarrow> ('s, 'd) blob_client option" where
  "stream_loop bh b =
     (if bh_dl_IsEof bh (bc_handler b) then Some b
      else do {
        (buf, h) \<leftarrow> bh_dl_Read bh (bc_handler b);
        b' \<leftarrow> (if buf \<noteq> [] then client_send_iov (chunk_iov buf) (b\<lparr>bc_handler := h\<rparr>) else Some (b\<lparr>bc_handler := h\<rparr>));
        stream_loop bh b'
      })"

definition on_message_complete_DOWNLOAD :: "'s blob_handler \<Rightarrow> ('s, 'd) callback" where
  "on_message_complete_DOWNLOAD bh b =
     (if \<not> bc_download b then None
      else do { b1 \<leftarrow> stream_loop bh b; b2 \<leftarrow> ReplyEndOfStream b1; Some (0, b2) })"

definition on_headers_complete_REMOVAL :: "'d mill_lib \<Rightarrow> 's blob_handler \<Rightarrow> ('s, 'd) callback" where
  "on_headers_complete_REMOVAL ml bh b0 = do {
     h \<leftarrow> bh_GetRemoval bh (bc_handler b0);
     let b1 = b0\<lparr>bc_removal := True, bc_handler := h\<rparr>;
     (rc, b2) \<leftarrow> on_handler (bh_rm_Prepare bh) b1;
     case Why rc of
       OK \<Rightarrow> do { b3 \<leftarrow> Reply100 b2; Some (0, b3) }
     | NotFound \<Rightarrow> fail_with ml 404 402 ''no blob found'' b2
     | NetworkError \<Rightarrow> fail_with ml 503 500 ''devices unreachable'' b2
     | ProtocolError \<Rightarrow> fail_with ml 502 500 ''invalid reply from devices'' b2
     | _ \<Rightarrow> fail_with ml 500 500 ''invalid reply from devices'' b2
   }"

definition on_message_complete_REMOVAL :: "'d mill_lib \<Rightarrow> 's blob_handler \<Rightarrow> ('s, 'd) callback" where
  "on_message_complete_REMOVAL ml bh b =
     (if \<not> bc_removal b then None
      else do {
        (rc, b1) \<leftarrow> on_handler (bh_rm_Commit bh) b;
        if Ok rc then do { b2 \<leftarrow> ReplySuccess b1; Some (0, b2) }
        else fail_with ml 500 500 ''Removal impossible'' b1
      })"

definition on_url_COMMON :: "'s blob_handler \<Rightarrow> string \<Rightarrow> ('s, 'd) callback" where
  "on_url_COMMON bh url b =
     do { (e, h) \<leftarrow> bh_SetUrl bh url (bc_handler b); Some (0, SaveError e (b\<lparr>bc_handler := h\<rparr>)) }"

definition on_header_field_COMMON :: "string \<Rightarrow> ('s, 'd) callback" where
  "on_header_field_COMMON k b = (if \<not> SoftError_Ok (bc_defered b) then None else Some (0, b\<lparr>bc_field := k\<rparr>))"

text \<open>The outcome of \<open>SetHeader\<close> is not looked at.\<close>

definition on_header_value_COMMON :: "'d mill_lib \<Rightarrow> 's blob_handler \<Rightarrow> string \<Rightarrow> ('s, 'd) callback" where
  "on_header_value_COMMON ml bh v b =
     (if \<not> SoftError_Ok (bc_defered b) then None
      else do {
        let header = ml_lex ml (bc_field b);
        h \<leftarrow> (if header_Matched header \<and> header_IsCustom header
              then map_option snd (bh_SetHeader bh (bc_field b) v (bc_handler b)) else Some (bc_handler b));
        Some (0, b\<lparr>bc_handler := h, bc_field := []\<rparr>)
      })"

definition method_settings :: "body_cb \<Rightarrow> complete_cb \<Rightarrow> headers_cb \<Rightarrow> settings" where
  "method_settings d m hc = \<lparr>on_field = Field_common, on_value = Field_common, on_headers = hc, on_data = d,
     on_message_complete = m\<rparr>"

definition on_headers_complete_COMMON :: "'d mill_lib \<Rightarrow> 's blob_handler \<Rightarrow> http_method \<Rightarrow> ('s, 'd) callback" where
  "on_headers_complete_COMMON ml bh m b =
     (if \<not> SoftError_Ok (bc_defered b) then do { b' \<leftarrow> ReplyError ml (bc_defered b) b; Some (1, b') }
      else case m of
          HTTP_PUT \<Rightarrow> on_headers_complete_UPLOAD ml bh
            (b\<lparr>bc_settings := method_settings Body_upload Complete_upload Headers_common\<rparr>)
        | HTTP_GET \<Rightarrow> on_headers_complete_DOWNLOAD ml bh
            (b\<lparr>bc_settings := method_settings Body_ignore Complete_download Headers_common\<rparr>)
        | HTTP_DELETE \<Rightarrow> on_headers_complete_REMOVAL ml bh
            (b\<lparr>bc_settings := method_settings Body_ignore Complete_removal Headers_removal\<rparr>)
        | HTTP_other \<Rightarrow> fail_with ml 406 406 ''Method not managed'' b)"

text \<open>The callback the settings hold for what the parser has found.\<close>

fun on_sevent :: "'d mill_lib \<Rightarrow> 's blob_handler \<Rightarrow> sevent \<Rightarrow> ('s, 'd) callback" where
  "on_sevent ml bh S_begin b = Some (0, BlobClient_Reset b)"
| "on_sevent ml bh (S_url u) b = on_url_COMMON bh u b"
| "on_sevent ml bh (S_field k) b =
     (case on_field (bc_settings b) of Field_ignore \<Rightarrow> Some (0, b) | Field_common \<Rightarrow> on_header_field_COMMON k b)"
| "on_sevent ml bh (S_value v) b =
     (case on_value (bc_settings b) of Field_ignore \<Rightarrow> Some (0, b) | Field_common \<Rightarrow> on_header_value_COMMON ml bh v b)"
| "on_sevent ml bh (S_headers_complete m) b =
     (case on_headers (bc_settings b) of
        Headers_common \<Rightarrow> on_headers_complete_COMMON ml bh m b
      | Headers_removal \<Rightarrow> on_headers_complete_REMOVAL ml bh b)"
| "on_sevent ml bh (S_body buf) b =
     (case on_data (bc_settings b) of Body_ignore \<Rightarrow> Some (0, b) | Body_upload \<Rightarrow> on_body_UPLOAD ml bh buf b)"
| "on_sevent ml bh S_complete b =
     (case on_message_complete (bc_settings b) of
        Complete_upload \<Rightarrow> on_message_complete_UPLOAD ml bh b
      | Complete_download \<Rightarrow> on_message_complete_DOWNLOAD bh b
      | Complete_removal \<Rightarrow> on_message_complete_REMOVAL ml bh b
      | _ \<Rightarrow> Some (0, b))"
| "on_sevent ml bh S_chunk_header b = Some (0, b)"
| "on_sevent ml bh S_chunk_complete b = Some (0, b)"

section \<open>The loop over a connection\<close>

text \<open>\<open>http_parser_execute\<close>: the callbacks until the parser returns.\<close>

partial_function (option) execute :: "'p req_parser \<Rightarrow> 'd mill_lib \<Rightarrow> 's blob_handler \<Rightarrow> 'p \<Rightarrow> ('s, 'd) blob_client \<Rightarrow>
    (nat \<times> 'p \<times> ('s, 'd) blob_client) option" where
  "execute qp ml bh p b =
     (case qp_next qp p of
        Inr (n, p') \<Rightarrow> Some (n, p', b)
      | Inl (ev, k) \<Rightarrow> do {
          (code', b') \<leftarrow> on_sevent ml bh ev (b\<lparr>bc_version := qp_version qp p\<rparr>);
          execute qp ml bh (k code') b'
        })"

text \<open>What was read is given to the parser until all of it is consumed; \<open>False\<close> after an error.  A parser
  that consumes nothing is given the same bytes again.\<close>

partial_function (option) feed :: "'p req_parser \<Rightarrow> 'd mill_lib \<Rightarrow> 's blob_handler \<Rightarrow> bytes \<Rightarrow> 'p \<Rightarrow> ('s, 'd) blob_client \<Rightarrow>
    (bool \<times> 'p \<times> ('s, 'd) blob_client) option" where
  "feed qp ml bh bs p b =
     (if bs = [] then Some (True, p, b)
      else do {
        (n, p', b') \<leftarrow> execute qp ml bh (qp_give qp bs p) b;
        if qp_errno qp p' \<noteq> 0 then Some (False, p', b') else feed qp ml bh (drop n bs) p' b'
      })"

text \<open>\<open>Run\<close>, when the flag is set for \<open>n\<close> turns of the loop.\<close>

fun run_loop :: "'p req_parser \<Rightarrow> 'd mill_lib \<Rightarrow> 's blob_handler \<Rightarrow> nat \<Rightarrow> 'p \<Rightarrow> ('s, 'd) blob_client \<Rightarrow>
    ('s, 'd) blob_client option" where
  "run_loop qp ml bh 0 p b = Some b"
| "run_loop qp ml bh (Suc n) p b = do {
     (r, c) \<leftarrow> conn_read 32768 (bc_conn b);
     let b1 = b\<lparr>bc_conn := c\<rparr>;
     case r of
       Got bs \<Rightarrow> do {
         (good, p', b2) \<leftarrow> feed qp ml bh bs p b1;
         if good then run_loop qp ml bh n p' b2 else Some b2
       }
     | Failed e \<Rightarrow> if e = EAGAIN then run_loop qp ml bh n p b1 else Some b1
     | _ \<Rightarrow> Some b1
   }"

definition BlobClient_Run :: "'p req_parser \<Rightarrow> 'd mill_lib \<Rightarrow> 's blob_handler \<Rightarrow> nat \<Rightarrow> ('s, 'd) blob_client \<Rightarrow>
    ('s, 'd) blob_client option" where
  "BlobClient_Run qp ml bh n b = do {
     b' \<leftarrow> run_loop qp ml bh n (qp_init qp) (BlobClient_Reset b);
     Some (b'\<lparr>bc_conn := conn_close (bc_conn b')\<rparr>)
   }"

section \<open>Services and configuration\<close>

text \<open>
  One turn of the loop that accepts: whether \<open>accept\<close> gives a client, and the events of the poll.  The
  loop tests the pointer to the flag and not the flag: every turn is followed by another.
\<close>

record service =
  sv_ready :: bool
  sv_flag :: bool
  sv_clients :: nat

fun service_turn :: "bool \<times> bool \<times> bool \<Rightarrow> service \<Rightarrow> service" where
  "service_turn (accepted, err, ev) s =
     (if sv_ready s \<and> accepted then s\<lparr>sv_clients := sv_clients s + 1\<rparr>
      else if err then s\<lparr>sv_ready := False, sv_flag := False\<rparr>
      else s\<lparr>sv_ready := ev\<rparr>)"

definition service_run :: "(bool \<times> bool \<times> bool) list \<Rightarrow> service" where
  "service_run evs = fold service_turn evs \<lparr>sv_ready = True, sv_flag = True, sv_clients = 0\<rparr>"

fun is_object :: "json \<Rightarrow> bool" where
  "is_object (JObj _) = True"
| "is_object _ = False"

text \<open>\<open>can_bind\<close> and \<open>can_listen\<close>: whether the socket can be bound to the URL, and then listens.\<close>

definition Service_Configure :: "(string \<Rightarrow> json option) \<Rightarrow> (string \<Rightarrow> bool) \<Rightarrow> (string \<Rightarrow> bool) \<Rightarrow> string \<Rightarrow> bool option" where
  "Service_Configure parse can_bind can_listen cfg =
     (case parse (c_str cfg) of
        None \<Rightarrow> Some False
      | Some d \<Rightarrow>
          if \<not> is_object d then Some False
          else do {
            bj \<leftarrow> member d ''bind'';
            case bj of
              None \<Rightarrow> Some False
            | Some v \<Rightarrow>
                if \<not> is_string v then Some False
                else do {
                  url \<leftarrow> get_string v;
                  Some (can_bind url \<and> can_listen url)
                }
          })"

text \<open>A service that is configured joins the daemon; the repository is configured first.\<close>

definition LoadJson :: "(string \<Rightarrow> json option) \<Rightarrow> (jtok list \<Rightarrow> string) \<Rightarrow> (string \<Rightarrow> bool) \<Rightarrow> (string \<Rightarrow> bool) \<Rightarrow>
    (string \<Rightarrow> bool) \<Rightarrow> string \<Rightarrow> string list \<Rightarrow> (bool \<times> string list) option" where
  "LoadJson parse render configure can_bind can_listen cfg services =
     (case parse (c_str cfg) of
        None \<Rightarrow> Some (False, services)
      | Some d \<Rightarrow> do {
          rj \<leftarrow> member d ''repository'';
          case rj of None \<Rightarrow> Some (False, services) | Some repo \<Rightarrow> do {
          sj \<leftarrow> member d ''service'';
          case sj of None \<Rightarrow> Some (False, services) | Some srv \<Rightarrow>
            if \<not> configure (c_str (render (toks repo))) then Some (False, services)
            else do {
              let text = c_str (render (toks srv));
              good \<leftarrow> Service_Configure parse can_bind can_listen text;
              Some (good, if good then services @ [text] else services)
            }
          }
        })"

text \<open>A file that cannot be read has an empty text.\<close>

definition LoadJsonFile :: "(string \<Rightarrow> json option) \<Rightarrow> (jtok list \<Rightarrow> string) \<Rightarrow> (string \<Rightarrow> bool) \<Rightarrow> (string \<Rightarrow> bool) \<Rightarrow>
    (string \<Rightarrow> bool) \<Rightarrow> string option \<Rightarrow> string list \<Rightarrow> (bool \<times> string list) option" where
  "LoadJsonFile parse render configure can_bind can_listen file services =
     LoadJson parse render configure can_bind can_listen (case file of None \<Rightarrow> [] | Some t \<Rightarrow> t) services"

section \<open>Laws\<close>

text \<open>The pieces a download delivers, when it ends within \<open>n\<close> reads.\<close>

fun reads :: "'s blob_handler \<Rightarrow> nat \<Rightarrow> 's \<Rightarrow> (bytes list \<times> 's) option" where
  "reads bh 0 h = (if bh_dl_IsEof bh h then Some ([], h) else None)"
| "reads bh (Suc n) h =
     (if bh_dl_IsEof bh h then Some ([], h)
      else do { (buf, h1) \<leftarrow> bh_dl_Read bh h; (bufs, h2) \<leftarrow> reads bh n h1; Some (buf # bufs, h2) })"

text \<open>A connection that takes the next \<open>m\<close> sends whole, up to \<open>k\<close> bytes each.\<close>

definition ample :: "nat \<Rightarrow> nat \<Rightarrow> conn \<Rightarrow> bool" where
  "ample k m c = (cn_open c \<and> (\<exists>evs. ch_wr (cn_chan c) = replicate m (Wr_n k) @ evs))"

lemma client_send_iov_ample:
  assumes "ample k (Suc m) (bc_conn b)" and "concat iov \<noteq> []" and "length (concat iov) \<le> k"
  obtains c where "client_send_iov iov b = Some (b\<lparr>bc_conn := c\<rparr>)" "ample k m c" "wire c = wire (bc_conn b) @ concat iov"
proof -
  from assms(1) obtain evs where "cn_open (bc_conn b)" "ch_wr (cn_chan (bc_conn b)) = Wr_n k # replicate m (Wr_n k) @ evs"
    by (auto simp: ample_def)
  from conn_send_iov_one [OF this assms(2,3)] show ?thesis using \<open>cn_open (bc_conn b)\<close>
    by (intro that [of "(bc_conn b)\<lparr>cn_chan := (cn_chan (bc_conn b))\<lparr>ch_out := wire (bc_conn b) @ concat iov,
        ch_wr := replicate m (Wr_n k) @ evs\<rparr>\<rparr>"]) (auto simp: client_send_iov_def ample_def wire_def)
qed

lemma client_send_ample:
  assumes "ample k (Suc m) (bc_conn b)" and "s \<noteq> []" and "length s \<le> k"
  obtains c where "client_send s b = Some (b\<lparr>bc_conn := c\<rparr>)" "ample k m c" "wire c = wire (bc_conn b) @ bytes_of s"
proof -
  from assms(1) obtain evs where "cn_open (bc_conn b)" "ch_wr (cn_chan (bc_conn b)) = Wr_n k # replicate m (Wr_n k) @ evs"
    by (auto simp: ample_def)
  moreover from assms(2,3) have "bytes_of s \<noteq> []" "length (bytes_of s) \<le> k" by (simp_all add: bytes_of_def)
  ultimately show ?thesis using conn_send_one [of "bc_conn b" k "replicate m (Wr_n k) @ evs" "bytes_of s"]
    by (intro that [of "(bc_conn b)\<lparr>cn_chan := (cn_chan (bc_conn b))\<lparr>ch_out := wire (bc_conn b) @ bytes_of s,
        ch_wr := replicate m (Wr_n k) @ evs\<rparr>\<rparr>"]) (auto simp: client_send_def ample_def wire_def)
qed

lemma stream_loop_reads:
  assumes "reads bh n (bc_handler b) = Some (bufs, h)" and "ample k (length (filter (\<lambda>x. x \<noteq> []) bufs) + m) (bc_conn b)"
    and "\<forall>x \<in> set bufs. length (concat (chunk_iov x)) \<le> k"
  shows "\<exists>c. stream_loop bh b = Some (b\<lparr>bc_handler := h, bc_conn := c\<rparr>) \<and> ample k m c
    \<and> wire c = wire (bc_conn b) @ concat (map (\<lambda>x. if x = [] then [] else concat (chunk_iov x)) bufs)"
  using assms
proof (induction n arbitrary: b bufs)
  case 0
  then show ?case by (cases b) (auto simp: stream_loop.simps split: if_splits)
next
  case (Suc n)
  show ?case
  proof (cases "bh_dl_IsEof bh (bc_handler b)")
    case True
    with Suc.prems show ?thesis by (cases b) (auto simp: stream_loop.simps)
  next
    case False
    with Suc.prems(1) obtain x h1 bufs1 where r: "bh_dl_Read bh (bc_handler b) = Some (x, h1)"
      "reads bh n h1 = Some (bufs1, h)" "bufs = x # bufs1" by (auto split: bind_splits)
    let ?b = "b\<lparr>bc_handler := h1\<rparr>"
    show ?thesis
    proof (cases "x = []")
      case True
      with Suc.IH [of ?b bufs1] Suc.prems(2,3) r obtain c where
        "stream_loop bh ?b = Some (?b\<lparr>bc_handler := h, bc_conn := c\<rparr>)" "ample k m c"
        "wire c = wire (bc_conn b) @ concat (map (\<lambda>x. if x = [] then [] else concat (chunk_iov x)) bufs1)" by auto
      with False r True show ?thesis by (intro exI [of _ c]) (subst stream_loop.simps, simp)
    next
      case x: False
      have "concat (chunk_iov x) \<noteq> []" by (simp add: chunk_iov_def x)
      moreover have "ample k (Suc (length (filter (\<lambda>x. x \<noteq> []) bufs1) + m)) (bc_conn ?b)"
        using Suc.prems(2) r(3) x by simp
      moreover have "length (concat (chunk_iov x)) \<le> k" using Suc.prems(3) r(3) by simp
      ultimately obtain c1 where 1: "client_send_iov (chunk_iov x) ?b = Some (?b\<lparr>bc_conn := c1\<rparr>)"
        "ample k (length (filter (\<lambda>x. x \<noteq> []) bufs1) + m) c1" "wire c1 = wire (bc_conn b) @ concat (chunk_iov x)"
        using client_send_iov_ample [of k _ ?b "chunk_iov x"] by auto
      with Suc.IH [of "?b\<lparr>bc_conn := c1\<rparr>" bufs1] Suc.prems(3) r obtain c where
        "stream_loop bh (?b\<lparr>bc_conn := c1\<rparr>) = Some (?b\<lparr>bc_handler := h, bc_conn := c\<rparr>)" "ample k m c"
        "wire c = wire c1 @ concat (map (\<lambda>x. if x = [] then [] else concat (chunk_iov x)) bufs1)" by auto
      with False r x 1 show ?thesis by (intro exI [of _ c]) (subst stream_loop.simps, simp)
    qed
  qed
qed

text \<open>The callbacks of a list of findings of the parser, as long as their code is 0.\<close>

fun sevents :: "'d mill_lib \<Rightarrow> 's blob_handler \<Rightarrow> sevent list \<Rightarrow> ('s, 'd) callback" where
  "sevents ml bh [] b = Some (0, b)"
| "sevents ml bh (e # es) b = do {
     (code', b') \<leftarrow> on_sevent ml bh e b;
     if code' \<noteq> 0 then Some (code', b') else sevents ml bh es b'
   }"

lemma sevents_append:
  "sevents ml bh es b = Some (0, b') \<Longrightarrow> sevents ml bh (es @ fs) b = sevents ml bh fs b'"
  by (induction es arbitrary: b) (auto split: bind_splits if_splits)

fun writes :: "'s blob_handler \<Rightarrow> bytes list \<Rightarrow> 's \<Rightarrow> 's option" where
  "writes bh [] h = Some h"
| "writes bh (x # xs) h = do { h' \<leftarrow> bh_up_Write bh x h; writes bh xs h' }"

lemma sevents_bodies:
  assumes "on_data (bc_settings b) = Body_upload" and "bc_upload b" and "writes bh bufs (bc_handler b) = Some h"
    and "\<forall>x \<in> set bufs. x \<noteq> [] \<and> length x < 2 ^ 32 - 1"
  shows "sevents ml bh (map S_body bufs) b = Some (0, b\<lparr>bc_handler := h,
    bc_bytes_in := bc_bytes_in b + int (length (concat bufs)), bc_md5 := fold (Checksum_Update (ml_md5 ml)) bufs (bc_md5 b)\<rparr>)"
  using assms
proof (induction bufs arbitrary: b)
  case (Cons x bufs)
  from Cons.prems(3) obtain h1 where 1: "bh_up_Write bh x (bc_handler b) = Some h1" "writes bh bufs h1 = Some h"
    by (auto split: bind_splits)
  let ?b = "b\<lparr>bc_md5 := Checksum_Update (ml_md5 ml) x (bc_md5 b), bc_bytes_in := bc_bytes_in b + int (length x), bc_handler := h1\<rparr>"
  have "on_sevent ml bh (S_body x) b = Some (0, ?b)"
    using Cons.prems(1,2,4) 1(1) by (auto simp: on_body_UPLOAD_def)
  with Cons.IH [of ?b] Cons.prems 1(2) show ?case by (simp add: add.assoc)
qed (auto intro: sym)

text \<open>The text of a reply with a payload.\<close>

definition reply_text :: "nat \<times> nat \<Rightarrow> (string, string) omap \<Rightarrow> int \<Rightarrow> string \<Rightarrow> string \<Rightarrow> string" where
  "reply_text v hs code' msg payload = concat (preamble v code' msg (int (length payload)) hs) @ payload"

lemma preamble_not_Nil [simp]: "concat (preamble v code' msg l hs) \<noteq> []"
  by (simp add: preamble_def)

lemma ReplyPreamble_ample:
  assumes "ample k (Suc m) (bc_conn b)" and "length (concat (preamble (bc_version b) code' msg l (bc_reply_headers b))) \<le> k"
  obtains c where "ReplyPreamble code' msg l b = Some (b\<lparr>bc_conn := c\<rparr>)" "ample k m c"
    "wire c = wire (bc_conn b) @ bytes_of (concat (preamble (bc_version b) code' msg l (bc_reply_headers b)))"
proof -
  let ?ls = "preamble (bc_version b) code' msg l (bc_reply_headers b)"
  have "concat (map bytes_of ?ls) = bytes_of (concat ?ls)" by (simp add: bytes_of_concat)
  moreover have "bytes_of (concat ?ls) \<noteq> []" by (simp add: bytes_of_def preamble_not_Nil del: concat_eq_Nil_conv)
  ultimately show ?thesis
    using client_send_iov_ample [OF assms(1), of "map bytes_of ?ls"] assms(2) that by (auto simp: ReplyPreamble_def simp del: concat_eq_Nil_conv)
qed

lemma reply_ample:
  assumes "ample k (Suc (Suc m)) (bc_conn b)" and "payload \<noteq> []"
    and "length (reply_text (bc_version b) (bc_reply_headers b) code' msg payload) \<le> k"
  obtains c where "Option.bind (ReplyPreamble code' msg (int (length payload)) b) (client_send payload) = Some (b\<lparr>bc_conn := c\<rparr>)"
    "ample k m c" "wire c = wire (bc_conn b) @ bytes_of (reply_text (bc_version b) (bc_reply_headers b) code' msg payload)"
proof -
  have le: "length (concat (preamble (bc_version b) code' msg (int (length payload)) (bc_reply_headers b))) \<le> k" "length payload \<le> k"
    using assms(3) by (simp_all add: reply_text_def)
  from ReplyPreamble_ample [OF assms(1) le(1)] obtain c1 where
    1: "ReplyPreamble code' msg (int (length payload)) b = Some (b\<lparr>bc_conn := c1\<rparr>)" "ample k (Suc m) c1"
      "wire c1 = wire (bc_conn b) @ bytes_of (concat (preamble (bc_version b) code' msg (int (length payload)) (bc_reply_headers b)))"
    by blast
  from client_send_ample [of k m "b\<lparr>bc_conn := c1\<rparr>" payload] 1(2) assms(2) le(2) obtain c2 where
    2: "client_send payload (b\<lparr>bc_conn := c1\<rparr>) = Some (b\<lparr>bc_conn := c2\<rparr>)" "ample k m c2" "wire c2 = wire c1 @ bytes_of payload"
    by auto
  show ?thesis using 1 2 by (intro that [of c2]) (simp_all add: reply_text_def)
qed

definition error_text :: "'d mill_lib \<Rightarrow> ('s, 'd) blob_client \<Rightarrow> int \<Rightarrow> int \<Rightarrow> string \<Rightarrow> string" where
  "error_text ml b http soft why = reply_text (bc_version b) (bc_reply_headers b) http ''Error''
     (ml_render ml [StartObject, Key ''status'', Int_tok soft, Key ''message'', String_tok (c_str why), EndObject])"

lemma ReplyError_ample:
  assumes "ample k (Suc (Suc m)) (bc_conn b)" and "\<forall>ts. ml_render ml ts \<noteq> []" and "length (error_text ml b http soft why) \<le> k"
  obtains c where "ReplyError ml (SoftError http soft why) b = Some (b\<lparr>bc_conn := c\<rparr>)" "ample k m c"
    "wire c = wire (bc_conn b) @ bytes_of (error_text ml b http soft why)"
proof -
  let ?ts = "[StartObject, Key ''status'', Int_tok soft, Key ''message'', String_tok (c_str why), EndObject]"
  from reply_ample [OF assms(1), of "ml_render ml ?ts" http "''Error''"] assms(2,3) obtain c where
    "Option.bind (ReplyPreamble http ''Error'' (int (length (ml_render ml ?ts))) b) (client_send (ml_render ml ?ts)) = Some (b\<lparr>bc_conn := c\<rparr>)"
    "ample k m c" "wire c = wire (bc_conn b) @ bytes_of (error_text ml b http soft why)"
    by (auto simp: error_text_def)
  then show ?thesis by (intro that [of c]) (simp_all add: ReplyError_def Pack_toks_def SoftError_def)
qed

text \<open>The end of an upload: committed, or not; and an upload refused since the blob is there.\<close>

lemma complete_UPLOAD_ok:
  assumes "bc_upload b" and "bh_up_Commit bh (bc_handler b) = Some (rc, h)" and "Ok rc" and "payload \<noteq> []"
    and p: "payload = c_str (ml_render ml (upload_toks (bc_bytes_in b) (Checksum_Final (ml_md5 ml) (bc_md5 b))))"
    and "ample k (Suc (Suc m)) (bc_conn b)"
    and "length (reply_text (bc_version b) (bc_reply_headers b) 201 ''OK'' payload) \<le> k"
  obtains c where "on_message_complete_UPLOAD ml bh b =
      Some (0, b\<lparr>bc_handler := h, bc_md5 := ml_spent ml (bc_md5 b), bc_conn := c\<rparr>)" "ample k m c"
    "wire c = wire (bc_conn b) @ bytes_of (reply_text (bc_version b) (bc_reply_headers b) 201 ''OK'' payload)"
proof -
  define b' where "b' = b\<lparr>bc_handler := h, bc_md5 := ml_spent ml (bc_md5 b)\<rparr>"
  have "bc_conn b' = bc_conn b" "bc_version b' = bc_version b" "bc_reply_headers b' = bc_reply_headers b"
    by (simp_all add: b'_def)
  with reply_ample [of k m b' payload 201 "''OK''"] assms(4,6,7) obtain c where
    c: "ReplySuccess_payload 201 payload b' = Some (b'\<lparr>bc_conn := c\<rparr>)" "ample k m c"
    "wire c = wire (bc_conn b) @ bytes_of (reply_text (bc_version b) (bc_reply_headers b) 201 ''OK'' payload)"
    by (auto simp: ReplySuccess_payload_def)
  have "on_message_complete_UPLOAD ml bh b = Some (0, b'\<lparr>bc_conn := c\<rparr>)"
    using assms(1-3) c(1) by (simp add: on_message_complete_UPLOAD_def on_handler_def Let_def p b'_def)
  with c(2,3) show ?thesis by (intro that [of c]) (simp_all add: b'_def)
qed

lemma complete_UPLOAD_failed:
  assumes "bc_upload b" and "bh_up_Commit bh (bc_handler b) = Some (rc, h)" and "\<not> Ok rc"
    and "ample k (Suc (Suc m)) (bc_conn b)" and "\<forall>ts. ml_render ml ts \<noteq> []"
    and "length (error_text ml b 500 400 ''LocalUpload commit failed'') \<le> k"
  obtains c where "on_message_complete_UPLOAD ml bh b = Some (0, b\<lparr>bc_handler := h, bc_conn := c\<rparr>)" "ample k m c"
    "wire c = wire (bc_conn b) @ bytes_of (error_text ml b 500 400 ''LocalUpload commit failed'')"
proof -
  define b' where "b' = b\<lparr>bc_handler := h\<rparr>"
  have b': "bc_conn b' = bc_conn b" "error_text ml b' x y z = error_text ml b x y z" for x y z
    by (simp_all add: b'_def error_text_def)
  have "ample k (Suc (Suc m)) (bc_conn b')" "length (error_text ml b' 500 400 ''LocalUpload commit failed'') \<le> k"
    using assms(4,6) b' by simp_all
  from ReplyError_ample [OF this(1) assms(5) this(2)] obtain c where
    c: "ReplyError ml (SoftError 500 400 ''LocalUpload commit failed'') b' = Some (b'\<lparr>bc_conn := c\<rparr>)" "ample k m c"
    "wire c = wire (bc_conn b') @ bytes_of (error_text ml b' 500 400 ''LocalUpload commit failed'')" by blast
  have "on_message_complete_UPLOAD ml bh b = Some (0, b'\<lparr>bc_conn := c\<rparr>)"
    using assms(1-3) c(1) by (simp add: on_message_complete_UPLOAD_def on_handler_def b'_def)
  with c(2,3) b' show ?thesis by (intro that [of c]) (simp_all add: b'_def)
qed

lemma headers_UPLOAD_already:
  assumes "\<not> bc_expect_100 b" and "bh_GetUpload bh (bc_handler b) = Some g" and "bh_up_Prepare bh g = Some (rc, h)" and "Why rc = Already"
    and "ample k (Suc (Suc m)) (bc_conn b)" and "\<forall>ts. ml_render ml ts \<noteq> []"
    and "length (error_text ml b 406 421 ''blobs found'') \<le> k"
  obtains c where "on_headers_complete_UPLOAD ml bh b = Some (1, b\<lparr>bc_upload := True, bc_handler := h, bc_conn := c\<rparr>)"
    "ample k m c" "wire c = wire (bc_conn b) @ bytes_of (error_text ml b 406 421 ''blobs found'')"
proof -
  define b' where "b' = b\<lparr>bc_upload := True, bc_handler := h\<rparr>"
  have b': "bc_conn b' = bc_conn b" "error_text ml b' x y z = error_text ml b x y z" for x y z
    by (simp_all add: b'_def error_text_def)
  have "ample k (Suc (Suc m)) (bc_conn b')" "length (error_text ml b' 406 421 ''blobs found'') \<le> k"
    using assms(5,7) b' by simp_all
  from ReplyError_ample [OF this(1) assms(6) this(2)] obtain c where
    c: "ReplyError ml (SoftError 406 421 ''blobs found'') b' = Some (b'\<lparr>bc_conn := c\<rparr>)" "ample k m c"
    "wire c = wire (bc_conn b') @ bytes_of (error_text ml b' 406 421 ''blobs found'')" by blast
  have "on_headers_complete_UPLOAD ml bh b = Some (1, b'\<lparr>bc_conn := c\<rparr>)"
    using assms(1-4) c(1)
    by (simp add: on_headers_complete_UPLOAD_def Reply100_def on_handler_def fail_with_def Ok_def Why_def b'_def)
  with c(2,3) b' show ?thesis by (intro that [of c]) (simp_all add: b'_def)
qed

text \<open>
  A handler whose state is a list of pieces: an upload adds to it and a download takes from it; when the
  blob is taken, the upload is refused and its commit fails.
\<close>

definition demo_handler :: "bool \<Rightarrow> bytes list blob_handler" where
  "demo_handler taken = \<lparr>bh_SetUrl = \<lambda>u s. Some (SoftError_default, s), bh_SetHeader = \<lambda>k v s. Some (SoftError_default, s),
     bh_GetUpload = Some, bh_up_Prepare = \<lambda>s. Some (status_of (if taken then Already else OK), s),
     bh_up_Write = \<lambda>x s. Some (s @ [x]), bh_up_Commit = \<lambda>s. Some (status_of (if taken then InternalError else OK), s),
     bh_GetDownload = Some, bh_dl_Prepare = \<lambda>s. Some (status_ok, s), bh_dl_IsEof = \<lambda>s. s = [],
     bh_dl_Read = \<lambda>s. case s of [] \<Rightarrow> None | x # xs \<Rightarrow> Some (x, xs),
     bh_GetRemoval = Some, bh_rm_Prepare = \<lambda>s. Some (status_ok, s), bh_rm_Commit = \<lambda>s. Some (status_ok, [])\<rparr>"

definition demo_mill :: "nat mill_lib" where
  "demo_mill = \<lparr>ml_md5 = \<lparr>dg_init = 0, dg_update = \<lambda>n b. n + length b, dg_final = \<lambda>n. [word_of_nat n]\<rparr>,
     ml_spent = \<lambda>n. 0, ml_render = \<lambda>ts. ''x'', ml_lex = \<lambda>k. Custom\<rparr>"

definition demo_client :: "nat \<Rightarrow> bytes list \<Rightarrow> (bytes list, nat) blob_client" where
  "demo_client m = BlobClient demo_mill (open_conn [] [] (replicate m (Wr_n 1000)))"

lemma demo_client_simps [simp]:
  "bc_handler (demo_client m h) = h" "bc_defered (demo_client m h) = SoftError_default"
  "on_headers (bc_settings (demo_client m h)) = Headers_common" "\<not> bc_expect_100 (demo_client m h)"
  "ample 1000 m (bc_conn (demo_client m h))" "wire (bc_conn (demo_client m h)) = []" "bc_reply_headers (demo_client m h) = []"
  "bc_version (demo_client m h) = (0, 0)" "bc_bytes_in (demo_client m h) = 0" "bc_md5 (demo_client m h) = 0"
  by (simp_all add: demo_client_def BlobClient_def start_settings_def ample_def open_conn_def wire_def demo_mill_def Checksum_def)

lemma SoftError_Ok_default [simp]: "SoftError_Ok SoftError_default"
  by (simp add: SoftError_Ok_def SoftError_default_def)

lemma demo_error_text: "length (error_text demo_mill (demo_client m h) 406 421 why) \<le> 1000"
  "length (error_text demo_mill (demo_client m h) 500 400 why) \<le> 1000"
proof -
  have "length (reply_text (0, 0) [] 406 ''Error'' ''x'') \<le> 1000" "length (reply_text (0, 0) [] 500 ''Error'' ''x'') \<le> 1000"
    by code_simp+
  then show "length (error_text demo_mill (demo_client m h) 406 421 why) \<le> 1000"
    "length (error_text demo_mill (demo_client m h) 500 400 why) \<le> 1000"
    by (simp_all add: error_text_def demo_mill_def)
qed

section \<open>A whole request\<close>

text \<open>The connection once an upload, whose handler is then \<open>h\<close>, is prepared.\<close>

definition upload_started :: "soft_error \<Rightarrow> 's \<Rightarrow> ('s, 'd) blob_client \<Rightarrow> ('s, 'd) blob_client" where
  "upload_started e h b = (BlobClient_Reset b)\<lparr>bc_handler := h, bc_defered := e, bc_upload := True,
     bc_settings := method_settings Body_upload Complete_upload Headers_common\<rparr>"

lemma upload_started_simps [simp]:
  "bc_handler (upload_started e h b) = h" "bc_conn (upload_started e h b) = bc_conn b" "bc_upload (upload_started e h b)"
  "bc_version (upload_started e h b) = bc_version b" "bc_reply_headers (upload_started e h b) = bc_reply_headers b"
  "bc_bytes_in (upload_started e h b) = bc_bytes_in b" "bc_md5 (upload_started e h b) = bc_md5 b"
  "on_data (bc_settings (upload_started e h b)) = Body_upload"
  "on_message_complete (bc_settings (upload_started e h b)) = Complete_upload"
  by (simp_all add: upload_started_def BlobClient_Reset_def method_settings_def)

lemmas request_defs = BlobClient_Reset_def start_settings_def on_url_COMMON_def SaveError_def
  on_headers_complete_COMMON_def Reply100_def on_handler_def upd_settings_def method_settings_def

lemma put_start:
  assumes "bh_SetUrl bh u (bc_handler b) = Some (e, h1)" and "SoftError_Ok e"
    and "bh_GetUpload bh h1 = Some g" and "bh_up_Prepare bh g = Some (rc, h2)" and "Ok rc"
  shows "sevents ml bh [S_begin, S_url u, S_headers_complete HTTP_PUT] b = Some (0, upload_started e h2 b)"
  using assms by (simp add: request_defs on_headers_complete_UPLOAD_def upload_started_def)

lemma put_bodies:
  assumes "bh_SetUrl bh u (bc_handler b) = Some (e, h1)" and "SoftError_Ok e"
    and "bh_GetUpload bh h1 = Some g" and "bh_up_Prepare bh g = Some (rc, h2)" and "Ok rc"
    and "writes bh bufs h2 = Some h3" and "\<forall>x \<in> set bufs. x \<noteq> [] \<and> length x < 2 ^ 32 - 1"
  shows "sevents ml bh ([S_begin, S_url u, S_headers_complete HTTP_PUT] @ map S_body bufs) b =
    Some (0, (upload_started e h2 b)\<lparr>bc_handler := h3, bc_bytes_in := bc_bytes_in b + int (length (concat bufs)),
      bc_md5 := fold (Checksum_Update (ml_md5 ml)) bufs (bc_md5 b)\<rparr>)"
  using sevents_append [OF put_start [OF assms(1-5)]] sevents_bodies [of "upload_started e h2 b" bh bufs h3 ml] assms(6,7)
  by simp

text \<open>
  A PUT that goes well: the pieces of its body reach the upload in order, and the answer, once they are
  committed, is 201 with their count and digest.  Both go on from what the connection had counted
  before: nothing resets them between two requests.
\<close>

lemma put_ok:
  assumes "bh_SetUrl bh u (bc_handler b) = Some (e, h1)" and "SoftError_Ok e"
    and "bh_GetUpload bh h1 = Some g" and "bh_up_Prepare bh g = Some (rc, h2)" and "Ok rc"
    and "writes bh bufs h2 = Some h3" and "\<forall>x \<in> set bufs. x \<noteq> [] \<and> length x < 2 ^ 32 - 1"
    and "bh_up_Commit bh h3 = Some (rc', h4)" and "Ok rc'"
    and "n = bc_bytes_in b + int (length (concat bufs))" and "d = fold (Checksum_Update (ml_md5 ml)) bufs (bc_md5 b)"
    and "payload = c_str (ml_render ml (upload_toks n (Checksum_Final (ml_md5 ml) d)))" and "payload \<noteq> []"
    and "text = reply_text (bc_version b) (bc_reply_headers b) 201 ''OK'' payload"
    and "ample k (Suc (Suc m)) (bc_conn b)" and "length text \<le> k"
  obtains b' where "sevents ml bh ([S_begin, S_url u, S_headers_complete HTTP_PUT] @ map S_body bufs @ [S_complete]) b = Some (0, b')"
    "bc_handler b' = h4" "bc_bytes_in b' = n" "ample k m (bc_conn b')" "bc_version b' = bc_version b"
    "bc_reply_headers b' = bc_reply_headers b" "wire (bc_conn b') = wire (bc_conn b) @ bytes_of text"
proof -
  define b2 where "b2 = (upload_started e h2 b)\<lparr>bc_handler := h3, bc_bytes_in := n, bc_md5 := d\<rparr>"
  have b2: "bc_upload b2" "bc_handler b2 = h3" "bc_bytes_in b2 = n" "bc_md5 b2 = d" "bc_version b2 = bc_version b"
    "bc_reply_headers b2 = bc_reply_headers b" "bc_conn b2 = bc_conn b" "on_message_complete (bc_settings b2) = Complete_upload"
    by (simp_all add: b2_def)
  have s: "sevents ml bh ([S_begin, S_url u, S_headers_complete HTTP_PUT] @ map S_body bufs) b = Some (0, b2)"
    unfolding b2_def assms(10,11) by (rule put_bodies [OF assms(1-7)])
  from complete_UPLOAD_ok [of b2 bh rc' h4 payload ml k m] assms(8,9,12-16) b2 obtain c where
    c: "on_message_complete_UPLOAD ml bh b2 = Some (0, b2\<lparr>bc_handler := h4, bc_md5 := ml_spent ml d, bc_conn := c\<rparr>)"
      "ample k m c" "wire c = wire (bc_conn b) @ bytes_of text" by auto
  then have "sevents ml bh [S_complete] b2 = Some (0, b2\<lparr>bc_handler := h4, bc_md5 := ml_spent ml d, bc_conn := c\<rparr>)"
    using b2(8) by simp
  with sevents_append [OF s, of "[S_complete]"] c b2 show ?thesis
    by (intro that [of "b2\<lparr>bc_handler := h4, bc_md5 := ml_spent ml d, bc_conn := c\<rparr>"]) simp_all
qed

text \<open>A PUT on a blob that is already there.\<close>

lemma put_already:
  assumes "bh_SetUrl bh u (bc_handler b) = Some (e, h1)" and "SoftError_Ok e"
    and "bh_GetUpload bh h1 = Some g" and "bh_up_Prepare bh g = Some (rc, h)" and "Why rc = Already"
    and "ample k (Suc (Suc m)) (bc_conn b)" and "\<forall>ts. ml_render ml ts \<noteq> []"
    and "length (error_text ml b 406 421 ''blobs found'') \<le> k"
  obtains b' where "sevents ml bh [S_begin, S_url u, S_headers_complete HTTP_PUT] b = Some (1, b')" "bc_handler b' = h"
    "wire (bc_conn b') = wire (bc_conn b) @ bytes_of (error_text ml b 406 421 ''blobs found'')"
proof -
  define b0 where "b0 = (BlobClient_Reset b)\<lparr>bc_handler := h1, bc_defered := e,
    bc_settings := method_settings Body_upload Complete_upload Headers_common\<rparr>"
  have b0: "bc_conn b0 = bc_conn b" "\<not> bc_expect_100 b0" "bc_handler b0 = h1"
    by (simp_all add: b0_def BlobClient_Reset_def)
  have e0: "error_text ml b0 x y z = error_text ml b x y z" for x y z
    by (simp add: b0_def error_text_def BlobClient_Reset_def)
  have "ample k (Suc (Suc m)) (bc_conn b0)" "length (error_text ml b0 406 421 ''blobs found'') \<le> k"
    "bh_GetUpload bh (bc_handler b0) = Some g" using assms(3,6,8) b0 e0 by simp_all
  from headers_UPLOAD_already [OF b0(2) this(3) assms(4,5) this(1) assms(7) this(2)] obtain c where
    c: "on_headers_complete_UPLOAD ml bh b0 = Some (1, b0\<lparr>bc_upload := True, bc_handler := h, bc_conn := c\<rparr>)"
      "wire c = wire (bc_conn b) @ bytes_of (error_text ml b 406 421 ''blobs found'')"
    unfolding e0 b0(1) by blast
  have "sevents ml bh [S_begin, S_url u, S_headers_complete HTTP_PUT] b = (do {
      (code', b') \<leftarrow> on_headers_complete_UPLOAD ml bh b0;
      if code' \<noteq> 0 then Some (code', b') else Some (0, b')
    })"
    using assms(1,2) by (simp add: request_defs b0_def cong: if_cong)
  with c show ?thesis by (intro that [of "b0\<lparr>bc_upload := True, bc_handler := h, bc_conn := c\<rparr>"]) simp_all
qed

text \<open>
  The answer to a GET, on a connection that takes it, is a chunked body that a reader of the encoding
  decodes to exactly the bytes the download delivers, in order, whatever the pieces.
\<close>

lemma download_stream:
  assumes "bc_download b" and "reads bh n (bc_handler b) = Some (bufs, h)"
    and "ample k (Suc (length (filter (\<lambda>x. x \<noteq> []) bufs) + m)) (bc_conn b)"
    and "\<forall>x \<in> set bufs. length (concat (chunk_iov x)) \<le> k" and "5 \<le> k"
  obtains c w where "on_message_complete_DOWNLOAD bh b = Some (0, b\<lparr>bc_handler := h, bc_conn := c\<rparr>)" "ample k m c"
    "wire c = wire (bc_conn b) @ w" "dechunk (Suc (length bufs)) w = Some (concat bufs, [])"
proof -
  let ?w = "concat (map (\<lambda>x. if x = [] then [] else concat (chunk_iov x)) bufs)"
  from stream_loop_reads [OF assms(2) _ assms(4), of "Suc m"] assms(3) obtain c where
    1: "stream_loop bh b = Some (b\<lparr>bc_handler := h, bc_conn := c\<rparr>)" "ample k (Suc m) c" "wire c = wire (bc_conn b) @ ?w"
    by auto
  have "length (''0'' @ crlf @ crlf) \<le> k" using assms(5) by (simp add: crlf_def)
  with 1(2) obtain c2 where
    2: "client_send (''0'' @ crlf @ crlf) (b\<lparr>bc_handler := h, bc_conn := c\<rparr>) = Some (b\<lparr>bc_handler := h, bc_conn := c2\<rparr>)"
      "ample k m c2" "wire c2 = wire c @ bytes_of (''0'' @ crlf @ crlf)"
    using client_send_ample [of k m "b\<lparr>bc_handler := h, bc_conn := c\<rparr>" "''0'' @ crlf @ crlf"] by auto
  have "on_message_complete_DOWNLOAD bh b = Some (0, b\<lparr>bc_handler := h, bc_conn := c2\<rparr>)"
    using assms(1) 1(1) 2(1) by (simp add: on_message_complete_DOWNLOAD_def ReplyEndOfStream_def)
  with 1(3) 2(2,3) dechunk_chunks [of bufs "[]"] show ?thesis
    by (intro that [of c2 "?w @ bytes_of (''0'' @ crlf @ crlf)"]) simp_all
qed

lemma get_ok:
  assumes "bh_SetUrl bh u (bc_handler b) = Some (e, h1)" and "SoftError_Ok e"
    and "bh_GetDownload bh h1 = Some g" and "bh_dl_Prepare bh g = Some (rc, h2)" and "Why rc = OK"
    and "reads bh n h2 = Some (bufs, h)"
    and "ample k (Suc (Suc (length (filter (\<lambda>x. x \<noteq> []) bufs) + m))) (bc_conn b)"
    and "\<forall>x \<in> set bufs. length (concat (chunk_iov x)) \<le> k" and "5 \<le> k"
    and "text = concat (preamble (bc_version b) 200 ''OK'' (- 1) (bc_reply_headers b))" and "length text \<le> k"
  obtains b' w where "sevents ml bh [S_begin, S_url u, S_headers_complete HTTP_GET, S_complete] b = Some (0, b')"
    "bc_handler b' = h" "ample k m (bc_conn b')" "wire (bc_conn b') = wire (bc_conn b) @ bytes_of text @ w"
    "dechunk (Suc (length bufs)) w = Some (concat bufs, [])"
proof -
  define b0 where "b0 = (BlobClient_Reset b)\<lparr>bc_defered := e,
    bc_settings := method_settings Body_ignore Complete_download Headers_common, bc_download := True, bc_handler := h2\<rparr>"
  have b0: "bc_conn b0 = bc_conn b" "bc_version b0 = bc_version b" "bc_reply_headers b0 = bc_reply_headers b"
    "bc_download b0" "bc_handler b0 = h2" "on_message_complete (bc_settings b0) = Complete_download"
    by (simp_all add: b0_def BlobClient_Reset_def method_settings_def)
  from ReplyPreamble_ample [of k "Suc (length (filter (\<lambda>x. x \<noteq> []) bufs) + m)" b0 200 "''OK''" "- 1"] assms(7,10,11) b0
  obtain c where c: "ReplyStream b0 = Some (b0\<lparr>bc_conn := c\<rparr>)" "wire c = wire (bc_conn b) @ bytes_of text"
    "ample k (Suc (length (filter (\<lambda>x. x \<noteq> []) bufs) + m)) c" by (auto simp: ReplyStream_def)
  define b1 where "b1 = b0\<lparr>bc_conn := c\<rparr>"
  have b1: "bc_download b1" "bc_handler b1 = h2" "bc_conn b1 = c" "on_message_complete (bc_settings b1) = Complete_download"
    using b0 by (simp_all add: b1_def)
  have "sevents ml bh [S_begin, S_url u, S_headers_complete HTTP_GET] b =
      Option.bind (ReplyStream b0) (\<lambda>b4. Some (0, b4))"
    using assms(1-5) by (simp add: request_defs on_headers_complete_DOWNLOAD_def b0_def)
  then have s: "sevents ml bh [S_begin, S_url u, S_headers_complete HTTP_GET] b = Some (0, b1)"
    using c(1) by (simp add: b1_def)
  from download_stream [of b1 bh n bufs h k m] assms(6,8,9) b1 c(3) obtain c2 w where
    d: "on_message_complete_DOWNLOAD bh b1 = Some (0, b1\<lparr>bc_handler := h, bc_conn := c2\<rparr>)" "ample k m c2"
    "wire c2 = wire c @ w" "dechunk (Suc (length bufs)) w = Some (concat bufs, [])" by auto
  then have "sevents ml bh [S_complete] b1 = Some (0, b1\<lparr>bc_handler := h, bc_conn := c2\<rparr>)" using b1(4) by simp
  with sevents_append [OF s, of "[S_complete]"] c(2) d show ?thesis
    by (intro that [of "b1\<lparr>bc_handler := h, bc_conn := c2\<rparr>" w]) simp_all
qed

section \<open>Properties\<close>

text \<open>C36. A PUT on a blob that is already there is answered twice: the first answer, 406, asks the parser to
  skip the body, but the end of the message still commits the upload that was refused, and its failure
  is answered too, with 500.\<close>

theorem daemon_two_replies:
  assumes "SoftError_Ok (bc_defered b)" and "on_headers (bc_settings b) = Headers_common" and "\<not> bc_expect_100 b"
    and "bh_GetUpload bh (bc_handler b) = Some g" and "bh_up_Prepare bh g = Some (rc, h2)" and "Why rc = Already"
    and "bh_up_Commit bh h2 = Some (rc', h3)" and "\<not> Ok rc'"
    and "\<forall>ts. ml_render ml ts \<noteq> []" and "ample k 4 (bc_conn b)"
    and "length (error_text ml b 406 421 ''blobs found'') \<le> k" and "length (error_text ml b 500 400 ''LocalUpload commit failed'') \<le> k"
  shows "\<exists>b1 b2. on_sevent ml bh (S_headers_complete HTTP_PUT) b = Some (1, b1) \<and> on_sevent ml bh S_complete b1 = Some (0, b2)
    \<and> wire (bc_conn b1) = wire (bc_conn b) @ bytes_of (error_text ml b 406 421 ''blobs found'')
    \<and> wire (bc_conn b2) = wire (bc_conn b1) @ bytes_of (error_text ml b 500 400 ''LocalUpload commit failed'')"
proof -
  define b0 where "b0 = b\<lparr>bc_settings := method_settings Body_upload Complete_upload Headers_common\<rparr>"
  have b0: "bc_conn b0 = bc_conn b" "bc_expect_100 b0 = bc_expect_100 b" "bc_handler b0 = bc_handler b"
    "on_message_complete (bc_settings b0) = Complete_upload" by (simp_all add: b0_def method_settings_def)
  have e0: "error_text ml b0 x y z = error_text ml b x y z" for x y z by (simp add: b0_def error_text_def)
  from headers_UPLOAD_already [of b0 bh g rc h2 k 2 ml] assms(3-6,9-11) b0 e0 obtain c1 where
    1: "on_headers_complete_UPLOAD ml bh b0 = Some (1, b0\<lparr>bc_upload := True, bc_handler := h2, bc_conn := c1\<rparr>)"
      "ample k 2 c1" "wire c1 = wire (bc_conn b) @ bytes_of (error_text ml b 406 421 ''blobs found'')"
    by (auto simp: numeral_eq_Suc)
  define b1 where "b1 = b0\<lparr>bc_upload := True, bc_handler := h2, bc_conn := c1\<rparr>"
  have b1: "bc_conn b1 = c1" "bc_upload b1" "bc_handler b1 = h2" "on_message_complete (bc_settings b1) = Complete_upload"
    using b0(4) by (simp_all add: b1_def)
  have e1: "error_text ml b1 x y z = error_text ml b x y z" for x y z by (simp add: b1_def b0_def error_text_def)
  have "bh_up_Commit bh (bc_handler b1) = Some (rc', h3)" "ample k (Suc (Suc 0)) (bc_conn b1)"
    "length (error_text ml b1 500 400 ''LocalUpload commit failed'') \<le> k"
    using assms(7,12) 1(2) b1 e1 by (simp_all add: numeral_2_eq_2)
  from complete_UPLOAD_failed [OF b1(2) this(1) assms(8) this(2) assms(9) this(3)] obtain c2 where
    2: "on_message_complete_UPLOAD ml bh b1 = Some (0, b1\<lparr>bc_handler := h3, bc_conn := c2\<rparr>)"
      "wire c2 = wire c1 @ bytes_of (error_text ml b 500 400 ''LocalUpload commit failed'')"
    unfolding e1 b1(1) by blast
  have "on_sevent ml bh (S_headers_complete HTTP_PUT) b = Some (1, b1)"
    using assms(1,2) 1(1) by (simp add: on_headers_complete_COMMON_def b1_def flip: b0_def)
  moreover have "on_sevent ml bh S_complete b1 = Some (0, b1\<lparr>bc_handler := h3, bc_conn := c2\<rparr>)"
    using 2(1) b1(4) by simp
  ultimately show ?thesis using 1(3) 2(2) b1(1)
    by (intro exI [of _ b1] exI [of _ "b1\<lparr>bc_handler := h3, bc_conn := c2\<rparr>"]) simp
qed

theorem daemon_two_replies_witness:
  "\<exists>b1 b2. on_sevent demo_mill (demo_handler True) (S_headers_complete HTTP_PUT) (demo_client 4 []) = Some (1, b1)
    \<and> on_sevent demo_mill (demo_handler True) S_complete b1 = Some (0, b2)
    \<and> wire (bc_conn b1) \<noteq> [] \<and> (\<exists>w. wire (bc_conn b2) = wire (bc_conn b1) @ w \<and> w \<noteq> [])"
proof -
  have "error_text demo_mill (demo_client 4 []) x y z \<noteq> []" for x y z
    by (simp add: error_text_def reply_text_def demo_mill_def)
  moreover have "\<exists>b1 b2. on_sevent demo_mill (demo_handler True) (S_headers_complete HTTP_PUT) (demo_client 4 []) = Some (1, b1)
    \<and> on_sevent demo_mill (demo_handler True) S_complete b1 = Some (0, b2)
    \<and> wire (bc_conn b1) = wire (bc_conn (demo_client 4 [])) @ bytes_of (error_text demo_mill (demo_client 4 []) 406 421 ''blobs found'')
    \<and> wire (bc_conn b2) = wire (bc_conn b1) @ bytes_of (error_text demo_mill (demo_client 4 []) 500 400 ''LocalUpload commit failed'')"
    by (intro daemon_two_replies [where rc = "status_of Already" and rc' = "status_of InternalError" and ?h2.0 = "[]" and ?h3.0 = "[]" and k = 1000])
      (simp_all add: demo_handler_def demo_error_text Why_def, simp add: demo_mill_def)
  ultimately show ?thesis by (auto simp: bytes_of_def)
qed

end
