(* ===== verification/Request_Url.thy ===== *)
theory Request_Url
  imports Mill_Daemon
begin

text \<open>
  The URL of a request (\<open>src/bin/common-header-parser.h\<close>) and the name of a blob in it, as the handlers of
  \<open>rawx-server.cpp\<close> and \<open>kinetic-proxy.cpp\<close> take it.  The function that parses a URL belongs to the
  library http-parser; what it finds is a record.
\<close>

record http_url =
  url_field_set :: "16 word"
  url_field_data :: "nat \<Rightarrow> nat \<times> nat"

definition UF_PATH :: nat where
  "UF_PATH = 3"

definition http_url_has :: "http_url \<Rightarrow> nat \<Rightarrow> bool" where
  "http_url_has u field = bit (url_field_set u) field"

definition http_url_field :: "http_url \<Rightarrow> nat \<Rightarrow> string \<Rightarrow> string option" where
  "http_url_field u f buf =
     (if \<not> http_url_has u f then Some []
      else let (off, len) = url_field_data u f in
        if off \<le> length buf \<and> len \<le> length buf \<and> off + len \<le> length buf then Some (take len (drop off buf)) else None)"

text \<open>The error, or the last part of the path; \<open>None\<close> is a failed assertion.\<close>

definition url_basename :: "(string \<Rightarrow> http_url option) \<Rightarrow> string \<Rightarrow> (soft_error + string) option" where
  "url_basename parse_url u =
     (case parse_url u of
        None \<Rightarrow> Some (Inl (SoftError 400 400 ''URL parse error''))
      | Some url \<Rightarrow>
          if \<not> http_url_has url UF_PATH then Some (Inl (SoftError 400 400 ''URL has no path''))
          else do {
            path \<leftarrow> http_url_field url UF_PATH u;
            case rfind CHR ''/'' path of
              None \<Rightarrow> Some (Inl (SoftError 400 400 ''URL has no/empty basename''))
            | Some sep \<Rightarrow>
                if sep = length path - 1 then Some (Inl (SoftError 400 400 ''URL has no/empty basename''))
                else Some (Inr (drop (sep + 1) path))
          })"

lemma rfind_last: "rfind c s = Some i \<Longrightarrow> c \<notin> set (drop (Suc i) s)"
  by (induction s arbitrary: i) (auto simp: rfind_None_iff split: option.splits if_splits)

text \<open>A name is not empty and has no slash.\<close>

lemma url_basename_name:
  assumes "url_basename parse_url u = Some (Inr f)"
  shows "f \<noteq> [] \<and> CHR ''/'' \<notin> set f"
proof -
  from assms obtain path sep where "rfind CHR ''/'' path = Some sep" "sep \<noteq> length path - 1" "f = drop (Suc sep) path"
    by (auto simp: url_basename_def split: option.splits if_splits bind_splits)
  with rfind_last [of "CHR ''/''" path sep] rfind_SomeD [of "CHR ''/''" path sep] show ?thesis by auto
qed

text \<open>A parser that finds the whole text to be a path.\<close>

definition path_url :: "string \<Rightarrow> http_url option" where
  "path_url u = Some \<lparr>url_field_set = 8, url_field_data = \<lambda>_. (0, length u)\<rparr>"

lemma path_url_basename:
  "CHR ''/'' \<notin> set f \<Longrightarrow> f \<noteq> [] \<Longrightarrow> url_basename path_url (d @ CHR ''/'' # f) = Some (Inr f)"
proof -
  have "bit (8 :: 16 word) 3" by code_simp
  then show "CHR ''/'' \<notin> set f \<Longrightarrow> f \<noteq> [] \<Longrightarrow> url_basename path_url (d @ CHR ''/'' # f) = Some (Inr f)"
    by (simp add: url_basename_def path_url_def http_url_has_def UF_PATH_def http_url_field_def)
qed

end
