(* ===== verification/Rawx_Server.thy ===== *)
theory Rawx_Server
  imports Request_Url Local_Blob
begin

text \<open>
  The rawx server (\<open>src/bin/rawx-server.cpp\<close>, \<open>rawx-server-headers.h\<close>): the handler that keeps the blobs of
  the requests in local files.  Its state holds the objects the current request has made and the file
  system.  The function ragel makes for \<open>RawxHeader::Parse\<close> is a parameter.
\<close>

section \<open>Headers\<close>

datatype rawx_value = RH_Unexpected | RH_ContainerId | RH_ContentId | RH_ContentPath | RH_ContentHash | RH_ContentSize
  | RH_ChunkId | RH_ChunkHash | RH_ChunkSize | RH_ChunkPosition

definition RawxHeader_Matched :: "rawx_value \<Rightarrow> bool" where
  "RawxHeader_Matched v = (v \<noteq> RH_Unexpected)"

fun RawxHeader_NetworkName :: "rawx_value \<Rightarrow> string" where
  "RawxHeader_NetworkName RH_Unexpected = ''Unexpected''"
| "RawxHeader_NetworkName RH_ContainerId = ''ContainerId''"
| "RawxHeader_NetworkName RH_ContentId = ''ContentId''"
| "RawxHeader_NetworkName RH_ContentPath = ''ContentPath''"
| "RawxHeader_NetworkName RH_ContentHash = ''ContentHash''"
| "RawxHeader_NetworkName RH_ContentSize = ''ContentSize''"
| "RawxHeader_NetworkName RH_ChunkId = ''ChunkId''"
| "RawxHeader_NetworkName RH_ChunkHash = ''ChunkHash''"
| "RawxHeader_NetworkName RH_ChunkSize = ''ChunkSize''"
| "RawxHeader_NetworkName RH_ChunkPosition = ''ChunkPosition''"

fun RawxHeader_StorageName :: "rawx_value \<Rightarrow> string" where
  "RawxHeader_StorageName RH_Unexpected = []"
| "RawxHeader_StorageName RH_ContainerId = ''container.id''"
| "RawxHeader_StorageName RH_ContentId = ''content.id''"
| "RawxHeader_StorageName RH_ContentPath = ''content.path''"
| "RawxHeader_StorageName RH_ContentHash = ''content.hash''"
| "RawxHeader_StorageName RH_ContentSize = ''content.size''"
| "RawxHeader_StorageName RH_ChunkId = ''chunk.id''"
| "RawxHeader_StorageName RH_ChunkHash = ''chunk.hash''"
| "RawxHeader_StorageName RH_ChunkSize = ''chunk.size''"
| "RawxHeader_StorageName RH_ChunkPosition = ''chunk.pos''"

section \<open>The repository and its handlers\<close>

record rawx_repository =
  rr_repository :: string
  rr_hash_depth :: "32 word"
  rr_hash_width :: "32 word"

definition RawxRepository :: rawx_repository where
  "RawxRepository = \<lparr>rr_repository = [], rr_hash_depth = 0, rr_hash_width = 0\<rparr>"

definition Rawx_Clone :: "rawx_repository \<Rightarrow> rawx_repository" where
  "Rawx_Clone r = RawxRepository\<lparr>rr_repository := rr_repository r, rr_hash_depth := rr_hash_depth r,
     rr_hash_width := rr_hash_width r\<rparr>"

text \<open>\<open>IsUint64\<close> and \<open>GetUint64\<close>, whose value an \<open>unsigned int\<close> takes.\<close>

fun get_uint :: "json \<Rightarrow> 32 word option" where
  "get_uint (JInt i) = (if 0 \<le> i \<and> i < 2 ^ 64 then Some (word_of_int i) else None)"
| "get_uint _ = None"

text \<open>
  One member of \<open>hash\<close>: whether it is as it must be, and the value it gives, if it is there.
\<close>

definition hash_member :: "json \<Rightarrow> string \<Rightarrow> 32 word \<Rightarrow> (bool \<times> 32 word) option" where
  "hash_member h k old = do {
     v \<leftarrow> member h k;
     case v of None \<Rightarrow> Some (True, old)
     | Some j \<Rightarrow> Some (case get_uint j of None \<Rightarrow> (False, old) | Some n \<Rightarrow> (True, n))
   }"

definition Rawx_Configure :: "(string \<Rightarrow> json option) \<Rightarrow> string \<Rightarrow> rawx_repository \<Rightarrow> (bool \<times> rawx_repository) option" where
  "Rawx_Configure parse cfg r =
     (case parse (c_str cfg) of
        None \<Rightarrow> Some (False, r)
      | Some doc \<Rightarrow> do {
          dj \<leftarrow> member doc ''docroot'';
          case dj of None \<Rightarrow> Some (False, r) | Some d \<Rightarrow>
          if \<not> is_string d then Some (False, r)
          else do {
            root \<leftarrow> get_string d;
            let r1 = r\<lparr>rr_repository := root\<rparr>;
            hj \<leftarrow> member doc ''hash'';
            case hj of None \<Rightarrow> Some (True, r1) | Some h \<Rightarrow>
            if \<not> is_object h then Some (False, r1)
            else do {
              (good, depth) \<leftarrow> hash_member h ''depth'' (rr_hash_depth r1);
              let r2 = r1\<lparr>rr_hash_depth := depth\<rparr>;
              if \<not> good then Some (False, r2)
              else do {
                (good', width) \<leftarrow> hash_member h ''width'' (rr_hash_width r2);
                Some (good', r2\<lparr>rr_hash_width := width\<rparr>)
              }
            }
          }
        })"

record rawx_handler =
  rh_basedir :: string
  rh_filename :: string
  rh_xattrs :: "(string, string) omap"
  rh_hash_depth :: "32 word"
  rh_hash_width :: "32 word"
  rh_upload :: "local_upload option"
  rh_download :: "local_download option"
  rh_removal :: "local_removal option"
  rh_world :: world

definition RawxHandler :: "string \<Rightarrow> world \<Rightarrow> rawx_handler" where
  "RawxHandler r w = \<lparr>rh_basedir = r, rh_filename = [], rh_xattrs = [], rh_hash_depth = 0, rh_hash_width = 0,
     rh_upload = None, rh_download = None, rh_removal = None, rh_world = w\<rparr>"

definition Rawx_Handler :: "rawx_repository \<Rightarrow> world \<Rightarrow> rawx_handler" where
  "Rawx_Handler r w = (RawxHandler (rr_repository r) w)\<lparr>rh_hash_width := rr_hash_width r, rh_hash_depth := rr_hash_depth r\<rparr>"

text \<open>
  The loop over the tokens of the name, from the \<open>i\<close>th on when \<open>n\<close> are left: the product is one of
  \<open>unsigned int\<close>, and \<open>substr\<close> throws beyond the end.
\<close>

fun path_tokens :: "string \<Rightarrow> 32 word \<Rightarrow> nat \<Rightarrow> 32 word \<Rightarrow> string option" where
  "path_tokens f width 0 i = Some []"
| "path_tokens f width (Suc n) i =
     (if length f < unat (i * width) then None
      else let token = take (unat width) (drop (unat (i * width)) f) in
        if token = [] then Some [] else map_option (\<lambda>t. CHR ''/'' # token @ t) (path_tokens f width n (i + 1)))"

definition rawx_path :: "string \<Rightarrow> 32 word \<Rightarrow> 32 word \<Rightarrow> string \<Rightarrow> string option" where
  "rawx_path basedir depth width f =
     map_option (\<lambda>t. basedir @ t @ CHR ''/'' # f) (path_tokens f width (unat depth) 0)"

definition RawxHandler_path :: "rawx_handler \<Rightarrow> string option" where
  "RawxHandler_path h = rawx_path (rh_basedir h) (rh_hash_depth h) (rh_hash_width h) (rh_filename h)"

definition RawxHandler_SetUrl :: "(string \<Rightarrow> http_url option) \<Rightarrow> string \<Rightarrow> rawx_handler \<Rightarrow> (soft_error \<times> rawx_handler) option" where
  "RawxHandler_SetUrl parse_url u h = do {
     r \<leftarrow> url_basename parse_url u;
     Some (case r of Inl e \<Rightarrow> (e, h) | Inr f \<Rightarrow> (SoftError 200 200 ''OK'', h\<lparr>rh_filename := f\<rparr>))
   }"

definition RawxHandler_SetHeader :: "(string \<Rightarrow> rawx_value) \<Rightarrow> string \<Rightarrow> string \<Rightarrow> rawx_handler \<Rightarrow>
    (soft_error \<times> rawx_handler) option" where
  "RawxHandler_SetHeader lexer k v h =
     (let header = lexer k in
      Some (SoftError 200 200 ''OK'',
        if RawxHeader_Matched header then h\<lparr>rh_xattrs := om_put (RawxHeader_StorageName header) v (rh_xattrs h)\<rparr> else h))"

definition rawx_upload :: "(string, string) omap \<Rightarrow> string \<Rightarrow> local_upload" where
  "rawx_upload xattrs p =
     fold (\<lambda>(k, v). LocalUpload_SetXattr k v) xattrs (LocalUpload_Build p FLAGS_mode_create FLAGS_mode_mkdir)"

definition RawxHandler_GetUpload :: "rawx_handler \<Rightarrow> rawx_handler option" where
  "RawxHandler_GetUpload h = do { p \<leftarrow> RawxHandler_path h; Some (h\<lparr>rh_upload := Some (rawx_upload (rh_xattrs h) p)\<rparr>) }"

definition RawxHandler_GetDownload :: "rawx_handler \<Rightarrow> rawx_handler option" where
  "RawxHandler_GetDownload h = do { p \<leftarrow> RawxHandler_path h; Some (h\<lparr>rh_download := Some (LocalDownload_Build p)\<rparr>) }"

definition RawxHandler_GetRemoval :: "rawx_handler \<Rightarrow> rawx_handler option" where
  "RawxHandler_GetRemoval h = do { p \<leftarrow> RawxHandler_path h; Some (h\<lparr>rh_removal := Some (LocalRemoval_Build p)\<rparr>) }"

text \<open>An operation of the object a request has made.\<close>

definition with_upload :: "(local_upload \<times> world) tx_op \<Rightarrow> rawx_handler tx_op" where
  "with_upload f h = do {
     u \<leftarrow> rh_upload h;
     (rc, u', w') \<leftarrow> f (u, rh_world h);
     Some (rc, h\<lparr>rh_upload := Some u', rh_world := w'\<rparr>)
   }"

definition with_removal :: "(local_removal \<times> world) tx_op \<Rightarrow> rawx_handler tx_op" where
  "with_removal f h = do {
     r \<leftarrow> rh_removal h;
     (rc, r', w') \<leftarrow> f (r, rh_world h);
     Some (rc, h\<lparr>rh_removal := Some r', rh_world := w'\<rparr>)
   }"

definition rawx_write :: "bytes \<Rightarrow> rawx_handler \<Rightarrow> rawx_handler option" where
  "rawx_write buf h = do {
     u \<leftarrow> rh_upload h;
     (u', w') \<leftarrow> LocalUpload_Write buf (u, rh_world h);
     Some (h\<lparr>rh_upload := Some u', rh_world := w'\<rparr>)
   }"

definition rawx_prepare_download :: "rawx_handler tx_op" where
  "rawx_prepare_download h = do {
     d \<leftarrow> rh_download h;
     let (rc, d', w') = LocalDownload_Prepare (d, rh_world h);
     Some (rc, h\<lparr>rh_download := Some d', rh_world := w'\<rparr>)
   }"

definition rawx_eof :: "rawx_handler \<Rightarrow> bool" where
  "rawx_eof h = (case rh_download h of None \<Rightarrow> False | Some d \<Rightarrow> LocalDownload_IsEof d)"

definition rawx_read :: "nat \<Rightarrow> nat \<Rightarrow> rawx_handler \<Rightarrow> (bytes \<times> rawx_handler) option" where
  "rawx_read batch attempts h = do {
     d \<leftarrow> rh_download h;
     (_, buf, d', w') \<leftarrow> LocalDownload_Read batch attempts [] (d, rh_world h);
     Some (buf, h\<lparr>rh_download := Some d', rh_world := w'\<rparr>)
   }"

definition rawx_blob_handler :: "(string \<Rightarrow> http_url option) \<Rightarrow> (string \<Rightarrow> rawx_value) \<Rightarrow> nat \<Rightarrow> nat \<Rightarrow> rawx_handler blob_handler" where
  "rawx_blob_handler parse_url lexer batch attempts = \<lparr>bh_SetUrl = RawxHandler_SetUrl parse_url,
     bh_SetHeader = RawxHandler_SetHeader lexer, bh_GetUpload = RawxHandler_GetUpload,
     bh_up_Prepare = with_upload LocalUpload_Prepare, bh_up_Write = rawx_write,
     bh_up_Commit = with_upload LocalUpload_Commit, bh_GetDownload = RawxHandler_GetDownload,
     bh_dl_Prepare = rawx_prepare_download, bh_dl_IsEof = rawx_eof, bh_dl_Read = rawx_read batch attempts,
     bh_GetRemoval = RawxHandler_GetRemoval, bh_rm_Prepare = with_removal LocalRemoval_Prepare,
     bh_rm_Commit = with_removal LocalRemoval_Commit\<rparr>"

section \<open>Laws\<close>

lemma rawx_blob_handler_simps [simp]:
  "bh_SetUrl (rawx_blob_handler p l n m) = RawxHandler_SetUrl p"
  "bh_GetUpload (rawx_blob_handler p l n m) = RawxHandler_GetUpload"
  "bh_up_Prepare (rawx_blob_handler p l n m) = with_upload LocalUpload_Prepare"
  "bh_up_Write (rawx_blob_handler p l n m) = rawx_write"
  "bh_up_Commit (rawx_blob_handler p l n m) = with_upload LocalUpload_Commit"
  "bh_GetDownload (rawx_blob_handler p l n m) = RawxHandler_GetDownload"
  "bh_dl_Prepare (rawx_blob_handler p l n m) = rawx_prepare_download"
  "bh_dl_IsEof (rawx_blob_handler p l n m) = rawx_eof"
  "bh_dl_Read (rawx_blob_handler p l n m) = rawx_read n m"
  by (simp_all add: rawx_blob_handler_def)

text \<open>The attributes of an upload are those the handler has gathered.\<close>

lemma rawx_upload_eq:
  assumes "om_inv xattrs"
  shows "rawx_upload xattrs p = (LocalUpload_Build p FLAGS_mode_create FLAGS_mode_mkdir)\<lparr>lu_attributes := xattrs\<rparr>"
proof -
  have "fold (\<lambda>(k, v). LocalUpload_SetXattr k v) kvs u = u\<lparr>lu_attributes := fold (\<lambda>(k, v). om_put k v) kvs (lu_attributes u)\<rparr>" for kvs u
    by (induction kvs arbitrary: u) (auto simp: LocalUpload_SetXattr_def)
  with fold_om_put [of "[]" xattrs] assms show ?thesis
    by (simp add: rawx_upload_def LocalUpload_Build_def LocalUpload_def)
qed

text \<open>The bodies of a PUT, stored at the descriptor of the upload.\<close>

lemma rawx_writes:
  assumes "rh_upload h = Some u" and "lu_step u = Prepared" and "lu_fd u = Some i" and "quiet_wr (w_wr (rh_world h))"
  shows "\<exists>evs. writes (rawx_blob_handler p l n m) bufs h =
    Some (h\<lparr>rh_world := (file_append i (concat bufs) (rh_world h))\<lparr>w_wr := evs\<rparr>\<rparr>)"
  using assms
proof (induction bufs arbitrary: h)
  case Nil
  show ?case by (intro exI [of _ "w_wr (rh_world h)"]) (simp add: file_append_def)
next
  case (Cons x bufs)
  obtain evs where e: "write_loop x (w_wr (rh_world h)) [] = (x, evs)" "quiet_wr evs"
    using write_loop_quiet [OF Cons.prems(4), of x "[]"] by auto
  define h1 where "h1 = h\<lparr>rh_world := (file_append i x (rh_world h))\<lparr>w_wr := evs\<rparr>\<rparr>"
  have h1: "rh_upload h1 = Some u" "rh_world h1 = (file_append i x (rh_world h))\<lparr>w_wr := evs\<rparr>"
    using Cons.prems(1) by (simp_all add: h1_def)
  have "rawx_write x h = Some h1"
    using Cons.prems(1-3) e by (cases h) (simp add: rawx_write_def LocalUpload_Write_def h1_def)
  moreover from Cons.IH [OF h1(1) Cons.prems(2,3)] h1(2) e(2) obtain evs' where
    "writes (rawx_blob_handler p l n m) bufs h1 = Some (h1\<lparr>rh_world := (file_append i (concat bufs) (rh_world h1))\<lparr>w_wr := evs'\<rparr>\<rparr>)"
    by auto
  ultimately show ?case by (intro exI [of _ evs']) (simp add: h1_def file_append_def)
qed

text \<open>The reads of a GET deliver what the loop over the local download does.\<close>

lemma rawx_reads:
  assumes "drain (LocalDownload_IsEof \<circ> fst) (LocalDownload_Read batch attempts []) n (d, w) = Some (out, d', w')"
  shows "\<exists>bufs. reads (rawx_blob_handler p l batch attempts) n (h\<lparr>rh_download := Some d, rh_world := w\<rparr>) =
    Some (bufs, h\<lparr>rh_download := Some d', rh_world := w'\<rparr>) \<and> concat bufs = out"
  using assms
proof (induction n arbitrary: d w out)
  case 0
  then show ?case by (auto simp: rawx_eof_def split: if_splits)
next
  case (Suc n)
  show ?case
  proof (cases "LocalDownload_IsEof d")
    case True
    with Suc.prems show ?thesis by (simp add: rawx_eof_def)
  next
    case False
    then have "\<not> (LocalDownload_IsEof \<circ> fst) (d, w)" by simp
    from drain_SucD [OF Suc.prems this] obtain i buf dw bs where
      r0: "LocalDownload_Read batch attempts [] (d, w) = Some (i, buf, dw)" "out = buf @ bs"
      "drain (LocalDownload_IsEof \<circ> fst) (LocalDownload_Read batch attempts []) n dw = Some (bs, d', w')" by blast
    obtain d1 w1 where "dw = (d1, w1)" by fastforce
    with r0 have
      r: "LocalDownload_Read batch attempts [] (d, w) = Some (i, buf, d1, w1)" "out = buf @ bs"
      "drain (LocalDownload_IsEof \<circ> fst) (LocalDownload_Read batch attempts []) n (d1, w1) = Some (bs, d', w')" by simp_all
    from Suc.IH [OF r(3)] obtain bufs where
      "reads (rawx_blob_handler p l batch attempts) n (h\<lparr>rh_download := Some d1, rh_world := w1\<rparr>) =
        Some (bufs, h\<lparr>rh_download := Some d', rh_world := w'\<rparr>)" "concat bufs = bs" by blast
    with False r(1,2) show ?thesis by (intro exI [of _ "buf # bufs"]) (simp add: rawx_eof_def rawx_read_def)
  qed
qed

lemma length_show_hex: "length (show_hex n) \<le> Suc n"
proof (induction n rule: less_induct)
  case (less n)
  show ?case
  proof (cases "n < 16")
    case True
    then show ?thesis by (simp add: show_base.simps [of 16 n])
  next
    case False
    then have "n div 16 < n" by simp
    from less [OF this] False have "length (show_hex (n div 16)) \<le> n" by linarith
    with False show ?thesis by (simp add: show_base.simps [of 16 n])
  qed
qed

lemma length_chunk_iov: "length (concat (chunk_iov x)) \<le> 2 * length x + 5"
  using length_show_hex [of "length x"] by (simp add: chunk_iov_def crlf_def bytes_of_def)

lemma count_nonempty: "length (filter (\<lambda>x. x \<noteq> []) bufs) \<le> length (concat bufs)"
proof (induction bufs)
  case (Cons x bufs)
  then show ?case by (cases x) simp_all
qed simp

lemma length_piece: "x \<in> set bufs \<Longrightarrow> length x \<le> length (concat bufs)"
  by (induction bufs) auto

lemma ample_mono: "ample k m c \<Longrightarrow> n \<le> m \<Longrightarrow> ample k n c"
proof -
  assume a: "ample k m c" "n \<le> m"
  then have "replicate m (Wr_n k) = replicate n (Wr_n k) @ replicate (m - n) (Wr_n k)"
    by (simp flip: replicate_add)
  with a(1) show ?thesis by (auto simp: ample_def)
qed

text \<open>A path is never empty.\<close>

lemma rawx_path_not_Nil: "rawx_path r depth width f = Some p \<Longrightarrow> p \<noteq> []"
  by (auto simp: rawx_path_def)

section \<open>Paths\<close>

text \<open>
  The number of tokens of a name of \<open>l\<close> characters, the last one perhaps short.
\<close>

definition token_count :: "nat \<Rightarrow> nat \<Rightarrow> nat" where
  "token_count w l = (l + w - 1) div w"

lemma token_less: "0 < w \<Longrightarrow> i < token_count w l \<longleftrightarrow> i * w < l"
proof -
  assume w: "0 < w"
  have "i < (l + w - 1) div w \<longleftrightarrow> Suc i * w \<le> l + w - 1"
    using w less_eq_div_iff_mult_less_eq [OF w, of "Suc i" "l + w - 1"] by (simp add: Suc_le_eq)
  with w show ?thesis by (auto simp: token_count_def)
qed

lemma path_tokens_eq:
  assumes "0 < unat width" and "(j + n) * unat width < 2 ^ 32"
  shows "path_tokens f width n (word_of_nat j) =
    (if n = 0 \<or> (j + n - 1) * unat width \<le> length f \<or> (unat width dvd length f \<and> j * unat width \<le> length f)
     then Some (concat (map (\<lambda>i. CHR ''/'' # take (unat width) (drop (i * unat width) f))
       [j..<min (j + n) (max j (token_count (unat width) (length f)))]))
     else None)"
  using assms(2)
proof (induction n arbitrary: j)
  case (Suc n)
  let ?w = "unat width" and ?l = "length f"
  have le: "j * ?w \<le> (j + Suc n) * ?w" by (rule mult_le_mono1) simp
  with Suc.prems have "j * ?w < 2 ^ 32" by linarith
  then have pos: "unat (word_of_nat j * width) = j * ?w"
  proof -
    have "j \<le> j * ?w" using assms(1) by simp
    with \<open>j * ?w < 2 ^ 32\<close> have "j < 2 ^ 32" by linarith
    with \<open>j * ?w < 2 ^ 32\<close> show ?thesis by (simp add: unat_word_ariths unat_of_nat)
  qed
  show ?case
  proof (cases "j * ?w < ?l")
    case False
    then have t: "token_count ?w ?l \<le> j" using token_less [OF assms(1), of j ?l] by simp
    have "?l < j * ?w \<Longrightarrow> \<not> (j + n) * ?w \<le> ?l" by (simp add: add_mult_distrib)
    with False pos t assms(1) show ?thesis by (auto simp: Let_def)
  next
    case True
    then have t: "j < token_count ?w ?l" using token_less [OF assms(1)] by simp
    have tok: "take ?w (drop (j * ?w) f) \<noteq> []" using True assms(1) by simp
    have dvd: "?w dvd ?l \<Longrightarrow> Suc j * ?w \<le> ?l"
    proof -
      assume "?w dvd ?l"
      then obtain c where c: "?l = c * ?w" by (metis dvdE mult.commute)
      with True have "Suc j \<le> c" by simp
      then have "Suc j * ?w \<le> c * ?w" by (rule mult_le_mono1)
      with c show "Suc j * ?w \<le> ?l" by simp
    qed
    have ls: "[j..<min (j + Suc n) (token_count ?w ?l)] = j # [Suc j..<min (j + Suc n) (token_count ?w ?l)]"
      using t by (simp add: upt_conv_Cons)
    have "path_tokens f width (Suc n) (word_of_nat j) =
        map_option (\<lambda>t. CHR ''/'' # take ?w (drop (j * ?w) f) @ t) (path_tokens f width n (word_of_nat (Suc j)))"
      using True tok pos by (simp add: Let_def add.commute)
    with Suc.IH [of "Suc j"] Suc.prems True t dvd ls show ?thesis
      by (cases n) (auto simp: max_def)
  qed
qed simp

section \<open>Requests\<close>

text \<open>What no request changes in a handler.\<close>

definition same_config :: "rawx_handler \<Rightarrow> rawx_handler \<Rightarrow> bool" where
  "same_config h h' = (rh_basedir h' = rh_basedir h \<and> rh_hash_depth h' = rh_hash_depth h \<and> rh_hash_width h' = rh_hash_width h
     \<and> rh_xattrs h' = rh_xattrs h)"

text \<open>The path of the name in a URL, under the configuration of the handler.\<close>

definition url_path :: "(string \<Rightarrow> http_url option) \<Rightarrow> string \<Rightarrow> rawx_handler \<Rightarrow> string \<Rightarrow> bool" where
  "url_path parse_url u h p = (\<exists>f. url_basename parse_url u = Some (Inr f)
     \<and> rawx_path (rh_basedir h) (rh_hash_depth h) (rh_hash_width h) f = Some p)"

lemma url_path_same: "same_config h h' \<Longrightarrow> url_path parse_url u h' p = url_path parse_url u h p"
  by (simp add: url_path_def same_config_def)

text \<open>A file system in which the calls succeed, and where a blob can be made at \<open>p\<close>.\<close>

definition room :: "world \<Rightarrow> string \<Rightarrow> bool" where
  "room w p = (fs_ok w \<and> w_faults w = [] \<and> walk (w_names w) p = None \<and> w_names w p = None
     \<and> w_names w (p @ ''.pending'') = None)"

definition pending_world :: "string \<Rightarrow> world \<Rightarrow> world" where
  "pending_world p w = w\<lparr>w_names := (w_names w)(p @ ''.pending'' \<mapsto> Ino (w_next w)),
     w_data := (w_data w)(w_next w := []), w_attr := (w_attr w)(w_next w := Map.empty), w_next := Suc (w_next w)\<rparr>"

text \<open>The upload of a request, and its state once prepared.\<close>

definition request_upload :: "string \<Rightarrow> rawx_handler \<Rightarrow> local_upload" where
  "request_upload p h = (LocalUpload_Build p FLAGS_mode_create FLAGS_mode_mkdir)\<lparr>lu_attributes := rh_xattrs h\<rparr>"

definition upload_open :: "string \<Rightarrow> rawx_handler \<Rightarrow> nat \<Rightarrow> local_upload" where
  "upload_open p h i = (request_upload p h)\<lparr>lu_fd := Some i, lu_step := Prepared\<rparr>"

lemma request_upload_simps [simp]:
  "lu_step (request_upload p h) = Init" "lu_fd (request_upload p h) = None" "lu_path_final (request_upload p h) = p"
  "lu_path_temp (request_upload p h) = p @ ''.pending''" "lu_attributes (request_upload p h) = rh_xattrs h"
  by (simp_all add: request_upload_def LocalUpload_Build_def LocalUpload_def)

lemma upload_open_simps [simp]:
  "lu_step (upload_open p h i) = Prepared" "lu_fd (upload_open p h i) = Some i" "lu_path_final (upload_open p h i) = p"
  "lu_path_temp (upload_open p h i) = p @ ''.pending''" "lu_attributes (upload_open p h i) = rh_xattrs h"
  by (simp_all add: upload_open_def)

lemma rawx_url:
  assumes "url_path parse_url u h p"
  obtains f where "RawxHandler_SetUrl parse_url u h = Some (SoftError 200 200 ''OK'', h\<lparr>rh_filename := f\<rparr>)"
    "RawxHandler_path (h\<lparr>rh_filename := f\<rparr>) = Some p" "p \<noteq> []"
  using assms rawx_path_not_Nil by (auto simp: url_path_def RawxHandler_SetUrl_def RawxHandler_path_def)

lemma SoftError_Ok_200 [simp]: "SoftError_Ok (SoftError 200 200 why)"
  by (simp add: SoftError_Ok_def SoftError_def)

lemma rawx_get_upload:
  assumes "RawxHandler_path h = Some p" and "om_inv (rh_xattrs h)"
  shows "RawxHandler_GetUpload h = Some (h\<lparr>rh_upload := Some (request_upload p h)\<rparr>)"
  using assms rawx_upload_eq [OF assms(2), of p] by (simp add: RawxHandler_GetUpload_def request_upload_def)

text \<open>The beginning of a PUT.\<close>

lemma rawx_prepare_ok:
  assumes "url_path parse_url u h p" and "om_inv (rh_xattrs h)" and "room (rh_world h) p"
  obtains h1 g h2 where "RawxHandler_SetUrl parse_url u h = Some (SoftError 200 200 ''OK'', h1)"
    "RawxHandler_GetUpload h1 = Some g" "with_upload LocalUpload_Prepare g = Some (status_of OK, h2)"
    "same_config h h2" "rh_upload h2 = Some (upload_open p h (w_next (rh_world h)))"
    "rh_world h2 = pending_world p (rh_world h)" "p \<noteq> []"
proof -
  let ?i = "w_next (rh_world h)"
  from rawx_url [OF assms(1)] obtain f where f: "RawxHandler_SetUrl parse_url u h = Some (SoftError 200 200 ''OK'', h\<lparr>rh_filename := f\<rparr>)"
    "RawxHandler_path (h\<lparr>rh_filename := f\<rparr>) = Some p" "p \<noteq> []" .
  define h1 where "h1 = h\<lparr>rh_filename := f\<rparr>"
  have h1: "rh_xattrs h1 = rh_xattrs h" "rh_world h1 = rh_world h" "request_upload p h1 = request_upload p h"
    by (simp_all add: h1_def request_upload_def)
  have up: "RawxHandler_GetUpload h1 = Some (h1\<lparr>rh_upload := Some (request_upload p h)\<rparr>)"
    using rawx_get_upload [OF f(2)] assms(2) h1 by (simp add: h1_def)
  have "with_upload LocalUpload_Prepare (h1\<lparr>rh_upload := Some (request_upload p h)\<rparr>) =
      Some (status_of OK, h1\<lparr>rh_upload := Some (upload_open p h ?i), rh_world := pending_world p (rh_world h)\<rparr>)"
    using upload_prepare_ok [of "request_upload p h" p "rh_world h"] assms(3) f(3) h1
    by (simp add: with_upload_def room_def upload_open_def pending_world_def)
  with f(1,3) up show ?thesis
    by (intro that [of h1 "h1\<lparr>rh_upload := Some (request_upload p h)\<rparr>"
        "h1\<lparr>rh_upload := Some (upload_open p h ?i), rh_world := pending_world p (rh_world h)\<rparr>"]) (simp_all add: h1_def same_config_def)
qed

text \<open>Its bodies and its end.\<close>

lemma rawx_commit_ok:
  assumes "rh_upload h = Some (upload_open p h0 i)" and "om_inv (rh_xattrs h0)" and "p \<noteq> []" and "room w p" and "i = w_next w"
    and "rh_world h = (file_append i out (pending_world p w))\<lparr>w_wr := evs\<rparr>"
  obtains h' where "with_upload LocalUpload_Commit h = Some (status_ok, h')" "same_config h h'"
    "files (rh_world h') = (files w)(p \<mapsto> out)" "w_names (rh_world h') p = Some (Ino i)"
    "\<forall>a. w_attr (rh_world h') i (''user.grid.'' @ a) = map_option bytes_of (map_of (rh_xattrs h0) a)"
    "w_faults (rh_world h') = []" "walk (w_names (rh_world h')) p = None" "w_rd (rh_world h') = w_rd w"
    "w_data (rh_world h') i = out"
proof -
  let ?t = "p @ ''.pending''" and ?u = "upload_open p h0 i"
  define v where "v = rh_world h"
  have v: "w_names v = (w_names w)(?t \<mapsto> Ino i)" "w_faults v = []" "w_attr v i = Map.empty" "w_rd v = w_rd w"
    "w_data v = (w_data w)(i := out)"
    using assms(4-6) by (simp_all add: v_def room_def pending_world_def file_append_def)
  have wk: "walk (w_names v) p = None" "walk ((w_names v)(?t := None, p \<mapsto> Ino i)) p = None"
    unfolding v(1) using assms(4) by (simp_all add: walk_upd room_def)
  with upload_commit_ok [of ?u i v] om_inv_distinct [OF assms(2)] assms(3,4) v obtain a where
    a: "LocalUpload_Commit (?u, v) = Some (status_ok, ?u\<lparr>lu_step := Done, lu_fd := None\<rparr>,
        v\<lparr>w_attr := a, w_names := (w_names v)(?t := None, p \<mapsto> Ino i)\<rparr>)"
      "\<forall>k. a i (''user.grid.'' @ k) = (case map_of (rh_xattrs h0) k of None \<Rightarrow> w_attr v i (''user.grid.'' @ k) | Some v \<Rightarrow> Some (bytes_of v))"
    by (auto simp: room_def)
  define w' where "w' = v\<lparr>w_attr := a, w_names := (w_names v)(?t := None, p \<mapsto> Ino i)\<rparr>"
  have "files w' = (files w)(p \<mapsto> out)"
    using assms(4,5) file_map_fresh [of "w_names w" i] v(1,5)
    by (auto simp: w'_def room_def files_def fs_ok_def file_map_file file_map_del fun_upd_idem_iff)
  moreover have "\<forall>x. w_attr w' i (''user.grid.'' @ x) = map_option bytes_of (map_of (rh_xattrs h0) x)"
    using a(2) v(3) by (auto simp: w'_def split: option.split simp del: append_Cons)
  moreover have "with_upload LocalUpload_Commit h =
      Some (status_ok, h\<lparr>rh_upload := Some (?u\<lparr>lu_step := Done, lu_fd := None\<rparr>), rh_world := w'\<rparr>)"
    using a(1) assms(1) by (simp add: with_upload_def v_def w'_def)
  moreover have "w_faults w' = []" "walk (w_names w') p = None" "w_rd w' = w_rd w" "w_data w' i = out" "w_names w' p = Some (Ino i)"
    using v wk by (simp_all add: w'_def)
  ultimately show ?thesis
    by (intro that [of "h\<lparr>rh_upload := Some (?u\<lparr>lu_step := Done, lu_fd := None\<rparr>), rh_world := w'\<rparr>"])
      (simp_all add: same_config_def)
qed

text \<open>A whole PUT, operation by operation.\<close>

lemma rawx_put_ok:
  assumes "url_path parse_url u h p" and "om_inv (rh_xattrs h)" and "room w p" and "w = rh_world h" and "quiet_wr (w_wr w)"
    and "srv = rawx_blob_handler parse_url lexer batch attempts" and "i = w_next w"
  obtains h1 g h2 h3 h4 where "bh_SetUrl srv u h = Some (SoftError 200 200 ''OK'', h1)" "bh_GetUpload srv h1 = Some g"
    "bh_up_Prepare srv g = Some (status_of OK, h2)" "writes srv bufs h2 = Some h3" "bh_up_Commit srv h3 = Some (status_ok, h4)"
    "same_config h h4" "files (rh_world h4) = (files w)(p \<mapsto> concat bufs)" "w_names (rh_world h4) p = Some (Ino i)"
    "\<forall>a. w_attr (rh_world h4) i (''user.grid.'' @ a) = map_option bytes_of (map_of (rh_xattrs h) a)"
    "w_faults (rh_world h4) = []" "walk (w_names (rh_world h4)) p = None" "w_rd (rh_world h4) = w_rd w"
    "w_data (rh_world h4) i = concat bufs"
proof -
  from rawx_prepare_ok [OF assms(1,2)] assms(3,4,7) obtain h1 g h2 where
    p: "bh_SetUrl srv u h = Some (SoftError 200 200 ''OK'', h1)" "bh_GetUpload srv h1 = Some g"
      "bh_up_Prepare srv g = Some (status_of OK, h2)" "same_config h h2" "rh_upload h2 = Some (upload_open p h i)"
      "rh_world h2 = pending_world p w" "p \<noteq> []"
    unfolding assms(6) rawx_blob_handler_simps by blast
  have "quiet_wr (w_wr (rh_world h2))" using assms(5) p(6) by (simp add: pending_world_def)
  with rawx_writes [OF p(5), of i parse_url lexer batch attempts bufs] obtain evs where
    wr: "writes srv bufs h2 = Some (h2\<lparr>rh_world := (file_append i (concat bufs) (pending_world p w))\<lparr>w_wr := evs\<rparr>\<rparr>)"
    unfolding p(6) assms(6) by auto
  define h3 where "h3 = h2\<lparr>rh_world := (file_append i (concat bufs) (pending_world p w))\<lparr>w_wr := evs\<rparr>\<rparr>"
  have h3: "rh_upload h3 = Some (upload_open p h i)" "same_config h2 h3"
    "rh_world h3 = (file_append i (concat bufs) (pending_world p w))\<lparr>w_wr := evs\<rparr>"
    using p(5) by (simp_all add: h3_def same_config_def)
  from rawx_commit_ok [OF h3(1) assms(2) p(7) assms(3,7) h3(3)] obtain h4 where
    c: "bh_up_Commit srv h3 = Some (status_ok, h4)" "same_config h3 h4" "files (rh_world h4) = (files w)(p \<mapsto> concat bufs)"
      "w_names (rh_world h4) p = Some (Ino i)"
      "\<forall>a. w_attr (rh_world h4) i (''user.grid.'' @ a) = map_option bytes_of (map_of (rh_xattrs h) a)"
      "w_faults (rh_world h4) = []" "walk (w_names (rh_world h4)) p = None" "w_rd (rh_world h4) = w_rd w"
      "w_data (rh_world h4) i = concat bufs" unfolding assms(6) by auto
  have "same_config h h4" using p(4) h3(2) c(2) by (simp add: same_config_def)
  from that [OF p(1-3) wr [folded h3_def] c(1) this c(3-9)] show ?thesis .
qed

text \<open>A GET of a file.\<close>

lemma rawx_get_ok:
  assumes "url_path parse_url u (bc_handler b) p" and "w = rh_world (bc_handler b)"
    and "w_faults w = []" and "walk (w_names w) p = None" and "w_names w p = Some (Ino i)" and "quiet_rd (w_rd w)"
    and "0 < batch" and "batch < 2 ^ 31" and "ample k (length (w_data w i) + 2) (bc_conn b)"
    and "found = concat (preamble (bc_version b) 200 ''OK'' (- 1) (bc_reply_headers b))"
    and "length found \<le> k" and "2 * length (w_data w i) + 5 \<le> k"
  shows "\<exists>b' body n. sevents ml (rawx_blob_handler parse_url lexer batch attempts)
      [S_begin, S_url u, S_headers_complete HTTP_GET, S_complete] b = Some (0, b')
    \<and> wire (bc_conn b') = wire (bc_conn b) @ bytes_of found @ body \<and> dechunk n body = Some (w_data w i, [])"
proof -
  define srv where "srv = rawx_blob_handler parse_url lexer batch attempts"
  define d where "d = (LocalDownload_Build p)\<lparr>ld_fd := Some (H_file i 0), ld_step := Prepared\<rparr>"
  from rawx_url [OF assms(1)] obtain f where f:
    "RawxHandler_SetUrl parse_url u (bc_handler b) = Some (SoftError 200 200 ''OK'', (bc_handler b)\<lparr>rh_filename := f\<rparr>)"
    "RawxHandler_path ((bc_handler b)\<lparr>rh_filename := f\<rparr>) = Some p" .
  define h where "h = (bc_handler b)\<lparr>rh_filename := f\<rparr>"
  have url: "bh_SetUrl srv u (bc_handler b) = Some (SoftError 200 200 ''OK'', h)" using f(1) by (simp add: srv_def h_def)
  have down: "bh_GetDownload srv h = Some (h\<lparr>rh_download := Some (LocalDownload_Build p)\<rparr>)"
    using f(2) by (simp add: srv_def RawxHandler_GetDownload_def h_def)
  have prep: "bh_dl_Prepare srv (h\<lparr>rh_download := Some (LocalDownload_Build p)\<rparr>) =
      Some (status_of OK, h\<lparr>rh_download := Some d, rh_world := w\<rparr>)"
    using local_download_ok [OF assms(3-5)] assms(2) by (simp add: srv_def rawx_prepare_download_def d_def h_def)
  have "local_dl_good batch (d, w)" "local_dl_rest (d, w) = w_data w i"
    using assms(6-8) by (auto simp: local_dl_good_def local_dl_rest_def LocalDownload_Build_def d_def)
  with local_dl.drain_rest [of batch "(d, w)" "Suc (length (w_data w i))" attempts] obtain d' w' where
    "drain (LocalDownload_IsEof \<circ> fst) (LocalDownload_Read batch attempts []) (Suc (length (w_data w i))) (d, w) =
      Some (w_data w i, d', w')" by auto
  from rawx_reads [OF this, of parse_url lexer h] obtain bufs where
    r: "reads srv (Suc (length (w_data w i))) (h\<lparr>rh_download := Some d, rh_world := w\<rparr>) =
      Some (bufs, h\<lparr>rh_download := Some d', rh_world := w'\<rparr>)" "concat bufs = w_data w i"
    unfolding srv_def by blast
  have "ample k (Suc (Suc (length (filter (\<lambda>x. x \<noteq> []) bufs) + 0))) (bc_conn b)"
    using ample_mono [OF assms(9)] count_nonempty [of bufs] r(2) by simp
  moreover have "\<forall>x \<in> set bufs. length (concat (chunk_iov x)) \<le> k"
  proof
    fix x assume "x \<in> set bufs"
    with length_piece [of x bufs] length_chunk_iov [of x] assms(12) r(2) show "length (concat (chunk_iov x)) \<le> k" by simp
  qed
  moreover have "5 \<le> k" using assms(12) by simp
  moreover have "Why (status_of OK) = OK" by (simp add: Why_def)
  ultimately obtain b' body where "sevents ml srv [S_begin, S_url u, S_headers_complete HTTP_GET, S_complete] b = Some (0, b')"
    "wire (bc_conn b') = wire (bc_conn b) @ bytes_of found @ body" "dechunk (Suc (length bufs)) body = Some (concat bufs, [])"
    using get_ok [OF url SoftError_Ok_200 down prep _ r(1) _ _ _ assms(10,11)] by metis
  with r(2) show ?thesis unfolding srv_def by (intro exI [of _ b'] exI [of _ body] exI [of _ "Suc (length bufs)"]) simp
qed

section \<open>Properties\<close>

text \<open>C37. The path of a blob: the directory, a part of the name for each level of the hash, the name.  A
  level beyond the end of the name is an exception nothing catches, unless the name is a whole number
  of parts, in which case the loop stops at its end.\<close>

theorem rawx_path_layout:
  assumes "0 < unat width" and "unat depth * unat width < 2 ^ 32"
  shows "rawx_path basedir depth width f =
    (if (unat depth - 1) * unat width \<le> length f \<or> unat width dvd length f
     then Some (basedir @ concat (map (\<lambda>i. CHR ''/'' # take (unat width) (drop (i * unat width) f))
         [0..<min (unat depth) (token_count (unat width) (length f))]) @ CHR ''/'' # f)
     else None)"
  using path_tokens_eq [of width 0 "unat depth" f] assms by (auto simp: rawx_path_def)

theorem rawx_path_layout_witness:
  "rawx_path ''/srv'' 2 3 ''0123456789'' = Some ''/srv/012/345/0123456789'' \<and> rawx_path ''/srv'' 3 3 ''abcd'' = None"
  by (intro conjI; rule trans [OF rawx_path_layout]; (simp; fail)?) code_simp+

text \<open>C1. A PUT and then a GET of the same name on one connection of the rawx server, when no system call
  fails: the file is there after the first, under the path of the name, with the bytes of the body
  and the attributes the handler has; and the answer to the second is a chunked body that decodes to them.\<close>

theorem rawx_server_put_get:
  assumes h: "h = bc_handler b" "w = rh_world h" "srv = rawx_blob_handler parse_url lexer batch attempts"
    and path: "url_path parse_url u h p" and inv: "om_inv (rh_xattrs h)" and room: "room w p"
    and quiet: "quiet_wr (w_wr w)" "quiet_rd (w_rd w)" and batch: "0 < batch" "batch < 2 ^ 31"
    and bufs: "\<forall>x \<in> set bufs. x \<noteq> [] \<and> length x < 2 ^ 32 - 1"
    and payload: "payload = c_str (ml_render ml (upload_toks (bc_bytes_in b + int (length (concat bufs)))
      (Checksum_Final (ml_md5 ml) (fold (Checksum_Update (ml_md5 ml)) bufs (bc_md5 b)))))" "payload \<noteq> []"
    and created: "created = reply_text (bc_version b) (bc_reply_headers b) 201 ''OK'' payload" "length created \<le> k"
    and found: "found = concat (preamble (bc_version b) 200 ''OK'' (- 1) (bc_reply_headers b))" "length found \<le> k"
    and ample: "ample k (length (concat bufs) + 4) (bc_conn b)" "2 * length (concat bufs) + 5 \<le> k"
  shows "\<exists>b1 b2 body n i.
    sevents ml srv ([S_begin, S_url u, S_headers_complete HTTP_PUT] @ map S_body bufs @ [S_complete]) b = Some (0, b1)
    \<and> wire (bc_conn b1) = wire (bc_conn b) @ bytes_of created
    \<and> files (rh_world (bc_handler b1)) = (files w)(p \<mapsto> concat bufs)
    \<and> w_names (rh_world (bc_handler b1)) p = Some (Ino i)
    \<and> (\<forall>a. w_attr (rh_world (bc_handler b1)) i (''user.grid.'' @ a) = map_option bytes_of (map_of (rh_xattrs h) a))
    \<and> sevents ml srv [S_begin, S_url u, S_headers_complete HTTP_GET, S_complete] b1 = Some (0, b2)
    \<and> wire (bc_conn b2) = wire (bc_conn b1) @ bytes_of found @ body \<and> dechunk n body = Some (concat bufs, [])"
proof -
  let ?i = "w_next w"
  obtain h1 g h2 h3 h4 where
    p: "bh_SetUrl srv u h = Some (SoftError 200 200 ''OK'', h1)" "bh_GetUpload srv h1 = Some g"
      "bh_up_Prepare srv g = Some (status_of OK, h2)" "writes srv bufs h2 = Some h3"
    and c: "bh_up_Commit srv h3 = Some (status_ok, h4)" "same_config h h4" "files (rh_world h4) = (files w)(p \<mapsto> concat bufs)"
      "w_names (rh_world h4) p = Some (Ino ?i)"
      "\<forall>a. w_attr (rh_world h4) ?i (''user.grid.'' @ a) = map_option bytes_of (map_of (rh_xattrs h) a)"
      "w_faults (rh_world h4) = []" "walk (w_names (rh_world h4)) p = None" "w_rd (rh_world h4) = w_rd w"
      "w_data (rh_world h4) ?i = concat bufs"
    by (rule rawx_put_ok [OF path inv room h(2) quiet(1) h(3) refl])
  have a: "ample k (Suc (Suc (length (concat bufs) + 2))) (bc_conn b)" using ample(1) by (simp add: numeral_eq_Suc)
  have ok: "Ok (status_of OK)" "Ok status_ok" by simp_all
  from put_ok [OF p(1) [unfolded h(1)] SoftError_Ok_200 p(2,3) ok(1) p(4) bufs c(1) ok(2) refl refl payload created(1) a created(2)]
  obtain b1 where
    b1: "sevents ml srv ([S_begin, S_url u, S_headers_complete HTTP_PUT] @ map S_body bufs @ [S_complete]) b = Some (0, b1)"
      "bc_handler b1 = h4" "ample k (length (concat bufs) + 2) (bc_conn b1)" "bc_version b1 = bc_version b"
      "bc_reply_headers b1 = bc_reply_headers b" "wire (bc_conn b1) = wire (bc_conn b) @ bytes_of created" by blast
  have "url_path parse_url u (bc_handler b1) p"
    using path c(2) b1(2) by (simp add: url_path_def same_config_def)
  from rawx_get_ok [OF this refl, of ?i batch k found ml lexer attempts] b1 c quiet(2) batch found ample(2)
  obtain b2 body n where "sevents ml srv [S_begin, S_url u, S_headers_complete HTTP_GET, S_complete] b1 = Some (0, b2)"
    "wire (bc_conn b2) = wire (bc_conn b1) @ bytes_of found @ body" "dechunk n body = Some (concat bufs, [])"
    unfolding h(3) by auto
  with b1 c(3-5) show ?thesis by (intro exI [of _ b1] exI [of _ b2] exI [of _ body] exI [of _ n] exI [of _ ?i]) simp
qed

text \<open>The smallest server: its root is the root, names are not hashed, and one attribute has been sent.\<close>

definition demo_rawx :: rawx_handler where
  "demo_rawx = (RawxHandler [] empty_world)\<lparr>rh_xattrs := [(''chunk.id'', ''C'')]\<rparr>"

definition demo_conn :: "rawx_handler \<Rightarrow> (rawx_handler, nat) blob_client" where
  "demo_conn = BlobClient demo_mill (open_conn [] [] (replicate 9 (Wr_n 1000)))"

lemma demo_conn_simps [simp]:
  "bc_handler (demo_conn h) = h" "bc_bytes_in (demo_conn h) = 0" "bc_md5 (demo_conn h) = 0" "bc_version (demo_conn h) = (0, 0)"
  "bc_reply_headers (demo_conn h) = []" "ample 1000 9 (bc_conn (demo_conn h))" "wire (bc_conn (demo_conn h)) = []"
  by (simp_all add: demo_conn_def BlobClient_def demo_mill_def Checksum_def ample_def open_conn_def wire_def)

lemma demo_rawx_simps [simp]:
  "rh_world demo_rawx = empty_world" "rh_xattrs demo_rawx = [(''chunk.id'', ''C'')]" "om_inv [(''chunk.id'', ''C'')]"
  "url_path path_url ''/a'' demo_rawx ''/a''" "room empty_world ''/a''"
proof -
  have "url_basename path_url ([] @ CHR ''/'' # ''a'') = Some (Inr ''a'')" by (rule path_url_basename) simp_all
  then show "url_path path_url ''/a'' demo_rawx ''/a''"
    by (simp add: url_path_def demo_rawx_def RawxHandler_def rawx_path_def)
qed (simp_all add: demo_rawx_def RawxHandler_def om_inv_def room_def empty_world_def fs_ok_def names_ok_def walk.simps parent_of_def)

lemma empty_world_quiet [simp]: "quiet_wr (w_wr empty_world)" "quiet_rd (w_rd empty_world)"
  by (simp_all add: empty_world_def quiet_wr_def quiet_rd_def)

theorem rawx_server_put_get_witness:
  "\<exists>b1 b2 n body. sevents demo_mill (rawx_blob_handler path_url (\<lambda>_. RH_Unexpected) 2 5)
      [S_begin, S_url ''/a'', S_headers_complete HTTP_PUT, S_body [1, 2], S_body [3], S_complete] (demo_conn demo_rawx) = Some (0, b1)
    \<and> files (rh_world (bc_handler b1)) ''/a'' = Some [1, 2, 3]
    \<and> sevents demo_mill (rawx_blob_handler path_url (\<lambda>_. RH_Unexpected) 2 5)
      [S_begin, S_url ''/a'', S_headers_complete HTTP_GET, S_complete] b1 = Some (0, b2)
    \<and> dechunk n body = Some ([1, 2, 3], [])"
proof -
  let ?bufs = "[[1, 2], [3]] :: bytes list" and ?b = "demo_conn demo_rawx"
  have "length (reply_text (0, 0) [] 201 ''OK'' ''x'') \<le> 1000" "length (concat (preamble (0, 0) 200 ''OK'' (- 1) [])) \<le> 1000"
    by code_simp+
  moreover have "''x'' = c_str (ml_render demo_mill ts)" for ts by (simp add: demo_mill_def c_str_def)
  moreover have "ample 1000 (length (concat ?bufs) + 4) (bc_conn ?b)" by (rule ample_mono [of 1000 9]) simp_all
  ultimately show ?thesis
    using rawx_server_put_get [of demo_rawx ?b empty_world "rawx_blob_handler path_url (\<lambda>_. RH_Unexpected) 2 5" path_url
        "\<lambda>_. RH_Unexpected" 2 5 "''/a''" "''/a''" ?bufs "''x''" demo_mill "reply_text (0, 0) [] 201 ''OK'' ''x''" 1000
        "concat (preamble (0, 0) 200 ''OK'' (- 1) [])"]
    by (auto simp del: sevents.simps) blast
qed

text \<open>C14. A PUT whose connection is lost before its end leaves its pending file: nothing is found under the name,
  and yet every later PUT of it, on any connection, is refused with 406 as if the blob was there.\<close>

theorem rawx_server_interrupted_put:
  assumes h: "h = bc_handler b" "w = rh_world h" "srv = rawx_blob_handler parse_url lexer batch attempts"
    and path: "url_path parse_url u h p" and inv: "om_inv (rh_xattrs h)" and room: "room w p" and quiet: "quiet_wr (w_wr w)"
    and bufs: "\<forall>x \<in> set bufs. x \<noteq> [] \<and> length x < 2 ^ 32 - 1"
    and path': "url_path parse_url u' (bc_handler b') p" and inv': "om_inv (rh_xattrs (bc_handler b'))"
    and render: "\<forall>ts. ml_render ml ts \<noteq> []"
    and ample: "ample k 2 (bc_conn b')" "length (error_text ml b' 406 421 ''blobs found'') \<le> k"
  shows "\<exists>b1 b2. sevents ml srv ([S_begin, S_url u, S_headers_complete HTTP_PUT] @ map S_body bufs) b = Some (0, b1)
    \<and> files (rh_world (bc_handler b1)) p = None
    \<and> sevents ml srv [S_begin, S_url u', S_headers_complete HTTP_PUT]
        (b'\<lparr>bc_handler := (bc_handler b')\<lparr>rh_world := rh_world (bc_handler b1)\<rparr>\<rparr>) = Some (1, b2)
    \<and> wire (bc_conn b2) = wire (bc_conn b') @ bytes_of (error_text ml b' 406 421 ''blobs found'')
    \<and> rh_world (bc_handler b2) = rh_world (bc_handler b1)"
proof -
  let ?i = "w_next w" and ?t = "p @ ''.pending''"
  have "room (rh_world h) p" using room h(2) by simp
  from rawx_prepare_ok [OF path inv this, folded h(2)] obtain h1 g h2 where
    p: "bh_SetUrl srv u h = Some (SoftError 200 200 ''OK'', h1)" "bh_GetUpload srv h1 = Some g"
      "bh_up_Prepare srv g = Some (status_of OK, h2)" "rh_upload h2 = Some (upload_open p h ?i)"
      "rh_world h2 = pending_world p w" "p \<noteq> []"
    unfolding h(3) rawx_blob_handler_simps by blast
  have "quiet_wr (w_wr (rh_world h2))" using quiet p(5) by (simp add: pending_world_def)
  with rawx_writes [OF p(4), of ?i parse_url lexer batch attempts bufs] obtain evs where
    wr: "writes srv bufs h2 = Some (h2\<lparr>rh_world := (file_append ?i (concat bufs) (pending_world p w))\<lparr>w_wr := evs\<rparr>\<rparr>)"
    unfolding p(5) h(3) by auto
  define v where "v = (file_append ?i (concat bufs) (pending_world p w))\<lparr>w_wr := evs\<rparr>"
  have v: "w_names v ?t = Some (Ino ?i)" "w_names v p = None" "w_faults v = []" "walk (w_names v) p = None"
    using room by (simp_all add: v_def pending_world_def file_append_def room_def walk_upd)
  have ok: "Ok (status_of OK)" by simp
  from put_bodies [OF p(1) [unfolded h(1)] SoftError_Ok_200 p(2,3) ok wr bufs] obtain b1 where
    b1: "sevents ml srv ([S_begin, S_url u, S_headers_complete HTTP_PUT] @ map S_body bufs) b = Some (0, b1)"
      "rh_world (bc_handler b1) = v" by (simp add: v_def)
  define h' where "h' = (bc_handler b')\<lparr>rh_world := v\<rparr>"
  define c where "c = b'\<lparr>bc_handler := h'\<rparr>"
  have c: "bc_handler c = h'" "bc_conn c = bc_conn b'" "error_text ml c x y z = error_text ml b' x y z" for x y z
    by (simp_all add: c_def error_text_def)
  have "url_path parse_url u' h' p" using path' by (simp add: url_path_def h'_def)
  from rawx_url [OF this] obtain f where f: "bh_SetUrl srv u' (bc_handler c) = Some (SoftError 200 200 ''OK'', h'\<lparr>rh_filename := f\<rparr>)"
    "RawxHandler_path (h'\<lparr>rh_filename := f\<rparr>) = Some p" unfolding c(1) h(3) by auto
  define h3 where "h3 = h'\<lparr>rh_filename := f\<rparr>"
  define g3 where "g3 = h3\<lparr>rh_upload := Some (request_upload p h3)\<rparr>"
  have up: "bh_GetUpload srv h3 = Some g3"
    using rawx_get_upload [OF f(2)] inv' by (simp add: h(3) h3_def g3_def h'_def)
  have prep: "bh_up_Prepare srv g3 = Some (status_of Already, g3)"
    using upload_prepare_pending [of "request_upload p h3" p v] v p(6)
    by (simp add: h(3) with_upload_def g3_def h3_def h'_def)
  have "Why (status_of Already) = Already" "ample k (Suc (Suc 0)) (bc_conn c)"
    "length (error_text ml c 406 421 ''blobs found'') \<le> k" using ample c by (simp_all add: Why_def numeral_2_eq_2)
  from put_already [OF f(1) [folded h3_def] SoftError_Ok_200 up prep this(1,2) render this(3)] obtain b2 where
    "sevents ml srv [S_begin, S_url u', S_headers_complete HTTP_PUT] c = Some (1, b2)" "bc_handler b2 = g3"
    "wire (bc_conn b2) = wire (bc_conn b') @ bytes_of (error_text ml b' 406 421 ''blobs found'')" unfolding c by blast
  moreover have "rh_world g3 = v" by (simp add: g3_def h3_def h'_def)
  ultimately show ?thesis using b1 v(2)
    by (intro exI [of _ b1] exI [of _ b2]) (simp add: c_def h'_def files_def)
qed

theorem rawx_server_interrupted_put_witness:
  "\<exists>b1 b2. sevents demo_mill (rawx_blob_handler path_url (\<lambda>_. RH_Unexpected) 2 5)
      [S_begin, S_url ''/a'', S_headers_complete HTTP_PUT, S_body [1, 2]] (demo_conn demo_rawx) = Some (0, b1)
    \<and> sevents demo_mill (rawx_blob_handler path_url (\<lambda>_. RH_Unexpected) 2 5) [S_begin, S_url ''/a'', S_headers_complete HTTP_PUT]
      ((demo_conn demo_rawx)\<lparr>bc_handler := demo_rawx\<lparr>rh_world := rh_world (bc_handler b1)\<rparr>\<rparr>) = Some (1, b2)"
proof -
  let ?b = "demo_conn demo_rawx"
  have "length (reply_text (0, 0) [] 406 ''Error'' ''x'') \<le> 1000" by code_simp
  then have "length (error_text demo_mill ?b 406 421 ''blobs found'') \<le> 1000" by (simp add: error_text_def demo_mill_def)
  moreover have "ample 1000 2 (bc_conn ?b)" by (rule ample_mono [of 1000 9]) simp_all
  moreover have "\<forall>ts. ml_render demo_mill ts \<noteq> []" by (simp add: demo_mill_def)
  ultimately show ?thesis
    using rawx_server_interrupted_put [of demo_rawx ?b empty_world "rawx_blob_handler path_url (\<lambda>_. RH_Unexpected) 2 5" path_url
        "\<lambda>_. RH_Unexpected" 2 5 "''/a''" "''/a''" "[[1, 2]]" "''/a''" ?b demo_mill 1000]
    by (auto simp del: sevents.simps)
qed

end
