(* ===== verification/Handler_Contract.thy ===== *)
theory Handler_Contract
  imports Mill_Daemon
begin

text \<open>
  What a handler keeps of its state, as locales: a predicate that the operations of the handler keep
  holds on a connection for as long as it lives, whatever the client sends and the parser finds in it
  (\<open>handler_inv\<close>); one that all of them keep but the making of a removal holds for as long as nothing
  is asked to be deleted (\<open>handler_serving\<close>).  The handlers of the server programs interpret them.
\<close>

locale handler_serving =
  fixes bh :: "'s blob_handler"
    and P :: "'s \<Rightarrow> bool"
  assumes SetUrl: "bh_SetUrl bh u s = Some (e, s') \<Longrightarrow> P s \<Longrightarrow> P s'"
    and SetHeader: "bh_SetHeader bh k v s = Some (e, s') \<Longrightarrow> P s \<Longrightarrow> P s'"
    and GetUpload: "bh_GetUpload bh s = Some s' \<Longrightarrow> P s \<Longrightarrow> P s'"
    and up_Prepare: "bh_up_Prepare bh s = Some (rc, s') \<Longrightarrow> P s \<Longrightarrow> P s'"
    and up_Write: "bh_up_Write bh buf s = Some s' \<Longrightarrow> P s \<Longrightarrow> P s'"
    and up_Commit: "bh_up_Commit bh s = Some (rc, s') \<Longrightarrow> P s \<Longrightarrow> P s'"
    and GetDownload: "bh_GetDownload bh s = Some s' \<Longrightarrow> P s \<Longrightarrow> P s'"
    and dl_Prepare: "bh_dl_Prepare bh s = Some (rc, s') \<Longrightarrow> P s \<Longrightarrow> P s'"
    and dl_Read: "bh_dl_Read bh s = Some (buf, s') \<Longrightarrow> P s \<Longrightarrow> P s'"
    and rm_Prepare: "bh_rm_Prepare bh s = Some (rc, s') \<Longrightarrow> P s \<Longrightarrow> P s'"
    and rm_Commit: "bh_rm_Commit bh s = Some (rc, s') \<Longrightarrow> P s \<Longrightarrow> P s'"

locale handler_inv = handler_serving +
  assumes GetRemoval: "bh_GetRemoval bh s = Some s' \<Longrightarrow> P s \<Longrightarrow> P s'"

text \<open>Replies do not concern the handler.\<close>

named_theorems keeps_handler

lemma client_send_iov_handler [keeps_handler]: "client_send_iov iov b = Some b' \<Longrightarrow> bc_handler b' = bc_handler b"
  by (auto simp: client_send_iov_def split: bind_splits)

lemma client_send_handler [keeps_handler]: "client_send s b = Some b' \<Longrightarrow> bc_handler b' = bc_handler b"
  by (auto simp: client_send_def split: bind_splits)

lemma ReplyPreamble_handler [keeps_handler]: "ReplyPreamble n msg l b = Some b' \<Longrightarrow> bc_handler b' = bc_handler b"
  unfolding ReplyPreamble_def by (rule client_send_iov_handler)

lemma ReplyError_handler [keeps_handler]: "ReplyError ml e b = Some b' \<Longrightarrow> bc_handler b' = bc_handler b"
  by (auto simp: ReplyError_def Let_def dest!: ReplyPreamble_handler client_send_handler split: bind_splits)

lemma ReplySuccess_handler [keeps_handler]: "ReplySuccess b = Some b' \<Longrightarrow> bc_handler b' = bc_handler b"
  unfolding ReplySuccess_def by (rule ReplyPreamble_handler)

lemma ReplySuccess_payload_handler [keeps_handler]: "ReplySuccess_payload n p b = Some b' \<Longrightarrow> bc_handler b' = bc_handler b"
  by (auto simp: ReplySuccess_payload_def dest!: ReplyPreamble_handler client_send_handler split: bind_splits)

lemma ReplyStream_handler [keeps_handler]: "ReplyStream b = Some b' \<Longrightarrow> bc_handler b' = bc_handler b"
  unfolding ReplyStream_def by (rule ReplyPreamble_handler)

lemma ReplyEndOfStream_handler [keeps_handler]: "ReplyEndOfStream b = Some b' \<Longrightarrow> bc_handler b' = bc_handler b"
  unfolding ReplyEndOfStream_def by (rule client_send_handler)

lemma Reply100_handler [keeps_handler]: "Reply100 b = Some b' \<Longrightarrow> bc_handler b' = bc_handler b"
  by (auto simp: Reply100_def dest!: ReplyPreamble_handler split: if_splits)

lemma fail_with_handler [keeps_handler]: "fail_with ml h n why b = Some (i, b') \<Longrightarrow> bc_handler b' = bc_handler b"
  by (auto simp: fail_with_def dest!: ReplyError_handler split: bind_splits)

lemma on_handler_D [keeps_handler]:
  "on_handler f b = Some (rc, b') \<Longrightarrow> f (bc_handler b) = Some (rc, bc_handler b')"
  by (auto simp: on_handler_def split: bind_splits)

lemma upd_settings_handler [simp]: "bc_handler (upd_settings f b) = bc_handler b"
  by (simp add: upd_settings_def)

lemma ignore_upload_handler [simp]: "bc_handler (ignore_upload b) = bc_handler b"
  by (simp add: ignore_upload_def)

lemma SaveError_handler [simp]: "bc_handler (SaveError e b) = bc_handler b"
  by (simp add: SaveError_def Let_def)

text \<open>Nor do they concern the settings, and no callback but that of the headers of a DELETE makes the next headers one.\<close>

named_theorems keeps_settings

lemma client_send_settings [keeps_settings]:
  "client_send_iov iov b = Some b' \<Longrightarrow> bc_settings b' = bc_settings b" "client_send s b = Some b' \<Longrightarrow> bc_settings b' = bc_settings b"
  by (auto simp: client_send_iov_def client_send_def split: bind_splits)

lemma ReplyPreamble_settings [keeps_settings]: "ReplyPreamble n msg l b = Some b' \<Longrightarrow> bc_settings b' = bc_settings b"
  unfolding ReplyPreamble_def by (rule client_send_settings)

lemma ReplyError_settings [keeps_settings]: "ReplyError ml e b = Some b' \<Longrightarrow> bc_settings b' = bc_settings b"
  by (auto simp: ReplyError_def Let_def dest!: ReplyPreamble_settings client_send_settings split: bind_splits)

lemma Reply_settings [keeps_settings]:
  "ReplySuccess b = Some b' \<Longrightarrow> bc_settings b' = bc_settings b" "ReplyStream b = Some b' \<Longrightarrow> bc_settings b' = bc_settings b"
  "ReplyEndOfStream b = Some b' \<Longrightarrow> bc_settings b' = bc_settings b"
  unfolding ReplySuccess_def ReplyStream_def ReplyEndOfStream_def by (fact ReplyPreamble_settings client_send_settings)+

lemma ReplySuccess_payload_settings [keeps_settings]: "ReplySuccess_payload n p b = Some b' \<Longrightarrow> bc_settings b' = bc_settings b"
  by (auto simp: ReplySuccess_payload_def dest!: ReplyPreamble_settings client_send_settings split: bind_splits)

lemma Reply100_settings [keeps_settings]: "Reply100 b = Some b' \<Longrightarrow> bc_settings b' = bc_settings b"
  by (auto simp: Reply100_def dest!: ReplyPreamble_settings split: if_splits)

lemma fail_with_settings [keeps_settings]: "fail_with ml h n why b = Some (i, b') \<Longrightarrow> bc_settings b' = bc_settings b"
  by (auto simp: fail_with_def dest!: ReplyError_settings split: bind_splits)

lemma on_handler_settings [keeps_settings]: "on_handler f b = Some (rc, b') \<Longrightarrow> bc_settings b' = bc_settings b"
  by (auto simp: on_handler_def split: bind_splits)

lemma stream_loop_settings [keeps_settings]:
  assumes "stream_loop bh b = Some b'"
  shows "bc_settings b' = bc_settings b"
proof (rule stream_loop.raw_induct [OF _ assms, where P = "\<lambda>bh b b'. bc_settings b' = bc_settings b"])
  fix loop bh b c
  assume ih: "\<And>bh b y. loop bh b = Some y \<Longrightarrow> bc_settings y = bc_settings b"
    and eq: "(if bh_dl_IsEof bh (bc_handler b) then Some b
      else do {
        (buf, h) \<leftarrow> bh_dl_Read bh (bc_handler b);
        b' \<leftarrow> (if buf \<noteq> [] then client_send_iov (chunk_iov buf) (b\<lparr>bc_handler := h\<rparr>) else Some (b\<lparr>bc_handler := h\<rparr>));
        loop bh b'
      }) = Some c"
  then show "bc_settings c = bc_settings b"
    by (auto split: if_splits bind_splits dest!: ih client_send_settings)
qed

lemma headers_UPLOAD_common:
  assumes "on_headers_complete_UPLOAD ml bh b = Some (i, b')"
  shows "on_headers (bc_settings b') = on_headers (bc_settings b)"
proof -
  from assms obtain b1 h where 1: "Reply100 b = Some b1" "bh_GetUpload bh (bc_handler b1) = Some h"
    by (auto simp: on_headers_complete_UPLOAD_def split: bind_splits)
  with assms obtain rc b3 where p: "on_handler (bh_up_Prepare bh) (b1\<lparr>bc_upload := True, bc_handler := h\<rparr>) = Some (rc, b3)"
    by (cases "on_handler (bh_up_Prepare bh) (b1\<lparr>bc_upload := True, bc_handler := h\<rparr>)")
      (auto simp: on_headers_complete_UPLOAD_def)
  have "on_headers (bc_settings b') = on_headers (bc_settings b3)"
  proof (cases "Ok rc")
    case True
    with assms 1 p show ?thesis by (auto simp: on_headers_complete_UPLOAD_def upd_settings_def)
  next
    case False
    with assms 1 p show ?thesis
      by (cases "Why rc") (auto simp: on_headers_complete_UPLOAD_def upd_settings_def ignore_upload_def split: bind_splits dest!: keeps_settings)
  qed
  with 1(1) p show ?thesis by (auto dest!: keeps_settings)
qed

lemma headers_DOWNLOAD_common:
  assumes "on_headers_complete_DOWNLOAD ml bh b = Some (i, b')"
  shows "on_headers (bc_settings b') = on_headers (bc_settings b)"
proof -
  note d = on_headers_complete_DOWNLOAD_def
  from assms obtain h where h: "bh_GetDownload bh (bc_handler b) = Some h"
    by (cases "bh_GetDownload bh (bc_handler b)") (simp_all add: d)
  with assms obtain rc b2 where p: "on_handler (bh_dl_Prepare bh) (b\<lparr>bc_download := True, bc_handler := h\<rparr>) = Some (rc, b2)"
    by (cases "on_handler (bh_dl_Prepare bh) (b\<lparr>bc_download := True, bc_handler := h\<rparr>)") (auto simp: d)
  from assms have "on_headers (bc_settings b') = on_headers (bc_settings b2)"
    by (cases "Why rc") (auto simp: d h p upd_settings_def split: bind_splits dest!: keeps_settings)
  with p show ?thesis by (auto dest!: keeps_settings)
qed

lemma complete_settings:
  "on_message_complete_UPLOAD ml bh b = Some (i, b') \<Longrightarrow> bc_settings b' = bc_settings b"
  "on_message_complete_DOWNLOAD bh b = Some (i, b') \<Longrightarrow> bc_settings b' = bc_settings b"
  "on_message_complete_REMOVAL ml bh b = Some (i, b') \<Longrightarrow> bc_settings b' = bc_settings b"
proof -
  show "on_message_complete_UPLOAD ml bh b = Some (i, b') \<Longrightarrow> bc_settings b' = bc_settings b"
    by (auto simp: on_message_complete_UPLOAD_def Let_def split: bind_splits if_splits dest!: keeps_settings)
  show "on_message_complete_DOWNLOAD bh b = Some (i, b') \<Longrightarrow> bc_settings b' = bc_settings b"
    by (auto simp: on_message_complete_DOWNLOAD_def split: bind_splits if_splits dest!: keeps_settings)
  show "on_message_complete_REMOVAL ml bh b = Some (i, b') \<Longrightarrow> bc_settings b' = bc_settings b"
    by (auto simp: on_message_complete_REMOVAL_def split: bind_splits if_splits dest!: keeps_settings)
qed

lemma sevent_headers_common:
  assumes "on_sevent ml bh e b = Some (i, b')" and "e \<noteq> S_headers_complete HTTP_DELETE"
    and "on_headers (bc_settings b) = Headers_common"
  shows "on_headers (bc_settings b') = Headers_common"
proof (cases e)
  case (S_headers_complete m)
  with assms have run: "on_headers_complete_COMMON ml bh m b = Some (i, b')" "m \<noteq> HTTP_DELETE" by auto
  show ?thesis
  proof (cases "SoftError_Ok (bc_defered b)")
    case True
    with run assms(3) show ?thesis
      by (cases m) (auto simp: on_headers_complete_COMMON_def method_settings_def
          dest!: headers_UPLOAD_common headers_DOWNLOAD_common fail_with_settings)
  next
    case False
    with run assms(3) show ?thesis by (auto simp: on_headers_complete_COMMON_def split: bind_splits dest!: keeps_settings)
  qed
next
  case (S_url u)
  with assms show ?thesis by (auto simp: on_url_COMMON_def SaveError_def upd_settings_def Let_def split: bind_splits if_splits)
next
  case (S_value v)
  with assms show ?thesis by (auto simp: on_header_value_COMMON_def Let_def split: bind_splits if_splits field_cb.splits)
next
  case (S_body buf)
  with assms show ?thesis by (auto simp: on_body_UPLOAD_def split: bind_splits if_splits body_cb.splits)
next
  case S_complete
  with assms show ?thesis by (auto split: complete_cb.splits dest!: complete_settings)
qed (use assms in \<open>auto simp: BlobClient_Reset_def start_settings_def on_header_field_COMMON_def split: if_splits field_cb.splits\<close>)

context handler_serving
begin

lemma headers_UPLOAD:
  assumes "on_headers_complete_UPLOAD ml bh b = Some (i, b')" and "P (bc_handler b)"
  shows "P (bc_handler b')"
  using assms by (auto simp: on_headers_complete_UPLOAD_def Let_def split: bind_splits if_splits cause.splits
      dest!: Reply100_handler ReplyError_handler fail_with_handler on_handler_D GetUpload up_Prepare)

lemma headers_DOWNLOAD:
  assumes "on_headers_complete_DOWNLOAD ml bh b = Some (i, b')" and "P (bc_handler b)"
  shows "P (bc_handler b')"
proof -
  note d = on_headers_complete_DOWNLOAD_def
  from assms(1) obtain h where h: "bh_GetDownload bh (bc_handler b) = Some h"
    by (cases "bh_GetDownload bh (bc_handler b)") (simp_all add: d)
  with assms(1) obtain rc b2 where p: "on_handler (bh_dl_Prepare bh) (b\<lparr>bc_download := True, bc_handler := h\<rparr>) = Some (rc, b2)"
    by (cases "on_handler (bh_dl_Prepare bh) (b\<lparr>bc_download := True, bc_handler := h\<rparr>)") (auto simp: d)
  from assms(1) have "bc_handler b' = bc_handler b2"
    by (cases "Why rc") (auto simp: d h p split: bind_splits dest!: Reply100_handler ReplyStream_handler ReplyError_handler)
  moreover from h assms(2) have "P h" by (rule GetDownload)
  ultimately show ?thesis using on_handler_D [OF p] dl_Prepare by simp
qed

lemma stream_loop_inv:
  assumes "stream_loop bh b = Some b'" and "P (bc_handler b)"
  shows "P (bc_handler b')"
proof -
  have "bh = bh \<longrightarrow> P (bc_handler b) \<longrightarrow> P (bc_handler b')"
  proof (rule stream_loop.raw_induct [OF _ assms(1), where P = "\<lambda>bh' b b'. bh' = bh \<longrightarrow> P (bc_handler b) \<longrightarrow> P (bc_handler b')"], safe)
    fix loop b c
    assume ih: "\<And>bh' b y. loop bh' b = Some y \<Longrightarrow> bh' = bh \<longrightarrow> P (bc_handler b) \<longrightarrow> P (bc_handler y)"
      and eq: "(if bh_dl_IsEof bh (bc_handler b) then Some b
        else do {
          (buf, h) \<leftarrow> bh_dl_Read bh (bc_handler b);
          b' \<leftarrow> (if buf \<noteq> [] then client_send_iov (chunk_iov buf) (b\<lparr>bc_handler := h\<rparr>) else Some (b\<lparr>bc_handler := h\<rparr>));
          loop bh b'
        }) = Some c" and p: "P (bc_handler b)"
    show "P (bc_handler c)"
    proof (cases "bh_dl_IsEof bh (bc_handler b)")
      case False
      with eq obtain buf h b1 where r: "bh_dl_Read bh (bc_handler b) = Some (buf, h)"
        "(if buf \<noteq> [] then client_send_iov (chunk_iov buf) (b\<lparr>bc_handler := h\<rparr>) else Some (b\<lparr>bc_handler := h\<rparr>)) = Some b1"
        "loop bh b1 = Some c" by (auto split: bind_splits)
      from r(2) have "bc_handler b1 = h" by (auto dest!: keeps_handler split: if_splits)
      with r ih p dl_Read show ?thesis by blast
    qed (use eq p in simp)
  qed
  with assms(2) show ?thesis by simp
qed

lemma complete_UPLOAD:
  assumes "on_message_complete_UPLOAD ml bh b = Some (i, b')" and "P (bc_handler b)"
  shows "P (bc_handler b')"
proof -
  from assms(1) obtain rc b1 where "on_handler (bh_up_Commit bh) b = Some (rc, b1)" "bc_handler b' = bc_handler b1"
    by (auto simp: on_message_complete_UPLOAD_def Let_def split: bind_splits if_splits dest!: keeps_handler)
  with assms(2) show ?thesis using up_Commit by (auto dest!: on_handler_D)
qed

lemma complete_REMOVAL:
  assumes "on_message_complete_REMOVAL ml bh b = Some (i, b')" and "P (bc_handler b)"
  shows "P (bc_handler b')"
proof -
  from assms(1) obtain rc b1 where "on_handler (bh_rm_Commit bh) b = Some (rc, b1)" "bc_handler b' = bc_handler b1"
    by (auto simp: on_message_complete_REMOVAL_def Let_def split: bind_splits if_splits dest!: keeps_handler)
  with assms(2) show ?thesis using rm_Commit by (auto dest!: on_handler_D)
qed

lemma complete_DOWNLOAD:
  assumes "on_message_complete_DOWNLOAD bh b = Some (i, b')" and "P (bc_handler b)"
  shows "P (bc_handler b')"
  using assms by (auto simp: on_message_complete_DOWNLOAD_def split: bind_splits if_splits
      dest!: ReplyEndOfStream_handler stream_loop_inv)

lemma body_UPLOAD:
  assumes "on_body_UPLOAD ml bh buf b = Some (i, b')" and "P (bc_handler b)"
  shows "P (bc_handler b')"
  using assms up_Write by (auto simp: on_body_UPLOAD_def split: bind_splits if_splits)

lemma value_COMMON:
  assumes "on_header_value_COMMON ml bh v b = Some (i, b')" and "P (bc_handler b)"
  shows "P (bc_handler b')"
  using assms SetHeader by (fastforce simp: on_header_value_COMMON_def Let_def split: bind_splits if_splits)

lemma url_COMMON:
  assumes "on_url_COMMON bh u b = Some (i, b')" and "P (bc_handler b)"
  shows "P (bc_handler b')"
  using assms SetUrl by (auto simp: on_url_COMMON_def split: bind_splits)

text \<open>An event that asks for no deletion.\<close>

lemma headers_no_delete:
  assumes "on_headers_complete_COMMON ml bh m b = Some (i, b')" and "P (bc_handler b)" and "m \<noteq> HTTP_DELETE"
  shows "P (bc_handler b')"
  using assms by (auto simp: on_headers_complete_COMMON_def split: bind_splits if_splits http_method.splits
      dest!: ReplyError_handler fail_with_handler headers_UPLOAD headers_DOWNLOAD)

lemma sevent_no_delete:
  assumes "on_sevent ml bh e b = Some (i, b')" and "P (bc_handler b)" and "e \<noteq> S_headers_complete HTTP_DELETE"
    and "on_headers (bc_settings b) = Headers_common"
  shows "P (bc_handler b')"
  using assms
  by (cases e) (auto simp: BlobClient_Reset_def on_header_field_COMMON_def split: field_cb.splits
      body_cb.splits complete_cb.splits if_splits
      dest!: url_COMMON value_COMMON headers_no_delete body_UPLOAD complete_UPLOAD complete_DOWNLOAD complete_REMOVAL)

end

context handler_inv
begin

lemmas ops = SetUrl SetHeader GetUpload up_Prepare up_Write up_Commit GetDownload dl_Prepare dl_Read GetRemoval
  rm_Prepare rm_Commit

lemma headers_REMOVAL:
  assumes "on_headers_complete_REMOVAL ml bh b = Some (i, b')" and "P (bc_handler b)"
  shows "P (bc_handler b')"
  using assms by (auto simp: on_headers_complete_REMOVAL_def Let_def split: bind_splits if_splits cause.splits
      dest!: Reply100_handler fail_with_handler on_handler_D GetRemoval rm_Prepare)

lemma headers_COMMON:
  assumes "on_headers_complete_COMMON ml bh m b = Some (i, b')" and "P (bc_handler b)"
  shows "P (bc_handler b')"
  using assms by (auto simp: on_headers_complete_COMMON_def split: bind_splits if_splits http_method.splits
      dest!: ReplyError_handler fail_with_handler headers_UPLOAD headers_DOWNLOAD headers_REMOVAL)

lemma sevent_inv:
  assumes "on_sevent ml bh e b = Some (i, b')" and "P (bc_handler b)"
  shows "P (bc_handler b')"
  using assms
  by (cases e) (auto simp: BlobClient_Reset_def on_header_field_COMMON_def split: field_cb.splits headers_cb.splits
      body_cb.splits complete_cb.splits if_splits
      dest!: url_COMMON value_COMMON headers_COMMON headers_REMOVAL body_UPLOAD complete_UPLOAD complete_DOWNLOAD complete_REMOVAL)

lemma sevents_inv: "sevents ml bh es b = Some (i, b') \<Longrightarrow> P (bc_handler b) \<Longrightarrow> P (bc_handler b')"
  by (induction es arbitrary: b) (auto split: bind_splits if_splits dest!: sevent_inv)

lemma execute_inv:
  assumes "execute qp ml bh p b = Some (n, p', b')" and "P (bc_handler b)"
  shows "P (bc_handler b')"
proof -
  have "bh = bh \<longrightarrow> P (bc_handler b) \<longrightarrow> P (bc_handler (snd (snd (n, p', b'))))"
    by (rule execute.raw_induct [OF _ assms(1), where P = "\<lambda>qp ml bh' p b r. bh' = bh \<longrightarrow> P (bc_handler b) \<longrightarrow> P (bc_handler (snd (snd r)))"])
      (fastforce split: sum.splits bind_splits dest!: sevent_inv)
  with assms(2) show ?thesis by simp
qed

lemma feed_inv:
  assumes "feed qp ml bh bs p b = Some (good, p', b')" and "P (bc_handler b)"
  shows "P (bc_handler b')"
proof -
  have "bh = bh \<longrightarrow> P (bc_handler b) \<longrightarrow> P (bc_handler (snd (snd (good, p', b'))))"
    by (rule feed.raw_induct [OF _ assms(1), where P = "\<lambda>qp ml bh' bs p b r. bh' = bh \<longrightarrow> P (bc_handler b) \<longrightarrow> P (bc_handler (snd (snd r)))"])
      (fastforce split: bind_splits if_splits dest!: execute_inv)
  with assms(2) show ?thesis by simp
qed

lemma run_loop_inv: "run_loop qp ml bh n p b = Some b' \<Longrightarrow> P (bc_handler b) \<Longrightarrow> P (bc_handler b')"
proof (induction n arbitrary: p b)
  case (Suc n)
  then show ?case
    by (auto simp: Let_def split: bind_splits rd_result.splits if_splits dest!: feed_inv)
qed simp

lemma run_inv:
  assumes "BlobClient_Run qp ml bh n b = Some b'" and "P (bc_handler b)"
  shows "P (bc_handler b')"
  using assms by (auto simp: BlobClient_Run_def BlobClient_Reset_def split: bind_splits dest!: run_loop_inv)

end

section \<open>Connections that delete nothing\<close>

text \<open>
  What a connection becomes: by an event, whatever its callback answers, other than the headers of a DELETE, or by anything
  that concerns neither the handler nor the settings (reads, the version of the protocol).
\<close>

inductive serves :: "'d mill_lib \<Rightarrow> 's blob_handler \<Rightarrow> ('s, 'd) blob_client \<Rightarrow> ('s, 'd) blob_client \<Rightarrow> bool"
  for ml bh b where
  serves_refl: "serves ml bh b b"
| serves_event: "serves ml bh b b1 \<Longrightarrow> on_sevent ml bh e b1 = Some (i, b2) \<Longrightarrow> e \<noteq> S_headers_complete HTTP_DELETE \<Longrightarrow>
    serves ml bh b b2"
| serves_other: "serves ml bh b b1 \<Longrightarrow> bc_handler b2 = bc_handler b1 \<Longrightarrow> bc_settings b2 = bc_settings b1 \<Longrightarrow>
    serves ml bh b b2"

lemma serves_common:
  "serves ml bh b b' \<Longrightarrow> on_headers (bc_settings b) = Headers_common \<Longrightarrow> on_headers (bc_settings b') = Headers_common"
  by (induction rule: serves.induct) (auto intro: sevent_headers_common)

lemma serves_trans: "serves ml bh b1 b2 \<Longrightarrow> serves ml bh b b1 \<Longrightarrow> serves ml bh b b2"
  by (induction rule: serves.induct) (auto intro: serves_event serves_other)

lemma sevents_serves:
  "sevents ml bh es b1 = Some (i, b2) \<Longrightarrow> S_headers_complete HTTP_DELETE \<notin> set es \<Longrightarrow> serves ml bh b b1 \<Longrightarrow> serves ml bh b b2"
proof (induction es arbitrary: b1)
  case (Cons e es)
  from Cons.prems(1) obtain j b' where 1: "on_sevent ml bh e b1 = Some (j, b')"
    "(if j \<noteq> 0 then Some (j, b') else sevents ml bh es b') = Some (i, b2)" by (auto split: bind_splits)
  from serves_event [OF Cons.prems(3) 1(1)] Cons.prems(2) have "serves ml bh b b'" by auto
  with 1(2) Cons.IH Cons.prems(2) show ?case by (auto split: if_splits)
qed simp

text \<open>The loop over a connection whose parser announces no DELETE is one of them.\<close>

definition never_deletes :: "'p req_parser \<Rightarrow> bool" where
  "never_deletes qp = (\<forall>p k. qp_next qp p \<noteq> Inl (S_headers_complete HTTP_DELETE, k))"

lemma execute_serves:
  assumes "execute qp ml bh p b = Some (n, p', b')" and "never_deletes qp"
  shows "serves ml bh b b'"
proof -
  have "never_deletes qp \<longrightarrow> serves ml bh b (snd (snd (n, p', b')))"
  proof (rule execute.raw_induct [OF _ assms(1), where P = "\<lambda>qp ml bh p b r. never_deletes qp \<longrightarrow> serves ml bh b (snd (snd r))"], rule impI)
    fix loop qp ml bh p b r
    assume ih: "\<And>qp ml bh p b r. loop qp ml bh p b = Some r \<Longrightarrow> never_deletes qp \<longrightarrow> serves ml bh b (snd (snd r))"
      and run: "(case qp_next qp p of Inr (n, p') \<Rightarrow> Some (n, p', b) | Inl (ev, k) \<Rightarrow> do {
          (code', b') \<leftarrow> on_sevent ml bh ev (b\<lparr>bc_version := qp_version qp p\<rparr>);
          loop qp ml bh (k code') b'
        }) = Some r" and nd: "never_deletes qp"
    show "serves ml bh b (snd (snd r))"
    proof (cases "qp_next qp p")
      case (Inr x)
      with run show ?thesis by (auto intro: serves_refl split: prod.splits)
    next
      case (Inl x)
      obtain ev k where x: "x = (ev, k)" by fastforce
      with Inl run obtain i b' where e: "on_sevent ml bh ev (b\<lparr>bc_version := qp_version qp p\<rparr>) = Some (i, b')"
        "loop qp ml bh (k i) b' = Some r" by (auto split: bind_splits)
      have "serves ml bh b (b\<lparr>bc_version := qp_version qp p\<rparr>)" by (rule serves_other [OF serves_refl]) simp_all
      from serves_event [OF this e(1)] nd Inl x have "serves ml bh b b'" by (auto simp: never_deletes_def)
      with ih [OF e(2)] nd show ?thesis by (blast intro: serves_trans)
    qed
  qed
  with assms(2) show ?thesis by simp
qed

lemma feed_serves:
  assumes "feed qp ml bh bs p b = Some (good, p', b')" and "never_deletes qp"
  shows "serves ml bh b b'"
proof -
  have "never_deletes qp \<longrightarrow> serves ml bh b (snd (snd (good, p', b')))"
    by (rule feed.raw_induct [OF _ assms(1), where P = "\<lambda>qp ml bh bs p b r. never_deletes qp \<longrightarrow> serves ml bh b (snd (snd r))"])
      (fastforce split: bind_splits if_splits dest!: execute_serves intro: serves_refl serves_trans)
  with assms(2) show ?thesis by simp
qed

lemma run_loop_serves:
  "run_loop qp ml bh n p b = Some b' \<Longrightarrow> never_deletes qp \<Longrightarrow> serves ml bh b b'"
proof (induction n arbitrary: p b)
  case (Suc n)
  from Suc.prems(1) obtain r c where r: "conn_read 32768 (bc_conn b) = Some (r, c)" by (auto split: bind_splits)
  have conn: "serves ml bh b (b\<lparr>bc_conn := c\<rparr>)" by (rule serves_other [OF serves_refl]) simp_all
  have "serves ml bh (b\<lparr>bc_conn := c\<rparr>) b'"
  proof (cases r)
    case (Got bs)
    with Suc.prems(1) r obtain good p' b2 where f: "feed qp ml bh bs p (b\<lparr>bc_conn := c\<rparr>) = Some (good, p', b2)"
      "(if good then run_loop qp ml bh n p' b2 else Some b2) = Some b'" by (auto simp: Let_def split: bind_splits)
    from f(2) Suc.IH [OF _ Suc.prems(2), of p' b2] have "serves ml bh b2 b'" by (cases good) (simp_all add: serves_refl)
    with feed_serves [OF f(1) Suc.prems(2)] show ?thesis by (blast intro: serves_trans)
  next
    case (Failed e)
    with Suc.prems r Suc.IH [of p "b\<lparr>bc_conn := c\<rparr>"] show ?thesis by (cases "e = EAGAIN") (simp_all add: serves_refl)
  qed (use Suc.prems(1) r in \<open>auto simp: serves_refl\<close>)
  with conn show ?case by (blast intro: serves_trans)
qed (simp add: serves_refl)

lemma run_serves:
  assumes "BlobClient_Run qp ml bh n b = Some b'" and "never_deletes qp"
  shows "serves ml bh b b'"
proof -
  from assms(1) obtain b1 where 1: "run_loop qp ml bh n (qp_init qp) (BlobClient_Reset b) = Some b1"
    "b' = b1\<lparr>bc_conn := conn_close (bc_conn b1)\<rparr>" by (auto simp: BlobClient_Run_def split: bind_splits)
  have "serves ml bh b (BlobClient_Reset b)" by (rule serves_event [OF serves_refl, of ml bh S_begin _ 0]) simp_all
  with run_loop_serves [OF 1(1) assms(2)] have "serves ml bh b b1" by (rule serves_trans)
  then show ?thesis by (rule serves_other) (simp_all add: 1(2))
qed

context handler_serving
begin

lemma serves_inv:
  "serves ml bh b b' \<Longrightarrow> on_headers (bc_settings b) = Headers_common \<Longrightarrow> P (bc_handler b) \<Longrightarrow> P (bc_handler b')"
  by (induction rule: serves.induct) (auto dest: serves_common intro: sevent_no_delete)

end

section \<open>Headers\<close>

fun header_events :: "(string \<times> string) list \<Rightarrow> sevent list" where
  "header_events [] = []"
| "header_events ((k, v) # kvs) = S_field k # S_value v # header_events kvs"

lemma sevents_append_None: "sevents ml bh es b = None \<Longrightarrow> sevents ml bh (es @ fs) b = None"
  by (induction es arbitrary: b) (auto split: bind_splits if_splits)

text \<open>The connection after the line of a request, and after its headers.\<close>

definition in_headers :: "soft_error \<Rightarrow> ('s, 'd) blob_client \<Rightarrow> bool" where
  "in_headers e b = (bc_settings b = start_settings \<and> bc_defered b = e \<and> \<not> bc_expect_100 b)"

lemma request_line:
  assumes "bh_SetUrl bh u (bc_handler b) = Some (e, h)" and "SoftError_Ok e"
  shows "\<exists>b'. sevents ml bh [S_begin, S_url u] b = Some (0, b') \<and> in_headers e b' \<and> bc_handler b' = h"
  using assms by (simp add: request_defs in_headers_def)

lemma sevents_headers:
  assumes "in_headers e b" and "SoftError_Ok e" and "sevents ml bh (header_events kvs) b = Some (i, b')"
  shows "i = 0 \<and> in_headers e b'"
  using assms
proof (induction kvs arbitrary: b)
  case (Cons kv kvs)
  obtain k v where kv: "kv = (k, v)" by fastforce
  from Cons.prems obtain b1 where "on_header_value_COMMON ml bh v (b\<lparr>bc_field := k\<rparr>) = Some (0, b1)"
    "sevents ml bh (header_events kvs) b1 = Some (i, b')" "in_headers e b1"
    by (auto simp: kv in_headers_def start_settings_def on_header_field_COMMON_def on_header_value_COMMON_def Let_def split: bind_splits)
  with Cons.IH Cons.prems(2) show ?case by blast
qed simp

text \<open>A request that the handler cannot serve, whatever its headers.\<close>

lemma request_fails:
  assumes "\<And>b1. in_headers e b1 \<Longrightarrow> Q (bc_handler b1) \<Longrightarrow> sevents ml bh es b1 = None"
    and "handler_inv bh Q" and "bh_SetUrl bh u (bc_handler b) = Some (e, h)" and "SoftError_Ok e" and "Q (bc_handler b)"
  shows "sevents ml bh ([S_begin, S_url u] @ header_events kvs @ es) b = None"
proof -
  from request_line [OF assms(3,4)] obtain b0 where
    b0: "sevents ml bh [S_begin, S_url u] b = Some (0, b0)" "in_headers e b0" "bc_handler b0 = h" by blast
  have q0: "Q h" using handler_inv.sevents_inv [OF assms(2) b0(1) assms(5)] b0(3) by simp
  have "sevents ml bh (header_events kvs @ es) b0 = None"
  proof (cases "sevents ml bh (header_events kvs) b0")
    case None
    then show ?thesis by (rule sevents_append_None)
  next
    case (Some r)
    obtain i b1 where r: "r = (i, b1)" by fastforce
    with sevents_headers [OF b0(2) assms(4)] Some have "i = 0" "in_headers e b1" by auto
    moreover have "Q (bc_handler b1)" using handler_inv.sevents_inv [OF assms(2)] Some r b0(3) q0 by blast
    ultimately show ?thesis using sevents_append [of ml bh "header_events kvs" b0 b1 es] Some r assms(1) by simp
  qed
  then show ?thesis using sevents_append [OF b0(1)] by simp
qed

text \<open>A PUT that goes well, after its headers: the counterpart of \<open>put_ok\<close>.\<close>

lemma put_headers:
  assumes "in_headers e b" and "SoftError_Ok e" and "bh_GetUpload bh (bc_handler b) = Some g"
    and "bh_up_Prepare bh g = Some (rc, h2)" and "Ok rc"
  shows "on_sevent ml bh (S_headers_complete HTTP_PUT) b = Some (0, b\<lparr>bc_handler := h2, bc_upload := True,
    bc_settings := method_settings Body_upload Complete_upload Headers_common\<rparr>)"
  using assms by (simp add: in_headers_def request_defs on_headers_complete_UPLOAD_def)

lemma put_after_headers:
  assumes "in_headers e b" and "SoftError_Ok e" and "bh_GetUpload bh (bc_handler b) = Some g"
    and "bh_up_Prepare bh g = Some (rc, h2)" and "Ok rc"
    and "writes bh bufs h2 = Some h3" and "\<forall>x \<in> set bufs. x \<noteq> [] \<and> length x < 2 ^ 32 - 1"
    and "bh_up_Commit bh h3 = Some (rc', h4)" and "Ok rc'"
    and "n = bc_bytes_in b + int (length (concat bufs))" and "d = fold (Checksum_Update (ml_md5 ml)) bufs (bc_md5 b)"
    and "payload = c_str (ml_render ml (upload_toks n (Checksum_Final (ml_md5 ml) d)))" and "payload \<noteq> []"
    and "text = reply_text (bc_version b) (bc_reply_headers b) 201 ''OK'' payload"
    and "ample k (Suc (Suc m)) (bc_conn b)" and "length text \<le> k"
  obtains b' where "sevents ml bh (S_headers_complete HTTP_PUT # map S_body bufs @ [S_complete]) b = Some (0, b')"
    "bc_handler b' = h4" "ample k m (bc_conn b')" "wire (bc_conn b') = wire (bc_conn b) @ bytes_of text"
proof -
  define b1 where "b1 = b\<lparr>bc_handler := h2, bc_upload := True,
    bc_settings := method_settings Body_upload Complete_upload Headers_common\<rparr>"
  have b1: "on_data (bc_settings b1) = Body_upload" "bc_upload b1" "bc_handler b1 = h2" "bc_bytes_in b1 = bc_bytes_in b"
    "bc_md5 b1 = bc_md5 b" "bc_conn b1 = bc_conn b" "bc_version b1 = bc_version b" "bc_reply_headers b1 = bc_reply_headers b"
    "on_message_complete (bc_settings b1) = Complete_upload"
    by (simp_all add: b1_def method_settings_def)
  define b2 where "b2 = b1\<lparr>bc_handler := h3, bc_bytes_in := n, bc_md5 := d\<rparr>"
  have b2: "bc_upload b2" "bc_handler b2 = h3" "bc_bytes_in b2 = n" "bc_md5 b2 = d" "bc_version b2 = bc_version b"
    "bc_reply_headers b2 = bc_reply_headers b" "bc_conn b2 = bc_conn b" "on_message_complete (bc_settings b2) = Complete_upload"
    using b1 by (simp_all add: b2_def)
  have "sevents ml bh (map S_body bufs) b1 = Some (0, b2)"
    using sevents_bodies [of b1 bh bufs h3 ml] b1 assms(6,7,10,11) by (simp add: b2_def)
  from sevents_append [OF this, of "[S_complete]"]
  have s: "sevents ml bh (map S_body bufs @ [S_complete]) b1 = sevents ml bh [S_complete] b2" .
  from complete_UPLOAD_ok [of b2 bh rc' h4 payload ml k m] assms(8,9,12-16) b2 obtain c where
    c: "on_message_complete_UPLOAD ml bh b2 = Some (0, b2\<lparr>bc_handler := h4, bc_md5 := ml_spent ml d, bc_conn := c\<rparr>)"
      "ample k m c" "wire c = wire (bc_conn b) @ bytes_of text" by auto
  then have "sevents ml bh [S_complete] b2 = Some (0, b2\<lparr>bc_handler := h4, bc_md5 := ml_spent ml d, bc_conn := c\<rparr>)"
    using b2(8) by simp
  with s put_headers [OF assms(1-5), of ml] c show ?thesis
    by (intro that [of "b2\<lparr>bc_handler := h4, bc_md5 := ml_spent ml d, bc_conn := c\<rparr>"]) (simp_all flip: b1_def)
qed

text \<open>A write that does not return.\<close>

lemma sevents_bodies_None:
  assumes "on_data (bc_settings b) = Body_upload" and "bc_upload b" and "writes bh bufs (bc_handler b) = None"
    and "\<forall>x \<in> set bufs. x \<noteq> [] \<and> length x < 2 ^ 32 - 1"
  shows "sevents ml bh (map S_body bufs @ es) b = None"
  using assms
proof (induction bufs arbitrary: b)
  case (Cons x bufs)
  show ?case
  proof (cases "bh_up_Write bh x (bc_handler b)")
    case None
    with Cons.prems show ?thesis by (simp add: on_body_UPLOAD_def)
  next
    case (Some h1)
    let ?b = "b\<lparr>bc_md5 := Checksum_Update (ml_md5 ml) x (bc_md5 b), bc_bytes_in := bc_bytes_in b + int (length x), bc_handler := h1\<rparr>"
    have "on_sevent ml bh (S_body x) b = Some (0, ?b)"
      using Cons.prems(1,2,4) Some by (auto simp: on_body_UPLOAD_def)
    with Cons.IH [of ?b] Cons.prems Some show ?thesis by simp
  qed
qed simp

end
