(* ===== verification/Rawx_Safety.thy ===== *)
theory Rawx_Safety
  imports Rawx_Server Handler_Contract
begin

text \<open>
  What a rawx server never does to the blobs it finds: \<open>keeps w\<close> is an invariant of its handler, so that it
  holds on a connection whatever is received, by the locale \<open>handler_inv\<close>.
\<close>

section \<open>Worlds that keep their files\<close>

text \<open>The inodes of \<open>w\<close> have their bytes and attributes in \<open>w'\<close>, and no new names.\<close>

definition kept :: "world \<Rightarrow> world \<Rightarrow> bool" where
  "kept w w' = (w_next w \<le> w_next w'
     \<and> (\<forall>i < w_next w. w_data w' i = w_data w i \<and> w_attr w' i = w_attr w i)
     \<and> (\<forall>p i. w_names w' p = Some (Ino i) \<longrightarrow> i < w_next w \<longrightarrow> w_names w p = Some (Ino i)))"

lemma kept_refl [simp]: "kept w w"
  by (simp add: kept_def)

lemma kept_trans: "kept w v \<Longrightarrow> kept v x \<Longrightarrow> kept w x"
  by (fastforce simp: kept_def)

lemma kept_same: "same_fs v w \<Longrightarrow> kept v w"
  by (auto simp: kept_def dest!: same_fsD)

lemma kept_mkdir: "sys_mkdir p w = (r, w') \<Longrightarrow> kept w w'"
  by (erule sys_mkdir_cases) (auto simp: kept_def kept_same split: if_splits dest!: same_fsD)

lemma kept_create: "sys_create p w = (r, w') \<Longrightarrow> kept w w'"
  by (erule sys_create_cases) (auto simp: kept_def split: if_splits dest!: same_fsD)

lemma kept_unlink: "sys_unlink p w = (r, w') \<Longrightarrow> kept w w'"
  by (erule sys_unlink_cases) (auto simp: kept_def split: if_splits dest!: same_fsD)

lemma kept_lookup: "sys_lookup p w = (r, w') \<Longrightarrow> kept w w'"
  by (auto dest!: sys_lookup_cases intro: kept_same)

text \<open>A rename keeps the files when what it moves is not one of them.\<close>

lemma kept_rename:
  assumes "sys_rename p q w = (r, w')" and "kept w0 w" and "\<And>i. w_names w p = Some (Ino i) \<Longrightarrow> w_next w0 \<le> i"
  shows "kept w0 w'"
  using assms(1)
proof (cases rule: sys_rename_cases)
  case failed
  with assms(2) show ?thesis by (blast intro: kept_trans kept_same)
next
  case (moved v n)
  with assms(2,3) show ?thesis by (fastforce simp: kept_def split: if_splits dest: same_fsD)
qed

lemma kept_createParent: "createParent p w = (r, w') \<Longrightarrow> kept w w'"
proof (induction p w rule: createParent.induct)
  case (1 p w)
  show ?case
  proof (cases "\<exists>slash. rfind CHR ''/'' p = Some slash \<and> slash \<noteq> 0")
    case False
    with "1.prems" show ?thesis by (auto simp: createParent.simps [of p] split: option.splits)
  next
    case True
    then obtain slash where s: "rfind CHR ''/'' p = Some slash" "slash \<noteq> 0" by blast
    obtain e v where m: "sys_mkdir (take slash p) w = (e, v)" by fastforce
    show ?thesis
    proof (cases "e = Some ENOENT")
      case True
      with "1.prems" s m have "createParent (take slash p) v = (r, w')" by (simp add: createParent.simps [of p])
      with "1.IH" [OF s m [symmetric, folded True]] kept_mkdir [OF m] True m s show ?thesis
        by (auto intro: kept_trans)
    next
      case False
      with "1.prems" s m kept_mkdir [OF m] show ?thesis
        by (auto simp: createParent.simps [of p] split: option.splits)
    qed
  qed
qed

lemma kept_set_attributes: "kept w0 w \<Longrightarrow> w_next w0 \<le> fd \<Longrightarrow> kept w0 (set_attributes kvs fd w)"
proof (induction kvs fd w rule: set_attributes.induct)
  case (2 k v kvs fd w)
  let ?w = "snd (sys_fsetxattr fd (''user.grid.'' @ k) (bytes_of v) w)"
  obtain f v1 where f: "next_fault w = (f, v1)" by fastforce
  have "kept w0 v1" using "2.prems"(1) kept_same [OF next_fault_same [OF f]] by (rule kept_trans)
  with f "2.prems"(2) have "kept w0 ?w" by (auto simp: sys_fsetxattr_def kept_def)
  with "2.IH" "2.prems"(2) show ?case by simp
qed simp

text \<open>An upload whose file is none of those of \<open>w\<close>.\<close>

definition apart :: "world \<Rightarrow> local_upload \<times> world \<Rightarrow> bool" where
  "apart w0 = (\<lambda>(u, w). kept w0 w
     \<and> (\<forall>i. lu_fd u = Some i \<longrightarrow> w_next w0 \<le> i \<and> w_names w (lu_path_temp u) \<in> {None, Some (Ino i)}))"

lemma apart_closed: "kept w0 w \<Longrightarrow> lu_fd u = None \<Longrightarrow> apart w0 (u, w)"
  by (simp add: apart_def)

lemma apart_prepare_retry:
  assumes "prepare_retry b (u, w) = (r, u', w')" and "lu_fd u = None" and "kept w0 w"
  shows "apart w0 (u', w')"
  using assms
proof (induction b "(u, w)" arbitrary: w rule: prepare_retry.induct)
  case (1 retryable w)
  obtain c w1 where c: "sys_create (lu_path_temp u) w = (c, w1)" by fastforce
  have w1: "kept w0 w1" using "1.prems"(3) kept_create [OF c] by (rule kept_trans)
  show ?case
  proof (cases c)
    case (Inl e)
    show ?thesis
    proof (cases "e = ENOENT \<and> retryable")
      case True
      obtain q w2 where q: "createParent (lu_path_temp u) w1 = (q, w2)" by fastforce
      have w2: "kept w0 w2" using w1 kept_createParent [OF q] by (rule kept_trans)
      show ?thesis
      proof (cases q)
        case None
        with "1.prems"(1) True Inl c q have "prepare_retry False (u, w2) = (r, u', w')"
          by (subst (asm) prepare_retry.simps) simp
        with "1.hyps" [OF c [symmetric] Inl] True q None "1.prems"(2) w2 show ?thesis by auto
      next
        case (Some y)
        with "1.prems"(1) True Inl c q have "u' = u" "w' = w2"
          by (subst (asm) prepare_retry.simps; simp)+
        with w2 "1.prems"(2) show ?thesis by (simp add: apart_closed)
      qed
    next
      case False
      with "1.prems" Inl c w1 show ?thesis
        by (auto simp: prepare_retry.simps [of retryable] apart_closed split: if_splits)
    qed
  next
    case (Inr i)
    let ?u = "u\<lparr>lu_fd := Some i\<rparr>"
    have new: "w_names w1 (lu_path_temp u) = Some (Ino i)" "w_next w0 \<le> i"
      using c Inr "1.prems"(3) by (cases rule: sys_create_cases; simp add: kept_def)+
    obtain l w2 where l: "sys_lookup (lu_path_final u) w1 = (l, w2)" by fastforce
    have w2: "kept w0 w2" using w1 kept_lookup [OF l] by (rule kept_trans)
    show ?thesis
    proof (cases "l = Inl ENOENT")
      case True
      with "1.prems" Inr c l new w2 same_fsD sys_lookup_cases [OF l] show ?thesis
        by (auto simp: prepare_retry.simps [of retryable] apart_def)
    next
      case False
      with "1.prems"(1) Inr c l obtain st where "unlinkTempAndReset st (?u, w2) = (r, u', w')"
        by (cases l) (auto simp: prepare_retry.simps [of retryable] Let_def)
      then obtain e where "sys_unlink (lu_path_temp u) w2 = (e, w')" "u' = u\<lparr>lu_fd := None\<rparr>"
        by (auto simp: unlinkTempAndReset_def split: prod.splits)
      with kept_trans [OF w2 kept_unlink] show ?thesis by (simp add: apart_closed)
    qed
  qed
qed

lemma apart_step [simp]: "apart w0 (u\<lparr>lu_step := st\<rparr>, w) = apart w0 (u, w)"
  by (simp add: apart_def)

lemma apart_kept: "apart w0 (u, w) \<Longrightarrow> kept w0 w"
  by (simp add: apart_def)

lemma apart_Prepare:
  "LocalUpload_Prepare (u, w) = Some (rc, u', w') \<Longrightarrow> apart w0 (u, w) \<Longrightarrow> apart w0 (u', w')"
  by (auto simp: LocalUpload_Prepare_def prepare_without_check_on_step_def
      split: if_splits prod.splits dest: apart_prepare_retry apart_kept)

lemma apart_Write:
  assumes "LocalUpload_Write buf (u, w) = Some (u', w')" and "apart w0 (u, w)"
  shows "apart w0 (u', w')"
  using assms by (auto simp: LocalUpload_Write_def apart_def kept_def file_append_def split: if_splits option.splits prod.splits)

lemma apart_Commit:
  assumes "LocalUpload_Commit (u, w) = Some (rc, u', w')" and "apart w0 (u, w)"
  shows "apart w0 (u', w')"
proof (cases "lu_step u = Prepared \<and> lu_fd u \<noteq> None")
  case False
  with assms show ?thesis
    by (auto simp: LocalUpload_Commit_def commit_without_check_on_step_def split: if_splits)
next
  case True
  then obtain i where i: "lu_step u = Prepared" "lu_fd u = Some i" by auto
  let ?w = "set_attributes (lu_attributes u) i w" and ?u = "u\<lparr>lu_step := Done, lu_fd := None\<rparr>"
  obtain e v where e: "sys_rename (lu_path_temp u) (lu_path_final u) ?w = (e, v)" by fastforce
  have "kept w0 ?w" using assms(2) i(2) by (simp add: apart_def kept_set_attributes)
  with kept_rename [OF e] assms(2) i(2) have v: "kept w0 v" by (auto simp: apart_def)
  show ?thesis
  proof (cases e)
    case None
    with assms(1) i e have "u' = ?u" "w' = v"
      by (auto simp: LocalUpload_Commit_def commit_without_check_on_step_def resetFD_def)
    with v show ?thesis by (simp add: apart_closed)
  next
    case (Some x)
    with assms(1) i e have "unlinkTempAndReset (Errno x) (?u, v) = (rc, u', w')"
      by (auto simp: LocalUpload_Commit_def commit_without_check_on_step_def resetFD_def)
    then obtain f where "sys_unlink (lu_path_temp u) v = (f, w')" "u' = ?u"
      by (auto simp: unlinkTempAndReset_def split: prod.splits)
    with kept_trans [OF v kept_unlink] show ?thesis by (simp add: apart_closed)
  qed
qed

section \<open>The handler\<close>

definition keeps :: "world \<Rightarrow> rawx_handler \<Rightarrow> bool" where
  "keeps w0 h = (kept w0 (rh_world h) \<and> (\<forall>u. rh_upload h = Some u \<longrightarrow> apart w0 (u, rh_world h)))"

lemma keeps_upload: "keeps w0 h \<Longrightarrow> rh_upload h = Some u \<Longrightarrow> apart w0 (u, rh_world h)"
  by (simp add: keeps_def)

text \<open>The other operations leave the names as they are, or remove one.\<close>

lemma keeps_world:
  assumes "keeps w0 h" and "kept (rh_world h) w'" and "\<And>p. w_names w' p \<in> {None, w_names (rh_world h) p}"
    and "rh_world h' = w'" and "rh_upload h' = rh_upload h"
  shows "keeps w0 h'"
proof -
  have k: "kept w0 w'" using assms(1,2) by (auto simp: keeps_def intro: kept_trans)
  moreover have "apart w0 (u, w')" if "rh_upload h = Some u" for u
    using keeps_upload [OF assms(1) that] assms(3) [of "lu_path_temp u"] k by (fastforce simp: apart_def)
  ultimately show ?thesis using assms(4,5) by (simp add: keeps_def)
qed

lemma keeps_same: "keeps w0 h \<Longrightarrow> rh_world h' = rh_world h \<Longrightarrow> rh_upload h' = rh_upload h \<Longrightarrow> keeps w0 h'"
  by (simp add: keeps_def)

lemma keeps_with_upload:
  assumes "\<And>u w rc u' w'. f (u, w) = Some (rc, u', w') \<Longrightarrow> apart w0 (u, w) \<Longrightarrow> apart w0 (u', w')"
    and "with_upload f h = Some (rc, h')" and "keeps w0 h"
  shows "keeps w0 h'"
proof -
  from assms(2) obtain u u' w' where u: "rh_upload h = Some u" "f (u, rh_world h) = Some (rc, u', w')"
    "h' = h\<lparr>rh_upload := Some u', rh_world := w'\<rparr>" by (auto simp: with_upload_def split: bind_splits)
  from assms(1) [OF u(2) keeps_upload [OF assms(3) u(1)]] u(3) show ?thesis
    by (auto simp: keeps_def dest: apart_kept)
qed

lemma lookup_names: "sys_lookup p w = (r, w') \<Longrightarrow> kept w w' \<and> w_names w' = w_names w \<and> w_next w' = w_next w"
  by (auto dest!: sys_lookup_cases dest: same_fsD intro: kept_same)

lemma removal_names:
  "LocalRemoval_Prepare (r, w) = Some (rc, r', w') \<Longrightarrow> kept w w' \<and> w_names w' p \<in> {None, w_names w p}"
  "LocalRemoval_Commit (r, w) = Some (rc, r', w') \<Longrightarrow> kept w w' \<and> w_names w' p \<in> {None, w_names w p}"
proof -
  show "LocalRemoval_Prepare (r, w) = Some (rc, r', w') \<Longrightarrow> kept w w' \<and> w_names w' p \<in> {None, w_names w p}"
    by (auto simp: LocalRemoval_Prepare_def split: if_splits prod.splits sum.splits dest!: lookup_names)
  assume c: "LocalRemoval_Commit (r, w) = Some (rc, r', w')"
  show "kept w w' \<and> w_names w' p \<in> {None, w_names w p}"
  proof (cases "lr_step r = Prepared")
    case True
    with c obtain e where e: "sys_unlink (lr_path r) w = (e, w')"
      by (cases "sys_unlink (lr_path r) w") (auto simp: LocalRemoval_Commit_def split: option.splits)
    then have "w_names w' p \<in> {None, w_names w p}" by (cases rule: sys_unlink_cases) (auto dest!: same_fsD)
    with kept_unlink [OF e] show ?thesis by blast
  qed (use c in \<open>simp add: LocalRemoval_Commit_def\<close>)
qed

lemma keeps_with_removal:
  assumes "\<And>r w rc r' w' p. f (r, w) = Some (rc, r', w') \<Longrightarrow> kept w w' \<and> w_names w' p \<in> {None, w_names w p}"
    and "with_removal f h = Some (rc, h')" and "keeps w0 h"
  shows "keeps w0 h'"
proof -
  from assms(2) obtain r r' w' where r: "f (r, rh_world h) = Some (rc, r', w')"
    "h' = h\<lparr>rh_removal := Some r', rh_world := w'\<rparr>" by (auto simp: with_removal_def split: bind_splits)
  from assms(1) [OF r(1)] r(2) show ?thesis by (intro keeps_world [OF assms(3), of w']) auto
qed

lemma download_names:
  assumes "LocalDownload_Prepare (d, w) = (rc, d', w')"
  shows "kept w w' \<and> w_names w' = w_names w \<and> w_next w' = w_next w"
proof (cases "ld_fd d \<noteq> None \<or> ld_step d \<noteq> Init")
  case False
  obtain r w1 where l: "open_read (ld_path d) w = (r, w1)" by fastforce
  then have k: "kept w w1" "w_names w1 = w_names w" "w_next w1 = w_next w"
    by (auto simp: open_read_def split: prod.splits sum.splits entry.splits dest!: lookup_names)
  have "same_fs w1 v" if "sys_fstat x w1 = (y, v)" for x y v
    using that by (auto simp: sys_fstat_def Let_def dest!: next_fault_same split: prod.splits option.splits)
  with False assms l have "w' = w1 \<or> same_fs w1 w'"
    by (auto simp: LocalDownload_Prepare_def closeAndErrno_def Let_def split: sum.splits prod.splits if_splits)
  with k kept_trans [OF k(1) kept_same] same_fsD [of w1 w'] show ?thesis by auto
qed (use assms in \<open>simp add: LocalDownload_Prepare_def\<close>)

lemma read_names:
  "LocalDownload_Read batch attempts buf (d, w) = Some (n, out, d', w') \<Longrightarrow>
    kept w w' \<and> w_names w' = w_names w \<and> w_next w' = w_next w"
  by (auto simp: LocalDownload_Read_def loadBuffer_def Let_def kept_def
      split: bind_splits if_splits option.splits handle.splits prod.splits)

lemma rawx_upload_closed [simp]: "lu_fd (rawx_upload xs p) = None"
proof -
  have "lu_fd (fold (\<lambda>(k, v). LocalUpload_SetXattr k v) xs u) = lu_fd u" for u
    by (induction xs arbitrary: u) (auto simp: LocalUpload_SetXattr_def)
  then show ?thesis by (simp add: rawx_upload_def LocalUpload_Build_def LocalUpload_def)
qed

lemma keeps_new_upload:
  assumes "RawxHandler_GetUpload h = Some h'" and "keeps w0 h"
  shows "keeps w0 h'"
  using assms by (auto simp: RawxHandler_GetUpload_def keeps_def apart_closed split: bind_splits)

lemma keeps_write:
  assumes "rawx_write buf h = Some h'" and "keeps w0 h"
  shows "keeps w0 h'"
proof -
  from assms(1) obtain u u' w' where u: "rh_upload h = Some u" "LocalUpload_Write buf (u, rh_world h) = Some (u', w')"
    "h' = h\<lparr>rh_upload := Some u', rh_world := w'\<rparr>" by (auto simp: rawx_write_def split: bind_splits)
  from apart_Write [OF u(2) keeps_upload [OF assms(2) u(1)]] u(3) show ?thesis
    by (auto simp: keeps_def dest: apart_kept)
qed

lemma keeps_download:
  "rawx_prepare_download h = Some (rc, h') \<Longrightarrow> keeps w0 h \<Longrightarrow> keeps w0 h'"
  "rawx_read batch attempts h = Some (buf, h') \<Longrightarrow> keeps w0 h \<Longrightarrow> keeps w0 h'"
  by (auto simp: rawx_prepare_download_def rawx_read_def Let_def split: bind_splits prod.splits
      dest!: download_names read_names intro: keeps_world)

interpretation rawx_keeps: handler_inv "rawx_blob_handler parse_url lexer batch attempts" "keeps w0"
proof unfold_locales
qed (auto simp: rawx_blob_handler_def RawxHandler_SetUrl_def RawxHandler_SetHeader_def RawxHandler_GetDownload_def
      RawxHandler_GetRemoval_def Let_def keeps_new_upload keeps_write keeps_download
    split: bind_splits sum.splits
    intro: keeps_same keeps_with_upload [OF apart_Prepare] keeps_with_upload [OF apart_Commit]
      keeps_with_removal [OF removal_names(1)] keeps_with_removal [OF removal_names(2)])

section \<open>Properties\<close>

text \<open>C4. A rawx server does not alter the blobs it has: whatever is received on a connection, whatever the parser
  makes of it and whatever system calls fail, a name that leads to a file of before is a name it had, and the file has its
  bytes and attributes.  All that can happen to a blob is to lose its name, to a removal or to a new file.\<close>

theorem rawx_server_keeps_blobs:
  assumes "BlobClient_Run qp ml (rawx_blob_handler parse_url lexer batch attempts) n (BlobClient ml c h) = Some b"
    and "rh_upload h = None" and "w = rh_world h" and "w' = rh_world (bc_handler b)" and "w_names w' p = Some (Ino i)"
  shows "w_next w \<le> i \<or> (w_names w p = Some (Ino i) \<and> w_data w' i = w_data w i \<and> w_attr w' i = w_attr w i)"
proof -
  have "keeps w h" using assms(2,3) by (simp add: keeps_def)
  with rawx_keeps.run_inv [OF assms(1), of w] have "keeps w (bc_handler b)" by (simp add: BlobClient_def)
  with assms(4,5) show ?thesis by (auto simp: keeps_def kept_def not_less)
qed

text \<open>A parser that finds one sequence of events, whatever it is given, and a store with one blob.\<close>

definition scripted :: "sevent list \<Rightarrow> sevent list req_parser" where
  "scripted es = \<lparr>qp_init = es, qp_give = (\<lambda>_ p. p),
     qp_next = (\<lambda>p. case p of [] \<Rightarrow> Inr (1000, []) | e # es' \<Rightarrow> Inl (e, \<lambda>_. es')), qp_errno = (\<lambda>_. 0), qp_version = (\<lambda>_. (1, 1))\<rparr>"

definition demo_store :: world where
  "demo_store = empty_world\<lparr>w_names := [''/a'' \<mapsto> Ino 0], w_data := \<lambda>_. [1, 2], w_next := 1\<rparr>"

lemma scripted_execute:
  "execute (scripted es0) ml bh [] b = Some (1000, [], b)"
  "execute (scripted es0) ml bh (e # es) b =
    Option.bind (on_sevent ml bh e (b\<lparr>bc_version := (1, 1)\<rparr>)) (\<lambda>(_, b'). execute (scripted es0) ml bh es b')"
  by (subst execute.simps; simp add: scripted_def case_prod_unfold)+

lemma scripted_run:
  assumes "conn_read 32768 (bc_conn b) = Some (Got bs, c)" and "bs \<noteq> []" and "length bs \<le> 1000"
    and "execute (scripted es) ml bh es ((BlobClient_Reset b)\<lparr>bc_conn := c\<rparr>) = Some (1000, [], b')"
  shows "BlobClient_Run (scripted es) ml bh 1 b = Some (b'\<lparr>bc_conn := conn_close (bc_conn b')\<rparr>)"
proof -
  have "qp_give (scripted es) bs es = es" "qp_errno (scripted es) [] = 0" "qp_init (scripted es) = es"
    by (simp_all add: scripted_def)
  moreover from this(1,2) assms(2-4) have "feed (scripted es) ml bh bs es ((BlobClient_Reset b)\<lparr>bc_conn := c\<rparr>) = Some (True, [], b')"
    by (subst feed.simps) (simp add: feed.simps [of _ _ _ "[]"])
  moreover have "bc_conn (BlobClient_Reset b) = bc_conn b" by (simp add: BlobClient_Reset_def)
  ultimately show ?thesis using assms(1) by (simp add: BlobClient_Run_def)
qed

lemma demo_removal_begun:
  "\<exists>b. BlobClient_Run (scripted [S_begin, S_url ''/a'', S_headers_complete HTTP_DELETE]) demo_mill
      (rawx_blob_handler path_url (\<lambda>_. RH_Unexpected) 2 5) 1
      (BlobClient demo_mill (open_conn [7] [Rd_data 1] []) (RawxHandler [] demo_store)) = Some b
    \<and> w_names (rh_world (bc_handler b)) ''/a'' = Some (Ino 0)"
proof -
  let ?b = "BlobClient demo_mill (open_conn [7] [Rd_data 1] []) (RawxHandler [] demo_store)"
  let ?es = "[S_begin, S_url ''/a'', S_headers_complete HTTP_DELETE]"
    and ?bh = "rawx_blob_handler path_url (\<lambda>_. RH_Unexpected) 2 5"
  have url: "url_basename path_url ''/a'' = Some (Inr ''a'')" using path_url_basename [of "''a''" "[]"] by simp
  have r: "conn_read 32768 (bc_conn ?b) = Some (Got [7], open_conn [] [] [])"
    by (simp add: conn_read_def open_conn_def chan_read_def BlobClient_def delivered_def)
  have "\<exists>b'. execute (scripted ?es) demo_mill ?bh ?es ((BlobClient_Reset ?b)\<lparr>bc_conn := open_conn [] [] []\<rparr>) = Some (1000, [], b')
      \<and> w_names (rh_world (bc_handler b')) ''/a'' = Some (Ino 0)"
    by (simp add: scripted_execute request_defs rawx_blob_handler_def RawxHandler_SetUrl_def url
      on_headers_complete_REMOVAL_def BlobClient_def RawxHandler_def RawxHandler_GetRemoval_def RawxHandler_path_def
      rawx_path_def on_handler_def with_removal_def LocalRemoval_Prepare_def LocalRemoval_Build_def sys_lookup_def
      demo_store_def empty_world_def walk.simps parent_of_def
      status_ok_def Why_def Reply100_def)
  then show ?thesis using scripted_run [OF r] by auto
qed

theorem rawx_server_keeps_blobs_witness:
  "\<exists>b. BlobClient_Run (scripted [S_begin, S_url ''/a'', S_headers_complete HTTP_DELETE]) demo_mill
      (rawx_blob_handler path_url (\<lambda>_. RH_Unexpected) 2 5) 1
      (BlobClient demo_mill (open_conn [7] [Rd_data 1] []) (RawxHandler [] demo_store)) = Some b
    \<and> files (rh_world (bc_handler b)) ''/a'' = Some [1, 2]"
proof -
  obtain b where b: "BlobClient_Run (scripted [S_begin, S_url ''/a'', S_headers_complete HTTP_DELETE]) demo_mill
      (rawx_blob_handler path_url (\<lambda>_. RH_Unexpected) 2 5) 1
      (BlobClient demo_mill (open_conn [7] [Rd_data 1] []) (RawxHandler [] demo_store)) = Some b"
    "w_names (rh_world (bc_handler b)) ''/a'' = Some (Ino 0)" using demo_removal_begun by blast
  from rawx_server_keeps_blobs [OF b(1) _ refl refl b(2)] have "w_data (rh_world (bc_handler b)) 0 = [1, 2]"
    by (simp add: RawxHandler_def demo_store_def)
  with b show ?thesis by (simp add: files_def)
qed

end
