(* ===== verification/Directory.thy ===== *)
theory Directory
  imports Http_Reply Json_Props Utils
begin

text \<open>
  The client of the directory of references (\<open>src/src/oio/directory/dir.hpp\<close>, \<open>dir.cpp\<close>): the URL of a
  content, what the directory knows of a reference, and the calls.  \<open>parse\<close> and \<open>render\<close> are those of
  the JSON library; \<open>None\<close> is a failed assertion of it or of the HTTP layer, or a call that has not
  returned.
\<close>

section \<open>URL\<close>

record oio_url =
  ou_ns :: string
  ou_account :: string
  ou_container :: string
  ou_type :: string
  ou_path :: string
  ou_cid :: string

definition OioUrl :: "string \<Rightarrow> string \<Rightarrow> string \<Rightarrow> string \<Rightarrow> string \<Rightarrow> oio_url" where
  "OioUrl ns acct cname typ path =
     \<lparr>ou_ns = ns, ou_account = acct, ou_container = cname, ou_type = typ, ou_path = path, ou_cid = []\<rparr>"

definition OioUrl_Set :: "oio_url \<Rightarrow> oio_url \<Rightarrow> oio_url" where
  "OioUrl_Set o' u = u\<lparr>ou_ns := ou_ns o', ou_account := ou_account o', ou_container := ou_container o',
     ou_type := ou_type o', ou_path := ou_path o', ou_cid := ou_cid o'\<rparr>"

definition OioUrl_URL :: "oio_url \<Rightarrow> string" where
  "OioUrl_URL u = ou_ns u @ ''/'' @ ou_account u @ ''/'' @ ou_container u @ ''/'' @ ou_type u @ ''/'' @ ou_path u"

text \<open>Two upper case digits per byte of the digest of the account, a zero byte and the container.\<close>

definition upper_digit :: "nat \<Rightarrow> char" where
  "upper_digit d = (if d < 10 then char_of (48 + d) else char_of (55 + d))"

definition compute_container_id :: "'d digest \<Rightarrow> oio_url \<Rightarrow> oio_url" where
  "compute_container_id sha256 u =
     (let d = dg_update sha256 (dg_update sha256 (dg_update sha256 (dg_init sha256) (bytes_of (ou_account u))) [0])
           (bytes_of (ou_container u))
      in u\<lparr>ou_cid := concat (map (\<lambda>b. [upper_digit (unat b div 16), upper_digit (unat b mod 16)])
           (dg_final sha256 d))\<rparr>)"

section \<open>Services\<close>

text \<open>The constructor leaves \<open>seq\<close> and the port undefined; a parsed entry has both set.\<close>

record dir_url =
  du_seq :: int
  du_type :: string
  du_args :: string
  du_host :: srv_id

definition DirURL :: dir_url where
  "DirURL = \<lparr>du_seq = 0, du_type = [], du_args = [], du_host = \<lparr>srv_host = [], srv_port = 0\<rparr>\<rparr>"

definition DirURL_assign :: "dir_url \<Rightarrow> dir_url \<Rightarrow> dir_url" where
  "DirURL_assign arg u = u\<lparr>du_type := du_type arg, du_host := SrvID_Set (du_host u) (du_host arg), du_args := du_args arg\<rparr>"

text \<open>The members that must be there, in the order of the checks.\<close>

fun has_members :: "string list \<Rightarrow> json \<Rightarrow> bool option" where
  "has_members [] d = Some True"
| "has_members (k # ks) d = do { v \<leftarrow> member d k; if v = None then Some False else has_members ks d }"

text \<open>\<open>doc[k]\<close> of a member that is there; the library asserts that it is.\<close>

definition doc_at :: "json \<Rightarrow> string \<Rightarrow> json option" where
  "doc_at d k = Option.bind (member d k) (\<lambda>v. v)"

definition DirURL_Parse :: "(string \<Rightarrow> json option) \<Rightarrow> string \<Rightarrow> dir_url \<Rightarrow> (bool \<times> dir_url) option" where
  "DirURL_Parse parse v u =
     (case parse (c_str v) of
        None \<Rightarrow> Some (False, u)
      | Some d \<Rightarrow> do {
          has \<leftarrow> has_members [''seq'', ''type'', ''host'', ''args''] d;
          if \<not> has then Some (False, u)
          else do {
            hj \<leftarrow> doc_at d ''host'';
            h \<leftarrow> get_string hj;
            (good, host) \<leftarrow> SrvID_Parse h (du_host u);
            if \<not> good then Some (False, u\<lparr>du_host := host\<rparr>)
            else do {
              sj \<leftarrow> doc_at d ''seq'';
              seq \<leftarrow> get_int sj;
              tj \<leftarrow> doc_at d ''type'';
              typ \<leftarrow> get_string tj;
              aj \<leftarrow> doc_at d ''args'';
              args \<leftarrow> get_string aj;
              Some (True, u\<lparr>du_host := host, du_seq := seq, du_type := typ, du_args := args\<rparr>)
            }
          }
        })"

text \<open>\<open>metas.insert(url)\<close>: ordered by type, an entry of the same type stays.\<close>

fun metas_insert :: "dir_url \<Rightarrow> dir_url list \<Rightarrow> dir_url list" where
  "metas_insert u [] = [u]"
| "metas_insert u (a # m) =
     (if du_type u < du_type a then u # a # m
      else if du_type u = du_type a then a # m else a # metas_insert u m)"

record dir_payload =
  dp_metas :: "dir_url list"
  dp_properties :: "(string, string) omap"

definition DirPayload :: dir_payload where
  "DirPayload = \<lparr>dp_metas = [], dp_properties = []\<rparr>"

definition DirPayload_assign :: "dir_payload \<Rightarrow> dir_payload \<Rightarrow> dir_payload" where
  "DirPayload_assign arg p = p\<lparr>dp_metas := fold metas_insert (dp_metas arg) []\<rparr>"

definition Dir_EncodeProperties_toks :: "dir_payload \<Rightarrow> jtok list" where
  "Dir_EncodeProperties_toks p = StartObject # Key ''properties'' # object_toks (dp_properties p) @ [EndObject]"

definition Dir_EncodeProperties :: "(jtok list \<Rightarrow> string) \<Rightarrow> dir_payload \<Rightarrow> string" where
  "Dir_EncodeProperties render p = c_str (render (Dir_EncodeProperties_toks p))"

text \<open>The services of \<open>dir\<close>, an array of objects, and those of \<open>srv\<close>, an object of texts.\<close>

definition parse_meta :: "(string \<Rightarrow> json option) \<Rightarrow> string \<Rightarrow> dir_url list \<Rightarrow> dir_url list option" where
  "parse_meta parse v m = do {
     (good, u) \<leftarrow> DirURL_Parse parse v DirURL;
     Some (if good then metas_insert u m else m)
   }"

fun parse_dir :: "(string \<Rightarrow> json option) \<Rightarrow> (jtok list \<Rightarrow> string) \<Rightarrow> json list \<Rightarrow> dir_url list \<Rightarrow> dir_url list option" where
  "parse_dir parse render [] m = Some m"
| "parse_dir parse render (JObj kvs # js) m = do {
     m' \<leftarrow> parse_meta parse (c_str (render (toks (JObj kvs)))) m;
     parse_dir parse render js m'
   }"
| "parse_dir parse render (_ # js) m = parse_dir parse render js m"

fun parse_srv :: "(string \<Rightarrow> json option) \<Rightarrow> (string \<times> json) list \<Rightarrow> dir_url list \<Rightarrow> dir_url list option" where
  "parse_srv parse [] m = Some m"
| "parse_srv parse ((k, j) # kvs) m = do {
     v \<leftarrow> get_string j;
     m' \<leftarrow> parse_meta parse v m;
     parse_srv parse kvs m'
   }"

text \<open>The properties that are texts; the others are left out.\<close>

fun put_texts :: "(string \<times> json) list \<Rightarrow> (string, string) omap \<Rightarrow> (string, string) omap" where
  "put_texts [] m = m"
| "put_texts ((k, JStr v) # kvs) m = put_texts kvs (om_put (c_str k) (c_str v) m)"
| "put_texts (_ # kvs) m = put_texts kvs m"

definition DirPayload_Parse :: "(string \<Rightarrow> json option) \<Rightarrow> (jtok list \<Rightarrow> string) \<Rightarrow> string \<Rightarrow> dir_payload \<Rightarrow>
    (bool \<times> dir_payload) option" where
  "DirPayload_Parse parse render s p =
     (case parse (c_str s) of
        None \<Rightarrow> Some (False, p)
      | Some d \<Rightarrow> do {
          dir \<leftarrow> member d ''dir'';
          case dir of
            None \<Rightarrow> Some (False, p)
          | Some dj \<Rightarrow> do {
              m1 \<leftarrow> (case dj of JArr js \<Rightarrow> parse_dir parse render js (dp_metas p) | _ \<Rightarrow> Some (dp_metas p));
              srv \<leftarrow> member d ''srv'';
              case srv of
                None \<Rightarrow> Some (False, p\<lparr>dp_metas := m1\<rparr>)
              | Some sj \<Rightarrow> do {
                  m2 \<leftarrow> (case sj of JObj kvs \<Rightarrow> parse_srv parse kvs m1 | _ \<Rightarrow> Some m1);
                  props \<leftarrow> member d ''properties'';
                  Some (True, p\<lparr>dp_metas := m2, dp_properties :=
                    (case props of Some (JObj kvs) \<Rightarrow> put_texts kvs (dp_properties p) | _ \<Rightarrow> dp_properties p)\<rparr>)
                }
            }
        })"

section \<open>Calls\<close>

text \<open>The constructors of \<open>Parameters\<close>; the text that \<open>body_out\<close> holds after a call.\<close>

definition Parameters :: "string \<Rightarrow> string \<Rightarrow> string \<Rightarrow> parameters" where
  "Parameters meth sel body = \<lparr>pm_method = meth, pm_selector = sel, pm_body_in = bytes_of body, pm_header_in = [],
     pm_header_out = None, pm_header_out_filter = []\<rparr>"

definition body_text :: "bytes option \<Rightarrow> string" where
  "body_text out = (case out of None \<Rightarrow> [] | Some b \<Rightarrow> string_of b)"

definition exec_error :: status where
  "exec_error = OioError (- 1) ''HTTP_exec exec error''"

datatype dir_body = META | METAS | PROPERTIES

record dir_client =
  dc_url :: oio_url
  dc_output :: dir_payload

definition DirectoryClient :: "oio_url \<Rightarrow> dir_client" where
  "DirectoryClient u = \<lparr>dc_url = u, dc_output = DirPayload\<rparr>"

definition Dir_SetData :: "dir_payload \<Rightarrow> dir_client \<Rightarrow> dir_client" where
  "Dir_SetData p dc = dc\<lparr>dc_output := DirPayload_assign p (dc_output dc)\<rparr>"

definition Dir_AddProperties :: "string \<Rightarrow> string \<Rightarrow> dir_client \<Rightarrow> dir_client" where
  "Dir_AddProperties k v dc =
     dc\<lparr>dc_output := (dc_output dc)\<lparr>dp_properties := om_put k v (dp_properties (dc_output dc))\<rparr>\<rparr>"

definition Dir_SELECTOR :: "oio_url \<Rightarrow> string \<Rightarrow> string" where
  "Dir_SELECTOR u str = ''/v3.0/'' @ ou_ns u @ ''/reference/'' @ str @ ''?acct='' @ ou_account u
     @ ''&ref='' @ ou_container u @ (if ou_type u \<noteq> [] then ''&type='' @ ou_type u else ''&type=meta2'')"

type_synonym 'c call = "'c \<times> conn \<Rightarrow> (status \<times> 'c \<times> conn) option"

definition Dir_http_call_parse_body :: "'p http_parser \<Rightarrow> (string \<Rightarrow> json option) \<Rightarrow> (jtok list \<Rightarrow> string) \<Rightarrow>
    parameters \<Rightarrow> dir_body \<Rightarrow> dir_client call" where
  "Dir_http_call_parse_body hp parse render pm typ = (\<lambda>(dc, c). do {
     (rc, out, _, c') \<leftarrow> DoCall hp pm c;
     if rc \<noteq> H_OK then Some (exec_error, dc, c')
     else do {
       (ret, p) \<leftarrow> (case typ of
           META \<Rightarrow> DirPayload_Parse parse render (body_text out) (dc_output dc)
         | METAS \<Rightarrow> DirPayload_Parse parse render (body_text out) (dc_output dc)
         | PROPERTIES \<Rightarrow> DirPayload_Parse parse render (body_text out) (dc_output dc));
       let dc' = dc\<lparr>dc_output := p\<rparr>;
       if ret then Some (OioError_default, dc', c')
       else do { (_, err) \<leftarrow> Decode parse (body_text out) OioError_default; Some (err, dc', c') }
     }
   })"

definition Dir_http_call :: "'p http_parser \<Rightarrow> (string \<Rightarrow> json option) \<Rightarrow> parameters \<Rightarrow> dir_client call" where
  "Dir_http_call hp parse pm = (\<lambda>(dc, c). do {
     (rc, out, _, c') \<leftarrow> DoCall hp pm c;
     if rc \<noteq> H_OK then Some (exec_error, dc, c')
     else do { (_, err) \<leftarrow> Decode parse (body_text out) OioError_default; Some (err, dc, c') }
   })"

definition Dir_Create :: "'p http_parser \<Rightarrow> (string \<Rightarrow> json option) \<Rightarrow> dir_client call" where
  "Dir_Create hp parse = (\<lambda>(dc, c). Dir_http_call hp parse
     (Parameters ''POST'' (Dir_SELECTOR (dc_url dc) ''create'') []) (dc, c))"

definition Dir_Unlink :: "'p http_parser \<Rightarrow> (string \<Rightarrow> json option) \<Rightarrow> dir_client call" where
  "Dir_Unlink hp parse = (\<lambda>(dc, c). Dir_http_call hp parse
     (Parameters ''POST'' (Dir_SELECTOR (dc_url dc) ''unlink'') []) (dc, c))"

definition Dir_Destroy :: "'p http_parser \<Rightarrow> (string \<Rightarrow> json option) \<Rightarrow> dir_client call" where
  "Dir_Destroy hp parse = (\<lambda>(dc, c). Dir_http_call hp parse
     (Parameters ''POST'' (Dir_SELECTOR (dc_url dc) ''destroy'') []) (dc, c))"

definition Dir_DelProperties :: "'p http_parser \<Rightarrow> (string \<Rightarrow> json option) \<Rightarrow> dir_client call" where
  "Dir_DelProperties hp parse = (\<lambda>(dc, c). Dir_http_call hp parse
     (Parameters ''POST'' (Dir_SELECTOR (dc_url dc) ''del_properties'') []) (dc, c))"

definition Dir_Renew :: "'p http_parser \<Rightarrow> (string \<Rightarrow> json option) \<Rightarrow> dir_client call" where
  "Dir_Renew hp parse = (\<lambda>(dc, c). Dir_http_call hp parse
     (Parameters ''POST'' (Dir_SELECTOR (dc_url dc) ''Renew'') []) (dc, c))"

definition Dir_Show :: "'p http_parser \<Rightarrow> (string \<Rightarrow> json option) \<Rightarrow> (jtok list \<Rightarrow> string) \<Rightarrow> dir_client call" where
  "Dir_Show hp parse render = (\<lambda>(dc, c). Dir_http_call_parse_body hp parse render
     (Parameters ''GET'' (Dir_SELECTOR (dc_url dc) ''show'') []) METAS (dc, c))"

definition Dir_GetProperties :: "'p http_parser \<Rightarrow> (string \<Rightarrow> json option) \<Rightarrow> (jtok list \<Rightarrow> string) \<Rightarrow>
    dir_client call" where
  "Dir_GetProperties hp parse render = (\<lambda>(dc, c). Dir_http_call_parse_body hp parse render
     (Parameters ''POST'' (Dir_SELECTOR (dc_url dc) ''EncodeProperties'') []) PROPERTIES (dc, c))"

definition Dir_Link :: "'p http_parser \<Rightarrow> (string \<Rightarrow> json option) \<Rightarrow> (jtok list \<Rightarrow> string) \<Rightarrow> dir_client call" where
  "Dir_Link hp parse render = (\<lambda>(dc, c). Dir_http_call_parse_body hp parse render
     (Parameters ''POST'' (Dir_SELECTOR (dc_url dc) ''link'') []) META (dc, c))"

definition Dir_SetProperties :: "'p http_parser \<Rightarrow> (string \<Rightarrow> json option) \<Rightarrow> (jtok list \<Rightarrow> string) \<Rightarrow>
    dir_client call" where
  "Dir_SetProperties hp parse render = (\<lambda>(dc, c). Dir_http_call hp parse
     (Parameters ''POST'' (Dir_SELECTOR (dc_url dc) ''set_properties'') (Dir_EncodeProperties render (dc_output dc))) (dc, c))"

section \<open>Laws\<close>

definition metas_inv :: "dir_url list \<Rightarrow> bool" where
  "metas_inv m = sorted_wrt (<) (map du_type m)"

lemma types_metas_insert: "du_type ` set (metas_insert u m) = insert (du_type u) (du_type ` set m)"
  by (induction u m rule: metas_insert.induct) auto

lemma metas_insert_inv: "metas_inv m \<Longrightarrow> metas_inv (metas_insert u m)"
proof (induction u m rule: metas_insert.induct)
  case (2 u a m)
  then show ?case
    using types_metas_insert [of u m] by (auto simp: metas_inv_def dest: order.strict_trans)
qed (simp add: metas_inv_def)

lemma metas_insert_keeps: "set m \<subseteq> set (metas_insert u m)"
  by (induction u m rule: metas_insert.induct) auto

text \<open>What an answer of the directory does to the services: it adds some, of other types.\<close>

definition learns :: "dir_url list \<Rightarrow> dir_url list \<Rightarrow> bool" where
  "learns m m' = ((metas_inv m \<longrightarrow> metas_inv m') \<and> set m \<subseteq> set m')"

lemma learns_refl [simp]: "learns m m"
  by (simp add: learns_def)

lemma learns_trans: "learns m m' \<Longrightarrow> learns m' m'' \<Longrightarrow> learns m m''"
  by (auto simp: learns_def)

lemma parse_meta_learns: "parse_meta parse v m = Some m' \<Longrightarrow> learns m m'"
  using metas_insert_keeps by (fastforce simp: parse_meta_def learns_def metas_insert_inv split: bind_splits if_splits)

lemma parse_dir_learns: "parse_dir parse render js m = Some m' \<Longrightarrow> learns m m'"
  by (induction parse render js m rule: parse_dir.induct)
    (auto split: bind_splits intro: learns_trans [OF parse_meta_learns])

lemma parse_srv_learns: "parse_srv parse kvs m = Some m' \<Longrightarrow> learns m m'"
  by (induction parse kvs m rule: parse_srv.induct)
    (auto split: bind_splits intro: learns_trans [OF parse_meta_learns])

lemma put_texts_inv: "om_inv m \<Longrightarrow> om_inv (put_texts kvs m)"
  by (induction kvs m rule: put_texts.induct) (auto simp: om_inv_put)

lemma dir_member_learns:
  "(case j of JArr js \<Rightarrow> parse_dir parse render js m | _ \<Rightarrow> Some m) = Some m' \<Longrightarrow> learns m m'"
  by (cases j) (auto intro: parse_dir_learns)

lemma srv_member_learns: "(case j of JObj kvs \<Rightarrow> parse_srv parse kvs m | _ \<Rightarrow> Some m) = Some m' \<Longrightarrow> learns m m'"
  by (cases j) (auto intro: parse_srv_learns)

lemma DirPayload_Parse_learns:
  "DirPayload_Parse parse render s p = Some (b, p') \<Longrightarrow> learns (dp_metas p) (dp_metas p')"
  unfolding DirPayload_Parse_def
  by (auto split: option.split_asm bind_splits
      dest!: dir_member_learns srv_member_learns intro: learns_trans)

lemma sorted_types_inj: "metas_inv m \<Longrightarrow> u \<in> set m \<Longrightarrow> v \<in> set m \<Longrightarrow> du_type u = du_type v \<Longrightarrow> u = v"
  by (induction m) (force simp: metas_inv_def)+

lemma Decode_rc: "Decode parse s st = Some (b, st') \<Longrightarrow> st_rc st' = st_rc st"
  by (simp add: Decode_def Decode_doc_rc)

section \<open>Properties\<close>

text \<open>C34. The services a client knows are kept in the order of their types, one for each type; and once it
  knows a service of a type, no answer of the directory changes or replaces it.\<close>

theorem directory_services_stale:
  assumes "DirPayload_Parse parse render s p = Some (b, p')" and "metas_inv (dp_metas p)"
  shows "metas_inv (dp_metas p')
    \<and> (\<forall>u \<in> set (dp_metas p). \<forall>v \<in> set (dp_metas p'). du_type v = du_type u \<longrightarrow> v = u)"
  using DirPayload_Parse_learns [OF assms(1)] assms(2) sorted_types_inj [of "dp_metas p'"]
  unfolding learns_def by blast

theorem directory_services_stale_witness:
  "let old = \<lparr>du_seq = 1, du_type = ''meta2'', du_args = [], du_host = \<lparr>srv_host = ''a'', srv_port = 1\<rparr>\<rparr>;
       new = JObj [(''seq'', JInt 2), (''type'', JStr ''meta2''), (''host'', JStr ''b:2''), (''args'', JStr [])];
       parse = (\<lambda>s. if s = ''A'' then Some (JObj [(''dir'', JArr [new]), (''srv'', JArr [])]) else Some new);
       p = \<lparr>dp_metas = [old], dp_properties = []\<rparr>
   in \<exists>p'. DirPayload_Parse parse (\<lambda>_. ''B'') ''A'' p = Some (True, p')
      \<and> (\<forall>v \<in> set (dp_metas p'). du_type v = ''meta2'' \<longrightarrow> v = old)"
proof -
  let ?old = "\<lparr>du_seq = 1, du_type = ''meta2'', du_args = [], du_host = \<lparr>srv_host = ''a'', srv_port = 1\<rparr>\<rparr>"
    and ?new = "JObj [(''seq'', JInt 2), (''type'', JStr ''meta2''), (''host'', JStr ''b:2''), (''args'', JStr [])]"
  let ?parse = "\<lambda>s. if s = ''A'' then Some (JObj [(''dir'', JArr [?new]), (''srv'', JArr [])]) else Some ?new"
    and ?p = "\<lparr>dp_metas = [?old], dp_properties = []\<rparr>"
  have "DirPayload_Parse ?parse (\<lambda>_. ''B'') ''A'' ?p = Some (True, ?p)" by code_simp
  from directory_services_stale [OF this] this show ?thesis by (simp add: metas_inv_def)
qed

end
