(* ===== verification/Container.thy ===== *)
theory Container
  imports Directory
begin

text \<open>
  The client of the containers (\<open>src/src/oio/container/container.hpp\<close>, \<open>container.cpp\<close>): the user and the
  system properties and their JSON text, and the calls.  Conventions as in \<open>Directory\<close>.
\<close>

section \<open>Properties of a container\<close>

record container_props =
  cp_user :: "(string, string) omap"
  cp_system :: "(string, string) omap"

definition ContainerProperties :: container_props where
  "ContainerProperties = \<lparr>cp_user = [], cp_system = []\<rparr>"

definition Cp_assign :: "container_props \<Rightarrow> container_props \<Rightarrow> container_props" where
  "Cp_assign arg p = p\<lparr>cp_user := cp_user arg, cp_system := cp_system arg\<rparr>"

definition Cp_put :: "string \<Rightarrow> string \<Rightarrow> container_props \<Rightarrow> container_props" where
  "Cp_put k v p = p\<lparr>cp_user := om_put k v (cp_user p)\<rparr>"

definition Cp_erase :: "string \<Rightarrow> container_props \<Rightarrow> container_props" where
  "Cp_erase k p = p\<lparr>cp_user := om_del k (cp_user p)\<rparr>"

definition DecodeProperties :: "(string \<Rightarrow> json option) \<Rightarrow> string \<Rightarrow> container_props \<Rightarrow>
    (bool \<times> container_props) option" where
  "DecodeProperties parse s p0 =
     (let p = p0\<lparr>cp_user := [], cp_system := []\<rparr> in
      case parse (c_str s) of
        None \<Rightarrow> Some (False, p)
      | Some d \<Rightarrow> do {
          props \<leftarrow> member d ''properties'';
          case props of
            None \<Rightarrow> Some (False, p)
          | Some pj \<Rightarrow> do {
              user \<leftarrow> put_object pj (cp_user p);
              sys \<leftarrow> member d ''system'';
              case sys of
                None \<Rightarrow> Some (False, p\<lparr>cp_user := user\<rparr>)
              | Some sj \<Rightarrow> do {
                  system \<leftarrow> put_object sj (cp_system p);
                  Some (True, p\<lparr>cp_user := user, cp_system := system\<rparr>)
                }
            }
        })"

text \<open>The writer is not told that the outer object ends.\<close>

definition EncodeProperties_toks :: "container_props \<Rightarrow> jtok list" where
  "EncodeProperties_toks p =
     StartObject # Key ''properties'' # object_toks (cp_user p) @ Key ''system'' # object_toks (cp_system p)"

definition EncodeProperties :: "(jtok list \<Rightarrow> string) \<Rightarrow> container_props \<Rightarrow> string" where
  "EncodeProperties render p = c_str (render (EncodeProperties_toks p))"

section \<open>Calls\<close>

record container_client =
  cl_url :: oio_url
  cl_payload :: container_props
  cl_del :: "string list"

definition Container_Client :: "oio_url \<Rightarrow> container_client" where
  "Container_Client u = \<lparr>cl_url = u, cl_payload = ContainerProperties, cl_del = []\<rparr>"

definition Cont_SetData :: "container_props \<Rightarrow> container_client \<Rightarrow> container_client" where
  "Cont_SetData p cl = cl\<lparr>cl_payload := Cp_assign p (cl_payload cl)\<rparr>"

definition Cont_AddProperty :: "string \<Rightarrow> string \<Rightarrow> container_client \<Rightarrow> container_client" where
  "Cont_AddProperty k v cl = cl\<lparr>cl_payload := Cp_put k v (cl_payload cl)\<rparr>"

definition Cont_RemoveProperty :: "string \<Rightarrow> container_client \<Rightarrow> container_client" where
  "Cont_RemoveProperty k cl = cl\<lparr>cl_del := os_insert k (cl_del cl)\<rparr>"

definition Cont_SELECTOR :: "oio_url \<Rightarrow> string \<Rightarrow> string" where
  "Cont_SELECTOR u str = ''/v3.0/'' @ ou_ns u @ ''/container/'' @ str @ ''?acct='' @ ou_account u
     @ ''&ref='' @ ou_container u @ (if ou_type u \<noteq> [] then ''&type='' @ ou_type u else [])"

text \<open>The headers of the reply go to the system properties when the call asks for them.\<close>

definition keep_system :: "(string, string) omap option \<Rightarrow> container_client \<Rightarrow> container_client" where
  "keep_system h cl = (case h of None \<Rightarrow> cl | Some m \<Rightarrow> cl\<lparr>cl_payload := (cl_payload cl)\<lparr>cp_system := m\<rparr>\<rparr>)"

definition Cont_http_call_parse_body :: "'p http_parser \<Rightarrow> (string \<Rightarrow> json option) \<Rightarrow> parameters \<Rightarrow>
    container_client call" where
  "Cont_http_call_parse_body hp parse pm = (\<lambda>(cl, c). do {
     (rc, out, h, c') \<leftarrow> DoCall hp pm c;
     let cl1 = keep_system h cl;
     if rc \<noteq> H_OK then Some (exec_error, cl1, c')
     else do {
       (ret, p) \<leftarrow> DecodeProperties parse (body_text out) (cl_payload cl1);
       let cl2 = cl1\<lparr>cl_payload := p\<rparr>;
       if ret then Some (OioError_default, cl2, c')
       else do { (_, err) \<leftarrow> Decode parse (body_text out) OioError_default; Some (err, cl2, c') }
     }
   })"

definition Cont_http_call :: "'p http_parser \<Rightarrow> (string \<Rightarrow> json option) \<Rightarrow> parameters \<Rightarrow> container_client call" where
  "Cont_http_call hp parse pm = (\<lambda>(cl, c). do {
     (rc, out, h, c') \<leftarrow> DoCall hp pm c;
     let cl1 = keep_system h cl;
     if rc \<noteq> H_OK then Some (OioError_Set (- 1) ''HTTP_exec exec error'' OioError_default, cl1, c')
     else do { (_, err) \<leftarrow> Decode parse (body_text out) OioError_default; Some (err, cl1, c') }
   })"

definition Cont_GetProperties :: "'p http_parser \<Rightarrow> (string \<Rightarrow> json option) \<Rightarrow> container_client call" where
  "Cont_GetProperties hp parse = (\<lambda>(cl, c). Cont_http_call_parse_body hp parse
     (Parameters ''POST'' (Cont_SELECTOR (cl_url cl) ''EncodeProperties'') []) (cl, c))"

definition Cont_Create :: "'p http_parser \<Rightarrow> (string \<Rightarrow> json option) \<Rightarrow> (jtok list \<Rightarrow> string) \<Rightarrow>
    container_client call" where
  "Cont_Create hp parse render = (\<lambda>(cl, c). Cont_http_call hp parse
     ((Parameters ''POST'' (Cont_SELECTOR (cl_url cl) ''create'') (EncodeProperties render (cl_payload cl)))
        \<lparr>pm_header_in := om_put ''x-oio-action-mode'' ''autocreate'' []\<rparr>) (cl, c))"

definition Cont_SetProperties :: "'p http_parser \<Rightarrow> (string \<Rightarrow> json option) \<Rightarrow> (jtok list \<Rightarrow> string) \<Rightarrow>
    container_client call" where
  "Cont_SetProperties hp parse render = (\<lambda>(cl, c). Cont_http_call hp parse
     (Parameters ''POST'' (Cont_SELECTOR (cl_url cl) ''set_properties'') (EncodeProperties render (cl_payload cl))) (cl, c))"

text \<open>The writer is not told that the array ends.\<close>

definition properties_key_toks :: "string list \<Rightarrow> jtok list" where
  "properties_key_toks props = StartArray # map (String_tok \<circ> c_str) props"

definition Cont_get_properties_key :: "(jtok list \<Rightarrow> string) \<Rightarrow> string list \<Rightarrow> string" where
  "Cont_get_properties_key render props = c_str (render (properties_key_toks props))"

definition Cont_DelProperties :: "'p http_parser \<Rightarrow> (string \<Rightarrow> json option) \<Rightarrow> (jtok list \<Rightarrow> string) \<Rightarrow>
    container_client call" where
  "Cont_DelProperties hp parse render = (\<lambda>(cl, c). Cont_http_call hp parse
     (Parameters ''POST'' (Cont_SELECTOR (cl_url cl) ''del_properties'') (Cont_get_properties_key render (cl_del cl)))
     (cl\<lparr>cl_del := []\<rparr>, c))"

definition sys_headers :: "container_client \<Rightarrow> parameters \<Rightarrow> parameters" where
  "sys_headers cl pm = pm\<lparr>pm_header_out := Some (cp_system (cl_payload cl)),
     pm_header_out_filter := ''x-oio-container-meta-sys-''\<rparr>"

definition Cont_Show :: "'p http_parser \<Rightarrow> (string \<Rightarrow> json option) \<Rightarrow> container_client call" where
  "Cont_Show hp parse = (\<lambda>(cl, c). Cont_http_call hp parse
     (sys_headers cl (Parameters ''GET'' (Cont_SELECTOR (cl_url cl) ''show'') [])) (cl, c))"

definition Cont_List :: "'p http_parser \<Rightarrow> (string \<Rightarrow> json option) \<Rightarrow> container_client call" where
  "Cont_List hp parse = (\<lambda>(cl, c). Cont_http_call hp parse
     (sys_headers cl (Parameters ''GET'' (Cont_SELECTOR (cl_url cl) ''list'') [])) (cl, c))"

definition Cont_Destroy :: "'p http_parser \<Rightarrow> (string \<Rightarrow> json option) \<Rightarrow> container_client call" where
  "Cont_Destroy hp parse = (\<lambda>(cl, c). Cont_http_call hp parse
     (Parameters ''POST'' (Cont_SELECTOR (cl_url cl) ''destroy'') []) (cl, c))"

definition Cont_Touch :: "'p http_parser \<Rightarrow> (string \<Rightarrow> json option) \<Rightarrow> container_client call" where
  "Cont_Touch hp parse = (\<lambda>(cl, c). Cont_http_call hp parse
     (Parameters ''POST'' (Cont_SELECTOR (cl_url cl) ''touch'') []) (cl, c))"

definition Cont_Dedup :: "'p http_parser \<Rightarrow> (string \<Rightarrow> json option) \<Rightarrow> container_client call" where
  "Cont_Dedup hp parse = (\<lambda>(cl, c). Cont_http_call hp parse
     (Parameters ''POST'' (Cont_SELECTOR (cl_url cl) ''dedup'') []) (cl, c))"

section \<open>Laws\<close>

definition text_map :: "(string, string) omap \<Rightarrow> bool" where
  "text_map m = (om_inv m \<and> (\<forall>(k, v) \<in> set m. c_text k \<and> c_text v))"

lemma text_map_put: "text_map m \<Longrightarrow> c_text k \<Longrightarrow> c_text v \<Longrightarrow> text_map (om_put k v m)"
proof -
  have "set (om_put k v m) \<subseteq> insert (k, v) (set m)" by (induction k v m rule: om_put.induct) auto
  then show "text_map m \<Longrightarrow> c_text k \<Longrightarrow> c_text v \<Longrightarrow> text_map (om_put k v m)"
    by (fastforce simp: text_map_def om_inv_put)
qed

lemma put_object_text: "text_map m \<Longrightarrow> put_object (object_doc m) [] = Some m"
  by (simp add: text_map_def put_object_doc)

definition props_doc :: "container_props \<Rightarrow> json" where
  "props_doc p = JObj [(''properties'', object_doc (cp_user p)), (''system'', object_doc (cp_system p))]"

lemma EncodeProperties_doc: "EncodeProperties_toks p @ [EndObject] = toks (props_doc p)"
  by (simp add: EncodeProperties_toks_def props_doc_def object_toks_doc)

lemma EncodeProperties_open:
  "read_toks (EncodeProperties_toks p) ([], None) =
    Some ([In_object [(''properties'', object_doc (cp_user p)), (''system'', object_doc (cp_system p))] None], None)"
  using read_toks_toks [of _ "object_doc (cp_system p)" "[]"]
  by (simp add: EncodeProperties_toks_def object_toks_doc read_toks_toks)

lemma EncodeProperties_no_document: "dom_of_toks (EncodeProperties_toks p) = None"
  by (simp add: dom_of_toks_def EncodeProperties_open)

lemma read_texts:
  "read_toks (map (String_tok \<circ> c_str) ks) (In_array vs # fs, None) =
    Some (In_array (vs @ map (JStr \<circ> c_str) ks) # fs, None)"
  by (induction ks arbitrary: vs) simp_all

section \<open>Properties\<close>

text \<open>C27. The text that is sent for the properties of a container is no JSON document, whatever the properties:
  one object is still open at its end.  With a JSON library that reads back what it wrote, \<open>DecodeProperties\<close>
  refuses it and forgets the properties it had; it would find all of them, user and system alike, if the writer were told
  that the object ends, provided that they hold no NUL.\<close>

theorem container_properties_unfinished:
  assumes "\<And>ts. ts \<in> {EncodeProperties_toks p, EncodeProperties_toks p @ [EndObject]} \<Longrightarrow> parse (c_str (render ts)) = dom_of_toks ts"
  shows "(\<exists>kvs. read_toks (EncodeProperties_toks p) ([], None) = Some ([In_object kvs None], None))
    \<and> DecodeProperties parse (EncodeProperties render p) q = Some (False, ContainerProperties)
    \<and> (text_map (cp_user p) \<and> text_map (cp_system p) \<longrightarrow>
        DecodeProperties parse (c_str (render (EncodeProperties_toks p @ [EndObject]))) q = Some (True, Cp_assign p q))"
proof (intro conjI impI)
  show "\<exists>kvs. read_toks (EncodeProperties_toks p) ([], None) = Some ([In_object kvs None], None)"
    by (simp add: EncodeProperties_open)
  have "parse (c_str (render (EncodeProperties_toks p))) = None"
    using assms by (simp add: EncodeProperties_no_document)
  then show "DecodeProperties parse (EncodeProperties render p) q = Some (False, ContainerProperties)"
    by (simp add: DecodeProperties_def EncodeProperties_def ContainerProperties_def Let_def)
  assume t: "text_map (cp_user p) \<and> text_map (cp_system p)"
  have "parse (c_str (render (EncodeProperties_toks p @ [EndObject]))) = Some (props_doc p)"
    using assms by (simp add: EncodeProperties_doc)
  with t show "DecodeProperties parse (c_str (render (EncodeProperties_toks p @ [EndObject]))) q = Some (True, Cp_assign p q)"
    by (simp add: DecodeProperties_def Cp_assign_def Let_def props_doc_def put_object_text)
qed

theorem container_properties_unfinished_witness:
  "let p = Cp_put ''a'' ''1'' ContainerProperties\<lparr>cp_system := [(''s'', ''x'')]\<rparr>;
       render = (\<lambda>ts. if ts = EncodeProperties_toks p then ''J'' else ''K'');
       parse = (\<lambda>s. if s = ''K'' then Some (props_doc p) else None)
   in DecodeProperties parse (EncodeProperties render p) p = Some (False, ContainerProperties)
    \<and> DecodeProperties parse (c_str (render (EncodeProperties_toks p @ [EndObject]))) ContainerProperties = Some (True, p)"
proof -
  let ?p = "Cp_put ''a'' ''1'' ContainerProperties\<lparr>cp_system := [(''s'', ''x'')]\<rparr>"
  let ?render = "\<lambda>ts. if ts = EncodeProperties_toks ?p then ''J'' else ''K''"
    and ?parse = "\<lambda>s. if s = ''K'' then Some (props_doc ?p) else None"
  have reads: "?parse (c_str (?render ts)) = dom_of_toks ts"
    if "ts \<in> {EncodeProperties_toks ?p, EncodeProperties_toks ?p @ [EndObject]}" for ts
    using that by (auto simp: c_str_def EncodeProperties_no_document EncodeProperties_doc simp del: toks.simps)
  have "text_map (cp_user ?p)" "text_map (cp_system ?p)"
    by (simp_all add: text_map_def om_inv_def Cp_put_def ContainerProperties_def c_text_def)
  moreover have "Cp_assign ?p ContainerProperties = ?p" by (simp add: Cp_assign_def)
  ultimately show ?thesis
    using container_properties_unfinished [of ?p ?parse ?render ?p, OF reads]
      container_properties_unfinished [of ?p ?parse ?render ContainerProperties, OF reads] by (simp only: Let_def)
qed

text \<open>The request that deletes properties never has a JSON document for body: its array is not
  ended, whatever the keys.  The keys are forgotten all the same, whether the call succeeds or not.\<close>

theorem container_delete_no_document:
  shows "dom_of_toks (properties_key_toks props) = None
    \<and> map_option (\<lambda>(st, cl', c'). cl_del cl') (Cont_DelProperties hp parse render (cl, c)) \<in> {None, Some []}"
proof
  show "dom_of_toks (properties_key_toks props) = None"
    by (simp add: dom_of_toks_def properties_key_toks_def read_texts)
  have "cl_del cl' = []" if "Cont_DelProperties hp parse render (cl, c) = Some (st, cl', c')" for st cl' c'
    using that by (auto simp: Cont_DelProperties_def Cont_http_call_def keep_system_def Let_def
        split: bind_splits if_splits option.splits)
  then show "map_option (\<lambda>(st, cl', c'). cl_del cl') (Cont_DelProperties hp parse render (cl, c)) \<in> {None, Some []}"
    by (cases "Cont_DelProperties hp parse render (cl, c)") auto
qed

end
