(* ===== verification/Content.thy ===== *)
theory Content
  imports Container Rawx_Blob
begin

text \<open>
  The client of the contents (\<open>src/src/oio/content/content.hpp\<close>, \<open>content.cpp\<close>): the chunks of a content
  and its properties, their JSON text, and the calls.  Conventions as in \<open>Directory\<close>.
\<close>

section \<open>Chunks\<close>

text \<open>The base class \<open>RawxUrl\<close> is the field \<open>ci_url\<close>.\<close>

record chunk_info =
  ci_url :: rawx_url
  ci_chunk_number :: int
  ci_pos :: int
  ci_score :: int
  ci_size :: int
  ci_hash :: string

definition ChunkInfo :: chunk_info where
  "ChunkInfo = \<lparr>ci_url = RawxUrl, ci_chunk_number = 0, ci_pos = 0, ci_score = 0, ci_size = 0, ci_hash = []\<rparr>"

definition ChunkInfo_SetContent :: "chunk_info \<Rightarrow> chunk_info \<Rightarrow> chunk_info" where
  "ChunkInfo_SetContent arg s = s\<lparr>ci_url := RawxUrl_Set (ci_url arg) (ci_url s), ci_chunk_number := ci_chunk_number arg,
     ci_pos := ci_pos arg, ci_size := ci_size arg, ci_score := ci_score arg, ci_hash := ci_hash arg\<rparr>"

text \<open>\<open>std::set<ChunkInfo>\<close>: ordered by the chunk number alone.\<close>

fun chunks_insert :: "chunk_info \<Rightarrow> chunk_info list \<Rightarrow> chunk_info list" where
  "chunks_insert t [] = [t]"
| "chunks_insert t (a # ts) =
     (if ci_chunk_number t < ci_chunk_number a then t # a # ts
      else if ci_chunk_number t = ci_chunk_number a then a # ts else a # chunks_insert t ts)"

definition chunks_erase :: "chunk_info \<Rightarrow> chunk_info list \<Rightarrow> chunk_info list" where
  "chunks_erase t ts = filter (\<lambda>a. ci_chunk_number a \<noteq> ci_chunk_number t) ts"

record content_info =
  co_properties :: "(string, string) omap"
  co_system :: "(string, string) omap"
  co_targets :: "chunk_info list"
  co_default_ask_size :: int

definition ContentInfo :: content_info where
  "ContentInfo = \<lparr>co_properties = [], co_system = [], co_targets = [], co_default_ask_size = 1\<rparr>"

definition Ci_assign :: "content_info \<Rightarrow> content_info \<Rightarrow> content_info" where
  "Ci_assign arg p = p\<lparr>co_properties := co_properties arg\<rparr>"

definition Ci_put :: "string \<Rightarrow> string \<Rightarrow> content_info \<Rightarrow> content_info" where
  "Ci_put k v p = p\<lparr>co_properties := om_put k v (co_properties p)\<rparr>"

definition Ci_erase :: "string \<Rightarrow> content_info \<Rightarrow> content_info" where
  "Ci_erase k p = p\<lparr>co_properties := om_del k (co_properties p)\<rparr>"

definition UpdateTarget :: "chunk_info \<Rightarrow> content_info \<Rightarrow> content_info" where
  "UpdateTarget t p = p\<lparr>co_targets := chunks_insert t (chunks_erase t (co_targets p))\<rparr>"

definition GetTargetsSize :: "content_info \<Rightarrow> nat" where
  "GetTargetsSize p = length (co_targets p)"

definition GetTarget :: "content_info \<Rightarrow> int \<Rightarrow> chunk_info" where
  "GetTarget p i = (case List.find (\<lambda>t. ci_chunk_number t = i) (co_targets p) of None \<Rightarrow> ChunkInfo | Some t \<Rightarrow> t)"

definition ClearData :: "content_info \<Rightarrow> content_info" where
  "ClearData p = p\<lparr>co_targets := [], co_system := [], co_properties := []\<rparr>"

section \<open>JSON texts\<close>

definition get_size_toks :: "content_info \<Rightarrow> jtok list" where
  "get_size_toks p = [StartObject, Key ''size'', Int_tok (co_default_ask_size p), EndObject]"

text \<open>\<open>stream >> i\<close> with \<open>i\<close> equal to 0: the value stored, and what is left unless the stream has failed.\<close>

definition stream_int :: "string \<Rightarrow> int \<times> string option" where
  "stream_int s =
     (case scan_int s of
        None \<Rightarrow> (0, None)
      | Some (i, r) \<Rightarrow> if i < - (2 ^ 31) then (- (2 ^ 31), None)
          else if 2 ^ 31 \<le> i then (2 ^ 31 - 1, None) else (i, Some r))"

text \<open>The position and the number of a chunk, from the text of the position.\<close>

definition chunk_place :: "string \<Rightarrow> chunk_info list \<Rightarrow> int \<times> int" where
  "chunk_place s targets =
     (case find_chr CHR ''.'' s of
        Some dot \<Rightarrow>
          (let (pos, rest) = stream_int (s[dot := CHR '' ''])
           in (pos, case rest of None \<Rightarrow> 0 | Some r \<Rightarrow> fst (stream_int r)))
      | None \<Rightarrow>
          (let pos = fst (stream_int s)
           in if pos \<noteq> 0 then (pos, pos)
              else if targets \<noteq> [] \<and> ci_pos (hd targets) \<noteq> 0 then (pos, pos)
              else (pos, int (length targets))))"

definition put_content :: "(string \<Rightarrow> json option) \<Rightarrow> string \<Rightarrow> content_info \<Rightarrow> (bool \<times> content_info) option" where
  "put_content parse v p =
     (case parse (c_str v) of
        None \<Rightarrow> Some (False, p)
      | Some d \<Rightarrow> do {
          uj \<leftarrow> member d ''url'';
          case uj of None \<Rightarrow> Some (False, p) | Some uv \<Rightarrow> do {
          us \<leftarrow> get_string uv;
          url \<leftarrow> RawxUrl_Parse us RawxUrl;
          hj \<leftarrow> member d ''hash'';
          case hj of None \<Rightarrow> Some (False, p) | Some hv \<Rightarrow> do {
          hash \<leftarrow> get_string hv;
          zj \<leftarrow> member d ''size'';
          case zj of None \<Rightarrow> Some (False, p) | Some zv \<Rightarrow> do {
          sz \<leftarrow> get_int zv;
          sj \<leftarrow> member d ''score'';
          case sj of None \<Rightarrow> Some (False, p) | Some sv \<Rightarrow> do {
          score \<leftarrow> get_int sv;
          pj \<leftarrow> member d ''pos'';
          case pj of None \<Rightarrow> Some (False, p) | Some pv \<Rightarrow> do {
          tmp \<leftarrow> get_string pv;
          let place = chunk_place tmp (co_targets p);
          let t = ChunkInfo\<lparr>ci_url := RawxUrl_Set url (ci_url ChunkInfo), ci_hash := hash, ci_size := sz,
            ci_score := score, ci_pos := fst place, ci_chunk_number := snd place\<rparr>;
          Some (True, p\<lparr>co_targets := chunks_insert t (co_targets p)\<rparr>)
          }}}}}
        })"

fun put_chunks :: "(string \<Rightarrow> json option) \<Rightarrow> (jtok list \<Rightarrow> string) \<Rightarrow> json list \<Rightarrow> content_info \<Rightarrow> content_info option" where
  "put_chunks parse render [] p = Some p"
| "put_chunks parse render (JObj kvs # js) p = do {
     (_, p') \<leftarrow> put_content parse (c_str (render (toks (JObj kvs)))) p;
     put_chunks parse render js p'
   }"
| "put_chunks parse render (_ # js) p = put_chunks parse render js p"

definition put_contents :: "(string \<Rightarrow> json option) \<Rightarrow> (jtok list \<Rightarrow> string) \<Rightarrow> string \<Rightarrow> content_info \<Rightarrow>
    (bool \<times> content_info) option" where
  "put_contents parse render s p =
     (case parse (c_str s) of
        None \<Rightarrow> Some (False, p)
      | Some (JArr js) \<Rightarrow> do { p' \<leftarrow> put_chunks parse render js p; Some (True, p') }
      | Some _ \<Rightarrow> Some (True, p))"

definition get_content_toks :: "chunk_info \<Rightarrow> jtok list" where
  "get_content_toks t = [StartObject, Key ''hash'', String_tok (c_str (ci_hash t)),
     Key ''pos'', String_tok (show_int (ci_pos t)), Key ''size'', Int_tok (ci_size t),
     Key ''url'', String_tok (c_str (RawxUrl_GetString (ci_url t))), EndObject]"

text \<open>Texts separated by commas, as the loops over the chunks and over the keys write them.\<close>

fun commas :: "string list \<Rightarrow> string" where
  "commas [] = []"
| "commas [s] = s"
| "commas (s # ss) = s @ '','' @ commas ss"

definition get_contents :: "(jtok list \<Rightarrow> string) \<Rightarrow> content_info \<Rightarrow> string" where
  "get_contents render p = ''['' @ commas (map (\<lambda>t. render (get_content_toks t)) (co_targets p)) @ '']''"

definition put_properties :: "(string \<Rightarrow> json option) \<Rightarrow> string \<Rightarrow> content_info \<Rightarrow> (bool \<times> content_info) option" where
  "put_properties parse s p0 =
     (let p = p0\<lparr>co_properties := []\<rparr> in
      case parse (c_str s) of
        None \<Rightarrow> Some (False, p)
      | Some d \<Rightarrow> do {
          props \<leftarrow> member d ''properties'';
          case props of
            None \<Rightarrow> Some (False, p)
          | Some pj \<Rightarrow> do { m \<leftarrow> put_object pj (co_properties p); Some (True, p\<lparr>co_properties := m\<rparr>) }
        })"

definition get_properties :: "(jtok list \<Rightarrow> string) \<Rightarrow> content_info \<Rightarrow> string" where
  "get_properties render p =
     [CHR ''{'', CHR 0x22] @ ''properties'' @ [CHR 0x22, CHR '':''] @ render (object_toks (co_properties p)) @ ''}''"

text \<open>The keys between quotes, as they are.\<close>

definition Content_get_properties_key :: "string list \<Rightarrow> string" where
  "Content_get_properties_key ks = ''['' @ commas (map (\<lambda>k. [CHR 0x22] @ k @ [CHR 0x22]) ks) @ '']''"

section \<open>Calls\<close>

datatype content_body = C_PROPERTIES | C_PREPARE | C_SHOW

record content =
  ct_url :: oio_url
  ct_param :: content_info
  ct_del :: "string list"

definition Content :: "oio_url \<Rightarrow> content" where
  "Content u = \<lparr>ct_url = u, ct_param = ContentInfo, ct_del = []\<rparr>"

definition Content_ClearData :: "content \<Rightarrow> content" where
  "Content_ClearData ct = ct\<lparr>ct_param := ClearData (ct_param ct)\<rparr>"

definition Content_SetData :: "content_info \<Rightarrow> content \<Rightarrow> content" where
  "Content_SetData p ct = ct\<lparr>ct_param := Ci_assign p (ct_param ct)\<rparr>"

definition Content_RemoveProperty :: "string \<Rightarrow> content \<Rightarrow> content" where
  "Content_RemoveProperty k ct = ct\<lparr>ct_del := os_insert k (ct_del ct)\<rparr>"

definition Content_AddProperty :: "string \<Rightarrow> string \<Rightarrow> content \<Rightarrow> content" where
  "Content_AddProperty k v ct = ct\<lparr>ct_param := Ci_put k v (ct_param ct)\<rparr>"

definition Content_SELECTOR :: "oio_url \<Rightarrow> string \<Rightarrow> string" where
  "Content_SELECTOR u str = ''/v3.0/'' @ ou_ns u @ ''/content/'' @ str @ ''?acct='' @ ou_account u
     @ ''&ref='' @ ou_container u @ (if ou_type u \<noteq> [] then ''&type='' @ ou_type u else [])
     @ ''&path='' @ ou_path u"

definition ct_keep_system :: "(string, string) omap option \<Rightarrow> content \<Rightarrow> content" where
  "ct_keep_system h ct = (case h of None \<Rightarrow> ct | Some m \<Rightarrow> ct\<lparr>ct_param := (ct_param ct)\<lparr>co_system := m\<rparr>\<rparr>)"

definition Content_http_call_parse_body :: "'p http_parser \<Rightarrow> (string \<Rightarrow> json option) \<Rightarrow> (jtok list \<Rightarrow> string) \<Rightarrow>
    parameters \<Rightarrow> content_body \<Rightarrow> content call" where
  "Content_http_call_parse_body hp parse render pm typ = (\<lambda>(ct, c). do {
     (rc, out, h, c') \<leftarrow> DoCall hp pm c;
     let ct1 = ct_keep_system h ct;
     if rc \<noteq> H_OK then Some (OioError_Set (- 1) ''HTTP_exec exec error'' OioError_default, ct1, c')
     else do {
       (ret, p) \<leftarrow> (case typ of
           C_PREPARE \<Rightarrow> put_contents parse render (body_text out) (ct_param ct1)
         | C_SHOW \<Rightarrow> put_contents parse render (body_text out) (ct_param ct1)
         | C_PROPERTIES \<Rightarrow> put_properties parse (body_text out) (ct_param ct1));
       let ct2 = ct1\<lparr>ct_param := p\<rparr>;
       if ret then Some (OioError_default, ct2, c')
       else do { (_, err) \<leftarrow> Decode parse (body_text out) OioError_default; Some (err, ct2, c') }
     }
   })"

text \<open>The body of the reply is overwritten with the text of the (empty) error, and not read.\<close>

definition Content_http_call :: "'p http_parser \<Rightarrow> parameters \<Rightarrow> content call" where
  "Content_http_call hp pm = (\<lambda>(ct, c). do {
     (rc, out, h, c') \<leftarrow> DoCall hp pm c;
     Some (if rc \<noteq> H_OK then OioError_Set (- 1) ''HTTP_exec exec error'' OioError_default else OioError_default,
       ct_keep_system h ct, c')
   })"

definition Content_Create :: "'p http_parser \<Rightarrow> (jtok list \<Rightarrow> string) \<Rightarrow> int \<Rightarrow> content call" where
  "Content_Create hp render sz = (\<lambda>(ct, c). Content_http_call hp
     ((Parameters ''POST'' (Content_SELECTOR (ct_url ct) ''create'') (get_contents render (ct_param ct)))
       \<lparr>pm_header_in := om_put ''x-oio-content-type'' ''octet/stream''
         (om_put ''x-oio-content-meta-hash'' ''00000000000000000000000000000000''
           (om_put ''x-oio-content-meta-length'' (show_int sz) []))\<rparr>) (ct, c))"

definition Content_Copy :: "'p http_parser \<Rightarrow> string \<Rightarrow> content call" where
  "Content_Copy hp u = (\<lambda>(ct, c). Content_http_call hp
     ((Parameters ''POST'' (Content_SELECTOR (ct_url ct) ''copy'') [])
       \<lparr>pm_header_in := om_put ''destination'' u []\<rparr>) (ct, c))"

definition Content_SetProperties :: "'p http_parser \<Rightarrow> (jtok list \<Rightarrow> string) \<Rightarrow> content call" where
  "Content_SetProperties hp render = (\<lambda>(ct, c). Content_http_call hp
     (Parameters ''POST'' (Content_SELECTOR (ct_url ct) ''set_properties'') (get_properties render (ct_param ct))) (ct, c))"

definition Content_DelProperties :: "'p http_parser \<Rightarrow> content call" where
  "Content_DelProperties hp = (\<lambda>(ct, c). Content_http_call hp
     (Parameters ''POST'' (Content_SELECTOR (ct_url ct) ''del_properties'') (Content_get_properties_key (ct_del ct)))
     (ct\<lparr>ct_del := []\<rparr>, c))"

definition Content_Delete :: "'p http_parser \<Rightarrow> content call" where
  "Content_Delete hp = (\<lambda>(ct, c). Content_http_call hp
     (Parameters ''POST'' (Content_SELECTOR (ct_url ct) ''delete'') []) (ct, c))"

definition meta_headers :: "content \<Rightarrow> parameters \<Rightarrow> parameters" where
  "meta_headers ct pm = pm\<lparr>pm_header_out := Some (co_system (ct_param ct)),
     pm_header_out_filter := ''x-oio-content-meta-''\<rparr>"

definition Content_Show :: "'p http_parser \<Rightarrow> (string \<Rightarrow> json option) \<Rightarrow> (jtok list \<Rightarrow> string) \<Rightarrow> content call" where
  "Content_Show hp parse render = (\<lambda>(ct, c). Content_http_call_parse_body hp parse render
     (meta_headers ct (Parameters ''GET'' (Content_SELECTOR (ct_url ct) ''show'') [])) C_SHOW (ct, c))"

definition Content_GetProperties :: "'p http_parser \<Rightarrow> (string \<Rightarrow> json option) \<Rightarrow> (jtok list \<Rightarrow> string) \<Rightarrow>
    content call" where
  "Content_GetProperties hp parse render = (\<lambda>(ct, c). Content_http_call_parse_body hp parse render
     (meta_headers ct (Parameters ''POST'' (Content_SELECTOR (ct_url ct) ''EncodeProperties'') [])) C_PROPERTIES (ct, c))"

definition Content_Prepare :: "'p http_parser \<Rightarrow> (string \<Rightarrow> json option) \<Rightarrow> (jtok list \<Rightarrow> string) \<Rightarrow> bool \<Rightarrow>
    content call" where
  "Content_Prepare hp parse render autocreate = (\<lambda>(ct, c).
     let pm = meta_headers ct (Parameters ''POST'' (Content_SELECTOR (ct_url ct) ''prepare'')
           (render (get_size_toks (ct_param ct))))
     in Content_http_call_parse_body hp parse render
       (if autocreate then pm\<lparr>pm_header_in := om_put ''x-oio-action-mode'' ''autocreate'' []\<rparr> else pm) C_PREPARE (ct, c))"

section \<open>Laws\<close>

definition chunks_inv :: "chunk_info list \<Rightarrow> bool" where
  "chunks_inv ts = sorted_wrt (<) (map ci_chunk_number ts)"

lemma numbers_chunks_insert: "ci_chunk_number ` set (chunks_insert t ts) = insert (ci_chunk_number t) (ci_chunk_number ` set ts)"
  by (induction t ts rule: chunks_insert.induct) auto

lemma chunks_inv_insert: "chunks_inv ts \<Longrightarrow> chunks_inv (chunks_insert t ts)"
proof (induction t ts rule: chunks_insert.induct)
  case (2 t a ts)
  then show ?case using numbers_chunks_insert [of t ts] by (auto simp: chunks_inv_def)
qed (simp add: chunks_inv_def)

lemma chunks_insert_last: "\<forall>a \<in> set ts. ci_chunk_number a < ci_chunk_number t \<Longrightarrow> chunks_insert t ts = ts @ [t]"
  by (induction t ts rule: chunks_insert.induct) auto

lemma chunks_insert_present: "chunks_inv ts \<Longrightarrow> ci_chunk_number t \<in> ci_chunk_number ` set ts \<Longrightarrow> chunks_insert t ts = ts"
  by (induction t ts rule: chunks_insert.induct) (auto simp: chunks_inv_def)

text \<open>A chunk as the services describe it.\<close>

definition chunk_doc :: "string \<Rightarrow> string \<Rightarrow> int \<Rightarrow> int \<Rightarrow> string \<Rightarrow> json" where
  "chunk_doc url hash sz score pos = JObj [(''url'', JStr url), (''hash'', JStr hash), (''size'', JInt sz),
     (''score'', JInt score), (''pos'', JStr pos)]"

definition in_int :: "int \<Rightarrow> bool" where
  "in_int i = (- (2 ^ 31) \<le> i \<and> i < 2 ^ 31)"

lemma RawxUrl_Set_all [simp]: "RawxUrl_Set u r = u"
  by (cases u; cases r) (simp add: RawxUrl_Set_def)

lemma put_content_doc:
  assumes "parse (c_str v) = Some (chunk_doc us hash sz score pos)" and "RawxUrl_Parse (c_str us) RawxUrl = Some url"
    and "in_int sz" and "in_int score"
  shows "put_content parse v p = Some (True, p\<lparr>co_targets := chunks_insert
    \<lparr>ci_url = url, ci_chunk_number = snd (chunk_place (c_str pos) (co_targets p)),
     ci_pos = fst (chunk_place (c_str pos) (co_targets p)), ci_score = score, ci_size = sz, ci_hash = c_str hash\<rparr>
    (co_targets p)\<rparr>)"
  using assms
  by (simp add: put_content_def chunk_doc_def in_int_def ChunkInfo_def Let_def)

text \<open>The three ways a position is written: that of a metachunk, of a fragment of one, and the former again.\<close>

datatype layout = Replicas | Fragments | Metachunks

fun pos_text :: "layout \<Rightarrow> nat \<Rightarrow> string" where
  "pos_text Replicas i = show_dec 0"
| "pos_text Fragments i = show_dec 0 @ ''.'' @ show_dec i"
| "pos_text Metachunks i = show_dec i"

fun pos_of :: "layout \<Rightarrow> nat \<Rightarrow> int" where
  "pos_of Metachunks i = int i"
| "pos_of _ i = 0"

lemma stream_int_dec:
  "int n < 2 ^ 31 \<Longrightarrow> r = [] \<or> \<not> is_digit 10 (hd r) \<Longrightarrow> stream_int (show_dec n @ r) = (int n, Some r)"
  by (simp add: stream_int_def scan_int_show_dec)

lemma no_dot: "CHR ''.'' \<notin> set (show_dec n)"
proof
  assume "CHR ''.'' \<in> set (show_dec n)"
  then obtain d where "d < 16" "CHR ''.'' = digit_char d" by (rule show_base_digits [rotated 2]) simp_all
  then show False by (auto simp: digit_char_def dest!: arg_cong [of _ _ "of_char :: char \<Rightarrow> nat"] split: if_splits)
qed

lemma stream_int_space: "stream_int (CHR '' '' # s) = stream_int s"
  by (simp add: stream_int_def scan_int_def is_space_def)

lemma chunk_place_dec:
  assumes "int n < 2 ^ 31"
  shows "chunk_place (show_dec n) ts =
    (int n, if n = 0 \<and> (ts = [] \<or> ci_pos (hd ts) = 0) then int (length ts) else int n)"
  using assms stream_int_dec [of n "[]"] no_dot [of n] by (simp add: chunk_place_def Let_def)

lemma chunk_place_dot:
  assumes "int m < 2 ^ 31" and "int n < 2 ^ 31"
  shows "chunk_place (show_dec m @ ''.'' @ show_dec n) ts = (int m, int n)"
proof -
  have "find_chr CHR ''.'' (show_dec m @ ''.'' @ show_dec n) = Some (length (show_dec m))"
    using find_chr_append [OF no_dot, of m "show_dec n"] by simp
  moreover have "(show_dec m @ ''.'' @ show_dec n)[length (show_dec m) := CHR '' ''] = show_dec m @ '' '' @ show_dec n"
    by (simp add: list_update_append)
  moreover have "stream_int (show_dec m @ '' '' @ show_dec n) = (int m, Some ('' '' @ show_dec n))"
    using assms(1) by (intro stream_int_dec) (simp_all add: is_digit_def digit_val_def)
  moreover have "stream_int ('' '' @ show_dec n) = (int n, Some [])"
    using stream_int_dec [OF assms(2), of "[]"] by (simp add: stream_int_space)
  ultimately show ?thesis by (simp add: chunk_place_def)
qed

lemma put_chunks_append:
  "put_chunks parse render (js @ ks) p = Option.bind (put_chunks parse render js p) (put_chunks parse render ks)"
  by (induction parse render js p rule: put_chunks.induct) (auto split: bind_splits)

lemma find_between:
  "ci_chunk_number t = i \<Longrightarrow> \<forall>x \<in> set xs. ci_chunk_number x \<noteq> i \<Longrightarrow>
    List.find (\<lambda>t. ci_chunk_number t = i) (xs @ t # ts) = Some t"
  by (induction xs) auto

text \<open>The chunks of a layout, and the targets they become.\<close>

definition layout_docs :: "layout \<Rightarrow> (nat \<Rightarrow> string) \<Rightarrow> (nat \<Rightarrow> string) \<Rightarrow> (nat \<Rightarrow> int) \<Rightarrow> (nat \<Rightarrow> int) \<Rightarrow> nat \<Rightarrow> json list" where
  "layout_docs l us hash sz score n = map (\<lambda>i. chunk_doc (us i) (hash i) (sz i) (score i) (pos_text l i)) [0..<n]"

definition layout_target :: "layout \<Rightarrow> (nat \<Rightarrow> rawx_url) \<Rightarrow> (nat \<Rightarrow> string) \<Rightarrow> (nat \<Rightarrow> int) \<Rightarrow> (nat \<Rightarrow> int) \<Rightarrow> nat \<Rightarrow> chunk_info" where
  "layout_target l url hash sz score i = \<lparr>ci_url = url i, ci_chunk_number = int i, ci_pos = pos_of l i,
     ci_score = score i, ci_size = sz i, ci_hash = c_str (hash i)\<rparr>"

lemma c_str_pos_text [simp]: "c_str (pos_text l i) = pos_text l i"
  by (cases l) (auto intro!: c_str_text simp: c_text_def)

lemma chunk_place_layout:
  assumes "int i < 2 ^ 31" and "length ts = i" and "i \<noteq> 0 \<longrightarrow> ci_pos (hd ts) = 0"
  shows "chunk_place (pos_text l i) ts = (pos_of l i, int i)"
  using assms by (cases l) (auto simp: chunk_place_dec chunk_place_dot [simplified])

lemma put_chunks_layout:
  assumes "n < 2 ^ 31" and "\<forall>i < n. RawxUrl_Parse (c_str (us i)) RawxUrl = Some (url i) \<and> in_int (sz i) \<and> in_int (score i)"
    and "\<forall>j \<in> set (layout_docs l us hash sz score n). parse (c_str (render (toks j))) = Some j" and "co_targets p = []"
  shows "k \<le> n \<Longrightarrow> put_chunks parse render (layout_docs l us hash sz score k) p =
    Some (p\<lparr>co_targets := map (layout_target l url hash sz score) [0..<k]\<rparr>)"
proof (induction k)
  case 0
  with assms(4) show ?case by (cases p) (simp add: layout_docs_def)
next
  case (Suc k)
  let ?j = "chunk_doc (us k) (hash k) (sz k) (score k) (pos_text l k)"
    and ?ts = "map (layout_target l url hash sz score) [0..<k]"
  have "?j \<in> set (layout_docs l us hash sz score n)" using Suc.prems by (auto simp: layout_docs_def)
  then have j: "parse (c_str (c_str (render (toks ?j)))) = Some ?j" using assms(3) by simp
  have hd: "k \<noteq> 0 \<longrightarrow> ci_pos (hd ?ts) = 0"
    by (cases l) (simp_all add: hd_map hd_upt layout_target_def del: upt_Suc)
  have place: "chunk_place (pos_text l k) ?ts = (pos_of l k, int k)"
    by (rule chunk_place_layout) (use Suc.prems assms(1) hd in auto)
  have "chunks_insert (layout_target l url hash sz score k) ?ts = ?ts @ [layout_target l url hash sz score k]"
    by (rule chunks_insert_last) (auto simp: layout_target_def)
  with put_content_doc [of parse "c_str (render (toks ?j))" "us k" "hash k" "sz k" "score k" "pos_text l k" "url k"
      "p\<lparr>co_targets := ?ts\<rparr>"] j assms(2) Suc.prems place
  have "put_content parse (c_str (render (toks ?j))) (p\<lparr>co_targets := ?ts\<rparr>) =
      Some (True, p\<lparr>co_targets := ?ts @ [layout_target l url hash sz score k]\<rparr>)"
    by (simp add: layout_target_def)
  moreover have "layout_docs l us hash sz score (Suc k) = layout_docs l us hash sz score k @ [?j]"
    by (simp add: layout_docs_def)
  moreover obtain kvs where "?j = JObj kvs" by (simp add: chunk_doc_def)
  ultimately show ?case using Suc by (simp add: put_chunks_append del: toks.simps)
qed

section \<open>Properties\<close>

text \<open>C24. The chunks of a content are numbered as their order in the answer says, whichever way the
  service writes their positions: all at metachunk 0 (replicas), at its fragments 0, 1, ..., or at the
  metachunks 0, 1, ...  Each is then found under its number with its URL, hash and size.\<close>

theorem content_layout:
  assumes "n < 2 ^ 31" and "\<forall>i < n. RawxUrl_Parse (c_str (us i)) RawxUrl = Some (url i) \<and> in_int (sz i) \<and> in_int (score i)"
    and "parse (c_str s) = Some (JArr (layout_docs l us hash sz score n))"
    and "\<forall>j \<in> set (layout_docs l us hash sz score n). parse (c_str (render (toks j))) = Some j" and "co_targets p = []"
  shows "\<exists>p'. put_contents parse render s p = Some (True, p') \<and> GetTargetsSize p' = n
    \<and> (\<forall>i < n. GetTarget p' (int i) = layout_target l url hash sz score i)"
proof -
  let ?t = "layout_target l url hash sz score"
  have 1: "put_contents parse render s p = Some (True, p\<lparr>co_targets := map ?t [0..<n]\<rparr>)"
    using put_chunks_layout [OF assms(1,2,4,5), of n] assms(3) by (simp add: put_contents_def)
  have 2: "GetTarget (p\<lparr>co_targets := map ?t [0..<n]\<rparr>) (int i) = ?t i" if "i < n" for i
  proof -
    have "[0..<n] = [0..<i] @ i # [Suc i..<n]" using that by (metis less_imp_add_positive upt_add_eq_append upt_conv_Cons zero_le)
    then have "map ?t [0..<n] = map ?t [0..<i] @ ?t i # map ?t [Suc i..<n]" by simp
    moreover have "ci_chunk_number (?t i) = int i" "\<forall>x \<in> set (map ?t [0..<i]). ci_chunk_number x \<noteq> int i"
      by (auto simp: layout_target_def)
    ultimately show ?thesis using find_between [of "?t i" "int i" "map ?t [0..<i]" "map ?t [Suc i..<n]"]
      by (simp add: GetTarget_def del: List.find.simps)
  qed
  show ?thesis using 1 2 by (intro exI [of _ "p\<lparr>co_targets := map ?t [0..<n]\<rparr>"]) (simp add: GetTargetsSize_def)
qed

theorem content_layout_witness:
  "let doc = (\<lambda>i. chunk_doc ''http://h:6000/AB'' ''x'' 10 1 (pos_text Fragments i));
       parse = (\<lambda>s. if s = ''A'' then Some (JArr [doc 0, doc 1]) else if s = ''0'' then Some (doc 0) else Some (doc 1));
       render = (\<lambda>ts. if ts = toks (doc 0) then ''0'' else ''1'')
   in \<exists>p'. put_contents parse render ''A'' ContentInfo = Some (True, p') \<and> GetTargetsSize p' = 2
      \<and> ci_chunk_number (GetTarget p' 1) = 1 \<and> ru_chunk_id (ci_url (GetTarget p' 1)) = ''AB''"
proof -
  let ?doc = "\<lambda>i. chunk_doc ''http://h:6000/AB'' ''x'' 10 1 (pos_text Fragments i)"
  let ?parse = "\<lambda>s. if s = ''A'' then Some (JArr [?doc 0, ?doc 1]) else if s = ''0'' then Some (?doc 0) else Some (?doc 1)"
    and ?render = "\<lambda>ts. if ts = toks (?doc 0) then ''0'' else ''1''"
    and ?url = "\<lparr>ru_chunk_id = ''AB'', ru_host = ''h'', ru_port = 6000\<rparr>"
  have docs: "layout_docs Fragments (\<lambda>_. ''http://h:6000/AB'') (\<lambda>_. ''x'') (\<lambda>_. 10) (\<lambda>_. 1) 2 = [?doc 0, ?doc 1]"
    by (simp add: layout_docs_def numeral_eq_Suc)
  have "RawxUrl_Parse (c_str ''http://h:6000/AB'') RawxUrl = Some ?url" by code_simp
  moreover have "?parse (c_str (?render (toks j))) = Some j" if "j \<in> set [?doc 0, ?doc 1]" for j
    using that by (auto simp: c_str_def)
  ultimately obtain p' where "put_contents ?parse ?render ''A'' ContentInfo = Some (True, p')" "GetTargetsSize p' = 2"
    "\<forall>i < 2. GetTarget p' (int i) = layout_target Fragments (\<lambda>_. ?url) (\<lambda>_. ''x'') (\<lambda>_. 10) (\<lambda>_. 1) i"
    using content_layout [of 2 "\<lambda>_. ''http://h:6000/AB''" "\<lambda>_. ?url" "\<lambda>_. 10" "\<lambda>_. 1" ?parse "''A''" Fragments
        "\<lambda>_. ''x''" ?render ContentInfo]
    unfolding docs by (auto simp: in_int_def c_str_def ContentInfo_def)
  then show ?thesis unfolding Let_def by (intro exI [of _ p'] conjI) (auto simp: layout_target_def dest: spec [of _ 1])
qed

text \<open>When metachunks have replicas, the second metachunk is lost: the replicas of metachunk 0 take
  the numbers 0, 1, ... and a chunk of a later metachunk is numbered as its metachunk, a number that is
  taken.\<close>

theorem content_second_metachunk_lost:
  assumes "n < 2 ^ 31" and "\<forall>i < n. RawxUrl_Parse (c_str (us i)) RawxUrl = Some (url i) \<and> in_int (sz i) \<and> in_int (score i)"
    and "parse (c_str s) = Some (JArr (layout_docs Replicas us hash sz score n @ [chunk_doc us' hash' sz' score' (show_dec m)]))"
    and "\<forall>j \<in> insert (chunk_doc us' hash' sz' score' (show_dec m)) (set (layout_docs Replicas us hash sz score n)).
      parse (c_str (render (toks j))) = Some j"
    and "co_targets p = []" and "0 < m" and "m < n"
    and "RawxUrl_Parse (c_str us') RawxUrl = Some url'" and "in_int sz'" and "in_int score'"
  shows "put_contents parse render s p =
    Some (True, p\<lparr>co_targets := map (layout_target Replicas url hash sz score) [0..<n]\<rparr>)"
proof -
  let ?j = "chunk_doc us' hash' sz' score' (show_dec m)" and ?ts = "map (layout_target Replicas url hash sz score) [0..<n]"
  have 1: "put_chunks parse render (layout_docs Replicas us hash sz score n) p = Some (p\<lparr>co_targets := ?ts\<rparr>)"
    using put_chunks_layout [OF assms(1,2) _ assms(5), of Replicas hash parse render n] assms(4) by simp
  have inv: "chunks_inv ?ts"
    by (auto simp: chunks_inv_def layout_target_def sorted_wrt_map sorted_wrt_iff_nth_less)
  have taken: "int m \<in> ci_chunk_number ` set ?ts" using assms(7) by (force simp: layout_target_def)
  have "chunk_place (show_dec m) ?ts = (int m, int m)" using assms(1,6,7) by (simp add: chunk_place_dec)
  moreover have "c_str (show_dec m) = show_dec m" by (simp add: c_text_def)
  ultimately have "put_content parse (c_str (render (toks ?j))) (p\<lparr>co_targets := ?ts\<rparr>) = Some (True, p\<lparr>co_targets := ?ts\<rparr>)"
    using put_content_doc [of parse "c_str (render (toks ?j))" us' hash' sz' score' "show_dec m" url' "p\<lparr>co_targets := ?ts\<rparr>"]
      assms(4,8-10) chunks_insert_present [OF inv] taken by simp
  moreover obtain kvs where "?j = JObj kvs" by (simp add: chunk_doc_def)
  ultimately show ?thesis using assms(3) 1 by (simp add: put_contents_def put_chunks_append del: toks.simps)
qed

theorem content_second_metachunk_lost_witness:
  "let doc = (\<lambda>pos. chunk_doc ''http://h:6000/AB'' ''x'' 10 1 pos);
       parse = (\<lambda>s. if s = ''A'' then Some (JArr [doc ''0'', doc ''0'', doc ''1'']) else Some (doc s));
       render = (\<lambda>ts. if ts = toks (doc ''1'') then ''1'' else ''0'')
   in \<exists>p'. put_contents parse render ''A'' ContentInfo = Some (True, p') \<and> map ci_pos (co_targets p') = [0, 0]"
proof -
  let ?doc = "\<lambda>pos. chunk_doc ''http://h:6000/AB'' ''x'' 10 1 pos"
  let ?parse = "\<lambda>s. if s = ''A'' then Some (JArr [?doc ''0'', ?doc ''0'', ?doc ''1'']) else Some (?doc s)"
    and ?render = "\<lambda>ts. if ts = toks (?doc ''1'') then ''1'' else ''0''"
    and ?url = "\<lparr>ru_chunk_id = ''AB'', ru_host = ''h'', ru_port = 6000\<rparr>"
  have d: "show_dec 0 = ''0''" "show_dec (Suc 0) = ''1''" "[0..<2] = [0, Suc 0]" by code_simp+
  have docs: "layout_docs Replicas (\<lambda>_. ''http://h:6000/AB'') (\<lambda>_. ''x'') (\<lambda>_. 10) (\<lambda>_. 1) 2 = [?doc ''0'', ?doc ''0'']"
    by (simp add: layout_docs_def d)
  have "RawxUrl_Parse (c_str ''http://h:6000/AB'') RawxUrl = Some ?url" by code_simp
  then have "put_contents ?parse ?render ''A'' ContentInfo =
      Some (True, ContentInfo\<lparr>co_targets := map (layout_target Replicas (\<lambda>_. ?url) (\<lambda>_. ''x'') (\<lambda>_. 10) (\<lambda>_. 1)) [0..<2]\<rparr>)"
    by (intro content_second_metachunk_lost [of 2 "\<lambda>_. ''http://h:6000/AB''" "\<lambda>_. ?url" "\<lambda>_. 10" "\<lambda>_. 1" ?parse "''A''"
          "\<lambda>_. ''x''" "''http://h:6000/AB''" "''x''" 10 1 1 ?render ContentInfo ?url])
      (auto simp: docs d in_int_def c_str_def ContentInfo_def chunk_doc_def)
  then show ?thesis by (simp add: layout_target_def d)
qed

text \<open>\<open>Ok()\<close> of what a call to the services returns says only whether the request could be sent: an
  error the service reports is at best found in the code, and in the calls about contents nowhere:
  the error document that answers \<open>Prepare\<close> or \<open>Show\<close> is taken for success, with code 0.\<close>

theorem service_errors_ok:
  assumes "DoCall hp pm c = Some (rc, out, h, c')"
  shows "map_option (Ok \<circ> fst) (Dir_http_call hp parse pm (dc, c)) \<in> {None, Some (rc = H_OK)}
    \<and> map_option (Ok \<circ> fst) (Dir_http_call_parse_body hp parse render pm db (dc, c)) \<in> {None, Some (rc = H_OK)}
    \<and> map_option (Ok \<circ> fst) (Cont_http_call hp parse pm (cl, c)) \<in> {None, Some (rc = H_OK)}
    \<and> map_option (Ok \<circ> fst) (Cont_http_call_parse_body hp parse pm (cl, c)) \<in> {None, Some (rc = H_OK)}
    \<and> map_option (Ok \<circ> fst) (Content_http_call hp pm (ct, c)) = Some (rc = H_OK)
    \<and> (rc = H_OK \<and> parse (c_str (body_text out)) = Some (JObj kvs) \<and> cb \<noteq> C_PROPERTIES \<longrightarrow>
        Content_http_call_parse_body hp parse render pm cb (ct, c) = Some (OioError_default, ct_keep_system h ct, c'))"
proof (intro conjI impI)
  note ok = Ok_def exec_error_def OioError_def OioError_Set_def OioError_default_def map_code_def status_of_def
  show "map_option (Ok \<circ> fst) (Dir_http_call hp parse pm (dc, c)) \<in> {None, Some (rc = H_OK)}"
    using assms by (auto simp: Dir_http_call_def ok dest: Decode_rc split: bind_splits)
  show "map_option (Ok \<circ> fst) (Dir_http_call_parse_body hp parse render pm db (dc, c)) \<in> {None, Some (rc = H_OK)}"
    using assms by (auto simp: Dir_http_call_parse_body_def ok Let_def dest: Decode_rc split: bind_splits if_splits)
  show "map_option (Ok \<circ> fst) (Cont_http_call hp parse pm (cl, c)) \<in> {None, Some (rc = H_OK)}"
    using assms by (auto simp: Cont_http_call_def ok Let_def dest: Decode_rc split: bind_splits)
  show "map_option (Ok \<circ> fst) (Cont_http_call_parse_body hp parse pm (cl, c)) \<in> {None, Some (rc = H_OK)}"
    using assms by (auto simp: Cont_http_call_parse_body_def ok Let_def dest: Decode_rc split: bind_splits if_splits)
  show "map_option (Ok \<circ> fst) (Content_http_call hp pm (ct, c)) = Some (rc = H_OK)"
    using assms by (simp add: Content_http_call_def ok)
  show "Content_http_call_parse_body hp parse render pm cb (ct, c) = Some (OioError_default, ct_keep_system h ct, c')"
    if "rc = H_OK \<and> parse (c_str (body_text out)) = Some (JObj kvs) \<and> cb \<noteq> C_PROPERTIES"
  proof -
    have "ct\<lparr>ct_param := ct_param ct\<rparr> = ct" for ct :: content by (cases ct) simp
    with that assms show ?thesis
      by (cases cb) (simp_all add: Content_http_call_parse_body_def put_contents_def Let_def)
  qed
qed

text \<open>A reply 404 whose body is \<open>E\<close>, in two pieces of input.\<close>

definition proxy_parser :: "(hevent list \<times> nat) list http_parser" where
  "proxy_parser = script_parser 404 [([Ev_begin, Ev_headers_complete], 1), ([Ev_body [0x45], Ev_complete], 1)]"

text \<open>A connection that takes the headers \<open>rq\<close> and the body, then delivers two bytes.\<close>

definition takes :: "request \<Rightarrow> bytes \<Rightarrow> conn \<Rightarrow> conn \<Rightarrow> bool" where
  "takes rq body c d = (cn_open c \<and> cn_open d
    \<and> ch_wr (cn_chan c) = Wr_n (length (concat (map bytes_of (request_headers rq)))) #
        (if body = [] then [] else [Wr_n (length body)]) @ ch_wr (cn_chan d)
    \<and> ch_in (cn_chan c) = 0 # 0 # ch_in (cn_chan d) \<and> ch_rd (cn_chan c) = Rd_data 2 # ch_rd (cn_chan d))"

definition call_request :: "parameters \<Rightarrow> request" where
  "call_request pm = Request_ContentLength (int (length (pm_body_in pm))) (add_fields (pm_header_in pm)
     (Request_Field ''Connection'' ''keep-alive'' (Request_Selector (pm_selector pm) (Request_Method (pm_method pm) Request))))"

lemma add_fields_sent [simp]: "rq_sent (add_fields es r) = rq_sent r"
  by (induction es r rule: add_fields.induct) (simp_all add: Request_Field_def)

lemma demo_call:
  assumes "takes (call_request pm) (pm_body_in pm) c d"
  shows "\<exists>c'. DoCall proxy_parser pm c = Some (H_OK, Some [0x45], pm_header_out pm, c') \<and> cn_open c'
    \<and> ch_wr (cn_chan c') = ch_wr (cn_chan d) \<and> ch_in (cn_chan c') = ch_in (cn_chan d) \<and> ch_rd (cn_chan c') = ch_rd (cn_chan d)"
proof -
  let ?rq = "call_request pm" and ?b = "pm_body_in pm"
  have rq: "rq_content_length ?rq = int (length ?b)" "rq_sent ?rq = 0"
    by (simp_all add: call_request_def Request_ContentLength_def Request_Field_def Request_Selector_def
        Request_Method_def Request_def)
  have nonempty: "concat (map bytes_of (request_headers ?rq)) \<noteq> []"
    by (simp add: request_headers_def request_line_def)
  obtain c1 where 1: "WriteHeaders ?rq c = Some (H_OK, c1)" "cn_open c1"
    "ch_wr (cn_chan c1) = (if ?b = [] then [] else [Wr_n (length ?b)]) @ ch_wr (cn_chan d)"
    "ch_in (cn_chan c1) = 0 # 0 # ch_in (cn_chan d)" "ch_rd (cn_chan c1) = Rd_data 2 # ch_rd (cn_chan d)"
    using assms conn_send_iov_one [OF _ _ nonempty order_refl, of c] by (simp add: takes_def WriteHeaders_def)
  obtain rq2 c2 where 2: "Request_Write ?b ?rq c1 = Some (H_OK, rq2, c2)" "cn_open c2" "rq_sent rq2 = int (length ?b)"
    "rq_content_length rq2 = int (length ?b)" "ch_wr (cn_chan c2) = ch_wr (cn_chan d)"
    "ch_in (cn_chan c2) = 0 # 0 # ch_in (cn_chan d)" "ch_rd (cn_chan c2) = Rd_data 2 # ch_rd (cn_chan d)"
  proof (cases "?b = []")
    case True
    with 1 rq show ?thesis by (intro that [of ?rq c1]) (simp_all add: Request_Write_def)
  next
    case False
    let ?c2 = "c1\<lparr>cn_chan := (cn_chan c1)\<lparr>ch_out := wire c1 @ ?b, ch_wr := ch_wr (cn_chan d)\<rparr>\<rparr>"
    have "conn_send ?b c1 = Some (None, ?c2)" using 1(2,3) False conn_send_one [of c1 "length ?b"] by simp
    with 1 rq False show ?thesis
      by (intro that [of "?rq\<lparr>rq_sent := int (length ?b)\<rparr>" ?c2]) (simp_all add: Request_Write_def)
  qed
  have 3: "FinishRequest rq2 c2 = Some (H_OK, c2)" using 2(3,4) by (simp add: FinishRequest_def)
  obtain r4 c4 where 4: "ReadHeaders proxy_parser (Reply proxy_parser) c2 = Some (H_OK, r4, c4)"
    "\<exists>r5 c5. read_all proxy_parser [] r4 c4 = Some (H_Done, [0x45], r5, c5) \<and> rp_step r5 = R_Done \<and> rp_fields r5 = []
      \<and> cn_open c5 \<and> ch_wr (cn_chan c5) = ch_wr (cn_chan d) \<and> ch_in (cn_chan c5) = ch_in (cn_chan d)
      \<and> ch_rd (cn_chan c5) = ch_rd (cn_chan d)"
    using 2 by (simp add: http_eval proxy_parser_def)
  show ?thesis using 1(1) 2(1) 3 4 unfolding call_request_def
    by (cases "pm_header_out pm")
      (auto simp: DoCall_def Call_Run_def Call_GetReplyHeaders_def GetHeaders_def GetHeaders_loop.simps Let_def)
qed

theorem service_errors_ok_witness:
  "\<exists>c c'. Content_http_call_parse_body proxy_parser
      (\<lambda>_. Some (JObj [(''status'', JInt 420), (''message'', JStr ''not found'')])) (\<lambda>_. [])
      (Parameters ''GET'' ''/'' []) C_SHOW (Content (OioUrl ''N'' ''A'' ''C'' [] ''P''), c)
    = Some (OioError_default, Content (OioUrl ''N'' ''A'' ''C'' [] ''P''), c')"
proof -
  let ?pm = "Parameters ''GET'' ''/'' []"
  let ?c = "open_conn [0, 0] [Rd_data 2] [Wr_n (length (concat (map bytes_of (request_headers (call_request ?pm)))))]"
  have "takes (call_request ?pm) (pm_body_in ?pm) ?c (open_conn [] [] [])"
    by (simp add: takes_def open_conn_def Parameters_def)
  from demo_call [OF this] obtain c' where 1: "DoCall proxy_parser ?pm ?c = Some (H_OK, Some [0x45], None, c')"
    by (auto simp: Parameters_def)
  from service_errors_ok [OF 1, where parse = "\<lambda>_. Some (JObj [(''status'', JInt 420), (''message'', JStr ''not found'')])"
      and render = "\<lambda>_. []" and ct = "Content (OioUrl ''N'' ''A'' ''C'' [] ''P'')" and cb = C_SHOW
      and kvs = "[(''status'', JInt 420), (''message'', JStr ''not found'')]"]
  show ?thesis by (intro exI [of _ ?c] exI [of _ c']) (simp add: ct_keep_system_def)
qed

end
