(* ===== verification/Sds.thy ===== *)
theory Sds
  imports Content
begin

text \<open>
  The client of a whole content (\<open>src/src/oio/sds/sds.cpp\<close>): an upload asks the proxy for a place, puts the
  file there chunk by chunk and declares the content; a download gets the chunks one after the other.
  The outcomes of the connections to the chunk services are a script (\<open>peers\<close>): whether the next attempt
  succeeds, and the connection.  \<open>None\<close> as in \<open>Directory\<close>, a script that is too short, or undefined
  behaviour (a header that is not in the map, bytes read past the end of a buffer).
\<close>

section \<open>Upload\<close>

record sds =
  sd_ct :: content
  sd_conn :: conn
  sd_peers :: "(bool \<times> conn) list"
  sd_done :: "(string \<times> conn) list"
  sd_err :: status
  sd_first :: bool
  sd_full :: nat
  sd_meta :: "32 word"

definition sds_start :: "oio_url \<Rightarrow> conn \<Rightarrow> (bool \<times> conn) list \<Rightarrow> sds" where
  "sds_start u c peers = \<lparr>sd_ct = Content u, sd_conn = c, sd_peers = peers, sd_done = [], sd_err = OioError_default,
     sd_first = True, sd_full = 0, sd_meta = 0\<rparr>"

text \<open>\<open>istringstream(s) >> v\<close> with an undefined \<open>int64_t v\<close>: it stays so (\<open>None\<close>) when there is nothing to read.\<close>

definition stream_int64 :: "string \<Rightarrow> int option" where
  "stream_int64 s =
     (if dropWhile is_space s = [] then None
      else case scan_int s of
        None \<Rightarrow> Some 0
      | Some (i, _) \<Rightarrow> Some (max (- (2 ^ 63)) (min (2 ^ 63 - 1) i)))"

definition sds_builder :: "rawx_command \<Rightarrow> content \<Rightarrow> http_builder option" where
  "sds_builder pm ct = do {
     let system = co_system (ct_param ct);
     let b1 = ContainerId (ou_cid (ct_url ct)) (RawxUpload_set_param pm no_builder);
     name \<leftarrow> om_get system ''name'';
     ident \<leftarrow> om_get system ''id'';
     version \<leftarrow> om_get system ''version'';
     v \<leftarrow> stream_int64 version;
     policy \<leftarrow> om_get system ''policy'';
     mime \<leftarrow> om_get system ''mime-type'';
     meth \<leftarrow> om_get system ''chunk-method'';
     Some (ChunkMethod meth (MimeType mime (StoragePolicy policy (ContentVersion v (ContentId ident (ContentPath name b1))))))
   }"

text \<open>One upload to a chunk service; the status of \<open>Commit\<close> or \<open>Abort\<close> is not looked at.\<close>

definition sds_put :: "'p http_parser \<Rightarrow> http_builder \<Rightarrow> bytes \<Rightarrow> conn \<Rightarrow> conn option" where
  "sds_put hp b buffer c = do {
     let (st0, h) = RawxUpload_Build hp b;
     (rc, s1) \<leftarrow> Rawx_Prepare HttpUpload_Prepare (st0, (h, c));
     (_, s2) \<leftarrow> (if Ok rc then do { s \<leftarrow> RawxUpload_Write buffer s1; Rawx_Commit (HttpUpload_Commit hp) s }
       else Rawx_Abort HttpUpload_Abort s1);
     Some (conn_close (snd (snd s2)))
   }"

text \<open>The body of the loop, when \<open>got\<close> bytes have been read into the buffer.\<close>

definition upload_target :: "nat \<Rightarrow> sds \<Rightarrow> chunk_info" where
  "upload_target got s = ChunkInfo\<lparr>ci_url := RawxUrl_Set (ci_url (GetTarget (ct_param (sd_ct s)) (sint (sd_meta s)))) (ci_url ChunkInfo),
     ci_size := int got, ci_pos := sint (sd_meta s)\<rparr>"

definition upload_chunk :: "'p http_parser \<Rightarrow> (string \<Rightarrow> json option) \<Rightarrow> (jtok list \<Rightarrow> string) \<Rightarrow> bool \<Rightarrow>
    bytes \<Rightarrow> nat \<Rightarrow> sds \<Rightarrow> sds option" where
  "upload_chunk hp parse render autocreate buffer got s0 = do {
     s1 \<leftarrow> (if \<not> sd_first s0 then do {
              (err, ct, c) \<leftarrow> Content_Prepare hp parse render autocreate (sd_ct s0, sd_conn s0);
              Some (s0\<lparr>sd_err := err, sd_ct := ct, sd_conn := c\<rparr>)
            }
            else Some (s0\<lparr>sd_first := False\<rparr>));
     let t = upload_target got s1;
     let pm = SetRange \<lparr>rg_start = 0, rg_size = got\<rparr> (SetUrl (ci_url t) RawxCommand);
     let ct1 = (sd_ct s1)\<lparr>ct_param := UpdateTarget t (ct_param (sd_ct s1))\<rparr>;
     s2 \<leftarrow> (case sd_peers s1 of
         [] \<Rightarrow> None
       | (good, c) # peers \<Rightarrow>
           if good then do {
             b \<leftarrow> sds_builder pm ct1;
             c' \<leftarrow> sds_put hp b buffer c;
             Some (s1\<lparr>sd_peers := peers, sd_done := sd_done s1 @ [(Host_Port (rc_url pm), c')]\<rparr>)
           }
           else Some (s1\<lparr>sd_peers := peers\<rparr>));
     Some (s2\<lparr>sd_ct := ct1, sd_full := sd_full s2 + got, sd_meta := sd_meta s2 + 1\<rparr>)
   }"

text \<open>The buffer has the size of the first target each time; what \<open>read\<close> does not fill is zero.\<close>

function upload_loop :: "'p http_parser \<Rightarrow> (string \<Rightarrow> json option) \<Rightarrow> (jtok list \<Rightarrow> string) \<Rightarrow> bool \<Rightarrow>
    nat \<Rightarrow> bytes \<Rightarrow> sds \<Rightarrow> sds option" where
  "upload_loop hp parse render autocreate sz file s =
     (let chunk = take sz file; got = length chunk in
      if got = 0 then Some s
      else case upload_chunk hp parse render autocreate (chunk @ replicate (sz - got) 0) got s of
        None \<Rightarrow> None
      | Some s' \<Rightarrow> upload_loop hp parse render autocreate sz (drop sz file) s')"
  by pat_completeness auto
termination
  by (relation "measure (\<lambda>(hp, parse, render, a, sz, file, s). length file)") auto

declare upload_loop.simps [simp del]

text \<open>\<open>upload\<close>; \<open>file\<close> is \<open>None\<close> when it cannot be opened.  A negative size is no size of a buffer.\<close>

definition sds_upload :: "'p http_parser \<Rightarrow> (string \<Rightarrow> json option) \<Rightarrow> (jtok list \<Rightarrow> string) \<Rightarrow> bool \<Rightarrow>
    oio_url \<Rightarrow> bytes option \<Rightarrow> (bool \<times> conn) \<Rightarrow> (bool \<times> conn) list \<Rightarrow> (status \<times> sds) option" where
  "sds_upload hp parse render autocreate u file proxy peers =
     (if \<not> fst proxy then None
      else do {
        let s0 = sds_start u (snd proxy) peers;
        (err, ct, c) \<leftarrow> Content_Prepare hp parse render autocreate (sd_ct s0, sd_conn s0);
        let s1 = s0\<lparr>sd_err := err, sd_ct := ct, sd_conn := c\<rparr>;
        let sz = ci_size (GetTarget (ct_param ct) 0);
        if sz < 0 then None
        else do {
          s2 \<leftarrow> upload_loop hp parse render autocreate (nat sz) (case file of None \<Rightarrow> [] | Some f \<Rightarrow> f) s1;
          (err', ct', c') \<leftarrow> (if sd_full s2 \<noteq> 0
            then Content_Create hp render (i32_of_nat (sd_full s2)) (sd_ct s2, sd_conn s2)
            else Some (sd_err s2, sd_ct s2, sd_conn s2));
          Some (err', s2\<lparr>sd_err := err', sd_ct := ct', sd_conn := conn_close c'\<rparr>)
        }
      })"

section \<open>Download\<close>

text \<open>The buffer after the download of a chunk; without a connection or a prepared download, the zeros it
  was made of.\<close>

definition sds_get :: "'p http_parser \<Rightarrow> rawx_command \<Rightarrow> bytes \<Rightarrow> conn \<Rightarrow> bytes option" where
  "sds_get hp pm buffer c = do {
     let x = RawxDownload_Build hp pm (RawxDownload_set_param pm no_builder);
     (rc, x1, c1) \<leftarrow> RawxDownload_Prepare hp (x, c);
     if Ok rc then do {
       (buf, _) \<leftarrow> drain_into (RawxDownload_IsEof \<circ> fst) (RawxDownload_Read hp) buffer (x1, c1);
       Some buf
     }
     else Some buffer
   }"

definition download_chunk :: "'p http_parser \<Rightarrow> chunk_info \<Rightarrow> (bool \<times> conn) list \<Rightarrow> (bytes \<times> (bool \<times> conn) list) option" where
  "download_chunk hp t peers =
     (if ci_size t < 0 then None
      else do {
        let sz = nat (ci_size t);
        let pm = SetRange \<lparr>rg_start = 0, rg_size = sz\<rparr> (SetUrl (ci_url t) RawxCommand);
        case peers of
          [] \<Rightarrow> None
        | (good, c) # peers' \<Rightarrow> do {
            buf \<leftarrow> (if good then sds_get hp pm (replicate sz 0) c else Some (replicate sz 0));
            if length buf < sz then None else Some (take sz buf, peers')
          }
      })"

fun download_chunks :: "'p http_parser \<Rightarrow> content_info \<Rightarrow> nat list \<Rightarrow> (bool \<times> conn) list \<Rightarrow> bytes option" where
  "download_chunks hp p [] peers = Some []"
| "download_chunks hp p (i # is) peers = do {
     (out, peers') \<leftarrow> download_chunk hp (GetTarget p (int i)) peers;
     rest \<leftarrow> download_chunks hp p is peers';
     Some (out @ rest)
   }"

text \<open>The status and the bytes written to the file, if it could be opened.\<close>

definition sds_download :: "'p http_parser \<Rightarrow> (string \<Rightarrow> json option) \<Rightarrow> (jtok list \<Rightarrow> string) \<Rightarrow> oio_url \<Rightarrow>
    (bool \<times> conn) \<Rightarrow> (bool \<times> conn) list \<Rightarrow> (status \<times> bytes) option" where
  "sds_download hp parse render u proxy peers =
     (if \<not> fst proxy then None
      else do {
        (err, ct, c) \<leftarrow> Content_Show hp parse render (Content u, snd proxy);
        if Ok err then do {
          out \<leftarrow> download_chunks hp (ct_param ct) [0..<GetTargetsSize (ct_param ct)] peers;
          Some (err, out)
        }
        else Some (err, [])
      })"

section \<open>Laws\<close>

text \<open>A file cut into chunks, the buffers made of them, and their upload one after the other.\<close>

function chunks_of :: "nat \<Rightarrow> bytes \<Rightarrow> bytes list" where
  "chunks_of sz bs = (if sz = 0 \<or> bs = [] then [] else take sz bs # chunks_of sz (drop sz bs))"
  by pat_completeness auto
termination
  by (relation "measure (\<lambda>(sz, bs). length bs)") auto

declare chunks_of.simps [simp del]

definition padded :: "nat \<Rightarrow> bytes \<Rightarrow> bytes" where
  "padded sz ch = ch @ replicate (sz - length ch) 0"

fun upload_all :: "'p http_parser \<Rightarrow> (string \<Rightarrow> json option) \<Rightarrow> (jtok list \<Rightarrow> string) \<Rightarrow> bool \<Rightarrow>
    nat \<Rightarrow> bytes list \<Rightarrow> sds \<Rightarrow> sds option" where
  "upload_all hp parse render a sz [] s = Some s"
| "upload_all hp parse render a sz (ch # chs) s =
     Option.bind (upload_chunk hp parse render a (padded sz ch) (length ch) s) (upload_all hp parse render a sz chs)"

lemma upload_loop_all:
  "upload_loop hp parse render a sz bs s = upload_all hp parse render a sz (chunks_of sz bs) s"
proof (induction "length bs" arbitrary: bs s rule: less_induct)
  case less
  show ?case
  proof (cases "sz = 0 \<or> bs = []")
    case True
    then show ?thesis by (auto simp: upload_loop.simps [of hp] chunks_of.simps [of sz])
  next
    case False
    then have "length (drop sz bs) < length bs" by simp
    with less False show ?thesis
      by (auto simp: upload_loop.simps [of hp parse render a sz bs] chunks_of.simps [of sz bs] padded_def Let_def
          split: option.splits bind_splits)
  qed
qed

lemma concat_chunks_of: "0 < sz \<Longrightarrow> concat (chunks_of sz bs) = bs"
  by (induction sz bs rule: chunks_of.induct) (simp add: chunks_of.simps)

lemma concat_padded:
  "0 < sz \<Longrightarrow> \<exists>k < sz. concat (map (padded sz) (chunks_of sz bs)) = bs @ replicate k 0 \<and> sz dvd length bs + k"
proof (induction sz bs rule: chunks_of.induct)
  case (1 sz bs)
  show ?case
  proof (cases "length bs \<le> sz")
    case True
    then have "bs \<noteq> [] \<Longrightarrow> chunks_of sz bs = [bs]" by (simp add: chunks_of.simps [of sz bs] chunks_of.simps [of sz "[]"] "1.prems")
    with True "1.prems" show ?thesis
      by (cases "bs = []") (auto simp: chunks_of.simps [of sz "[]"] padded_def intro!: exI [of _ "sz - length bs"])
  next
    case False
    with "1.prems" have "\<not> (sz = 0 \<or> bs = [])" by auto
    from "1.IH" [OF this "1.prems"] obtain k where k: "k < sz"
      "concat (map (padded sz) (chunks_of sz (drop sz bs))) = drop sz bs @ replicate k 0" "sz dvd length (drop sz bs) + k" by blast
    have "length bs + k = sz + (length (drop sz bs) + k)" using False by simp
    with k(3) have "sz dvd length bs + k" by (metis dvd_add dvd_refl)
    moreover have "concat (map (padded sz) (chunks_of sz bs)) = bs @ replicate k 0"
      using False "1.prems" k(2) by (auto simp: chunks_of.simps [of sz bs] padded_def simp flip: append_assoc)
    ultimately show ?thesis using k(1) by blast
  qed
qed

text \<open>What the upload of a chunk does to the targets.\<close>

lemma find_chunks_insert:
  "\<forall>a \<in> set ts. ci_chunk_number a \<noteq> ci_chunk_number t \<Longrightarrow>
    List.find (\<lambda>a. ci_chunk_number a = ci_chunk_number t) (chunks_insert t ts) = Some t"
  by (induction t ts rule: chunks_insert.induct) auto

lemma GetTarget_UpdateTarget: "GetTarget (UpdateTarget t p) (ci_chunk_number t) = t"
  by (simp add: GetTarget_def UpdateTarget_def find_chunks_insert chunks_erase_def)

definition declared :: "sds \<Rightarrow> chunk_info" where
  "declared s = GetTarget (ct_param (sd_ct s)) 0"

lemma upload_chunk_declares:
  assumes "upload_chunk hp parse render a buffer got s = Some s'"
  shows "ci_pos (declared s') = sint (sd_meta s) \<and> ci_size (declared s') = int got
    \<and> sd_meta s' = sd_meta s + 1 \<and> sd_full s' = sd_full s + got"
proof -
  have "GetTarget (UpdateTarget (upload_target got s1) p) 0 = upload_target got s1" for s1 p
    using GetTarget_UpdateTarget [of "upload_target got s1" p] by (simp add: upload_target_def ChunkInfo_def)
  moreover have "ci_pos (upload_target got s1) = sint (sd_meta s1)" "ci_size (upload_target got s1) = int got" for s1
    by (simp_all add: upload_target_def)
  ultimately show ?thesis using assms
    by (auto simp: upload_chunk_def declared_def Let_def split: bind_splits if_splits list.splits prod.splits)
qed

lemma upload_all_declares:
  "upload_all hp parse render a sz chs s = Some s' \<Longrightarrow>
    sd_meta s' = sd_meta s + of_nat (length chs) \<and> sd_full s' = sd_full s + length (concat chs)
    \<and> (chs \<noteq> [] \<longrightarrow> ci_pos (declared s') = sint (sd_meta s' - 1) \<and> ci_size (declared s') = int (length (last chs)))"
proof (induction chs arbitrary: s)
  case (Cons ch chs)
  from Cons.prems obtain s1 where 1: "upload_chunk hp parse render a (padded sz ch) (length ch) s = Some s1"
    "upload_all hp parse render a sz chs s1 = Some s'" by (auto split: bind_splits)
  from upload_chunk_declares [OF 1(1)] Cons.IH [OF 1(2)] 1(2) show ?case by (cases "chs = []") auto
qed simp

lemma Content_Create_targets:
  assumes "Content_Create hp render n (ct, c) = Some (st, ct', c')"
  shows "co_targets (ct_param ct') = co_targets (ct_param ct)"
  using assms by (auto simp: Content_Create_def Content_http_call_def ct_keep_system_def split: bind_splits option.splits)

lemma GetTarget_targets: "co_targets p = co_targets q \<Longrightarrow> GetTarget p i = GetTarget q i"
  by (simp add: GetTarget_def)

text \<open>Every chunk of a download adds as many bytes as it was announced.\<close>

lemma download_chunk_length: "download_chunk hp t peers = Some (out, peers') \<Longrightarrow> length out = nat (ci_size t)"
  by (auto simp: download_chunk_def Let_def split: if_splits list.splits bind_splits prod.splits)

lemma download_chunks_length:
  "download_chunks hp p is peers = Some out \<Longrightarrow> length out = (\<Sum>i \<leftarrow> is. nat (ci_size (GetTarget p (int i))))"
  by (induction hp p "is" peers arbitrary: out rule: download_chunks.induct)
    (auto split: bind_splits dest!: download_chunk_length)

lemma download_chunks_refused:
  "\<forall>i \<in> set is. 0 \<le> ci_size (GetTarget p (int i)) \<Longrightarrow> length peers = length is \<Longrightarrow> \<forall>(good, c) \<in> set peers. \<not> good \<Longrightarrow>
    download_chunks hp p is peers = Some (replicate (\<Sum>i \<leftarrow> is. nat (ci_size (GetTarget p (int i)))) 0)"
proof (induction "is" arbitrary: peers)
  case (Cons i "is")
  then obtain c peers' where "peers = (False, c) # peers'" by (cases peers) auto
  with Cons show ?case by (simp add: download_chunk_def not_less replicate_add)
qed simp

text \<open>A proxy that answers every call with one chunk of four bytes at metachunk 0.\<close>

definition demo_chunk :: json where
  "demo_chunk = chunk_doc ''http://h:6000/AB'' ''x'' 4 1 ''0''"

definition proxy_target :: "int \<Rightarrow> chunk_info" where
  "proxy_target n = \<lparr>ci_url = \<lparr>ru_chunk_id = ''AB'', ru_host = ''h'', ru_port = 6000\<rparr>, ci_chunk_number = n, ci_pos = 0,
     ci_score = 1, ci_size = 4, ci_hash = ''x''\<rparr>"

definition demo_parse :: "string \<Rightarrow> json option" where
  "demo_parse s = (if s = ''E'' then Some (JArr [demo_chunk]) else Some demo_chunk)"

definition demo_url :: oio_url where
  "demo_url = OioUrl ''N'' ''A'' ''C'' [] ''P''"

definition demo_prepare :: request where
  "demo_prepare = call_request (Parameters ''POST'' (Content_SELECTOR demo_url ''prepare'') [])"

lemma demo_put:
  assumes "co_targets p = [] \<or> ci_pos (hd (co_targets p)) = 0"
  shows "put_contents demo_parse (\<lambda>_. []) ''E'' p =
    Some (True, p\<lparr>co_targets := chunks_insert (proxy_target (int (length (co_targets p)))) (co_targets p)\<rparr>)"
proof -
  have "show_dec 0 = ''0''" by code_simp
  with assms chunk_place_dec [of 0 "co_targets p"] have place: "chunk_place ''0'' (co_targets p) = (0, int (length (co_targets p)))" by auto
  have url: "RawxUrl_Parse (c_str ''http://h:6000/AB'') RawxUrl = Some \<lparr>ru_chunk_id = ''AB'', ru_host = ''h'', ru_port = 6000\<rparr>"
    by code_simp
  have "demo_parse (c_str []) = Some (chunk_doc ''http://h:6000/AB'' ''x'' 4 1 ''0'')"
    by (simp add: demo_parse_def demo_chunk_def c_str_def)
  with put_content_doc [of demo_parse "[]" "''http://h:6000/AB''" "''x''" 4 1 "''0''" _ p] url place have "put_content demo_parse [] p =
      Some (True, p\<lparr>co_targets := chunks_insert (proxy_target (int (length (co_targets p)))) (co_targets p)\<rparr>)"
    by (simp add: in_int_def proxy_target_def c_str_def)
  then have "put_chunks demo_parse (\<lambda>_. []) [demo_chunk] p =
      Some (p\<lparr>co_targets := chunks_insert (proxy_target (int (length (co_targets p)))) (co_targets p)\<rparr>)"
    by (simp add: demo_chunk_def chunk_doc_def c_str_def del: toks.simps)
  moreover have "demo_parse (c_str ''E'') = Some (JArr [demo_chunk])" by (simp add: demo_parse_def c_str_def)
  ultimately show ?thesis by (simp add: put_contents_def)
qed

lemma demo_Prepare:
  assumes "takes demo_prepare [] c d" and "ct_url ct = demo_url"
    and "co_targets (ct_param ct) = [] \<or> ci_pos (hd (co_targets (ct_param ct))) = 0"
  shows "\<exists>c'. Content_Prepare proxy_parser demo_parse (\<lambda>_. []) False (ct, c) =
      Some (OioError_default, ct\<lparr>ct_param := (ct_param ct)\<lparr>co_targets :=
        chunks_insert (proxy_target (int (length (co_targets (ct_param ct))))) (co_targets (ct_param ct))\<rparr>\<rparr>, c') \<and> cn_open c'
    \<and> ch_wr (cn_chan c') = ch_wr (cn_chan d) \<and> ch_in (cn_chan c') = ch_in (cn_chan d) \<and> ch_rd (cn_chan c') = ch_rd (cn_chan d)"
proof -
  let ?pm = "meta_headers ct (Parameters ''POST'' (Content_SELECTOR (ct_url ct) ''prepare'') [])"
  have "call_request ?pm = demo_prepare" "pm_body_in ?pm = []"
    by (simp_all add: call_request_def demo_prepare_def meta_headers_def Parameters_def assms(2))
  with assms(1) demo_call [of ?pm c d] obtain c' where
    1: "DoCall proxy_parser ?pm c = Some (H_OK, Some [0x45], pm_header_out ?pm, c')" "cn_open c'"
      "ch_wr (cn_chan c') = ch_wr (cn_chan d)" "ch_in (cn_chan c') = ch_in (cn_chan d)" "ch_rd (cn_chan c') = ch_rd (cn_chan d)" by auto
  have "body_text (Some [0x45]) = ''E''" by code_simp
  moreover have "ct_keep_system (pm_header_out ?pm) ct = ct" by (cases ct) (simp add: ct_keep_system_def meta_headers_def)
  ultimately show ?thesis using 1 demo_put [OF assms(3)]
    by (simp add: Content_Prepare_def Content_http_call_parse_body_def Let_def)
qed

section \<open>Properties\<close>

text \<open>C35. The upload of a file of several chunks declares a wrong first chunk: every chunk is recorded
  under number 0, so that the content that is created has there, at the end, the last chunk that was
  put, with its position and size; the place of the first is lost.\<close>

theorem sds_upload_declares_last:
  assumes "sds_upload hp parse render a u (Some bs) proxy peers = Some (st, s)" and "sd_full s \<noteq> 0"
  shows "\<exists>sz > 0. sd_full s = length bs \<and> sd_meta s = of_nat (length (chunks_of sz bs))
    \<and> ci_pos (declared s) = sint (sd_meta s - 1) \<and> ci_size (declared s) = int (length (last (chunks_of sz bs)))"
proof -
  from assms(1) obtain err ct c s2 ct' c' where 1:
    "Content_Prepare hp parse render a (sd_ct (sds_start u (snd proxy) peers), sd_conn (sds_start u (snd proxy) peers)) = Some (err, ct, c)"
    "upload_loop hp parse render a (nat (ci_size (GetTarget (ct_param ct) 0))) bs
       ((sds_start u (snd proxy) peers)\<lparr>sd_err := err, sd_ct := ct, sd_conn := c\<rparr>) = Some s2"
    "s = s2\<lparr>sd_err := st, sd_ct := ct', sd_conn := conn_close c'\<rparr>"
    "Content_Create hp render (i32_of_nat (sd_full s2)) (sd_ct s2, sd_conn s2) = Some (st, ct', c')"
    using assms(2) by (auto simp: sds_upload_def Let_def split: if_splits bind_splits)
  let ?sz = "nat (ci_size (GetTarget (ct_param ct) 0))"
  from 1(2) have all: "upload_all hp parse render a ?sz (chunks_of ?sz bs)
      ((sds_start u (snd proxy) peers)\<lparr>sd_err := err, sd_ct := ct, sd_conn := c\<rparr>) = Some s2"
    by (simp add: upload_loop_all)
  have full: "sd_full s2 \<noteq> 0" using assms(2) 1(3) by simp
  have "declared s = declared s2"
    using Content_Create_targets [OF 1(4)] by (auto simp: declared_def 1(3) intro!: GetTarget_targets)
  moreover have "chunks_of ?sz bs \<noteq> []" using upload_all_declares [OF all] full by (auto simp: sds_start_def)
  moreover from this have "0 < ?sz" by (auto simp: chunks_of.simps [of ?sz bs] split: if_splits)
  ultimately show ?thesis using upload_all_declares [OF all] concat_chunks_of [of ?sz bs] 1(3)
    by (intro exI [of _ ?sz]) (simp add: sds_start_def)
qed

theorem sds_upload_declares_last_witness:
  "\<exists>c st s. sds_upload proxy_parser demo_parse (\<lambda>_. []) False demo_url (Some [1, 2, 3, 4, 5]) (True, c)
      [(False, c), (False, c)] = Some (st, s) \<and> sd_full s = 5 \<and> ci_pos (declared s) = 1"
proof -
  let ?hp = proxy_parser and ?p = demo_parse and ?r = "\<lambda>_. []" and ?t = proxy_target
  let ?rec = "\<lambda>n pos. (?t 0)\<lparr>ci_score := 0, ci_hash := [], ci_size := n, ci_pos := pos\<rparr>"
  let ?ct = "\<lambda>ts. (Content demo_url)\<lparr>ct_param := ContentInfo\<lparr>co_targets := ts\<rparr>\<rparr>"
  let ?create = "(Parameters ''POST'' (Content_SELECTOR demo_url ''create'') ''[,]'')
       \<lparr>pm_header_in := om_put ''x-oio-content-type'' ''octet/stream''
         (om_put ''x-oio-content-meta-hash'' ''00000000000000000000000000000000''
           (om_put ''x-oio-content-meta-length'' (show_int 5) []))\<rparr>"
  let ?k = "Wr_n (length (concat (map bytes_of (request_headers demo_prepare))))"
    and ?kc = "[Wr_n (length (concat (map bytes_of (request_headers (call_request ?create))))), Wr_n 3]"
  define c where "c = open_conn [0, 0, 0, 0, 0, 0] [Rd_data 2, Rd_data 2, Rd_data 2] (?k # ?k # ?kc)"
  have "takes demo_prepare [] c (open_conn [0, 0, 0, 0] [Rd_data 2, Rd_data 2] (?k # ?kc))"
    by (simp add: takes_def open_conn_def c_def)
  from demo_Prepare [OF this, of "Content demo_url"] obtain c1 where
    1: "Content_Prepare ?hp ?p ?r False (Content demo_url, c) = Some (OioError_default, ?ct [?t 0], c1)" "cn_open c1"
      "ch_wr (cn_chan c1) = ?k # ?kc" "ch_in (cn_chan c1) = [0, 0, 0, 0]" "ch_rd (cn_chan c1) = [Rd_data 2, Rd_data 2]"
    by (auto simp: Content_def ContentInfo_def open_conn_def)
  have "takes demo_prepare [] c1 (open_conn [0, 0] [Rd_data 2] ?kc)" using 1(2-5) by (simp add: takes_def open_conn_def)
  from demo_Prepare [OF this, of "?ct [?rec 4 0]"] obtain c2 where
    2: "Content_Prepare ?hp ?p ?r False (?ct [?rec 4 0], c1) = Some (OioError_default, ?ct [?rec 4 0, ?t 1], c2)" "cn_open c2"
      "ch_wr (cn_chan c2) = ?kc" "ch_in (cn_chan c2) = [0, 0]" "ch_rd (cn_chan c2) = [Rd_data 2]"
    by (auto simp: Content_def proxy_target_def open_conn_def)
  have "pm_body_in ?create = bytes_of ''[,]''" by (simp add: Parameters_def)
  then have "takes (call_request ?create) (pm_body_in ?create) c2 (open_conn [] [] [])" using 2(2-5)
    by (simp add: takes_def open_conn_def)
  from demo_call [OF this] obtain c3 where
    3: "DoCall ?hp ?create c2 = Some (H_OK, Some [0x45], None, c3)" by (auto simp: Parameters_def)
  let ?s1 = "(sds_start demo_url c [(False, c), (False, c)])\<lparr>sd_ct := ?ct [?t 0], sd_conn := c1\<rparr>"
  let ?s2 = "?s1\<lparr>sd_first := False, sd_peers := [(False, c)], sd_ct := ?ct [?rec 4 0], sd_full := 4, sd_meta := 1\<rparr>"
  let ?s3 = "?s2\<lparr>sd_peers := [], sd_ct := ?ct [?rec 1 1, ?t 1], sd_conn := c2, sd_full := 5, sd_meta := 2\<rparr>"
  note [simp] = upload_target_def GetTarget_def UpdateTarget_def chunks_erase_def ChunkInfo_def proxy_target_def
  have u1: "upload_chunk ?hp ?p ?r False [1, 2, 3, 4] 4 ?s1 = Some ?s2"
    by (simp add: upload_chunk_def sds_start_def)
  have u2: "upload_chunk ?hp ?p ?r False [5, 0, 0, 0] 1 ?s2 = Some ?s3"
    using 2(1) by (simp add: upload_chunk_def sds_start_def)
  have chunks: "chunks_of 4 [1, 2, 3, 4, 5] = [[1, 2, 3, 4], [5]]" "padded 4 [1, 2, 3, 4] = [1, 2, 3, 4]" "padded 4 [5] = [5, 0, 0, 0]"
    by (simp_all add: chunks_of.simps padded_def numeral_eq_Suc)
  have len: "length [1, 2, 3, 4 :: byte] = 4" "length [5 :: byte] = 1" by simp_all
  have loop: "upload_loop ?hp ?p ?r False 4 [1, 2, 3, 4, 5] ?s1 = Some ?s3"
    using u1 u2 len by (simp only: upload_loop_all chunks upload_all.simps Option.bind.bind_lunit)
  have create: "Content_Create ?hp ?r (i32_of_nat 5) (sd_ct ?s3, sd_conn ?s3) = Some (OioError_default, sd_ct ?s3, c3)"
    using 3 by (simp add: Content_Create_def Content_http_call_def get_contents_def i32_of_nat_small ct_keep_system_def Content_def)
  have run: "sds_upload ?hp ?p ?r False demo_url (Some [1, 2, 3, 4, 5]) (True, c) [(False, c), (False, c)] =
      Some (OioError_default, ?s3\<lparr>sd_ct := sd_ct ?s3, sd_conn := conn_close c3\<rparr>)"
    using 1(1) loop create by (simp add: sds_upload_def sds_start_def)
  have full: "sd_full (?s3\<lparr>sd_ct := sd_ct ?s3, sd_conn := conn_close c3\<rparr>) \<noteq> 0" by simp
  obtain sz where "ci_pos (declared (?s3\<lparr>sd_ct := sd_ct ?s3, sd_conn := conn_close c3\<rparr>)) =
      sint (sd_meta (?s3\<lparr>sd_ct := sd_ct ?s3, sd_conn := conn_close c3\<rparr>) - 1)"
    using sds_upload_declares_last [OF run full] by blast
  then have "ci_pos (declared (?s3\<lparr>sd_ct := sd_ct ?s3, sd_conn := conn_close c3\<rparr>)) = 1" by simp
  with run show ?thesis by (intro exI [of _ c] exI [of _ OioError_default] exI conjI) simp_all
qed

text \<open>C25. A download writes as many bytes as the chunks were announced to have, whatever the chunk services
  did, and its status is that of the answer of the proxy: if no chunk service can be reached it
  delivers zeros, with success.\<close>

theorem sds_download_length:
  assumes "Content_Show hp parse render (Content u, c) = Some (err, ct, c')" and "Ok err"
    and "\<forall>i < GetTargetsSize (ct_param ct). 0 \<le> ci_size (GetTarget (ct_param ct) (int i))"
    and "amount = (\<Sum>i \<leftarrow> [0..<GetTargetsSize (ct_param ct)]. nat (ci_size (GetTarget (ct_param ct) (int i))))"
  shows "(case sds_download hp parse render u (True, c) peers of None \<Rightarrow> True
      | Some (st, out) \<Rightarrow> st = err \<and> length out = amount)
    \<and> (length peers = GetTargetsSize (ct_param ct) \<and> (\<forall>(good, d) \<in> set peers. \<not> good) \<longrightarrow>
        sds_download hp parse render u (True, c) peers = Some (err, replicate amount 0))"
proof
  show "case sds_download hp parse render u (True, c) peers of None \<Rightarrow> True
      | Some (st, out) \<Rightarrow> st = err \<and> length out = amount"
    using assms by (auto simp: sds_download_def dest: download_chunks_length split: option.splits bind_splits)
  show "length peers = GetTargetsSize (ct_param ct) \<and> (\<forall>(good, d) \<in> set peers. \<not> good) \<longrightarrow>
      sds_download hp parse render u (True, c) peers = Some (err, replicate amount 0)"
    using assms download_chunks_refused [of "[0..<GetTargetsSize (ct_param ct)]" "ct_param ct" peers hp]
    by (simp add: sds_download_def)
qed

theorem sds_download_length_witness:
  "\<exists>c. sds_download proxy_parser demo_parse (\<lambda>_. []) demo_url (True, c) [(False, c)] = Some (OioError_default, [0, 0, 0, 0])"
proof -
  let ?pm = "meta_headers (Content demo_url) (Parameters ''GET'' (Content_SELECTOR demo_url ''show'') [])"
  define c where "c = open_conn [0, 0] [Rd_data 2] [Wr_n (length (concat (map bytes_of (request_headers (call_request ?pm)))))]"
  have "takes (call_request ?pm) (pm_body_in ?pm) c (open_conn [] [] [])"
    by (simp add: takes_def open_conn_def c_def meta_headers_def Parameters_def)
  from demo_call [OF this] obtain c' where 1: "DoCall proxy_parser ?pm c = Some (H_OK, Some [0x45], Some [], c')"
    by (auto simp: meta_headers_def Content_def ContentInfo_def)
  let ?ct = "(Content demo_url)\<lparr>ct_param := ContentInfo\<lparr>co_targets := [proxy_target 0]\<rparr>\<rparr>"
  have "put_contents demo_parse (\<lambda>_. []) ''E'' ContentInfo = Some (True, ContentInfo\<lparr>co_targets := [proxy_target 0]\<rparr>)"
    using demo_put [of ContentInfo] by (simp add: ContentInfo_def)
  moreover have "body_text (Some [0x45]) = ''E''" by code_simp
  ultimately have 2: "Content_Show proxy_parser demo_parse (\<lambda>_. []) (Content demo_url, c) = Some (OioError_default, ?ct, c')"
    using 1 by (simp add: Content_Show_def Content_http_call_parse_body_def Let_def ct_keep_system_def Content_def ContentInfo_def)
  have 3: "Ok OioError_default" by (simp add: Ok_def OioError_default_def status_of_def)
  have "GetTargetsSize (ct_param ?ct) = 1" "ci_size (GetTarget (ct_param ?ct) 0) = 4"
    by (simp_all add: GetTargetsSize_def GetTarget_def proxy_target_def)
  with sds_download_length [OF 2 3, of 4 "[(False, c)]"] have
    "sds_download proxy_parser demo_parse (\<lambda>_. []) demo_url (True, c) [(False, c)] = Some (OioError_default, replicate 4 0)" by simp
  then show ?thesis by (intro exI [of _ c]) (simp add: numeral_eq_Suc)
qed

end
