(* ===== verification/Sds_Wire.thy ===== *)
theory Sds_Wire
  imports Sds
begin

text \<open>
  What the chunk services are sent by the upload of a file (\<open>src/src/oio/sds/sds.cpp\<close>), on connections whose
  writes may be partial and interrupted but do not fail.
\<close>

section \<open>Reading leaves the wire alone\<close>

lemma conn_read_wire: "conn_read n c = Some (r, c') \<Longrightarrow> wire c' = wire c"
  by (auto simp: conn_read_def chan_read_def wire_def split: if_splits option.splits)

lemma fill_wire: "fill r c = Some (e, r', c') \<Longrightarrow> wire c' = wire c"
  by (auto simp: fill_def dest!: conn_read_wire split: if_splits option.splits rd_result.splits)

lemma consumeInput_wire: "consumeInput hp r c = Some (e, r', c') \<Longrightarrow> wire c' = wire c"
  by (auto simp: consumeInput_def dest!: fill_wire split: if_splits option.splits prod.splits)

lemma ReadHeaders_loop_wire: "ReadHeaders_loop hp r c = Some (e, r', c') \<Longrightarrow> wire c' = wire c"
proof (induction hp r c rule: ReadHeaders_loop.induct)
  case (1 hp r c)
  show ?case
  proof (cases "rp_step r \<le> Headers")
    case True
    with "1.prems" obtain e1 r1 c1 where 1: "consumeInput hp r c = Some (e1, r1, c1)"
      "(if e1 \<noteq> H_OK then Some (e1, r1, c1) else ReadHeaders_loop hp r1 c1) = Some (e, r', c')"
      by (auto simp: ReadHeaders_loop.simps [of hp r c] split: option.splits)
    with "1.IH" [OF True 1(1) refl refl] consumeInput_wire [OF 1(1)] show ?thesis by (auto split: if_splits)
  qed (use "1.prems" in \<open>simp add: ReadHeaders_loop.simps [of hp r c]\<close>)
qed

lemma ReadHeaders_wire: "ReadHeaders hp r c = Some (e, r', c') \<Longrightarrow> wire c' = wire c"
  by (auto simp: ReadHeaders_def dest: ReadHeaders_loop_wire split: if_splits)

lemma ReadBody_wire: "ReadBody hp r c = Some (e, b, r', c') \<Longrightarrow> wire c' = wire c"
proof (induction hp r c rule: ReadBody.induct)
  case (1 hp r c)
  show ?case
  proof (cases "rp_body r = [] \<and> rp_step r \<noteq> R_Done \<and> rp_step r = Body")
    case True
    with "1.prems" obtain e1 r1 c1 where 1: "consumeInput hp r c = Some (e1, r1, c1)"
      "(if e1 \<noteq> H_OK then Some (e1, [], r1, c1) else ReadBody hp r1 c1) = Some (e, b, r', c')"
      by (auto simp: ReadBody.simps [of hp r c] split: option.splits)
    with "1.IH" [OF _ _ _ 1(1) refl refl] True consumeInput_wire [OF 1(1)] show ?thesis by (auto split: if_splits)
  qed (use "1.prems" in \<open>auto simp: ReadBody.simps [of hp r c] split: list.splits if_splits\<close>)
qed

lemma read_all_wire: "read_all hp tmp r c = Some (e, out, r', c') \<Longrightarrow> wire c' = wire c"
proof (induction hp tmp r c rule: read_all.induct)
  case (1 hp tmp r c)
  from "1.prems" obtain e1 t1 r1 c1 where 1: "AppendBody hp tmp r c = Some (e1, t1, r1, c1)"
    "(if e1 = H_OK then read_all hp t1 r1 c1 else Some (e1, t1, r1, c1)) = Some (e, out, r', c')"
    by (auto simp: read_all.simps [of hp tmp r c] split: option.splits)
  moreover from 1(1) have "wire c1 = wire c" by (auto simp: AppendBody_def dest!: ReadBody_wire split: option.splits)
  ultimately show ?case using "1.IH" [OF 1(1) refl refl refl] by (auto split: if_splits)
qed

section \<open>The request of a put\<close>

definition put_request :: "'p http_parser \<Rightarrow> http_builder \<Rightarrow> request" where
  "put_request hp b = hu_request (snd (RawxUpload_Build hp b))"

lemma add_fields_simps [simp]:
  "rq_method (add_fields kvs r) = rq_method r" "rq_selector (add_fields kvs r) = rq_selector r"
  "rq_query (add_fields kvs r) = rq_query r" "rq_trailers (add_fields kvs r) = rq_trailers r"
  "rq_content_length (add_fields kvs r) = rq_content_length r"
  by (induction kvs r rule: add_fields.induct) (simp_all add: Request_Field_def)

lemma put_request_simps:
  assumes "hb_trailers b = []"
  shows "rq_method (put_request hp b) = ''PUT''" and "rq_selector (put_request hp b) = hb_name b"
    and "rq_query (put_request hp b) = []" and "rq_trailers (put_request hp b) = []" and "rq_content_length (put_request hp b) < 0"
  using assms by (simp_all add: put_request_def RawxUpload_Build_def HttpUpload_Build_def Let_def Request_Field_def
      Request_Selector_def Request_Method_def Request_ContentLength_def Request_def)

text \<open>Headers, one chunk if there is something to send, and the last chunk.\<close>

definition put_body :: "bytes \<Rightarrow> bytes" where
  "put_body buf = (if buf = [] then [] else concat (chunk_iov buf)) @ bytes_of (''0'' @ crlf @ crlf)"

lemma dechunk_put_body: "dechunk 2 (put_body buf) = Some (buf, [])"
  using dechunk_chunks [of "[buf]" "[]"] by (simp add: put_body_def numeral_2_eq_2 del: dechunk.simps)

lemma Commit_wire:
  assumes "HttpUpload_Commit hp (h, c) = Some (rc, h', c')" and "hu_step h = Prepared"
    and "FinishRequest (hu_request h) c = Some (H_OK, c1)"
  shows "wire c' = wire c1"
proof -
  let ?h = "h\<lparr>hu_step := Done\<rparr>"
  from assms obtain e2 rp2 c2 rp3 c3 where r: "ReadHeaders hp (hu_reply h) c1 = Some (e2, rp2, c2)"
    "(if e2 \<noteq> H_OK then Some (rp2, c2)
      else case read_all hp [] rp2 c2 of None \<Rightarrow> None | Some (_, _, rp, c) \<Rightarrow> Some (rp, c)) = Some (rp3, c3)" "c' = c3"
    by (auto simp: HttpUpload_Commit_def Let_def split: bind_splits if_splits)
  from ReadHeaders_wire [OF r(1)] r(2,3) show ?thesis
    by (auto split: if_splits option.splits dest!: read_all_wire)
qed

section \<open>Connections that accept what is written\<close>

definition steady :: "conn \<Rightarrow> bool" where
  "steady c = (cn_open c \<and> (\<forall>ev \<in> set (ch_wr (cn_chan c)). ev = Wr_intr \<or> (\<exists>k. ev = Wr_n k)))"

lemma send_buf_steady:
  "send_buf b evs out = Some (e, out', evs') \<Longrightarrow> \<forall>ev \<in> set evs. ev = Wr_intr \<or> (\<exists>k. ev = Wr_n k) \<Longrightarrow>
    e = None \<and> set evs' \<subseteq> set evs"
proof (induction evs arbitrary: b out)
  case Nil
  then show ?case by (simp add: send_buf.simps split: if_splits)
next
  case (Cons ev evs)
  then have "e = None \<and> evs' = ev # evs \<or> (\<exists>b out. send_buf b evs out = Some (e, out', evs'))"
    by (auto simp: send_buf.simps [of b "ev # evs"] Let_def split: if_splits)
  moreover have "\<forall>ev \<in> set evs. ev = Wr_intr \<or> (\<exists>k. ev = Wr_n k)" using Cons.prems(2) by simp
  ultimately show ?case using Cons.IH by (meson order.refl order.trans set_subset_Cons)
qed

lemma send_iov_loop_steady:
  "send_iov_loop tot n iov evs out = Some (e, out', evs') \<Longrightarrow> \<forall>ev \<in> set evs. ev = Wr_intr \<or> (\<exists>k. ev = Wr_n k) \<Longrightarrow>
    e = None \<and> set evs' \<subseteq> set evs"
proof (induction evs arbitrary: n iov out)
  case Nil
  then show ?case by (simp add: send_iov_loop.simps split: if_splits)
next
  case (Cons ev evs)
  then have "e = None \<and> evs' = ev # evs \<or> (\<exists>n iov out. send_iov_loop tot n iov evs out = Some (e, out', evs'))"
    by (auto simp: send_iov_loop.simps [of tot n iov "ev # evs"] Let_def split: if_splits option.splits)
  moreover have "\<forall>ev \<in> set evs. ev = Wr_intr \<or> (\<exists>k. ev = Wr_n k)" using Cons.prems(2) by simp
  ultimately show ?case using Cons.IH by (meson order.refl order.trans set_subset_Cons)
qed

lemma conn_send_steady:
  assumes "conn_send b c = Some (e, c')" and "steady c"
  shows "e = None \<and> steady c' \<and> wire c' = wire c @ b"
proof -
  have "e = None \<and> steady c'" using assms
    by (auto simp: conn_send_def chan_send_def steady_def dest!: send_buf_steady split: if_splits option.splits)
  with cn_buf.send_prefix [OF assms(1)] show ?thesis by auto
qed

lemma conn_send_iov_steady:
  assumes "conn_send_iov iov c = Some (e, c')" and "steady c"
  shows "e = None \<and> steady c' \<and> wire c' = wire c @ concat iov"
proof -
  have "e = None \<and> steady c'" using assms
    by (auto simp: conn_send_iov_def chan_send_iov_def send_iov_def steady_def dest!: send_iov_loop_steady split: if_splits option.splits)
  with cn_iov.send_prefix [OF assms(1)] show ?thesis by auto
qed

text \<open>One put.\<close>

lemma sds_put_steady:
  assumes "sds_put hp b buf c = Some c'" and "hb_trailers b = []" and "steady c"
  shows "wire c' = wire c @ concat (map bytes_of (request_headers (put_request hp b))) @ put_body buf"
proof -
  define h where "h = snd (RawxUpload_Build hp b)"
  have h: "RawxUpload_Build hp b = (Init, h)" "hu_step h = Init" "hu_request h = put_request hp b"
    by (simp_all add: h_def put_request_def RawxUpload_Build_def HttpUpload_Build_def Let_def)
  note r = put_request_simps [OF assms(2), of hp]
  from assms(1) h(1,2) obtain e1 c1 where
    1: "conn_send_iov (map bytes_of (request_headers (put_request hp b))) c = Some (e1, c1)"
    by (auto simp: sds_put_def Rawx_Prepare_def HttpUpload_Prepare_def WriteHeaders_def h(3) split: bind_splits)
  note s1 = conn_send_iov_steady [OF 1 assms(3)]
  have 2: "Rawx_Prepare HttpUpload_Prepare (Init, (h, c)) = Some (status_ok, Prepared, h\<lparr>hu_step := Prepared\<rparr>, c1)"
    using 1 s1 h by (simp add: Rawx_Prepare_def HttpUpload_Prepare_def WriteHeaders_def)
  from assms(1) h(1) 2 obtain st h2 c2 rc h' c4 where
    3: "RawxUpload_Write buf (Prepared, h\<lparr>hu_step := Prepared\<rparr>, c1) = Some (st, h2, c2)"
    and 4: "Rawx_Commit (HttpUpload_Commit hp) (st, h2, c2) = Some (rc, h', c4)" "c' = conn_close (snd c4)"
    by (auto simp: sds_put_def split: bind_splits)
  have w: "steady c2 \<and> wire c2 = wire c1 @ (if buf = [] then [] else concat (chunk_iov buf)) \<and> st = Prepared \<and> hu_step h2 = Prepared
      \<and> rq_content_length (hu_request h2) < 0 \<and> rq_trailers (hu_request h2) = []"
  proof (cases "buf = []")
    case True
    with 3 h r s1 show ?thesis by (auto simp: RawxUpload_Write_def HttpUpload_Write_def split: bind_splits)
  next
    case False
    with 3 h(3) r(5) obtain e3 where "conn_send_iov (chunk_iov buf) c1 = Some (e3, c2)"
      by (auto simp: RawxUpload_Write_def HttpUpload_Write_def Request_Write_def split: bind_splits if_splits)
    with conn_send_iov_steady [OF this] s1 3 h r False show ?thesis
      by (auto simp: RawxUpload_Write_def HttpUpload_Write_def Request_Write_def split: bind_splits if_splits)
  qed
  from 4(1) w have 5: "HttpUpload_Commit hp (h2, c2) = Some (rc, fst c4, snd c4)"
    by (auto simp: Rawx_Commit_def split: bind_splits)
  from 5 w obtain e5 c3 where 6: "conn_send (bytes_of (''0'' @ crlf @ crlf)) c2 = Some (e5, c3)"
    by (auto simp: HttpUpload_Commit_def FinishRequest_def Let_def split: bind_splits)
  note s3 = conn_send_steady [OF 6]
  have "FinishRequest (hu_request h2) c2 = Some (H_OK, c3)"
    using 6 s3 w by (simp add: FinishRequest_def trailer_lines_def)
  from Commit_wire [OF 5 _ this] w have "wire (snd c4) = wire c3" by simp
  with s1 s3 w 4(2) show ?thesis by (simp add: put_body_def conn_close_def wire_def)
qed

section \<open>The chunks of a file\<close>

text \<open>
  What the connection \<open>c'\<close> to \<open>host\<close> has been sent since it was \<open>c\<close>, for the chunk \<open>ch\<close>: a request to put it, for a range
  of its length, whose body decodes to the whole buffer.
\<close>

definition chunk_sent :: "'p http_parser \<Rightarrow> nat \<Rightarrow> bytes \<Rightarrow> conn \<Rightarrow> string \<times> conn \<Rightarrow> bool" where
  "chunk_sent hp sz ch c = (\<lambda>(host, c'). \<exists>pm ct b body. sds_builder pm ct = Some b
     \<and> host = Host_Port (rc_url pm) \<and> rc_range pm = \<lparr>rg_start = 0, rg_size = length ch\<rparr>
     \<and> wire c' = wire c @ concat (map bytes_of (request_headers (put_request hp b))) @ body
     \<and> dechunk 2 body = Some (padded sz ch, []))"

lemma builder_trailers [simp]:
  "hb_trailers (Builder_Field k v b) = hb_trailers b" "hb_trailers (Builder_Name k b) = hb_trailers b"
  "hb_trailers (Builder_Host k b) = hb_trailers b" "hb_trailers no_builder = []"
  by (simp_all add: Builder_Field_def Builder_Name_def Builder_Host_def no_builder_def)

lemma sds_builder_trailers: "sds_builder pm ct = Some b \<Longrightarrow> hb_trailers b = []"
  by (auto simp: sds_builder_def Let_def bind_eq_Some_conv ChunkMethod_def MimeType_def StoragePolicy_def ContentVersion_def
      ContentId_def ContentPath_def ContainerId_def RawxUpload_set_param_def)

lemma upload_chunk_cases:
  assumes "upload_chunk hp parse render a buf got s = Some s'"
  obtains s1 where "sd_peers s1 = sd_peers s" "sd_done s1 = sd_done s"
    and "(case sd_peers s1 of
         [] \<Rightarrow> None
       | (good, c) # peers \<Rightarrow>
           if good then do {
             b \<leftarrow> sds_builder (SetRange \<lparr>rg_start = 0, rg_size = got\<rparr> (SetUrl (ci_url (upload_target got s1)) RawxCommand))
               ((sd_ct s1)\<lparr>ct_param := UpdateTarget (upload_target got s1) (ct_param (sd_ct s1))\<rparr>);
             c' \<leftarrow> sds_put hp b buf c;
             Some (peers, sd_done s1 @ [(Host_Port (rc_url (SetRange \<lparr>rg_start = 0, rg_size = got\<rparr>
               (SetUrl (ci_url (upload_target got s1)) RawxCommand))), c')])
           }
           else Some (peers, sd_done s1)) = Some (sd_peers s', sd_done s')"
proof (cases "sd_first s")
  case True
  show ?thesis
    by (rule that [of "s\<lparr>sd_first := False\<rparr>"])
      (use True assms in \<open>auto simp: upload_chunk_def Let_def bind_eq_Some_conv split: if_splits list.splits prod.splits\<close>)
next
  case False
  with assms obtain err ct c where "Content_Prepare hp parse render a (sd_ct s, sd_conn s) = Some (err, ct, c)"
    by (auto simp: upload_chunk_def split: bind_splits)
  with False assms show ?thesis
    by (intro that [of "s\<lparr>sd_err := err, sd_ct := ct, sd_conn := c\<rparr>"])
      (auto simp: upload_chunk_def Let_def bind_eq_Some_conv split: if_splits list.splits prod.splits)
qed

lemma upload_chunk_sent:
  assumes "upload_chunk hp parse render a (padded sz ch) (length ch) s = Some s'"
    and "\<forall>(good, c) \<in> set (sd_peers s). good \<longrightarrow> steady c"
  obtains good c peers where "sd_peers s = (good, c) # peers" "sd_peers s' = peers"
    "\<exists>outs. sd_done s' = sd_done s @ outs
      \<and> list_all2 (\<lambda>(ch, _, c). chunk_sent hp sz ch c) (if good then [(ch, good, c)] else []) outs"
proof -
  from upload_chunk_cases [OF assms(1)] obtain s1 where
    s1: "sd_peers s1 = sd_peers s" "sd_done s1 = sd_done s" and run: "(case sd_peers s1 of
         [] \<Rightarrow> None
       | (good, c) # peers \<Rightarrow>
           if good then do {
             b \<leftarrow> sds_builder (SetRange \<lparr>rg_start = 0, rg_size = length ch\<rparr> (SetUrl (ci_url (upload_target (length ch) s1)) RawxCommand))
               ((sd_ct s1)\<lparr>ct_param := UpdateTarget (upload_target (length ch) s1) (ct_param (sd_ct s1))\<rparr>);
             c' \<leftarrow> sds_put hp b (padded sz ch) c;
             Some (peers, sd_done s1 @ [(Host_Port (rc_url (SetRange \<lparr>rg_start = 0, rg_size = length ch\<rparr>
               (SetUrl (ci_url (upload_target (length ch) s1)) RawxCommand))), c')])
           }
           else Some (peers, sd_done s1)) = Some (sd_peers s', sd_done s')" .
  define pm where "pm = SetRange \<lparr>rg_start = 0, rg_size = length ch\<rparr> (SetUrl (ci_url (upload_target (length ch) s1)) RawxCommand)"
  define ct where "ct = (sd_ct s1)\<lparr>ct_param := UpdateTarget (upload_target (length ch) s1) (ct_param (sd_ct s1))\<rparr>"
  note run' = run [folded pm_def, folded ct_def]
  obtain good c peers where 1: "sd_peers s = (good, c) # peers"
    using run s1(1) by (cases "sd_peers s") auto
  have p: "sd_peers s' = peers" using run' s1 1 by (auto simp: bind_eq_Some_conv split: if_splits)
  have "\<exists>outs. sd_done s' = sd_done s @ outs
      \<and> list_all2 (\<lambda>(ch, _, c). chunk_sent hp sz ch c) (if good then [(ch, good, c)] else []) outs"
  proof (cases good)
    case True
    with run' s1 1 obtain b c' where
      2: "sds_builder pm ct = Some b" "sds_put hp b (padded sz ch) c = Some c'" "sd_done s' = sd_done s @ [(Host_Port (rc_url pm), c')]"
      by (auto simp: bind_eq_Some_conv)
    have "rc_range pm = \<lparr>rg_start = 0, rg_size = length ch\<rparr>" by (simp add: pm_def SetRange_def Range_Set_def)
    moreover have "steady c" using assms(2) 1 True by auto
    ultimately have "chunk_sent hp sz ch c (Host_Port (rc_url pm), c')"
      using sds_put_steady [OF 2(2) sds_builder_trailers [OF 2(1)]] 2(1) dechunk_put_body [of "padded sz ch"]
      unfolding chunk_sent_def by blast
    with 2(3) True show ?thesis by auto
  next
    case False
    with run' s1 1 show ?thesis by simp
  qed
  with 1 p show ?thesis by (rule that)
qed

lemma chunks_of_sizes:
  "0 < sz \<Longrightarrow> (\<forall>ch \<in> set (chunks_of sz bs). ch \<noteq> [] \<and> length ch \<le> sz) \<and> (\<forall>ch \<in> set (butlast (chunks_of sz bs)). length ch = sz)"
proof (induction sz bs rule: chunks_of.induct)
  case (1 sz bs)
  show ?case
  proof (cases "bs = []")
    case True
    then show ?thesis by (simp add: chunks_of.simps [of sz "[]"])
  next
    case False
    define x xs where "x = take sz bs" and "xs = chunks_of sz (drop sz bs)"
    have c: "chunks_of sz bs = x # xs" using False "1.prems" by (subst chunks_of.simps) (simp add: x_def xs_def)
    have "\<not> (sz = 0 \<or> bs = [])" using False "1.prems" by simp
    note IH = "1.IH" [OF this "1.prems", folded xs_def]
    have "xs = [] \<or> length x = sz"
      by (cases "length bs \<le> sz") (simp_all add: x_def xs_def chunks_of.simps [of sz "[]"])
    moreover have "x \<noteq> []" "length x \<le> sz" using False "1.prems" by (simp_all add: x_def)
    ultimately show ?thesis using IH by (auto simp: c)
  qed
qed

lemma upload_all_sent:
  assumes "upload_all hp parse render a sz chs s = Some s'" and "\<forall>(good, c) \<in> set (sd_peers s). good \<longrightarrow> steady c"
  shows "length chs \<le> length (sd_peers s) \<and> sd_peers s' = drop (length chs) (sd_peers s)
    \<and> (\<exists>outs. sd_done s' = sd_done s @ outs
      \<and> list_all2 (\<lambda>(ch, _, c). chunk_sent hp sz ch c) (filter (fst \<circ> snd) (zip chs (sd_peers s))) outs)"
  using assms
proof (induction chs arbitrary: s)
  case (Cons ch chs)
  from Cons.prems(1) obtain s1 where 1: "upload_chunk hp parse render a (padded sz ch) (length ch) s = Some s1"
    "upload_all hp parse render a sz chs s1 = Some s'" by (auto split: bind_splits)
  from upload_chunk_sent [OF 1(1) Cons.prems(2)] obtain good c peers where
    p: "sd_peers s = (good, c) # peers" "sd_peers s1 = peers" "\<exists>outs. sd_done s1 = sd_done s @ outs
      \<and> list_all2 (\<lambda>(ch, _, c). chunk_sent hp sz ch c) (if good then [(ch, good, c)] else []) outs" .
  from p(3) obtain outs where
    2: "sd_peers s = (good, c) # peers" "sd_peers s1 = peers" "sd_done s1 = sd_done s @ outs"
      "list_all2 (\<lambda>(ch, _, c). chunk_sent hp sz ch c) (if good then [(ch, good, c)] else []) outs" using p(1,2) by (elim exE conjE) rule
  have "\<forall>(good, c) \<in> set (sd_peers s1). good \<longrightarrow> steady c" using Cons.prems(2) 2(1,2) by auto
  from Cons.IH [OF 1(2) this] obtain outs' where
    3: "length chs \<le> length peers" "sd_peers s' = drop (length chs) peers" "sd_done s' = sd_done s1 @ outs'"
      "list_all2 (\<lambda>(ch, _, c). chunk_sent hp sz ch c) (filter (fst \<circ> snd) (zip chs peers)) outs'" unfolding 2(2) by blast
  have "filter (fst \<circ> snd) (zip (ch # chs) (sd_peers s)) =
      (if good then [(ch, good, c)] else []) @ filter (fst \<circ> snd) (zip chs peers)" by (simp add: 2(1))
  with list_all2_appendI [OF 2(4) 3(4)]
  have "list_all2 (\<lambda>(ch, _, c). chunk_sent hp sz ch c) (filter (fst \<circ> snd) (zip (ch # chs) (sd_peers s))) (outs @ outs')"
    by (simp only:)
  moreover have "sd_done s' = sd_done s @ outs @ outs'" using 2(3) 3(3) by simp
  moreover have "length (ch # chs) \<le> length (sd_peers s)" "sd_peers s' = drop (length (ch # chs)) (sd_peers s)"
    using 2(1) 3(1,2) by simp_all
  ultimately show ?case by blast
qed simp

section \<open>An upload\<close>

text \<open>A put to a service that accepts each write in one piece and answers two bytes, which the parser takes for a reply.\<close>

lemma sds_put_returns:
  assumes "hb_trailers b = []" and "length (concat (map bytes_of (request_headers (put_request proxy_parser b)))) \<le> k"
    and "length (concat (chunk_iov buf)) \<le> k" and "buf \<noteq> []" and "5 \<le> k"
    and "c = open_conn [0, 0] [Rd_data 2] (replicate 3 (Wr_n k))"
  shows "\<exists>c'. sds_put proxy_parser b buf c = Some c'"
proof -
  let ?r = "put_request proxy_parser b"
  let ?iov = "map bytes_of (request_headers ?r)"
  define h where "h = snd (RawxUpload_Build proxy_parser b)"
  have h: "RawxUpload_Build proxy_parser b = (Init, h)" "hu_step h = Init" "hu_request h = ?r" "hu_reply h = Reply proxy_parser"
    by (simp_all add: h_def put_request_def RawxUpload_Build_def HttpUpload_Build_def Let_def)
  note r = put_request_simps [OF assms(1), of proxy_parser]
  have ne: "concat ?iov \<noteq> []" by (simp add: request_headers_def request_line_def bytes_of_def crlf_def)
  obtain c1 where 1: "conn_send_iov ?iov c = Some (None, c1)" "cn_open c1" "ch_wr (cn_chan c1) = [Wr_n k, Wr_n k]"
    "ch_in (cn_chan c1) = [0, 0]" "ch_rd (cn_chan c1) = [Rd_data 2]"
    using conn_send_iov_one [OF _ _ ne assms(2), of c] by (simp add: assms(6) open_conn_def numeral_eq_Suc)
  have ck: "concat (chunk_iov buf) \<noteq> []" using assms(4) by (simp add: chunk_iov_def)
  obtain c2 where 2: "conn_send_iov (chunk_iov buf) c1 = Some (None, c2)" "cn_open c2" "ch_wr (cn_chan c2) = [Wr_n k]"
    "ch_in (cn_chan c2) = [0, 0]" "ch_rd (cn_chan c2) = [Rd_data 2]"
    using conn_send_iov_one [OF 1(2,3) ck assms(3)] 1(2,4,5) by simp
  let ?r' = "?r\<lparr>rq_sent := rq_sent ?r + int (length buf)\<rparr>"
  have w: "RawxUpload_Write buf (Prepared, h\<lparr>hu_step := Prepared\<rparr>, c1) = Some (Prepared, h\<lparr>hu_step := Prepared, hu_request := ?r'\<rparr>, c2)"
    using 2(1) h r(5) assms(4) by (simp add: RawxUpload_Write_def HttpUpload_Write_def Request_Write_def)
  have "bytes_of (''0'' @ crlf @ crlf) \<noteq> []" "length (bytes_of (''0'' @ crlf @ crlf)) \<le> k"
    using assms(5) by (simp_all add: bytes_of_def crlf_def)
  from conn_send_one [OF 2(2,3) this] 2(2,4,5) obtain c3 where
    3: "conn_send (bytes_of (''0'' @ crlf @ crlf)) c2 = Some (None, c3)" "cn_open c3" "ch_in (cn_chan c3) = [0, 0]"
      "ch_rd (cn_chan c3) = [Rd_data 2]" by simp
  have f: "FinishRequest ?r' c2 = Some (H_OK, c3)"
    using 3(1) r(4,5) by (simp add: FinishRequest_def trailer_lines_def)
  obtain r4 c4 where 4: "ReadHeaders proxy_parser (Reply proxy_parser) c3 = Some (H_OK, r4, c4)"
    "\<exists>e x r5 c5. read_all proxy_parser [] r4 c4 = Some (e, x, r5, c5)"
    using 3(2-4) by (simp add: http_eval proxy_parser_def)
  then show ?thesis using 1(1) h w f
    by (auto simp: sds_put_def Rawx_Prepare_def Rawx_Commit_def HttpUpload_Prepare_def WriteHeaders_def HttpUpload_Commit_def Let_def)
qed

text \<open>The client after the answer of the proxy: the place of one chunk of four bytes, and the headers of the content.\<close>

definition demo_content :: content where
  "demo_content = (Content demo_url)\<lparr>ct_param := ContentInfo\<lparr>co_targets := [proxy_target 0],
     co_system := [(''chunk-method'', ''plain''), (''id'', ''AA''), (''mime-type'', ''t''), (''name'', ''P''), (''policy'', ''S''),
       (''version'', ''1'')]\<rparr>\<rparr>"

definition demo_sds :: "conn \<Rightarrow> sds" where
  "demo_sds c = (sds_start demo_url c [(True, c)])\<lparr>sd_ct := demo_content\<rparr>"

lemma demo_upload:
  "\<exists>k s'. 5 \<le> k \<and> upload_loop proxy_parser (\<lambda>_. None) (\<lambda>_. []) False 4 [1, 2, 3]
     (demo_sds (open_conn [0, 0] [Rd_data 2] (replicate 3 (Wr_n k)))) = Some s' \<and> map fst (sd_done s') = [''h:'' @ show_dec 6000]"
proof -
  define t where "t = \<lparr>ci_url = \<lparr>ru_chunk_id = ''AB'', ru_host = ''h'', ru_port = 6000\<rparr>, ci_chunk_number = 0, ci_pos = 0,
     ci_score = 0, ci_size = 3, ci_hash = []\<rparr>"
  have t: "upload_target 3 ((demo_sds c)\<lparr>sd_first := False\<rparr>) = t" for c
    by (simp add: t_def upload_target_def demo_sds_def demo_content_def sds_start_def GetTarget_def proxy_target_def ChunkInfo_def
        RawxUrl_Set_def RawxUrl_def)
  define ct where "ct = demo_content\<lparr>ct_param := UpdateTarget t (ct_param demo_content)\<rparr>"
  define pm where "pm = SetRange \<lparr>rg_start = 0, rg_size = 3\<rparr> (SetUrl (ci_url t) RawxCommand)"
  have "co_system (ct_param ct) = co_system (ct_param demo_content)" by (simp add: ct_def UpdateTarget_def)
  moreover have "stream_int64 ''1'' = Some 1" by code_simp
  ultimately obtain b where b: "sds_builder pm ct = Some b"
    by (simp add: sds_builder_def demo_content_def)
  define k where "k = 5 + length (concat (map bytes_of (request_headers (put_request proxy_parser b))))
    + length (concat (chunk_iov [1, 2, 3, 0]))"
  define c where "c = open_conn [0, 0] [Rd_data 2] (replicate 3 (Wr_n k))"
  from sds_put_returns [OF sds_builder_trailers [OF b], of k "[1, 2, 3, 0]" c] obtain c' where
    put: "sds_put proxy_parser b [1, 2, 3, 0] c = Some c'" by (auto simp: k_def c_def)
  have chunks: "chunks_of 4 [1, 2, 3] = [[1, 2, 3]]" "padded 4 [1, 2, 3] = [1, 2, 3, 0]" "length [1, 2, 3 :: byte] = 3"
    by (simp_all add: chunks_of.simps padded_def numeral_eq_Suc)
  have host: "Host_Port (rc_url pm) = ''h:'' @ show_dec 6000"
    by (simp add: pm_def t_def Host_Port_def SetRange_def SetUrl_def RawxUrl_Set_def show_int_def)
  have "upload_chunk proxy_parser (\<lambda>_. None) (\<lambda>_. []) False [1, 2, 3, 0] 3 (demo_sds c) =
      Some ((demo_sds c)\<lparr>sd_first := False, sd_peers := [], sd_done := [(''h:'' @ show_dec 6000, c')], sd_ct := ct, sd_full := 3, sd_meta := 1\<rparr>)"
    using put b t [of c] host by (simp add: upload_chunk_def demo_sds_def sds_start_def flip: pm_def ct_def)
  then have "upload_loop proxy_parser (\<lambda>_. None) (\<lambda>_. []) False 4 [1, 2, 3] (demo_sds c) =
      Some ((demo_sds c)\<lparr>sd_first := False, sd_peers := [], sd_done := [(''h:'' @ show_dec 6000, c')], sd_ct := ct, sd_full := 3, sd_meta := 1\<rparr>)"
    by (simp only: upload_loop_all chunks upload_all.simps) simp
  then show ?thesis by (intro exI [of _ k]) (simp add: c_def k_def)
qed

section \<open>Properties\<close>

text \<open>C12. What the chunk services are sent by the upload of a file, on connections whose writes do not fail: the file is cut
  in chunks that give it back, each goes to one attempt of a connection, in order, and each service that is reached receives one
  request, with the length of its chunk for range, but the whole buffer for body: the chunk and zeros up to the size.
  Nothing is sent again for a chunk whose service is not reached, and its bytes count as uploaded all the same.  If all are
  reached, what they have been sent together is the file followed by less than a size of zeros.\<close>

theorem sds_upload_chunks:
  assumes "upload_loop hp parse render a sz bs s = Some s'" and "0 < sz" and "\<forall>(good, c) \<in> set (sd_peers s). good \<longrightarrow> steady c"
  shows "\<exists>chs outs. concat chs = bs \<and> (\<forall>ch \<in> set chs. ch \<noteq> [] \<and> length ch \<le> sz) \<and> (\<forall>ch \<in> set (butlast chs). length ch = sz)
    \<and> length chs \<le> length (sd_peers s) \<and> sd_peers s' = drop (length chs) (sd_peers s)
    \<and> sd_done s' = sd_done s @ outs
    \<and> list_all2 (\<lambda>(ch, _, c). chunk_sent hp sz ch c) (filter (fst \<circ> snd) (zip chs (sd_peers s))) outs
    \<and> (\<exists>k < sz. concat (map (padded sz) chs) = bs @ replicate k 0)
    \<and> sd_full s' = sd_full s + length bs"
proof -
  note all = assms(1) [unfolded upload_loop_all]
  from upload_all_sent [OF all assms(3)] obtain outs where
    "length (chunks_of sz bs) \<le> length (sd_peers s)" "sd_peers s' = drop (length (chunks_of sz bs)) (sd_peers s)"
    "sd_done s' = sd_done s @ outs"
    "list_all2 (\<lambda>(ch, _, c). chunk_sent hp sz ch c) (filter (fst \<circ> snd) (zip (chunks_of sz bs) (sd_peers s))) outs" by blast
  moreover have "sd_full s' = sd_full s + length bs"
    using upload_all_declares [OF all] concat_chunks_of [OF assms(2), of bs] by simp
  moreover have "\<exists>k < sz. concat (map (padded sz) (chunks_of sz bs)) = bs @ replicate k 0" using concat_padded [OF assms(2), of bs] by blast
  ultimately show ?thesis using concat_chunks_of [OF assms(2), of bs] chunks_of_sizes [OF assms(2), of bs] by blast
qed

theorem sds_upload_chunks_witness:
  "\<exists>c c' s'. upload_loop proxy_parser (\<lambda>_. None) (\<lambda>_. []) False 4 [1, 2, 3] (demo_sds c) = Some s'
    \<and> sd_done s' = [(''h:'' @ show_dec 6000, c')] \<and> sd_full s' = 3
    \<and> (\<exists>b body. wire c' = wire c @ concat (map bytes_of (request_headers (put_request proxy_parser b))) @ body
        \<and> dechunk 2 body = Some ([1, 2, 3, 0], []))"
proof -
  obtain k s' where 1: "5 \<le> k" "upload_loop proxy_parser (\<lambda>_. None) (\<lambda>_. []) False 4 [1, 2, 3]
     (demo_sds (open_conn [0, 0] [Rd_data 2] (replicate 3 (Wr_n k)))) = Some s'" "map fst (sd_done s') = [''h:'' @ show_dec 6000]"
    using demo_upload by (elim exE conjE) (rule that; assumption)
  define c where "c = open_conn [0, 0] [Rd_data 2] (replicate 3 (Wr_n k))"
  have d: "sd_peers (demo_sds c) = [(True, c)]" "sd_done (demo_sds c) = []" "sd_full (demo_sds c) = 0"
    by (simp_all add: demo_sds_def sds_start_def)
  have "\<forall>(good, c) \<in> set (sd_peers (demo_sds c)). good \<longrightarrow> steady c"
    unfolding d(1) by (simp add: steady_def c_def open_conn_def)
  from sds_upload_chunks [OF 1(2) [folded c_def] zero_less_numeral this] obtain chs outs where
    2: "concat chs = [1, 2, 3]" "length chs \<le> length (sd_peers (demo_sds c))" "sd_done s' = sd_done (demo_sds c) @ outs"
      "list_all2 (\<lambda>(ch, _, c). chunk_sent proxy_parser 4 ch c) (filter (fst \<circ> snd) (zip chs (sd_peers (demo_sds c)))) outs"
      "sd_full s' = sd_full (demo_sds c) + length [1, 2, 3 :: byte]" by (elim exE conjE) (rule that; simp only:)
  have chs: "chs = [[1, 2, 3]]" using 2(1,2) unfolding d(1) by (cases chs) auto
  have z: "filter (fst \<circ> snd) (zip [[1, 2, 3 :: byte]] [(True, c)]) = [([1, 2, 3], True, c)]" by simp
  have "list_all2 (\<lambda>(ch, _, c). chunk_sent proxy_parser 4 ch c) [([1, 2, 3], True, c)] outs"
    using 2(4) unfolding chs d(1) z .
  then obtain o1 where o1: "outs = [o1]" "chunk_sent proxy_parser 4 [1, 2, 3] c o1" by (simp add: list_all2_Cons1) blast
  obtain host c' where o: "o1 = (host, c')" by fastforce
  have done': "sd_done s' = [(''h:'' @ show_dec 6000, c')]" using 1(3) 2(3) unfolding d(2) o1(1) o by simp
  have "padded 4 [1, 2, 3] = [1, 2, 3, 0]" by (simp add: padded_def numeral_eq_Suc)
  with o1(2) have "\<exists>b body. wire c' = wire c @ concat (map bytes_of (request_headers (put_request proxy_parser b))) @ body
      \<and> dechunk 2 body = Some ([1, 2, 3, 0], [])" unfolding o chunk_sent_def by (simp only: prod.case) blast
  moreover have "sd_full s' = 3" using 2(5) d(3) by simp
  ultimately show ?thesis using 1(2) [folded c_def] done' by blast
qed

end
