(* ===== verification/Rawx_System.thy ===== *)
theory Rawx_System
  imports Rawx_Safety Sds_Wire
begin

text \<open>
  A chunk from the upload of \<open>sds.cpp\<close> to the disk of a rawx server: the client and the server, with what a
  parser of requests is documented to announce between them.
\<close>

section \<open>What the client sends\<close>

lemma ample_send_iov:
  assumes "ample k (Suc m) c" and "concat iov \<noteq> []" and "length (concat iov) \<le> k"
  obtains c' where "conn_send_iov iov c = Some (None, c')" "ample k m c'" "wire c' = wire c @ concat iov"
proof -
  from assms(1) obtain evs where o: "cn_open c" "ch_wr (cn_chan c) = Wr_n k # replicate m (Wr_n k) @ evs"
    by (auto simp: ample_def)
  from conn_send_iov_one [OF o assms(2,3)] o(1) show ?thesis
    by (intro that [of "c\<lparr>cn_chan := (cn_chan c)\<lparr>ch_out := wire c @ concat iov, ch_wr := replicate m (Wr_n k) @ evs\<rparr>\<rparr>"])
      (auto simp: ample_def wire_def)
qed

lemma ample_send:
  assumes "ample k (Suc m) c" and "x \<noteq> []" and "length x \<le> k"
  obtains c' where "conn_send x c = Some (None, c')" "ample k m c'" "wire c' = wire c @ x"
proof -
  from assms(1) obtain evs where o: "cn_open c" "ch_wr (cn_chan c) = Wr_n k # replicate m (Wr_n k) @ evs"
    by (auto simp: ample_def)
  from conn_send_one [OF o assms(2,3)] o(1) show ?thesis
    by (intro that [of "c\<lparr>cn_chan := (cn_chan c)\<lparr>ch_out := wire c @ x, ch_wr := replicate m (Wr_n k) @ evs\<rparr>\<rparr>"])
      (auto simp: ample_def wire_def)
qed

lemma FinishRequest_ample:
  assumes "rq_content_length r < 0" and "rq_trailers r = []" and "ample k (Suc m) c" and "5 \<le> k"
  obtains c' where "FinishRequest r c = Some (H_OK, c')" "wire c' = wire c @ bytes_of (''0'' @ crlf @ crlf)"
proof -
  have "bytes_of (''0'' @ crlf @ crlf) \<noteq> []" "length (bytes_of (''0'' @ crlf @ crlf)) \<le> k"
    using assms(4) by (simp_all add: bytes_of_def crlf_def)
  from ample_send [OF assms(3) this] obtain c' where
    "conn_send (bytes_of (''0'' @ crlf @ crlf)) c = Some (None, c')" "wire c' = wire c @ bytes_of (''0'' @ crlf @ crlf)" by blast
  with assms(1,2) show ?thesis by (intro that [of c']) (simp_all add: FinishRequest_def trailer_lines_def)
qed

lemma Request_Write_ample:
  assumes "rq_content_length r < 0" and "ample k (Suc m) c" and "length (concat (chunk_iov buf)) \<le> k" and "buf \<noteq> []"
  obtains c' where "Request_Write buf r c = Some (H_OK, r\<lparr>rq_sent := rq_sent r + int (length buf)\<rparr>, c')" "ample k m c'"
    "wire c' = wire c @ concat (chunk_iov buf)"
proof -
  from assms(4) have "concat (chunk_iov buf) \<noteq> []" by (simp add: chunk_iov_def)
  from ample_send_iov [OF assms(2) this assms(3)] obtain c' where
    "conn_send_iov (chunk_iov buf) c = Some (None, c')" "ample k m c'" "wire c' = wire c @ concat (chunk_iov buf)" by blast
  with assms(1,4) show ?thesis by (intro that [of c']) (simp_all add: Request_Write_def)
qed

lemma sds_put_wire:
  assumes "sds_put hp b buf c = Some c'" and "hb_trailers b = []" and "ample k 3 c" and "5 \<le> k"
    and "length (concat (map bytes_of (request_headers (put_request hp b)))) \<le> k" and "length (concat (chunk_iov buf)) \<le> k"
  shows "wire c' = wire c @ concat (map bytes_of (request_headers (put_request hp b))) @ put_body buf"
proof -
  define h where "h = snd (RawxUpload_Build hp b)"
  have h: "RawxUpload_Build hp b = (Init, h)" "hu_step h = Init" "hu_request h = put_request hp b"
    by (simp_all add: h_def put_request_def RawxUpload_Build_def HttpUpload_Build_def Let_def)
  note r = put_request_simps [OF assms(2), of hp]
  have "concat (map bytes_of (request_headers (put_request hp b))) \<noteq> []"
    by (simp add: request_headers_def request_line_def bytes_of_def crlf_def)
  from ample_send_iov [OF _ this assms(5), of 2] assms(3) obtain c1 where
    1: "conn_send_iov (map bytes_of (request_headers (put_request hp b))) c = Some (None, c1)" "ample k 2 c1"
      "wire c1 = wire c @ concat (map bytes_of (request_headers (put_request hp b)))" by (auto simp: numeral_eq_Suc)
  have 2: "Rawx_Prepare HttpUpload_Prepare (Init, (h, c)) = Some (status_ok, Prepared, h\<lparr>hu_step := Prepared\<rparr>, c1)"
    using 1(1) h by (simp add: Rawx_Prepare_def HttpUpload_Prepare_def WriteHeaders_def)
  have "\<exists>r' c2 m. RawxUpload_Write buf (Prepared, h\<lparr>hu_step := Prepared\<rparr>, c1) =
      Some (Prepared, h\<lparr>hu_step := Prepared, hu_request := r'\<rparr>, c2) \<and> ample k (Suc m) c2 \<and> rq_content_length r' < 0 \<and> rq_trailers r' = []
      \<and> wire c2 = wire c1 @ (if buf = [] then [] else concat (chunk_iov buf))"
  proof (cases "buf = []")
    case True
    with 1(2) h r show ?thesis
      by (intro exI [of _ "put_request hp b"] exI [of _ c1] exI [of _ 1])
        (cases h; simp add: RawxUpload_Write_def HttpUpload_Write_def numeral_2_eq_2)
  next
    case False
    from Request_Write_ample [OF r(5), of k 1 c1 buf] 1(2) assms(6) False obtain c2 where
      "Request_Write buf (put_request hp b) c1 =
        Some (H_OK, (put_request hp b)\<lparr>rq_sent := rq_sent (put_request hp b) + int (length buf)\<rparr>, c2)"
      "ample k 1 c2" "wire c2 = wire c1 @ concat (chunk_iov buf)" by (auto simp: numeral_2_eq_2)
    with False h r show ?thesis
      by (intro exI [of _ "(put_request hp b)\<lparr>rq_sent := rq_sent (put_request hp b) + int (length buf)\<rparr>"] exI [of _ c2] exI [of _ 0])
        (simp add: RawxUpload_Write_def HttpUpload_Write_def)
  qed
  then obtain r' c2 m where 3: "RawxUpload_Write buf (Prepared, h\<lparr>hu_step := Prepared\<rparr>, c1) =
      Some (Prepared, h\<lparr>hu_step := Prepared, hu_request := r'\<rparr>, c2)" "ample k (Suc m) c2" "rq_content_length r' < 0"
    "rq_trailers r' = []" "wire c2 = wire c1 @ (if buf = [] then [] else concat (chunk_iov buf))" by blast
  from FinishRequest_ample [OF 3(3,4,2) assms(4)] obtain c3 where
    4: "FinishRequest r' c2 = Some (H_OK, c3)" "wire c3 = wire c2 @ bytes_of (''0'' @ crlf @ crlf)" .
  from assms(1) h(1) 2 3(1) obtain rc h' c4 where
    5: "HttpUpload_Commit hp (h\<lparr>hu_step := Prepared, hu_request := r'\<rparr>, c2) = Some (rc, h', c4)" "c' = conn_close c4"
    by (auto simp: sds_put_def Rawx_Commit_def split: bind_splits)
  from Commit_wire [OF 5(1)] 4(1) have "wire c4 = wire c3" by simp
  with 1(3) 3(5) 4(2) 5(2) show ?thesis by (simp add: put_body_def conn_close_def wire_def)
qed

section \<open>What a parser announces of it\<close>

text \<open>The boundaries of the chunks are announced too; no callback of the server does anything of them.\<close>

definition plain :: "sevent list \<Rightarrow> sevent list" where
  "plain es = filter (\<lambda>e. e \<noteq> S_chunk_header \<and> e \<noteq> S_chunk_complete) es"

lemma sevents_Cons_eq:
  assumes "sevents ml bh es = sevents ml bh fs"
  shows "sevents ml bh (e # es) = sevents ml bh (e # fs)"
  by (rule ext, cases e) (simp_all add: assms cong: if_cong)

lemma sevents_plain: "sevents ml bh (plain es) = sevents ml bh es"
proof (induction es)
  case (Cons e es)
  show ?case
  proof (cases "e = S_chunk_header \<or> e = S_chunk_complete")
    case True
    with Cons show ?thesis by (auto simp: plain_def fun_eq_iff)
  next
    case False
    then have "plain (e # es) = e # plain es" by (simp add: plain_def)
    with sevents_Cons_eq [OF Cons, of e] show ?thesis by simp
  qed
qed (simp add: plain_def)

text \<open>
  The documentation of http-parser, for one request: from its headers followed by any chunked body come the target,
  the fields in their order and the bytes of the body, in pieces that the parser decides.
\<close>

definition request_fields :: "request \<Rightarrow> (string \<times> string) list" where
  "request_fields r = (''Transfer-encoding'', ''chunked'') # rq_fields r"

definition announces :: "(bytes \<Rightarrow> sevent list option) \<Rightarrow> (bytes \<Rightarrow> bytes list) \<Rightarrow> request \<Rightarrow> bool" where
  "announces parse pieces r = (\<forall>n w body. dechunk n w = Some (body, []) \<longrightarrow>
     concat (pieces body) = body \<and> (\<forall>x \<in> set (pieces body). x \<noteq> [] \<and> length x < 2 ^ 32 - 1)
     \<and> (\<exists>es. plain es = map S_body (pieces body)
       \<and> parse (concat (map bytes_of (request_headers r)) @ w) = Some ([S_begin, S_url (rq_selector r)] @
           header_events (request_fields r) @ S_headers_complete HTTP_PUT # es @ [S_complete])))"

section \<open>What the server makes of it\<close>

text \<open>The attributes it has gathered after the headers of a request.\<close>

fun server_attrs :: "'d mill_lib \<Rightarrow> (string \<Rightarrow> rawx_value) \<Rightarrow> (string \<times> string) list \<Rightarrow> (string, string) omap \<Rightarrow> (string, string) omap" where
  "server_attrs ml lexer [] xs = xs"
| "server_attrs ml lexer ((k, v) # kvs) xs = server_attrs ml lexer kvs
     (if ml_lex ml k = Custom \<and> RawxHeader_Matched (lexer k) then om_put (RawxHeader_StorageName (lexer k)) v xs else xs)"

lemma om_inv_server_attrs: "om_inv xs \<Longrightarrow> om_inv (server_attrs ml lexer kvs xs)"
  by (induction ml lexer kvs xs rule: server_attrs.induct) (simp_all add: om_inv_put)

lemma rawx_headers:
  assumes "in_headers e b" and "SoftError_Ok e"
  shows "\<exists>f. sevents ml (rawx_blob_handler parse_url lexer batch attempts) (header_events kvs) b =
    Some (0, b\<lparr>bc_field := f, bc_handler := (bc_handler b)\<lparr>rh_xattrs := server_attrs ml lexer kvs (rh_xattrs (bc_handler b))\<rparr>\<rparr>)"
  using assms(1)
proof (induction kvs arbitrary: b)
  case Nil
  then show ?case by (intro exI [of _ "bc_field b"]) simp
next
  case (Cons kv kvs)
  obtain k v where kv: "kv = (k, v)" by fastforce
  let ?h = "(bc_handler b)\<lparr>rh_xattrs := server_attrs ml lexer [(k, v)] (rh_xattrs (bc_handler b))\<rparr>"
  let ?b = "b\<lparr>bc_field := [], bc_handler := ?h\<rparr>"
  have "on_header_value_COMMON ml (rawx_blob_handler parse_url lexer batch attempts) v (b\<lparr>bc_field := k\<rparr>) = Some (0, ?b)"
    using Cons.prems assms(2) by (simp add: on_header_value_COMMON_def in_headers_def header_Matched_def header_IsCustom_def
        rawx_blob_handler_def RawxHandler_SetHeader_def Let_def)
  with Cons.prems assms(2) have "sevents ml (rawx_blob_handler parse_url lexer batch attempts) (header_events (kv # kvs)) b =
      sevents ml (rawx_blob_handler parse_url lexer batch attempts) (header_events kvs) ?b"
    by (simp add: kv in_headers_def start_settings_def on_header_field_COMMON_def)
  moreover have "in_headers e ?b" using Cons.prems by (simp add: in_headers_def)
  from Cons.IH [OF this] obtain f where "sevents ml (rawx_blob_handler parse_url lexer batch attempts) (header_events kvs) ?b =
      Some (0, ?b\<lparr>bc_field := f, bc_handler := (bc_handler ?b)\<lparr>rh_xattrs := server_attrs ml lexer kvs (rh_xattrs (bc_handler ?b))\<rparr>\<rparr>)"
    by blast
  ultimately show ?case by (intro exI [of _ f]) (simp add: kv)
qed

text \<open>The handler after the line of a request does not depend on the attributes it had.\<close>

lemma SetUrl_xattrs:
  assumes "RawxHandler_SetUrl parse_url u h = Some (e, h1)"
  shows "RawxHandler_SetUrl parse_url u (h\<lparr>rh_xattrs := xs\<rparr>) = Some (e, h1\<lparr>rh_xattrs := xs\<rparr>)"
  using assms by (auto simp: RawxHandler_SetUrl_def split: bind_splits sum.splits option.splits)

lemma request_line_same:
  assumes "bh_SetUrl bh u (bc_handler b) = Some (e, h)" and "SoftError_Ok e"
  shows "\<exists>b'. sevents ml bh [S_begin, S_url u] b = Some (0, b') \<and> in_headers e b' \<and> bc_handler b' = h \<and> bc_conn b' = bc_conn b
    \<and> bc_version b' = bc_version b \<and> bc_reply_headers b' = bc_reply_headers b \<and> bc_bytes_in b' = bc_bytes_in b \<and> bc_md5 b' = bc_md5 b"
  using assms by (simp add: request_defs in_headers_def)

text \<open>A PUT with headers, from its first callback to its last.\<close>

lemma rawx_request_put:
  assumes h: "h = bc_handler b" "w = rh_world h" "srv = rawx_blob_handler parse_url lexer batch attempts"
    and path: "url_path parse_url u h p" and inv: "om_inv (rh_xattrs h)" and room: "room w p" and quiet: "quiet_wr (w_wr w)"
    and bufs: "\<forall>x \<in> set bufs. x \<noteq> [] \<and> length x < 2 ^ 32 - 1" and es: "plain es = map S_body bufs"
    and payload: "payload = c_str (ml_render ml (upload_toks (bc_bytes_in b + int (length (concat bufs)))
      (Checksum_Final (ml_md5 ml) (fold (Checksum_Update (ml_md5 ml)) bufs (bc_md5 b)))))" "payload \<noteq> []"
    and created: "created = reply_text (bc_version b) (bc_reply_headers b) 201 ''OK'' payload" "length created \<le> k"
    and ample: "ample k (Suc (Suc m)) (bc_conn b)"
  shows "\<exists>b1 i.
    sevents ml srv ([S_begin, S_url u] @ header_events kvs @ S_headers_complete HTTP_PUT # es @ [S_complete]) b = Some (0, b1)
    \<and> wire (bc_conn b1) = wire (bc_conn b) @ bytes_of created
    \<and> files (rh_world (bc_handler b1)) = (files w)(p \<mapsto> concat bufs)
    \<and> w_names (rh_world (bc_handler b1)) p = Some (Ino i)
    \<and> (\<forall>a. w_attr (rh_world (bc_handler b1)) i (''user.grid.'' @ a) =
        map_option bytes_of (map_of (server_attrs ml lexer kvs (rh_xattrs h)) a))"
proof -
  define xs where "xs = server_attrs ml lexer kvs (rh_xattrs h)"
  define h' where "h' = h\<lparr>rh_xattrs := xs\<rparr>"
  have h': "url_path parse_url u h' p" "om_inv (rh_xattrs h')" "w = rh_world h'" "rh_xattrs h' = xs"
    using path om_inv_server_attrs [OF inv] h(2) by (simp_all add: url_path_def h'_def xs_def)
  obtain h1 g h2 h3 h4 where
    p: "bh_SetUrl srv u h' = Some (SoftError 200 200 ''OK'', h1)" "bh_GetUpload srv h1 = Some g"
      "bh_up_Prepare srv g = Some (status_of OK, h2)" "writes srv bufs h2 = Some h3"
    and c: "bh_up_Commit srv h3 = Some (status_ok, h4)" "files (rh_world h4) = (files w)(p \<mapsto> concat bufs)"
      "w_names (rh_world h4) p = Some (Ino (w_next w))"
      "\<forall>a. w_attr (rh_world h4) (w_next w) (''user.grid.'' @ a) = map_option bytes_of (map_of xs a)"
    by (rule rawx_put_ok [OF h'(1,2) room h'(3) quiet h(3) refl, of bufs, unfolded h'(4)])
  from rawx_url [OF path] obtain f where f: "RawxHandler_SetUrl parse_url u h = Some (SoftError 200 200 ''OK'', h\<lparr>rh_filename := f\<rparr>)" .
  with SetUrl_xattrs [OF f, of xs] p(1) have h1: "h1 = h\<lparr>rh_filename := f, rh_xattrs := xs\<rparr>" by (simp add: h(3) h'_def)
  have "bh_SetUrl srv u (bc_handler b) = Some (SoftError 200 200 ''OK'', h\<lparr>rh_filename := f\<rparr>)" using f h by simp
  from request_line_same [OF this SoftError_Ok_200, of ml] obtain b0 where
    b0: "sevents ml srv [S_begin, S_url u] b = Some (0, b0)" "in_headers (SoftError 200 200 ''OK'') b0"
      "bc_handler b0 = h\<lparr>rh_filename := f\<rparr>" "bc_conn b0 = bc_conn b" "bc_version b0 = bc_version b"
      "bc_reply_headers b0 = bc_reply_headers b" "bc_bytes_in b0 = bc_bytes_in b" "bc_md5 b0 = bc_md5 b" by blast
  from rawx_headers [OF b0(2) SoftError_Ok_200, of ml parse_url lexer batch attempts kvs, folded h(3)] obtain x where
    hd: "sevents ml srv (header_events kvs) b0 =
      Some (0, b0\<lparr>bc_field := x, bc_handler := (bc_handler b0)\<lparr>rh_xattrs := server_attrs ml lexer kvs (rh_xattrs (bc_handler b0))\<rparr>\<rparr>)"
    by blast
  define b1 where "b1 = b0\<lparr>bc_field := x, bc_handler := h1\<rparr>"
  have b1: "sevents ml srv (header_events kvs) b0 = Some (0, b1)"
    using hd b0(3) h1 by (simp add: b1_def xs_def)
  have c1: "in_headers (SoftError 200 200 ''OK'') b1" "bc_handler b1 = h1" "bc_conn b1 = bc_conn b" "bc_version b1 = bc_version b"
    "bc_reply_headers b1 = bc_reply_headers b" "bc_bytes_in b1 = bc_bytes_in b" "bc_md5 b1 = bc_md5 b"
    using b0 by (simp_all add: b1_def in_headers_def)
  have ok: "Ok (status_of OK)" "Ok status_ok" by simp_all
  have get: "bh_GetUpload srv (bc_handler b1) = Some g" using p(2) c1(2) by simp
  have pay: "payload = c_str (ml_render ml (upload_toks (bc_bytes_in b1 + int (length (concat bufs)))
      (Checksum_Final (ml_md5 ml) (fold (Checksum_Update (ml_md5 ml)) bufs (bc_md5 b1)))))"
    "created = reply_text (bc_version b1) (bc_reply_headers b1) 201 ''OK'' payload" "ample k (Suc (Suc m)) (bc_conn b1)"
    using payload(1) created(1) ample c1 by simp_all
  from put_after_headers [OF c1(1) SoftError_Ok_200 get p(3) ok(1) p(4) bufs c(1) ok(2) refl refl pay(1) payload(2) pay(2,3) created(2)]
  obtain b2 where
    b2: "sevents ml srv (S_headers_complete HTTP_PUT # map S_body bufs @ [S_complete]) b1 = Some (0, b2)" "bc_handler b2 = h4"
      "wire (bc_conn b2) = wire (bc_conn b) @ bytes_of created" unfolding c1(3) by blast
  have "plain (S_headers_complete HTTP_PUT # es @ [S_complete]) = S_headers_complete HTTP_PUT # map S_body bufs @ [S_complete]"
    using es by (simp add: plain_def)
  with b2(1) sevents_plain [of ml srv "S_headers_complete HTTP_PUT # es @ [S_complete]"]
  have "sevents ml srv (S_headers_complete HTTP_PUT # es @ [S_complete]) b1 = Some (0, b2)" by (metis (no_types))
  with sevents_append [OF b1] sevents_append [OF b0(1)]
  have "sevents ml srv ([S_begin, S_url u] @ header_events kvs @ S_headers_complete HTTP_PUT # es @ [S_complete]) b = Some (0, b2)" by metis
  with b2(2,3) c(2-4) show ?thesis unfolding xs_def by (intro exI [of _ b2] exI [of _ "w_next w"]) simp
qed

section \<open>A parser\<close>

text \<open>A parser of the text of one request, that announces the body byte by byte: it has the behaviour above.\<close>

definition one_request_parser :: "request \<Rightarrow> bytes \<Rightarrow> sevent list option" where
  "one_request_parser r t =
     (let hd = concat (map bytes_of (request_headers r)) in
      if take (length hd) t = hd then
        (case dechunk (Suc (length t)) (drop (length hd) t) of
           Some (body, []) \<Rightarrow> Some ([S_begin, S_url (rq_selector r)] @ header_events (request_fields r) @
             S_headers_complete HTTP_PUT # (map (\<lambda>x. S_body [x]) body) @ [S_complete])
         | _ \<Rightarrow> None)
      else None)"

lemma chunk_size_shorter: "chunk_size bs = Some (n, t) \<Longrightarrow> length t < length bs"
proof -
  assume "chunk_size bs = Some (n, t)"
  then have "t = drop 2 (dropWhile (\<lambda>b. b \<noteq> 13) bs)" "take 2 (dropWhile (\<lambda>b. b \<noteq> 13) bs) = [13, 10]"
    by (auto simp: chunk_size_def Let_def split: prod.splits if_splits)
  moreover have "length (dropWhile (\<lambda>b. b \<noteq> 13) bs) \<le> length bs" by (rule length_dropWhile_le)
  ultimately show ?thesis by (cases "dropWhile (\<lambda>b. b \<noteq> 13) bs") auto
qed

lemma dechunk_fuel: "dechunk n bs = Some r \<Longrightarrow> length bs < m \<Longrightarrow> dechunk m bs = Some r"
proof (induction n arbitrary: m bs r)
  case (Suc n)
  then obtain m' where m: "m = Suc m'" by (cases m) auto
  from Suc.prems(1) obtain k t where k: "chunk_size bs = Some (k, t)" by (auto split: bind_splits)
  with chunk_size_shorter [OF k] Suc.prems m have "length (drop (k + 2) t) < m'" by simp
  with Suc.IH [of "drop (k + 2) t" _ m'] Suc.prems(1) k show ?case unfolding m
    by (auto split: bind_splits if_splits)
qed simp

lemma one_request_parser_announces: "announces (one_request_parser r) (map (\<lambda>x. [x])) r"
proof -
  have "\<exists>es. plain es = map S_body (map (\<lambda>x. [x]) body) \<and>
      one_request_parser r (concat (map bytes_of (request_headers r)) @ w) = Some ([S_begin, S_url (rq_selector r)] @
        header_events (request_fields r) @ S_headers_complete HTTP_PUT # es @ [S_complete])"
    if "dechunk n w = Some (body, [])" for n w body
    using dechunk_fuel [OF that, of "Suc (length (concat (map bytes_of (request_headers r)) @ w))"]
    by (intro exI [of _ "map (\<lambda>x. S_body [x]) body"]) (simp add: one_request_parser_def plain_def filter_map comp_def del: dechunk.simps)
  moreover have "concat (map (\<lambda>x. [x]) body) = body" for body :: bytes by (induction body) simp_all
  ultimately show ?thesis unfolding announces_def by auto
qed

section \<open>An upload\<close>

definition demo_builder :: http_builder where
  "demo_builder = \<lparr>hb_name = ''/a'', hb_host = ''h'', hb_fields = [(''id'', ''D'')], hb_trailers = []\<rparr>"

definition demo_upload_conn :: conn where
  "demo_upload_conn = open_conn [0, 0] [Rd_data 2] (replicate 3 (Wr_n 1000))"

lemma demo_put_request_length: "length (concat (map bytes_of (request_headers (put_request proxy_parser demo_builder)))) \<le> 1000"
  by (simp add: put_request_def RawxUpload_Build_def HttpUpload_Build_def demo_builder_def request_headers_def request_line_def
      Request_Field_def Request_Selector_def Request_Method_def Request_ContentLength_def Request_def field_line_def crlf_def bytes_of_def)

lemma demo_sds_put: "\<exists>c'. sds_put proxy_parser demo_builder [1, 2] demo_upload_conn = Some c'"
proof -
  have "hb_trailers demo_builder = []" "length (concat (chunk_iov [1, 2])) \<le> 1000"
    by (simp_all add: demo_builder_def chunk_iov_def) code_simp
  then show ?thesis
    using sds_put_returns [of demo_builder 1000 "[1, 2]" demo_upload_conn] demo_put_request_length
    by (simp add: demo_upload_conn_def)
qed

section \<open>The property\<close>

text \<open>C2. A chunk that the upload of sds.cpp has put is stored by the rawx server: with any parser that announces the
  target, the fields and the decoded body of what was sent, and no failing system call, the events that come out of the bytes
  of the client make the server create the file of the chunk with exactly the bytes given to the client, however
  they were cut in pieces, put the attributes that the header fields of the request name on it, and answer 201.\<close>

theorem sds_put_stored:
  assumes client: "sds_put hp cb buf c = Some c'" "hb_trailers cb = []" "r = put_request hp cb"
    and sent: "ample q 3 c" "5 \<le> q" "length (concat (map bytes_of (request_headers r))) \<le> q" "length (concat (chunk_iov buf)) \<le> q"
    and parser: "announces parse pieces r"
    and h: "h = bc_handler b" "w = rh_world h" "srv = rawx_blob_handler parse_url lexer batch attempts"
    and path: "url_path parse_url (hb_name cb) h p" and inv: "om_inv (rh_xattrs h)" and room: "room w p" and quiet: "quiet_wr (w_wr w)"
    and payload: "payload = c_str (ml_render ml (upload_toks (bc_bytes_in b + int (length buf))
      (Checksum_Final (ml_md5 ml) (fold (Checksum_Update (ml_md5 ml)) (pieces buf) (bc_md5 b)))))" "payload \<noteq> []"
    and created: "created = reply_text (bc_version b) (bc_reply_headers b) 201 ''OK'' payload" "length created \<le> k"
    and ample: "ample k 2 (bc_conn b)"
  shows "\<exists>es b1 i. parse (drop (length (wire c)) (wire c')) = Some es \<and> sevents ml srv es b = Some (0, b1)
    \<and> wire (bc_conn b1) = wire (bc_conn b) @ bytes_of created
    \<and> files (rh_world (bc_handler b1)) = (files w)(p \<mapsto> buf)
    \<and> w_names (rh_world (bc_handler b1)) p = Some (Ino i)
    \<and> (\<forall>a. w_attr (rh_world (bc_handler b1)) i (''user.grid.'' @ a) =
        map_option bytes_of (map_of (server_attrs ml lexer (request_fields r) (rh_xattrs h)) a))"
proof -
  from sds_put_wire [OF client(1,2) sent(1,2)] client(3) sent(3,4)
  have t: "drop (length (wire c)) (wire c') = concat (map bytes_of (request_headers r)) @ put_body buf" by simp
  from parser dechunk_put_body [of buf] have "concat (pieces buf) = buf \<and> (\<forall>x \<in> set (pieces buf). x \<noteq> [] \<and> length x < 2 ^ 32 - 1)
     \<and> (\<exists>es. plain es = map S_body (pieces buf)
       \<and> parse (concat (map bytes_of (request_headers r)) @ put_body buf) = Some ([S_begin, S_url (rq_selector r)] @
           header_events (request_fields r) @ S_headers_complete HTTP_PUT # es @ [S_complete]))"
    unfolding announces_def by blast
  then obtain es where p: "concat (pieces buf) = buf" "\<forall>x \<in> set (pieces buf). x \<noteq> [] \<and> length x < 2 ^ 32 - 1"
    "plain es = map S_body (pieces buf)" "parse (drop (length (wire c)) (wire c')) = Some ([S_begin, S_url (rq_selector r)] @
       header_events (request_fields r) @ S_headers_complete HTTP_PUT # es @ [S_complete])" unfolding t by blast
  have sel: "rq_selector r = hb_name cb" using put_request_simps(2) [OF client(2)] client(3) by simp
  have am: "ample k (Suc (Suc 0)) (bc_conn b)" using ample by (simp add: numeral_2_eq_2)
  from rawx_request_put [OF h path inv room quiet p(2,3), unfolded p(1), OF payload created am, of "request_fields r"] p(4)
  show ?thesis unfolding sel by blast
qed

definition demo_lexer :: "string \<Rightarrow> rawx_value" where
  "demo_lexer k = (if k = ''id'' then RH_ChunkId else RH_Unexpected)"

theorem sds_put_stored_witness:
  "\<exists>c' es b1 i. sds_put proxy_parser demo_builder [1, 2] demo_upload_conn = Some c'
    \<and> one_request_parser (put_request proxy_parser demo_builder) (wire c') = Some es
    \<and> sevents demo_mill (rawx_blob_handler path_url demo_lexer 2 5) es (demo_conn demo_rawx) = Some (0, b1)
    \<and> files (rh_world (bc_handler b1)) ''/a'' = Some [1, 2] \<and> w_names (rh_world (bc_handler b1)) ''/a'' = Some (Ino i)
    \<and> w_attr (rh_world (bc_handler b1)) i ''user.grid.chunk.id'' = Some (bytes_of ''D'')"
proof -
  let ?r = "put_request proxy_parser demo_builder" and ?created = "reply_text (0, 0) [] 201 ''OK'' ''x''"
  obtain c' where c': "sds_put proxy_parser demo_builder [1, 2] demo_upload_conn = Some c'" using demo_sds_put by blast
  have cb: "hb_trailers demo_builder = []" "hb_name demo_builder = ''/a''" by (simp_all add: demo_builder_def)
  have c: "ample 1000 3 demo_upload_conn" "wire demo_upload_conn = []"
    by (simp_all add: demo_upload_conn_def open_conn_def ample_def wire_def)
  have ck: "length (concat (chunk_iov [1, 2])) \<le> 1000" by (simp add: chunk_iov_def) code_simp
  have path: "url_path path_url (hb_name demo_builder) demo_rawx ''/a''" "om_inv (rh_xattrs demo_rawx)" using cb(2) by simp_all
  have cr: "''x'' = c_str (ml_render demo_mill ts)" for ts by (simp add: demo_mill_def c_str_def)
  have len: "length ?created \<le> 1000" by code_simp
  have am: "ample 1000 2 (bc_conn (demo_conn demo_rawx))" by (rule ample_mono [of 1000 9]) simp_all
  have b: "demo_rawx = bc_handler (demo_conn demo_rawx)" "empty_world = rh_world demo_rawx"
    "?created = reply_text (bc_version (demo_conn demo_rawx)) (bc_reply_headers (demo_conn demo_rawx)) 201 ''OK'' ''x''" by simp_all
  have five: "5 \<le> (1000 :: nat)" "''x'' \<noteq> []" by simp_all
  have room: "room empty_world ''/a''" "quiet_wr (w_wr empty_world)" by simp_all
  obtain es b1 i where
    1: "one_request_parser ?r (wire c') = Some es"
      "sevents demo_mill (rawx_blob_handler path_url demo_lexer 2 5) es (demo_conn demo_rawx) = Some (0, b1)"
      "files (rh_world (bc_handler b1)) = (files empty_world)(''/a'' \<mapsto> [1, 2])" "w_names (rh_world (bc_handler b1)) ''/a'' = Some (Ino i)"
      "\<forall>a. w_attr (rh_world (bc_handler b1)) i (''user.grid.'' @ a) =
        map_option bytes_of (map_of (server_attrs demo_mill demo_lexer (request_fields ?r) (rh_xattrs demo_rawx)) a)"
    using sds_put_stored [OF c' cb(1) refl c(1) five(1) demo_put_request_length ck one_request_parser_announces b(1,2)
        refl [of "rawx_blob_handler path_url demo_lexer 2 5"] path room cr five(2) b(3) len am]
    unfolding c(2) cb(2) list.size(3) drop_0 by blast
  have "rq_fields ?r = [(''Host'', ''h''), (''id'', ''D'')]"
    by (simp add: put_request_def RawxUpload_Build_def HttpUpload_Build_def demo_builder_def
      Request_Field_def Request_Selector_def Request_Method_def Request_ContentLength_def Request_def)
  then have "map_of (server_attrs demo_mill demo_lexer (request_fields ?r) (rh_xattrs demo_rawx)) ''chunk.id'' = Some ''D''"
    by (simp add: request_fields_def demo_lexer_def demo_mill_def RawxHeader_Matched_def)
  with 1(5) have "w_attr (rh_world (bc_handler b1)) i (''user.grid.'' @ ''chunk.id'') = Some (bytes_of ''D'')" by simp
  with c' 1(1-4) show ?thesis by auto
qed

end
