(* ===== verification/Ec_Proxy.thy ===== *)
theory Ec_Proxy
  imports Request_Url Handler_Contract Ec_Blob
begin

text \<open>
  The erasure coding proxy (\<open>src/bin/ec-proxy.cpp\<close>, \<open>ec-proxy-headers.h\<close>): the handler that passes the
  blobs of the requests to the router of \<open>src/src/oio/blob/router\<close>, whose builders are here too.  The numbers
  liberasurecode gives to its methods, and the function ragel makes for \<open>EcHeader::Parse\<close>, are
  parameters.  \<open>None\<close> is an exception, a null pointer dereferenced or a variable read before it has a value.
\<close>

section \<open>The builders of the router\<close>

record router_builder =
  tb_xattrs :: "(string, string) omap"
  tb_ec_param :: ec_command
  tb_rawx_param :: rawx_command
  tb_type :: "encoding_type option"

definition EcCommand :: ec_command where
  "EcCommand = \<lparr>ec_range = \<lparr>rg_start = 0, rg_size = 0\<rparr>, ec_targets = [], ec_req_id = [], ec_kVal = 0, ec_mVal = 0,
     ec_nbChunks = 0, ec_encodingMethod = 0, ec_chunkSize = 0\<rparr>"

text \<open>The type has no value before a parameter is set.\<close>

definition router_builder :: router_builder where
  "router_builder = \<lparr>tb_xattrs = [], tb_ec_param = EcCommand, tb_rawx_param = RawxCommand, tb_type = None\<rparr>"

definition builder_set_ec_param :: "ec_command \<Rightarrow> router_builder \<Rightarrow> router_builder" where
  "builder_set_ec_param pm b = b\<lparr>tb_ec_param := pm, tb_type := Some Enc_ec\<rparr>"

definition builder_set_rawx_param :: "rawx_command \<Rightarrow> router_builder \<Rightarrow> router_builder" where
  "builder_set_rawx_param pm b = b\<lparr>tb_rawx_param := pm, tb_type := Some Enc_rawx\<rparr>"

definition builder_SetXattr :: "string \<Rightarrow> string \<Rightarrow> router_builder \<Rightarrow> router_builder" where
  "builder_SetXattr k v b = b\<lparr>tb_xattrs := om_put k v (tb_xattrs b)\<rparr>"

text \<open>The objects before their parameter is set, which gives the block size and the type their values.\<close>

definition RouterUpload :: router_upload where
  "RouterUpload = \<lparr>tu_buffer = [], tu_xattrs = [], tu_ec_param = EcCommand, tu_rawx_param = RawxCommand,
     tu_chunkSize = 0, tu_type = Enc_ec\<rparr>"

definition RouterDownload :: router_download where
  "RouterDownload = \<lparr>td_buffer = [], td_xattr = [], td_ec_param = EcCommand, td_rawx_param = RawxCommand,
     td_type = Enc_ec, td_done = False\<rparr>"

definition RouterDownload_SetXattr :: "string \<Rightarrow> string \<Rightarrow> router_download \<Rightarrow> router_download" where
  "RouterDownload_SetXattr k v d = d\<lparr>td_xattr := om_put k v (td_xattr d)\<rparr>"

definition RouterUpload_Build :: "router_builder \<Rightarrow> router_upload option" where
  "RouterUpload_Build b = map_option (\<lambda>t. fold (\<lambda>(k, v). RouterUpload_SetXattr k v) (tb_xattrs b)
     (case t of Enc_ec \<Rightarrow> RouterUpload_set_ec_param (tb_ec_param b) RouterUpload
      | Enc_rawx \<Rightarrow> RouterUpload_set_rawx_param (tb_rawx_param b) RouterUpload)) (tb_type b)"

definition RouterDownload_Build :: "router_builder \<Rightarrow> router_download option" where
  "RouterDownload_Build b = map_option (\<lambda>t. fold (\<lambda>(k, v). RouterDownload_SetXattr k v) (tb_xattrs b)
     (case t of Enc_ec \<Rightarrow> RouterDownload_set_ec_param (tb_ec_param b) RouterDownload
      | Enc_rawx \<Rightarrow> RouterDownload_set_rawx_param (tb_rawx_param b) RouterDownload)) (tb_type b)"

section \<open>Headers\<close>

datatype ec_value = EH_Unexpected | EH_ReqId | EH_ContainerId | EH_ContentPath | EH_ContentVersion | EH_ContentId
  | EH_StoragePolicy | EH_ChunkMethod | EH_MineType | EH_ChunkDest | EH_Chunks | EH_ChunkPos | EH_ChunkSize | EH_Range
  | EH_Host | EH_TransferEncoding

definition EcHeader_Matched :: "ec_value \<Rightarrow> bool" where
  "EcHeader_Matched v = (v \<noteq> EH_Unexpected)"

fun EcHeader_Name :: "ec_value \<Rightarrow> string" where
  "EcHeader_Name EH_Unexpected = ''Unexpected''"
| "EcHeader_Name EH_ReqId = ''ReqId''"
| "EcHeader_Name EH_ContainerId = ''ContainerId''"
| "EcHeader_Name EH_ContentPath = ''ContentPath''"
| "EcHeader_Name EH_ContentVersion = ''ContentVersion''"
| "EcHeader_Name EH_ContentId = ''ContentId''"
| "EcHeader_Name EH_StoragePolicy = ''StoragePolicy''"
| "EcHeader_Name EH_ChunkMethod = ''ChunkMethod''"
| "EcHeader_Name EH_MineType = ''MineType''"
| "EcHeader_Name EH_ChunkDest = ''ChunkDest''"
| "EcHeader_Name EH_Chunks = ''Chunks''"
| "EcHeader_Name EH_ChunkPos = ''ChunkPos''"
| "EcHeader_Name EH_ChunkSize = ''ChunkSize''"
| "EcHeader_Name EH_Range = ''Range''"
| "EcHeader_Name EH_Host = ''Host''"
| "EcHeader_Name EH_TransferEncoding = ''TransferEncoding''"

definition OIO_HEADER_EC_PREFIX :: string where
  "OIO_HEADER_EC_PREFIX = ''X-oio-chunk-meta-''"

definition transform_nondigit_to_space :: "string \<Rightarrow> string" where
  "transform_nondigit_to_space = map (\<lambda>c. if is_digit 10 c then c else CHR '' '')"

text \<open>
  \<open>stream >> i\<close> for an \<open>int\<close> without a value, on digits and blanks: none is read at the end of the text, and
  a number that is too large gives the largest and ends the stream.
\<close>

definition read_number :: "string \<Rightarrow> (int \<times> string) option" where
  "read_number s = (case scan_int s of None \<Rightarrow> None
   | Some (i, r) \<Rightarrow> if i < 2 ^ 31 then Some (i, r) else Some (2 ^ 31 - 1, []))"

definition read_numbers :: "string \<Rightarrow> (int \<times> int) option" where
  "read_numbers v = do {
     (a, r) \<leftarrow> read_number (transform_nondigit_to_space v);
     (b, _) \<leftarrow> read_number r;
     Some (a, b)
   }"

text \<open>The methods, in the order of the map; the first whose name is in the text.\<close>

definition TheEncodingMethods :: "string list" where
  "TheEncodingMethods = [''flat_xor_hd'', ''isa_l_rs_vand'', ''jerasure_rs_cauchy'', ''jerasure_rs_vand'',
     ''liberasurecode_rs_vand'', ''shss'']"

definition find_method :: "string \<Rightarrow> string option" where
  "find_method v = List.find (\<lambda>m. find_str m v \<noteq> None) TheEncodingMethods"

text \<open>The name of an attribute: the prefix goes only where it is written as in the source.\<close>

definition ec_attribute :: "string \<Rightarrow> string" where
  "ec_attribute k = (if find_str OIO_HEADER_EC_PREFIX k = Some 0 then drop (length OIO_HEADER_EC_PREFIX) k else k)"

section \<open>The handler\<close>

record router_handler =
  eh_xattrs :: "(string, string) omap"
  eh_ec_param :: ec_command
  eh_rawx_param :: rawx_command
  eh_upload :: "router_upload option"
  eh_download :: "router_download option"
  eh_sockets :: sock_map

definition RouterHandler :: "sock_map \<Rightarrow> router_handler" where
  "RouterHandler m = \<lparr>eh_xattrs = [], eh_ec_param = EcCommand_Clear EcCommand, eh_rawx_param = RawxCommand_Clear RawxCommand,
     eh_upload = None, eh_download = None, eh_sockets = m\<rparr>"

text \<open>
  The name in the URL is assigned to the copy that \<open>ChunkId()\<close> returns: nothing is left of it, and any URL
  will do.
\<close>

definition RouterHandler_SetUrl :: "(string \<Rightarrow> http_url option) \<Rightarrow> string \<Rightarrow> router_handler \<Rightarrow>
    (soft_error \<times> router_handler) option" where
  "RouterHandler_SetUrl parse_url u h = do {
     _ \<leftarrow> (case parse_url u of
            None \<Rightarrow> Some []
          | Some url \<Rightarrow> if http_url_has url UF_PATH then http_url_field url UF_PATH u else Some []);
     Some (SoftError 200 200 ''OK'', h)
   }"

definition set_chunk_dest :: "string \<Rightarrow> string \<Rightarrow> router_handler \<Rightarrow> router_handler option" where
  "set_chunk_dest k v h = do {
     (n, _) \<leftarrow> read_number (transform_nondigit_to_space k);
     url \<leftarrow> RawxUrl_Parse v RawxUrl;
     let to = rawx_url.extend url (rawx_url_set.fields n);
     let h1 = (if n = 0 then h\<lparr>eh_rawx_param := SetUrl url (eh_rawx_param h)\<rparr> else h);
     Some (h1\<lparr>eh_ec_param := AddTarget to (eh_ec_param h1)\<rparr>)
   }"

definition set_chunk_method :: "(string option \<Rightarrow> nat) \<Rightarrow> string \<Rightarrow> router_handler \<Rightarrow> router_handler option" where
  "set_chunk_method backend v h = do {
     (k, m) \<leftarrow> read_numbers v;
     Some (h\<lparr>eh_ec_param := (eh_ec_param h)\<lparr>ec_encodingMethod := backend (find_method v), ec_kVal := nat k, ec_mVal := nat m\<rparr>\<rparr>)
   }"

text \<open>\<open>size + 1\<close> overflows at the largest \<open>int\<close>; the difference becomes a number of 64 bits.\<close>

definition set_range :: "string \<Rightarrow> router_handler \<Rightarrow> router_handler option" where
  "set_range v h = do {
     (start, sz) \<leftarrow> read_numbers v;
     if sz = 2 ^ 31 - 1 then None
     else let r = \<lparr>rg_start = nat start, rg_size = unat (word_of_int (sz + 1 - start) :: 64 word)\<rparr>;
              pm = (eh_ec_param h)\<lparr>ec_range := Range_Set r (ec_range (eh_ec_param h))\<rparr>
          in Some (h\<lparr>eh_ec_param := pm, eh_rawx_param := SetRange (ec_range pm) (eh_rawx_param h)\<rparr>)
   }"

definition RouterHandler_SetHeader :: "(string \<Rightarrow> ec_value) \<Rightarrow> (string option \<Rightarrow> nat) \<Rightarrow> string \<Rightarrow> string \<Rightarrow>
    router_handler \<Rightarrow> (soft_error \<times> router_handler) option" where
  "RouterHandler_SetHeader lexer backend k v h =
     (let header = lexer k in
      map_option (Pair (SoftError 200 200 ''OK''))
        (if \<not> EcHeader_Matched header then Some h
         else case header of
           EH_Host \<Rightarrow> do { url \<leftarrow> RawxUrl_Parse v RawxUrl; Some (h\<lparr>eh_rawx_param := SetUrl url (eh_rawx_param h)\<rparr>) }
         | EH_ChunkDest \<Rightarrow> set_chunk_dest k v h
         | EH_ChunkMethod \<Rightarrow> set_chunk_method backend v h
         | EH_Chunks \<Rightarrow> do { n \<leftarrow> atoi (c_str v); Some (h\<lparr>eh_ec_param := (eh_ec_param h)\<lparr>ec_nbChunks := n\<rparr>\<rparr>) }
         | EH_ChunkPos \<Rightarrow> Some h
         | EH_ChunkSize \<Rightarrow> do {
             n \<leftarrow> atoi (c_str v);
             Some (h\<lparr>eh_ec_param := (eh_ec_param h)\<lparr>ec_chunkSize := word_of_int n\<rparr>,
               eh_rawx_param := SetChunkSize (word_of_int n) (eh_rawx_param h)\<rparr>)
           }
         | EH_ReqId \<Rightarrow> Some (h\<lparr>eh_ec_param := (eh_ec_param h)\<lparr>ec_req_id := v\<rparr>\<rparr>)
         | EH_Range \<Rightarrow> set_range v h
         | _ \<Rightarrow> Some (h\<lparr>eh_xattrs := om_put (ec_attribute k) v (eh_xattrs h)\<rparr>)))"

text \<open>A rawx when a chunk of it is known, else the erasure coding.\<close>

definition router_param :: "router_handler \<Rightarrow> router_builder" where
  "router_param h =
     (if length (ru_chunk_id (rc_url (eh_rawx_param h))) > 1 then builder_set_rawx_param (eh_rawx_param h) router_builder
      else builder_set_ec_param (eh_ec_param h) router_builder)"

definition RouterHandler_GetUpload :: "router_handler \<Rightarrow> router_handler option" where
  "RouterHandler_GetUpload h0 = do {
     let h = h0\<lparr>eh_ec_param := (eh_ec_param h0)\<lparr>ec_chunkSize := 1024 * 1024\<rparr>,
       eh_rawx_param := SetChunkSize (1024 * 1024) (eh_rawx_param h0)\<rparr>;
     ul \<leftarrow> RouterUpload_Build (router_param h);
     Some (h\<lparr>eh_upload := Some (fold (\<lambda>(k, v). RouterUpload_SetXattr k v) (eh_xattrs h) ul)\<rparr>)
   }"

definition RouterHandler_GetDownload :: "router_handler \<Rightarrow> router_handler option" where
  "RouterHandler_GetDownload h = do {
     dl \<leftarrow> RouterDownload_Build (router_param h);
     Some (h\<lparr>eh_download := Some dl\<rparr>)
   }"

text \<open>It returns a null pointer, through which \<open>Prepare\<close> is called.\<close>

definition RouterHandler_GetRemoval :: "router_handler \<Rightarrow> router_handler option" where
  "RouterHandler_GetRemoval h = None"

definition router_upload_op :: "(router_upload \<times> sock_map) tx_op \<Rightarrow> router_handler tx_op" where
  "router_upload_op f h = do {
     u \<leftarrow> eh_upload h;
     (rc, u', m) \<leftarrow> f (u, eh_sockets h);
     Some (rc, h\<lparr>eh_upload := Some u', eh_sockets := m\<rparr>)
   }"

definition router_write :: "bytes \<Rightarrow> router_handler \<Rightarrow> router_handler option" where
  "router_write buf h = do {
     u \<leftarrow> eh_upload h;
     (u', m) \<leftarrow> RouterUpload_Write buf (u, eh_sockets h);
     Some (h\<lparr>eh_upload := Some u', eh_sockets := m\<rparr>)
   }"

definition router_prepare_download :: "'p http_parser \<Rightarrow> ec_lib \<Rightarrow> ec_heap \<Rightarrow> router_handler tx_op" where
  "router_prepare_download hp lib hv h = do {
     d \<leftarrow> eh_download h;
     (rc, d', m) \<leftarrow> RouterDownload_Prepare hp lib hv (d, eh_sockets h);
     Some (rc, h\<lparr>eh_download := Some d', eh_sockets := m\<rparr>)
   }"

definition router_eof :: "router_handler \<Rightarrow> bool" where
  "router_eof h = (case eh_download h of None \<Rightarrow> False | Some d \<Rightarrow> RouterDownload_IsEof d)"

definition router_read :: "router_handler \<Rightarrow> (bytes \<times> router_handler) option" where
  "router_read h = do {
     d \<leftarrow> eh_download h;
     let (_, buf, d') = RouterDownload_Read [] d;
     Some (buf, h\<lparr>eh_download := Some d'\<rparr>)
   }"

definition ec_blob_handler :: "(string \<Rightarrow> http_url option) \<Rightarrow> (string \<Rightarrow> ec_value) \<Rightarrow> (string option \<Rightarrow> nat) \<Rightarrow> 'p http_parser \<Rightarrow> ec_lib \<Rightarrow> ec_heap \<Rightarrow>
    router_handler blob_handler" where
  "ec_blob_handler parse_url lexer backend hp lib hv = \<lparr>bh_SetUrl = RouterHandler_SetUrl parse_url,
     bh_SetHeader = RouterHandler_SetHeader lexer backend, bh_GetUpload = RouterHandler_GetUpload,
     bh_up_Prepare = router_upload_op RouterUpload_Prepare, bh_up_Write = router_write,
     bh_up_Commit = router_upload_op (RouterUpload_Commit hp lib), bh_GetDownload = RouterHandler_GetDownload,
     bh_dl_Prepare = router_prepare_download hp lib hv, bh_dl_IsEof = router_eof, bh_dl_Read = router_read,
     bh_GetRemoval = RouterHandler_GetRemoval, bh_rm_Prepare = (\<lambda>h. None), bh_rm_Commit = (\<lambda>h. None)\<rparr>"

section \<open>Laws\<close>

lemma ec_blob_handler_simps [simp]:
  "bh_SetUrl (ec_blob_handler p l bk hp lib hv) = RouterHandler_SetUrl p"
  "bh_SetHeader (ec_blob_handler p l bk hp lib hv) = RouterHandler_SetHeader l bk"
  "bh_GetUpload (ec_blob_handler p l bk hp lib hv) = RouterHandler_GetUpload"
  "bh_up_Prepare (ec_blob_handler p l bk hp lib hv) = router_upload_op RouterUpload_Prepare"
  "bh_up_Write (ec_blob_handler p l bk hp lib hv) = router_write"
  "bh_up_Commit (ec_blob_handler p l bk hp lib hv) = router_upload_op (RouterUpload_Commit hp lib)"
  "bh_GetDownload (ec_blob_handler p l bk hp lib hv) = RouterHandler_GetDownload"
  "bh_dl_Prepare (ec_blob_handler p l bk hp lib hv) = router_prepare_download hp lib hv"
  "bh_dl_Read (ec_blob_handler p l bk hp lib hv) = router_read"
  "bh_GetRemoval (ec_blob_handler p l bk hp lib hv) = RouterHandler_GetRemoval"
  "bh_rm_Prepare (ec_blob_handler p l bk hp lib hv) = (\<lambda>h. None)"
  "bh_rm_Commit (ec_blob_handler p l bk hp lib hv) = (\<lambda>h. None)"
  by (simp_all add: ec_blob_handler_def)

text \<open>The targets have distinct numbers, and one that is there stays.\<close>

definition numbers :: "rawx_url_set list \<Rightarrow> int list" where
  "numbers ts = map ru_chunk_number ts"

lemma set_targets_insert:
  "set (targets_insert t ts) \<subseteq> insert t (set ts) \<and> set ts \<subseteq> set (targets_insert t ts)"
  by (induction ts) auto

lemma targets_insert_sorted:
  "sorted_wrt (<) (numbers ts) \<Longrightarrow> sorted_wrt (<) (numbers (targets_insert t ts))"
proof (induction ts)
  case (Cons a ts)
  then have "\<forall>x \<in> set (targets_insert t ts). ru_chunk_number a < ru_chunk_number x"
    if "ru_chunk_number a < ru_chunk_number t"
    using that set_targets_insert [of t ts] by (fastforce simp: numbers_def)
  with Cons show ?case by (fastforce simp: numbers_def)
qed (simp add: numbers_def)

lemma numbers_distinct:
  assumes "sorted_wrt (<) (numbers ts)" and "t \<in> set ts" and "t' \<in> set ts" and "ru_chunk_number t' = ru_chunk_number t"
  shows "t' = t"
proof -
  have "distinct (map ru_chunk_number ts)"
    using assms(1) strict_sorted_iff [of "numbers ts"] by (simp add: numbers_def)
  with assms(2-4) show ?thesis by (meson distinct_map inj_onD)
qed

definition has_target :: "rawx_url_set \<Rightarrow> router_handler \<Rightarrow> bool" where
  "has_target t h = (sorted_wrt (<) (numbers (ec_targets (eh_ec_param h))) \<and> t \<in> set (ec_targets (eh_ec_param h)))"

text \<open>What each header does to the targets, and to the address of the rawx.\<close>

lemma set_chunk_dest_D:
  assumes "set_chunk_dest k v h = Some h'"
  shows "\<exists>t n r url. ec_targets (eh_ec_param h') = targets_insert t (ec_targets (eh_ec_param h)) \<and> ru_chunk_number t = n
    \<and> read_number (transform_nondigit_to_space k) = Some (n, r) \<and> RawxUrl_Parse v RawxUrl = Some url
    \<and> rc_url (eh_rawx_param h') = (if n = 0 then url else rc_url (eh_rawx_param h))"
  using assms by (fastforce simp: set_chunk_dest_def AddTarget_def SetUrl_def RawxUrl_Set_def Let_def rawx_url_set.defs rawx_url.defs
      split: bind_splits)

lemma RouterHandler_SetHeader_targets:
  assumes "RouterHandler_SetHeader l bk k v h = Some (e, h')"
  shows "ec_targets (eh_ec_param h') = ec_targets (eh_ec_param h)
    \<or> (\<exists>t. ec_targets (eh_ec_param h') = targets_insert t (ec_targets (eh_ec_param h)))"
  using assms
  by (auto simp: RouterHandler_SetHeader_def set_chunk_method_def set_range_def SetUrl_def Let_def
      split: if_splits ec_value.splits bind_splits dest!: set_chunk_dest_D)

lemma has_target_SetHeader: "RouterHandler_SetHeader l bk k v h = Some (e, h') \<Longrightarrow> has_target t h \<Longrightarrow> has_target t h'"
  using set_targets_insert by (fastforce simp: has_target_def targets_insert_sorted dest!: RouterHandler_SetHeader_targets)

interpretation ec_proxy: handler_inv "ec_blob_handler parse_url lexer backend hp lib hv" "has_target t"
  by unfold_locales
    (auto simp: RouterHandler_SetUrl_def RouterHandler_GetUpload_def RouterHandler_GetDownload_def RouterHandler_GetRemoval_def
      router_upload_op_def router_write_def router_prepare_download_def router_read_def Let_def
      split: bind_splits prod.splits dest: has_target_SetHeader, auto simp: has_target_def)

interpretation ec_sorted: handler_inv "ec_blob_handler parse_url lexer backend hp lib hv"
  "\<lambda>h. sorted_wrt (<) (numbers (ec_targets (eh_ec_param h)))"
proof (unfold_locales, goal_cases)
  case (2 k v s e s')
  then show ?case using targets_insert_sorted by (fastforce dest!: RouterHandler_SetHeader_targets)
qed (auto simp: RouterHandler_SetUrl_def RouterHandler_GetUpload_def RouterHandler_GetDownload_def RouterHandler_GetRemoval_def
      router_upload_op_def router_write_def router_prepare_download_def router_read_def Let_def split: bind_splits prod.splits)

text \<open>The address of the rawx is that of the last header that names chunk 0, when no \<open>Host\<close> comes after it.\<close>

definition names_rawx :: "'d mill_lib \<Rightarrow> (string \<Rightarrow> ec_value) \<Rightarrow> string \<Rightarrow> bool" where
  "names_rawx ml lexer k = (ml_lex ml k = Custom \<and> (lexer k = EH_Host \<or>
     lexer k = EH_ChunkDest \<and> (\<exists>r. read_number (transform_nondigit_to_space k) = Some (0, r))))"

lemma SetHeader_url:
  assumes "RouterHandler_SetHeader l bk k v h = Some (e, h')"
  shows "(l k = EH_Host \<or> l k = EH_ChunkDest \<and> (\<exists>r. read_number (transform_nondigit_to_space k) = Some (0, r)) \<longrightarrow>
      RawxUrl_Parse v RawxUrl = Some (rc_url (eh_rawx_param h')))
    \<and> (l k = EH_Host \<or> l k = EH_ChunkDest \<and> (\<exists>r. read_number (transform_nondigit_to_space k) = Some (0, r))
      \<or> rc_url (eh_rawx_param h') = rc_url (eh_rawx_param h))"
  using assms
  by (auto simp: RouterHandler_SetHeader_def set_chunk_method_def set_range_def SetUrl_def SetRange_def SetChunkSize_def RawxUrl_Set_def
      EcHeader_Matched_def Let_def
      split: if_splits ec_value.splits bind_splits dest!: set_chunk_dest_D)

lemma headers_keep_url:
  assumes "sevents ml (ec_blob_handler p l bk hp lib hv) (header_events kvs) b = Some (0, b')" and "in_headers e b" and "SoftError_Ok e"
    and "\<forall>(k, v) \<in> set kvs. \<not> names_rawx ml l k"
  shows "rc_url (eh_rawx_param (bc_handler b')) = rc_url (eh_rawx_param (bc_handler b))"
  using assms
proof (induction kvs arbitrary: b)
  case (Cons kv kvs)
  obtain k v where kv: "kv = (k, v)" by fastforce
  from Cons.prems obtain b1 where 1: "on_header_value_COMMON ml (ec_blob_handler p l bk hp lib hv) v (b\<lparr>bc_field := k\<rparr>) = Some (0, b1)"
    "sevents ml (ec_blob_handler p l bk hp lib hv) (header_events kvs) b1 = Some (0, b')" "in_headers e b1"
    by (auto simp: kv in_headers_def start_settings_def on_header_field_COMMON_def on_header_value_COMMON_def Let_def split: bind_splits)
  have "\<not> names_rawx ml l k" using Cons.prems(4) by (simp add: kv)
  with 1(1) have "rc_url (eh_rawx_param (bc_handler b1)) = rc_url (eh_rawx_param (bc_handler b))"
    by (auto simp: on_header_value_COMMON_def names_rawx_def Let_def header_Matched_def header_IsCustom_def
        split: bind_splits if_splits dest!: SetHeader_url)
  with Cons.IH [OF 1(2,3) Cons.prems(3)] Cons.prems(4) show ?case by simp
qed simp

lemma headers_url:
  assumes "sevents ml (ec_blob_handler p l bk hp lib hv) (header_events (kvs @ (k, v) # kvs')) b = Some (0, b')"
    and "in_headers e b" and "SoftError_Ok e" and "names_rawx ml l k" and "\<forall>(k, v) \<in> set kvs'. \<not> names_rawx ml l k"
  shows "RawxUrl_Parse v RawxUrl = Some (rc_url (eh_rawx_param (bc_handler b')))"
proof -
  let ?bh = "ec_blob_handler p l bk hp lib hv"
  have he: "header_events (xs @ ys) = header_events xs @ header_events ys" for xs ys
    by (induction xs rule: header_events.induct) simp_all
  from assms(1) obtain i b1 where 1: "sevents ml ?bh (header_events kvs) b = Some (i, b1)"
    using sevents_append_None [of ml ?bh "header_events kvs" b] by (fastforce simp: he)
  with sevents_headers [OF assms(2,3)] have b1: "i = 0" "in_headers e b1" by auto
  with 1 assms(1) sevents_append [of ml ?bh "header_events kvs" b b1] have
    2: "sevents ml ?bh (header_events ((k, v) # kvs')) b1 = Some (0, b')" by (simp add: he)
  with b1(2) assms(3) obtain b2 where 3: "on_header_value_COMMON ml ?bh v (b1\<lparr>bc_field := k\<rparr>) = Some (0, b2)"
    "sevents ml ?bh (header_events kvs') b2 = Some (0, b')" "in_headers e b2"
    by (auto simp: in_headers_def start_settings_def on_header_field_COMMON_def on_header_value_COMMON_def Let_def split: bind_splits)
  from 3(1) assms(4) have "RawxUrl_Parse v RawxUrl = Some (rc_url (eh_rawx_param (bc_handler b2)))"
    by (auto simp: on_header_value_COMMON_def names_rawx_def Let_def header_Matched_def header_IsCustom_def
        split: bind_splits if_splits dest!: SetHeader_url)
  with headers_keep_url [OF 3(2,3) assms(3,5)] show ?thesis by simp
qed

text \<open>What a PUT sends: one copy of the whole body, to the one server.\<close>

definition rawx_only :: "'p http_parser \<Rightarrow> (string, string) omap \<Rightarrow> rawx_command \<Rightarrow> bytes \<Rightarrow> sock_map \<Rightarrow> sock_map option" where
  "rawx_only hp xattrs pm body m = do {
     (ok, m1) \<leftarrow> SocketMap_GetSocket (Host_Port (rc_url pm)) m;
     if \<not> ok then Some m1
     else do {
       b \<leftarrow> chunk_headers xattrs (RawxUpload_set_param pm no_builder);
       c \<leftarrow> rawx_put hp b body (sock_of m1 (Host_Port (rc_url pm)));
       Some (put_sock (Host_Port (rc_url pm)) c m1)
     }
   }"

lemma Commit_rawx_only:
  assumes "tu_type u = Enc_rawx"
  shows "RouterUpload_Commit hp lib (u, m) =
    map_option (\<lambda>m2. (status_of OK, u, m2)) (rawx_only hp (tu_xattrs u) (tu_rawx_param u) (tu_buffer u) m)"
  using assms by (auto simp: RouterUpload_Commit_def rawx_only_def Let_def split: bind_splits)

definition router_attrs :: "router_handler \<Rightarrow> (string, string) omap" where
  "router_attrs h = fold (\<lambda>(k, v). om_put k v) (eh_xattrs h) []"

lemma GetUpload_rawx:
  assumes "1 < length (ru_chunk_id (rc_url (eh_rawx_param h)))"
  shows "RouterHandler_GetUpload h = Some (h\<lparr>eh_ec_param := (eh_ec_param h)\<lparr>ec_chunkSize := 1024 * 1024\<rparr>,
      eh_rawx_param := SetChunkSize (1024 * 1024) (eh_rawx_param h),
      eh_upload := Some (RouterUpload\<lparr>tu_xattrs := router_attrs h, tu_rawx_param := SetChunkSize (1024 * 1024) (eh_rawx_param h),
        tu_chunkSize := 1024 * 1024, tu_type := Enc_rawx\<rparr>)\<rparr>)"
proof -
  have "fold (\<lambda>(k, v). RouterUpload_SetXattr k v) kvs u = u\<lparr>tu_xattrs := fold (\<lambda>(k, v). om_put k v) kvs (tu_xattrs u)\<rparr>" for kvs u
    by (induction kvs arbitrary: u) (auto simp: RouterUpload_SetXattr_def)
  with assms show ?thesis
    by (simp add: RouterHandler_GetUpload_def router_param_def SetChunkSize_def builder_set_rawx_param_def router_builder_def
        RouterUpload_Build_def RouterUpload_set_rawx_param_def RouterUpload_def router_attrs_def)
qed

lemma router_writes:
  assumes "eh_upload h = Some u" and "length (tu_buffer u) \<le> unat (tu_chunkSize u)"
  shows "writes (ec_blob_handler p l bk hp lib hv) bufs h =
    (if length (tu_buffer u) + length (concat bufs) \<le> unat (tu_chunkSize u)
     then Some (h\<lparr>eh_upload := Some (u\<lparr>tu_buffer := tu_buffer u @ concat bufs\<rparr>)\<rparr>) else None)"
  using assms
proof (induction bufs arbitrary: h u)
  case (Cons x bufs)
  show ?case
  proof (cases "length (tu_buffer u) + length x \<le> unat (tu_chunkSize u)")
    case True
    let ?u = "u\<lparr>tu_buffer := tu_buffer u @ x\<rparr>"
    let ?h = "h\<lparr>eh_upload := Some ?u\<rparr>"
    have "router_write x h = Some ?h"
      using Cons.prems True by (simp add: router_write_def RouterUpload_Write_def bounded_write_some)
    moreover have "eh_upload ?h = Some ?u" "length (tu_buffer ?u) \<le> unat (tu_chunkSize ?u)" using True by simp_all
    ultimately show ?thesis using Cons.IH [of ?h ?u] by (simp add: add.assoc)
  next
    case False
    with Cons.prems show ?thesis
      by (simp add: router_write_def RouterUpload_Write_def bounded_write_none)
  qed
qed simp

lemma SetUrl_ec: "RouterHandler_SetUrl p u h = Some (e, h') \<Longrightarrow> e = SoftError 200 200 ''OK'' \<and> h' = h"
  by (auto simp: RouterHandler_SetUrl_def split: bind_splits)

lemma ec_headers:
  assumes "sevents ml (ec_blob_handler p l bk hp lib hv) ([S_begin, S_url u] @ header_events kvs) b0 = Some (0, b)"
  obtains b1 where "in_headers (SoftError 200 200 ''OK'') b1"
    "sevents ml (ec_blob_handler p l bk hp lib hv) (header_events kvs) b1 = Some (0, b)"
    "in_headers (SoftError 200 200 ''OK'') b"
proof -
  let ?bh = "ec_blob_handler p l bk hp lib hv"
  have ok: "SoftError_Ok (SoftError 200 200 ''OK'')" by (simp add: SoftError_Ok_def SoftError_def)
  obtain h where h: "bh_SetUrl ?bh u (bc_handler b0) = Some (SoftError 200 200 ''OK'', h)"
    using assms SetUrl_ec [of p u "bc_handler b0"]
    by (cases "RouterHandler_SetUrl p u (bc_handler b0)") (auto simp: on_url_COMMON_def BlobClient_Reset_def)
  from request_line [OF h ok, of ml] obtain b1 where
    1: "sevents ml ?bh [S_begin, S_url u] b0 = Some (0, b1)" "in_headers (SoftError 200 200 ''OK'') b1" by blast
  with sevents_append [OF 1(1), of "header_events kvs"] assms have
    2: "sevents ml ?bh (header_events kvs) b1 = Some (0, b)" by simp
  with sevents_headers [OF 1(2) ok] 1(2) that show ?thesis by blast
qed

lemma SoftError_Ok_ec [simp]: "SoftError_Ok (SoftError 200 200 ''OK'')"
  by (simp add: SoftError_Ok_def SoftError_def)

section \<open>Properties\<close>

text \<open>C39. The erasure coding proxy does not encode: a PUT whose headers give the address of chunk 0 is sent as
  one copy of its whole body to that address, the other chunks get nothing, and the answer is 201 whatever
  becomes of it, even when the server cannot be reached.  A body over one mebibyte is never answered.\<close>

theorem ec_proxy_put:
  assumes bh: "bh = ec_blob_handler parse_url lexer backend hp lib hv"
    and req: "sevents ml bh ([S_begin, S_url u] @ header_events (kvs @ (k, v) # kvs')) b0 = Some (0, b)"
    and dest: "names_rawx ml lexer k" "\<forall>(k, v) \<in> set kvs'. \<not> names_rawx ml lexer k"
    and url: "RawxUrl_Parse v RawxUrl = Some url" "1 < length (ru_chunk_id url)"
    and bufs: "\<forall>x \<in> set bufs. x \<noteq> [] \<and> length x < 2 ^ 32 - 1" "body = concat bufs"
    and sent: "h = bc_handler b" "rawx_only hp (router_attrs h) (SetChunkSize (1024 * 1024) (eh_rawx_param h)) body (eh_sockets h) = Some m"
    and payload: "payload = c_str (ml_render ml (upload_toks (bc_bytes_in b + int (length body))
      (Checksum_Final (ml_md5 ml) (fold (Checksum_Update (ml_md5 ml)) bufs (bc_md5 b)))))" "payload \<noteq> []"
    and reply: "txt = reply_text (bc_version b) (bc_reply_headers b) 201 ''OK'' payload" "length txt \<le> c"
    and ample: "ample c 2 (bc_conn b)"
  shows "rc_url (eh_rawx_param h) = url
    \<and> (if length body \<le> 1024 * 1024
       then \<exists>b'. sevents ml bh (S_headers_complete HTTP_PUT # map S_body bufs @ [S_complete]) b = Some (0, b')
         \<and> eh_sockets (bc_handler b') = m \<and> wire (bc_conn b') = wire (bc_conn b) @ bytes_of txt
       else sevents ml bh (S_headers_complete HTTP_PUT # map S_body bufs @ [S_complete]) b = None)"
proof -
  let ?e = "SoftError 200 200 ''OK''"
  from ec_headers [OF req [unfolded bh]] obtain b1 where hd: "in_headers ?e b1"
    "sevents ml (ec_blob_handler parse_url lexer backend hp lib hv) (header_events (kvs @ (k, v) # kvs')) b1 = Some (0, b)"
    "in_headers ?e b" by blast
  from headers_url [OF hd(2,1) _ dest] url(1) sent(1) have u: "rc_url (eh_rawx_param h) = url" by simp
  define up where "up = RouterUpload\<lparr>tu_xattrs := router_attrs h, tu_rawx_param := SetChunkSize (1024 * 1024) (eh_rawx_param h),
    tu_chunkSize := 1024 * 1024, tu_type := Enc_rawx\<rparr>"
  define g where "g = h\<lparr>eh_ec_param := (eh_ec_param h)\<lparr>ec_chunkSize := 1024 * 1024\<rparr>,
    eh_rawx_param := SetChunkSize (1024 * 1024) (eh_rawx_param h), eh_upload := Some up\<rparr>"
  have up: "tu_buffer up = []" "unat (tu_chunkSize up) = 1024 * 1024" "tu_type up = Enc_rawx" "tu_xattrs up = router_attrs h"
    "tu_rawx_param up = SetChunkSize (1024 * 1024) (eh_rawx_param h)"
    by (simp_all add: up_def RouterUpload_def)
  have g: "eh_upload g = Some up" "eh_sockets g = eh_sockets h" by (simp_all add: g_def)
  have get: "bh_GetUpload bh (bc_handler b) = Some g"
    using GetUpload_rawx [of h] u url(2) by (simp add: bh g_def up_def sent(1))
  define g2 where "g2 = g\<lparr>eh_upload := Some up, eh_sockets := eh_sockets h\<rparr>"
  have g2: "eh_upload g2 = Some up" "eh_sockets g2 = eh_sockets h" by (simp_all add: g2_def)
  have prep: "bh_up_Prepare bh g = Some (status_of OK, g2)"
    using g by (simp add: bh router_upload_op_def RouterUpload_Prepare_def g2_def)
  have wr: "writes bh bufs g2 = (if length body \<le> 1024 * 1024 then Some (g2\<lparr>eh_upload := Some (up\<lparr>tu_buffer := body\<rparr>)\<rparr>) else None)"
    using router_writes [OF g2(1), of parse_url lexer backend hp lib hv bufs] up bufs(2) by (simp add: bh)
  show ?thesis
  proof (cases "length body \<le> 1024 * 1024")
    case True
    define g3 where "g3 = g2\<lparr>eh_upload := Some (up\<lparr>tu_buffer := body\<rparr>)\<rparr>"
    define g4 where "g4 = g3\<lparr>eh_upload := Some (up\<lparr>tu_buffer := body\<rparr>), eh_sockets := m\<rparr>"
    have "RouterUpload_Commit hp lib (up\<lparr>tu_buffer := body\<rparr>, eh_sockets h) = Some (status_of OK, up\<lparr>tu_buffer := body\<rparr>, m)"
      using Commit_rawx_only [of "up\<lparr>tu_buffer := body\<rparr>" hp lib "eh_sockets h"] up sent(2) by simp
    then have commit: "bh_up_Commit bh g3 = Some (status_of OK, g4)"
      using g2 by (simp add: bh router_upload_op_def g3_def g4_def)
    have "writes bh bufs g2 = Some g3" using wr True by (simp add: g3_def)
    from put_after_headers [OF hd(3) SoftError_Ok_ec get prep _ this bufs(1) commit _ refl refl
        payload(1) [unfolded bufs(2)] payload(2) reply(1) _ reply(2), of 0] ample obtain b' where
      "sevents ml bh (S_headers_complete HTTP_PUT # map S_body bufs @ [S_complete]) b = Some (0, b')" "bc_handler b' = g4"
      "wire (bc_conn b') = wire (bc_conn b) @ bytes_of txt" by (auto simp: numeral_2_eq_2)
    with u True show ?thesis by (auto simp: g4_def)
  next
    case False
    with wr have "writes bh bufs g2 = None" by simp
    with put_headers [OF hd(3) SoftError_Ok_ec get prep, of ml] u False bufs(1) show ?thesis
      by (simp add: sevents_bodies_None method_settings_def)
  qed
qed

text \<open>A server that refuses connections, and a handler that knows no other.\<close>

definition demo_refusing :: sock_map where
  "demo_refusing = \<lparr>sm_elem = \<lambda>h. \<lparr>se_conn = (open_conn [] [] [])\<lparr>cn_open := False,
     cn_next := [(Some ECONNREFUSED, cn_chan (open_conn [] [] []))]\<rparr>, se_bopen = False, se_timer = 0\<rparr>, sm_now = 0\<rparr>"

abbreviation demo_ec :: "router_handler blob_handler" where
  "demo_ec \<equiv> ec_blob_handler path_url (\<lambda>k. EH_ChunkDest) (\<lambda>_. 0) demo_parser demo_lib
     \<lparr>eh_data0 = False, eh_parity0 = False, eh_past = \<lambda>i. True\<rparr>"

definition demo_ec_client :: "(router_handler, nat) blob_client" where
  "demo_ec_client = BlobClient demo_mill (open_conn [] [] (replicate 2 (Wr_n 1000))) (RouterHandler demo_refusing)"

definition demo_chunk_url :: rawx_url where
  "demo_chunk_url = \<lparr>ru_chunk_id = ''AB'', ru_host = ''h'', ru_port = 6010\<rparr>"

lemma demo_chunk_dest:
  "RawxUrl_Parse ''http://h:6010/AB'' RawxUrl = Some demo_chunk_url"
  "read_number (transform_nondigit_to_space ''c0'') = Some (0, [])" "read_number (transform_nondigit_to_space ''c1'') = Some (1, [])"
  unfolding demo_chunk_url_def by code_simp+

lemma demo_ec_request:
  "\<exists>b. sevents demo_mill demo_ec ([S_begin, S_url ''/x''] @ header_events ([] @ (''c0'', ''http://h:6010/AB'') # [])) demo_ec_client = Some (0, b)
    \<and> bc_conn b = bc_conn demo_ec_client \<and> bc_version b = (0, 0) \<and> bc_reply_headers b = [] \<and> bc_bytes_in b = 0 \<and> bc_md5 b = 0
    \<and> in_headers (SoftError 200 200 ''OK'') b \<and> eh_sockets (bc_handler b) = demo_refusing \<and> rc_url (eh_rawx_param (bc_handler b)) = demo_chunk_url
    \<and> ec_targets (eh_ec_param (bc_handler b)) = [rawx_url.extend demo_chunk_url (rawx_url_set.fields 0)]"
proof -
  have "(case path_url ''/x'' of None \<Rightarrow> Some []
     | Some url \<Rightarrow> if http_url_has url UF_PATH then http_url_field url UF_PATH ''/x'' else Some []) = Some ''/x''" by code_simp
  then have "RouterHandler_SetUrl path_url ''/x'' h = Some (SoftError 200 200 ''OK'', h)" for h
    by (simp add: RouterHandler_SetUrl_def)
  then show ?thesis
    by (simp add: demo_ec_client_def BlobClient_def request_defs on_header_field_COMMON_def in_headers_def
        on_header_value_COMMON_def RouterHandler_SetHeader_def EcHeader_Matched_def header_Matched_def header_IsCustom_def
        set_chunk_dest_def demo_chunk_dest RouterHandler_def demo_mill_def Checksum_def AddTarget_def SetUrl_def RawxUrl_Set_def
        EcCommand_Clear_def EcCommand_def RawxCommand_Clear_def RawxCommand_def demo_chunk_url_def cong: if_cong)
qed

theorem ec_proxy_put_witness:
  "\<exists>b b'. sevents demo_mill demo_ec ([S_begin, S_url ''/x''] @ header_events ([] @ (''c0'', ''http://h:6010/AB'') # [])) demo_ec_client = Some (0, b)
    \<and> sevents demo_mill demo_ec (S_headers_complete HTTP_PUT # map S_body [[1, 2], [3]] @ [S_complete]) b = Some (0, b')
    \<and> wire (bc_conn b') = bytes_of (reply_text (0, 0) [] 201 ''OK'' ''x'')"
proof -
  obtain b where b: "sevents demo_mill demo_ec ([S_begin, S_url ''/x''] @ header_events ([] @ (''c0'', ''http://h:6010/AB'') # [])) demo_ec_client = Some (0, b)"
    "bc_conn b = bc_conn demo_ec_client" "bc_version b = (0, 0)" "bc_reply_headers b = []"
    "eh_sockets (bc_handler b) = demo_refusing" using demo_ec_request by blast
  obtain m where m: "SocketMap_GetSocket (Host_Port (rc_url (eh_rawx_param (bc_handler b)))) demo_refusing = Some (False, m)"
  proof -
    have "refuses demo_refusing h" for h by (simp add: refuses_def demo_refusing_def)
    from refused_GetSocket [OF this] that show ?thesis by blast
  qed
  have "length (reply_text (0, 0) [] 201 ''OK'' ''x'') \<le> 1000" by code_simp
  moreover have "''x'' = c_str (ml_render demo_mill ts)" for ts by (simp add: demo_mill_def c_str_def)
  moreover have "ample 1000 2 (bc_conn b)" "wire (bc_conn b) = []"
    by (simp_all add: b(2) demo_ec_client_def BlobClient_def ample_def open_conn_def wire_def)
  moreover have "names_rawx demo_mill (\<lambda>k. EH_ChunkDest) ''c0''"
    by (simp add: names_rawx_def demo_mill_def demo_chunk_dest)
  moreover have "rawx_only demo_parser x (SetChunkSize (1024 * 1024) (eh_rawx_param (bc_handler b))) bs (eh_sockets (bc_handler b)) = Some m" for x bs
    using b(5) m by (simp add: rawx_only_def SetChunkSize_def)
  ultimately have r: "rc_url (eh_rawx_param (bc_handler b)) = demo_chunk_url \<and> (if length [1, 2, 3 :: 8 word] \<le> 1024 * 1024
      then \<exists>b'. sevents demo_mill demo_ec (S_headers_complete HTTP_PUT # map S_body [[1, 2], [3]] @ [S_complete]) b = Some (0, b')
        \<and> eh_sockets (bc_handler b') = m \<and> wire (bc_conn b') = wire (bc_conn b) @ bytes_of (reply_text (0, 0) [] 201 ''OK'' ''x'')
      else sevents demo_mill demo_ec (S_headers_complete HTTP_PUT # map S_body [[1, 2], [3]] @ [S_complete]) b = None)"
    by (intro ec_proxy_put [OF refl b(1) _ _ demo_chunk_dest(1), where h = "bc_handler b" and payload = "''x''" and c = 1000])
      (simp_all add: demo_chunk_url_def b(3,4))
  have "length [1, 2, 3 :: 8 word] \<le> 1024 * 1024" by simp
  with r b(1) \<open>wire (bc_conn b) = []\<close> show ?thesis by (simp only: if_True append.simps) blast
qed

text \<open>A connection to the erasure coding proxy never forgets where a chunk goes: the first address given for
  a number is kept for all its requests, and a later header that gives another is without effect.\<close>

theorem ec_proxy_stale_target:
  assumes "bh = ec_blob_handler parse_url lexer backend hp lib hv"
    and "sevents ml bh es (BlobClient ml c (RouterHandler m)) = Some (i, b)" and "t \<in> set (ec_targets (eh_ec_param (bc_handler b)))"
    and "sevents ml bh es' b = Some (j, b')"
  shows "{t' \<in> set (ec_targets (eh_ec_param (bc_handler b'))). ru_chunk_number t' = ru_chunk_number t} = {t}"
proof -
  have "sorted_wrt (<) (numbers (ec_targets (eh_ec_param (bc_handler b))))"
    using ec_sorted.sevents_inv [OF assms(2) [unfolded assms(1)]]
    by (simp add: BlobClient_def RouterHandler_def EcCommand_Clear_def numbers_def)
  with assms(3) have "has_target t (bc_handler b)" by (simp add: has_target_def)
  with ec_proxy.sevents_inv [OF assms(4) [unfolded assms(1)]] have "has_target t (bc_handler b')" by blast
  then show ?thesis using numbers_distinct by (fastforce simp: has_target_def)
qed

theorem ec_proxy_stale_target_witness:
  "\<exists>b b'. sevents demo_mill demo_ec ([S_begin, S_url ''/x''] @ header_events ([] @ (''c0'', ''http://h:6010/AB'') # [])) demo_ec_client = Some (0, b)
    \<and> sevents demo_mill demo_ec [S_field ''c0'', S_value ''http://h:6011/CD''] b = Some (0, b')
    \<and> {t' \<in> set (ec_targets (eh_ec_param (bc_handler b'))). ru_chunk_number t' = 0} =
        {rawx_url.extend demo_chunk_url (rawx_url_set.fields 0)}"
proof -
  obtain b where b: "sevents demo_mill demo_ec ([S_begin, S_url ''/x''] @ header_events ([] @ (''c0'', ''http://h:6010/AB'') # [])) demo_ec_client = Some (0, b)"
    "in_headers (SoftError 200 200 ''OK'') b"
    "ec_targets (eh_ec_param (bc_handler b)) = [rawx_url.extend demo_chunk_url (rawx_url_set.fields 0)]"
    using demo_ec_request by blast
  have "RawxUrl_Parse ''http://h:6011/CD'' RawxUrl \<noteq> None" by code_simp
  then obtain b' where b': "sevents demo_mill demo_ec [S_field ''c0'', S_value ''http://h:6011/CD''] b = Some (0, b')"
    using b(2) by (auto simp: in_headers_def start_settings_def on_header_field_COMMON_def on_header_value_COMMON_def
        RouterHandler_SetHeader_def EcHeader_Matched_def header_Matched_def header_IsCustom_def set_chunk_dest_def demo_chunk_dest
        demo_mill_def Let_def)
  let ?t = "rawx_url.extend demo_chunk_url (rawx_url_set.fields 0)"
  have n: "ru_chunk_number ?t = 0" by (simp add: demo_chunk_url_def rawx_url.defs rawx_url_set.defs)
  have "{t' \<in> set (ec_targets (eh_ec_param (bc_handler b'))). ru_chunk_number t' = ru_chunk_number ?t} = {?t}"
    using ec_proxy_stale_target [OF refl b(1) [unfolded demo_ec_client_def] _ b'] b(3) by simp
  then show ?thesis unfolding n by (intro exI [of _ b] exI [of _ b'] conjI b(1) b')
qed

text \<open>A DELETE is an access through a null pointer, whatever has been sent before.\<close>

lemma ec_proxy_delete:
  "sevents ml (ec_blob_handler parse_url lexer backend hp lib hv)
    ([S_begin, S_url u] @ header_events kvs @ [S_headers_complete HTTP_DELETE]) b = None"
proof (cases "RouterHandler_SetUrl parse_url u (bc_handler b)")
  case None
  then show ?thesis by (simp add: on_url_COMMON_def BlobClient_Reset_def)
next
  case (Some r)
  then have "bh_SetUrl (ec_blob_handler parse_url lexer backend hp lib hv) u (bc_handler b) = Some (SoftError 200 200 ''OK'', snd r)"
    using SetUrl_ec [of parse_url u "bc_handler b" "fst r" "snd r"] by (simp add: prod_eq_iff)
  then show ?thesis
    by (rule request_fails [where Q = "\<lambda>_. True", rotated 2])
      (unfold_locales, simp_all add: in_headers_def start_settings_def on_headers_complete_COMMON_def
        on_headers_complete_REMOVAL_def RouterHandler_GetRemoval_def)
qed

end
