(* ===== verification/Kinetic_Proxy.thy ===== *)
theory Kinetic_Proxy
  imports Request_Url Handler_Contract Kinetic_Blob
begin

text \<open>
  The kinetic proxy (\<open>src/bin/kinetic-proxy.cpp\<close>, \<open>kinetic-proxy-headers.h\<close>): the handler that keeps the
  blobs of the requests on kinetic drives.  Its state holds the objects the current request has made and
  the state of the drives.  The function ragel makes for \<open>KineticHeader::Parse\<close> is a parameter.
\<close>

section \<open>Headers\<close>

datatype kinetic_value = KH_Unexpected | KH_Target | KH_ContainerId | KH_ContentId | KH_ContentPath | KH_ContentHash
  | KH_ContentSize | KH_ChunkId | KH_ChunkHash | KH_ChunkSize | KH_ChunkPosition

text \<open>The test is the opposite of the one of the other servers.\<close>

definition KineticHeader_Matched :: "kinetic_value \<Rightarrow> bool" where
  "KineticHeader_Matched v = (v = KH_Unexpected)"

fun KineticHeader_Name :: "kinetic_value \<Rightarrow> string" where
  "KineticHeader_Name KH_Unexpected = ''Unexpected''"
| "KineticHeader_Name KH_Target = ''Target''"
| "KineticHeader_Name KH_ContainerId = ''ContainerId''"
| "KineticHeader_Name KH_ContentId = ''ContentId''"
| "KineticHeader_Name KH_ContentPath = ''ContentPath''"
| "KineticHeader_Name KH_ContentHash = ''ContentHash''"
| "KineticHeader_Name KH_ContentSize = ''ContentSize''"
| "KineticHeader_Name KH_ChunkId = ''ChunkId''"
| "KineticHeader_Name KH_ChunkHash = ''ChunkHash''"
| "KineticHeader_Name KH_ChunkSize = ''ChunkSize''"
| "KineticHeader_Name KH_ChunkPosition = ''ChunkPosition''"

section \<open>The handler\<close>

record ('n, 's) kinetic_handler =
  kh_chunk_id :: string
  kh_targets :: "string list"
  kh_xattrs :: "(string, string) omap"
  kh_upload :: "'n kupload option"
  kh_download :: "'n kdownload option"
  kh_removal :: "'n kremoval option"
  kh_drives :: 's

definition KineticHandler :: "'s \<Rightarrow> ('n, 's) kinetic_handler" where
  "KineticHandler s = \<lparr>kh_chunk_id = [], kh_targets = [], kh_xattrs = [], kh_upload = None, kh_download = None,
     kh_removal = None, kh_drives = s\<rparr>"

definition KineticHandler_SetUrl :: "(string \<Rightarrow> http_url option) \<Rightarrow> string \<Rightarrow> ('n, 's) kinetic_handler \<Rightarrow>
    (soft_error \<times> ('n, 's) kinetic_handler) option" where
  "KineticHandler_SetUrl parse_url u h = do {
     r \<leftarrow> url_basename parse_url u;
     Some (case r of Inl e \<Rightarrow> (e, h) | Inr f \<Rightarrow> (SoftError 200 200 ''OK'', h\<lparr>kh_chunk_id := f\<rparr>))
   }"

definition KineticHandler_SetHeader :: "(string \<Rightarrow> kinetic_value) \<Rightarrow> string \<Rightarrow> string \<Rightarrow> ('n, 's) kinetic_handler \<Rightarrow>
    (soft_error \<times> ('n, 's) kinetic_handler) option" where
  "KineticHandler_SetHeader lexer k v h =
     (let header = lexer k in
      Some (SoftError 200 200 ''OK'',
        if KineticHeader_Matched header
        then (case header of
            KH_Target \<Rightarrow> h\<lparr>kh_targets := os_insert v (kh_targets h)\<rparr>
          | _ \<Rightarrow> h\<lparr>kh_xattrs := om_put k v (kh_xattrs h)\<rparr>)
        else h))"

definition KineticHandler_GetUpload :: "('n, 's) kinetic_handler \<Rightarrow> ('n, 's) kinetic_handler option" where
  "KineticHandler_GetUpload h = do {
     let b = UploadBuilder_Name (kh_chunk_id h) (UploadBuilder_BlockSize (1024 * 1024) UploadBuilder_new);
     ul \<leftarrow> UploadBuilder_Build (fold UploadBuilder_Target (kh_targets h) b);
     Some (h\<lparr>kh_upload := Some (fold (\<lambda>(k, v). KineticUpload_SetXattr k v) (kh_xattrs h) ul)\<rparr>)
   }"

definition handler_builder :: "('n, 's) kinetic_handler \<Rightarrow> kbuilder" where
  "handler_builder h = fold KB_Target (kh_targets h) (KB_Name (kh_chunk_id h) \<lparr>kb_targets = [], kb_name = []\<rparr>)"

definition KineticHandler_GetDownload :: "('n, 's) kinetic_handler \<Rightarrow> ('n, 's) kinetic_handler option" where
  "KineticHandler_GetDownload h = do {
     d \<leftarrow> DownloadBuilder_Build (handler_builder h);
     Some (h\<lparr>kh_download := Some d\<rparr>)
   }"

definition KineticHandler_GetRemoval :: "('n, 's) kinetic_handler \<Rightarrow> ('n, 's) kinetic_handler option" where
  "KineticHandler_GetRemoval h = do {
     r \<leftarrow> RemovalBuilder_Build (handler_builder h);
     Some (h\<lparr>kh_removal := Some r\<rparr>)
   }"

text \<open>An operation of the object a request has made.\<close>

definition kinetic_upload_op :: "('n kupload \<times> 's) tx_op \<Rightarrow> ('n, 's) kinetic_handler tx_op" where
  "kinetic_upload_op f h = do {
     u \<leftarrow> kh_upload h;
     (rc, u', s') \<leftarrow> f (u, kh_drives h);
     Some (rc, h\<lparr>kh_upload := Some u', kh_drives := s'\<rparr>)
   }"

definition kinetic_removal_op :: "('n kremoval \<times> 's) tx_op \<Rightarrow> ('n, 's) kinetic_handler tx_op" where
  "kinetic_removal_op f h = do {
     r \<leftarrow> kh_removal h;
     (rc, r', s') \<leftarrow> f (r, kh_drives h);
     Some (rc, h\<lparr>kh_removal := Some r', kh_drives := s'\<rparr>)
   }"

definition kinetic_write :: "'n float_ops \<Rightarrow> ('n, 'd) pb_lib \<Rightarrow> ('n, 's) drives \<Rightarrow> bytes \<Rightarrow>
    ('n, 's) kinetic_handler \<Rightarrow> ('n, 's) kinetic_handler option" where
  "kinetic_write fl lib dr buf h = do {
     u \<leftarrow> kh_upload h;
     (u', s') \<leftarrow> KineticUpload_Write fl lib dr buf (u, kh_drives h);
     Some (h\<lparr>kh_upload := Some u', kh_drives := s'\<rparr>)
   }"

definition kinetic_prepare_download :: "'n float_ops \<Rightarrow> ('n, 'd) pb_lib \<Rightarrow> ('n, 's) drives \<Rightarrow>
    ('n, 's) kinetic_handler tx_op" where
  "kinetic_prepare_download fl lib dr h = do {
     d \<leftarrow> kh_download h;
     (rc, d', s') \<leftarrow> KineticDownload_Prepare fl lib dr (d, kh_drives h);
     Some (rc, h\<lparr>kh_download := Some d', kh_drives := s'\<rparr>)
   }"

definition kinetic_eof :: "('n, 's) kinetic_handler \<Rightarrow> bool" where
  "kinetic_eof h = (case kh_download h of None \<Rightarrow> False | Some d \<Rightarrow> KineticDownload_IsEof d)"

definition kinetic_read :: "('n, 's) drives \<Rightarrow> ('n, 's) kinetic_handler \<Rightarrow> (bytes \<times> ('n, 's) kinetic_handler) option" where
  "kinetic_read dr h = do {
     d \<leftarrow> kh_download h;
     (_, buf, d', s') \<leftarrow> KineticDownload_Read dr [] (d, kh_drives h);
     Some (buf, h\<lparr>kh_download := Some d', kh_drives := s'\<rparr>)
   }"

definition kinetic_blob_handler :: "(string \<Rightarrow> http_url option) \<Rightarrow> (string \<Rightarrow> kinetic_value) \<Rightarrow> 'n float_ops \<Rightarrow>
    ('n, 'd) pb_lib \<Rightarrow> (jtok list \<Rightarrow> string) \<Rightarrow> ('n, 's) drives \<Rightarrow> ('n, 's) kinetic_handler blob_handler" where
  "kinetic_blob_handler parse_url lexer fl lib render dr = \<lparr>bh_SetUrl = KineticHandler_SetUrl parse_url,
     bh_SetHeader = KineticHandler_SetHeader lexer, bh_GetUpload = KineticHandler_GetUpload,
     bh_up_Prepare = kinetic_upload_op (KineticUpload_Prepare fl lib dr), bh_up_Write = kinetic_write fl lib dr,
     bh_up_Commit = kinetic_upload_op (KineticUpload_Commit fl lib render dr), bh_GetDownload = KineticHandler_GetDownload,
     bh_dl_Prepare = kinetic_prepare_download fl lib dr, bh_dl_IsEof = kinetic_eof, bh_dl_Read = kinetic_read dr,
     bh_GetRemoval = KineticHandler_GetRemoval, bh_rm_Prepare = kinetic_removal_op (KineticRemoval_Prepare fl lib dr),
     bh_rm_Commit = kinetic_removal_op (KineticRemoval_Commit dr)\<rparr>"

text \<open>The repository has no state: \<open>Configure\<close> takes any text, and \<open>Clone\<close> and \<open>Handler\<close> start afresh.\<close>

definition KineticRepository_Configure :: "string \<Rightarrow> bool" where
  "KineticRepository_Configure cfg = True"

section \<open>Laws\<close>

text \<open>What a request to this server is: no drive is ever known, and an upload is one to no drive.\<close>

definition no_target :: "('n, 's) kinetic_handler \<Rightarrow> bool" where
  "no_target h = (kh_targets h = [] \<and> (\<forall>u. kh_upload h = Some u \<longrightarrow> ku_clients u = [])
     \<and> kh_download h = None \<and> kh_removal h = None)"

lemma KineticHandler_SetHeader_keeps:
  "KineticHandler_SetHeader lexer k v h = Some (e, h') \<Longrightarrow> kh_targets h' = kh_targets h \<and> kh_upload h' = kh_upload h
     \<and> kh_download h' = kh_download h \<and> kh_removal h' = kh_removal h"
  by (auto simp: KineticHandler_SetHeader_def KineticHeader_Matched_def Let_def)

lemma SetXattrs_clients: "ku_clients (fold (\<lambda>(k, v). KineticUpload_SetXattr k v) kvs u) = ku_clients u"
  by (induction kvs arbitrary: u) (auto simp: KineticUpload_SetXattr_def)

lemma Build_no_target:
  assumes "UploadBuilder_Build (UploadBuilder_Name n (UploadBuilder_BlockSize k UploadBuilder_new)) = Some u"
  shows "ku_clients u = []"
  using assms by (auto simp: UploadBuilder_Build_def UploadBuilder_Name_def UploadBuilder_BlockSize_def
      UploadBuilder_new_def split: if_splits)

lemma KineticUpload_Prepare_clients:
  "KineticUpload_Prepare fl lib dr (u, s) = Some (rc, u', s') \<Longrightarrow> ku_clients u' = ku_clients u"
  by (auto simp: KineticUpload_Prepare_def Let_def split: if_splits prod.splits)

lemma KineticUpload_Write_no_target: "ku_clients u = [] \<Longrightarrow> KineticUpload_Write fl lib dr buf (u, s) = None"
  by (simp add: KineticUpload_Write_def)

lemma KineticUpload_Commit_no_target:
  "ku_clients u = [] \<Longrightarrow> KineticUpload_Commit fl lib render dr (u, s) = Some (rc, u', s') \<Longrightarrow>
     ku_step u \<noteq> Prepared \<and> u' = u \<and> \<not> Ok rc"
  by (auto simp: KineticUpload_Commit_def TriggerUpload_def TriggerUpload_suffix_def KineticUpload_Write_def
      Ok_def split: if_splits bind_splits)

lemma KineticUpload_Commit_clients:
  "KineticUpload_Commit fl lib render dr (u, s) = Some (rc, u', s') \<Longrightarrow> ku_clients u = [] \<Longrightarrow> ku_clients u' = []"
  by (auto dest: KineticUpload_Commit_no_target [rotated])

interpretation kinetic_proxy: handler_inv "kinetic_blob_handler parse_url lexer fl lib render dr" no_target
proof (unfold_locales, goal_cases)
  case (1 u s e s')
  then show ?case
    by (auto simp: kinetic_blob_handler_def KineticHandler_SetUrl_def no_target_def split: bind_splits sum.splits)
next
  case (2 k v s e s')
  then show ?case using KineticHandler_SetHeader_keeps [of lexer k v s e s'] by (simp add: kinetic_blob_handler_def no_target_def)
next
  case (3 s s')
  then show ?case
    by (auto simp: kinetic_blob_handler_def KineticHandler_GetUpload_def no_target_def SetXattrs_clients Let_def
        dest!: Build_no_target split: bind_splits)
next
  case (4 s rc s')
  then show ?case
    by (auto simp: kinetic_blob_handler_def kinetic_upload_op_def no_target_def
        dest!: KineticUpload_Prepare_clients split: bind_splits)
next
  case (5 buf s s')
  then show ?case
    by (auto simp: kinetic_blob_handler_def kinetic_write_def no_target_def KineticUpload_Write_no_target split: bind_splits)
next
  case (6 s rc s')
  then show ?case
    by (auto simp: kinetic_blob_handler_def kinetic_upload_op_def no_target_def
        dest!: KineticUpload_Commit_clients split: bind_splits)
next
  case (7 s s')
  then show ?case
    by (simp add: kinetic_blob_handler_def KineticHandler_GetDownload_def handler_builder_def DownloadBuilder_Build_def
        KB_Name_def no_target_def)
next
  case (12 s s')
  then show ?case
    by (simp add: kinetic_blob_handler_def KineticHandler_GetRemoval_def handler_builder_def RemovalBuilder_Build_def
        KB_Name_def no_target_def)
qed (auto simp: kinetic_blob_handler_def kinetic_prepare_download_def kinetic_read_def kinetic_removal_op_def no_target_def)

lemma no_target_new [simp]: "no_target (KineticHandler s)"
  by (simp add: no_target_def KineticHandler_def)

lemma no_target_downloads: "no_target h \<Longrightarrow> KineticHandler_GetDownload h = None"
  by (simp add: KineticHandler_GetDownload_def handler_builder_def DownloadBuilder_Build_def KB_Name_def no_target_def)

lemma no_target_removals: "no_target h \<Longrightarrow> KineticHandler_GetRemoval h = None"
  by (simp add: KineticHandler_GetRemoval_def handler_builder_def RemovalBuilder_Build_def KB_Name_def no_target_def)


lemma kinetic_blob_handler_simps [simp]:
  "bh_SetUrl (kinetic_blob_handler p l fl lib r dr) = KineticHandler_SetUrl p"
  "bh_GetUpload (kinetic_blob_handler p l fl lib r dr) = KineticHandler_GetUpload"
  "bh_up_Prepare (kinetic_blob_handler p l fl lib r dr) = kinetic_upload_op (KineticUpload_Prepare fl lib dr)"
  "bh_up_Write (kinetic_blob_handler p l fl lib r dr) = kinetic_write fl lib dr"
  "bh_up_Commit (kinetic_blob_handler p l fl lib r dr) = kinetic_upload_op (KineticUpload_Commit fl lib r dr)"
  "bh_GetDownload (kinetic_blob_handler p l fl lib r dr) = KineticHandler_GetDownload"
  "bh_GetRemoval (kinetic_blob_handler p l fl lib r dr) = KineticHandler_GetRemoval"
  by (simp_all add: kinetic_blob_handler_def)

text \<open>A PUT is accepted, and its body, or its end when there is none, fails an assertion.\<close>

lemma put_no_target:
  assumes "in_headers e b" and "SoftError_Ok e" and "no_target (bc_handler b)"
    and "\<forall>x \<in> set bufs. x \<noteq> [] \<and> length x < 2 ^ 32 - 1"
  shows "sevents ml (kinetic_blob_handler p l fl lib r dr) (S_headers_complete HTTP_PUT # map S_body bufs @ [S_complete]) b = None"
proof (cases "KineticHandler_GetUpload (bc_handler b)")
  case None
  with assms(1,2) show ?thesis
    by (simp add: in_headers_def request_defs on_headers_complete_UPLOAD_def)
next
  case (Some h)
  then obtain u where u: "kh_upload h = Some u" "ku_step u = Init" "ku_clients u = []"
  proof -
    have x: "ku_step (fold (\<lambda>(k, v). KineticUpload_SetXattr k v) kvs v) = ku_step v" for kvs and v :: "'a kupload"
      by (induction kvs arbitrary: v) (auto simp: KineticUpload_SetXattr_def)
    from Some assms(3) that show ?thesis
      by (auto simp: KineticHandler_GetUpload_def no_target_def Let_def x SetXattrs_clients UploadBuilder_Build_def
          UploadBuilder_Name_def UploadBuilder_BlockSize_def UploadBuilder_new_def split: bind_splits if_splits)
  qed
  define u' where "u' = u\<lparr>ku_step := Prepared\<rparr>"
  have u': "ku_clients u' = []" "ku_step u' = Prepared" using u(3) by (simp_all add: u'_def)
  have "KineticUpload_Prepare fl lib dr (u, kh_drives h) = Some (status_ok, u', kh_drives h)"
    using u by (simp add: KineticUpload_Prepare_def u'_def)
  with u(1) have p: "kinetic_upload_op (KineticUpload_Prepare fl lib dr) h =
      Some (status_ok, h\<lparr>kh_upload := Some u', kh_drives := kh_drives h\<rparr>)"
    by (simp add: kinetic_upload_op_def)
  define b1 where "b1 = b\<lparr>bc_settings := method_settings Body_upload Complete_upload Headers_common, bc_upload := True,
    bc_handler := h\<lparr>kh_upload := Some u', kh_drives := kh_drives h\<rparr>\<rparr>"
  have b1: "bc_upload b1" "on_data (bc_settings b1) = Body_upload" "on_message_complete (bc_settings b1) = Complete_upload"
    "kh_upload (bc_handler b1) = Some u'" by (simp_all add: b1_def method_settings_def)
  have hc: "on_sevent ml (kinetic_blob_handler p l fl lib r dr) (S_headers_complete HTTP_PUT) b = Some (0, b1)"
    using assms(1,2) Some p by (simp add: in_headers_def request_defs on_headers_complete_UPLOAD_def b1_def)
  have "sevents ml (kinetic_blob_handler p l fl lib r dr) (map S_body bufs @ [S_complete]) b1 = None"
  proof (cases bufs)
    case Nil
    have "KineticUpload_Commit fl lib r dr (u', kh_drives (bc_handler b1)) = None"
      using KineticUpload_Commit_no_target [OF u'(1)] u'(2)
      by (cases "KineticUpload_Commit fl lib r dr (u', kh_drives (bc_handler b1))") auto
    with Nil b1 show ?thesis
      by (simp add: on_message_complete_UPLOAD_def on_handler_def kinetic_upload_op_def)
  next
    case (Cons x xs)
    with assms(4) b1 u'(1) show ?thesis
      by (simp add: on_body_UPLOAD_def kinetic_write_def KineticUpload_Write_no_target)
  qed
  with hc show ?thesis by simp
qed

section \<open>Properties\<close>

text \<open>C38. The kinetic proxy serves no request: the header that names the drives is taken for one to be ignored,
  so that, whatever a client has sent before, a request with a valid URL and any headers fails an
  assertion, which ends the program; a PUT does it with its first bytes, or at its end.\<close>

theorem kinetic_proxy_serves_nothing:
  assumes "sevents ml (kinetic_blob_handler parse_url lexer fl lib render dr) es (BlobClient ml c (KineticHandler s)) = Some (i, b)"
    and "url_basename parse_url u = Some (Inr f)" and "\<forall>x \<in> set bufs. x \<noteq> [] \<and> length x < 2 ^ 32 - 1"
    and "req \<in> {[S_headers_complete HTTP_GET], [S_headers_complete HTTP_DELETE],
      S_headers_complete HTTP_PUT # map S_body bufs @ [S_complete]}"
  shows "sevents ml (kinetic_blob_handler parse_url lexer fl lib render dr) ([S_begin, S_url u] @ header_events kvs @ req) b = None"
proof (rule request_fails [where Q = no_target])
  show "handler_inv (kinetic_blob_handler parse_url lexer fl lib render dr) no_target" by unfold_locales
  show "no_target (bc_handler b)"
    using kinetic_proxy.sevents_inv [OF assms(1)] by (simp add: BlobClient_def)
  show "bh_SetUrl (kinetic_blob_handler parse_url lexer fl lib render dr) u (bc_handler b) =
      Some (SoftError 200 200 ''OK'', (bc_handler b)\<lparr>kh_chunk_id := f\<rparr>)"
    using assms(2) by (simp add: KineticHandler_SetUrl_def)
  show ok: "SoftError_Ok (SoftError 200 200 ''OK'')" by (simp add: SoftError_Ok_def SoftError_def)
  fix b1 :: "(('a, 'b) kinetic_handler, 'c) blob_client"
  assume b1: "in_headers (SoftError 200 200 ''OK'') b1" "no_target (bc_handler b1)"
  from b1(2) have "KineticHandler_GetDownload (bc_handler b1) = None" "KineticHandler_GetRemoval (bc_handler b1) = None"
    by (rule no_target_downloads, rule no_target_removals)
  with b1(1) ok assms(4) put_no_target [OF b1(1) ok b1(2) assms(3)]
  show "sevents ml (kinetic_blob_handler parse_url lexer fl lib render dr) req b1 = None"
    by (auto simp: in_headers_def start_settings_def on_headers_complete_COMMON_def on_headers_complete_DOWNLOAD_def
        on_headers_complete_REMOVAL_def)
qed

theorem kinetic_proxy_serves_nothing_witness:
  "sevents demo_mill (kinetic_blob_handler path_url (\<lambda>k. if k = ''X-oio-target'' then KH_Target else KH_Unexpected)
      demo_floats (demo_pb demo_command \<lparr>pm_commandbytes = None, pm_hmacauth = True, pm_identity = 0, pm_hmac = []\<rparr>)
      (\<lambda>ts. ''x'') demo_drive)
    [S_begin, S_url ''/v/b'', S_field ''X-oio-target'', S_value ''h:1'', S_headers_complete HTTP_GET]
    (BlobClient demo_mill (open_conn [] [] []) (KineticHandler 0)) = None"
proof -
  have "url_basename path_url ''/v/b'' = Some (Inr ''b'')" using path_url_basename [of "''b''" "''/v''"] by simp
  then have "sevents demo_mill (kinetic_blob_handler path_url (\<lambda>k. if k = ''X-oio-target'' then KH_Target else KH_Unexpected)
      demo_floats (demo_pb demo_command \<lparr>pm_commandbytes = None, pm_hmacauth = True, pm_identity = 0, pm_hmac = []\<rparr>)
      (\<lambda>ts. ''x'') demo_drive)
    ([S_begin, S_url ''/v/b''] @ header_events [(''X-oio-target'', ''h:1'')] @ [S_headers_complete HTTP_GET])
    (BlobClient demo_mill (open_conn [] [] []) (KineticHandler 0)) = None"
    by (intro kinetic_proxy_serves_nothing [where es = "[]" and i = 0 and c = "open_conn [] [] []" and s = 0 and bufs = "[]"]) simp_all
  then show ?thesis by (simp only: header_events.simps append.simps)
qed

end
