(* ===== verification/Header_Lexers.thy ===== *)
theory Header_Lexers
  imports Rawx_System Ec_Proxy Kinetic_Proxy
begin

text \<open>
  The scanners of header names (\<open>src/bin/common-server-headers.rl\<close>, \<open>rawx-server-headers.rl\<close>,
  \<open>ec-proxy-headers.rl\<close>, \<open>kinetic-proxy-headers.rl\<close>), from which ragel makes the \<open>Parse\<close> of the four header classes, and
  what comes of them with the handlers, whose parameter a lexer is.
\<close>

section \<open>Scanners\<close>

text \<open>
  A rule is a word, without regard to case, what may follow it, and the value of its action.  A scanner takes the
  longest match, the first rule of it, runs its action, and starts again behind it; where nothing matches it
  stops, and what the last action has set stays.
\<close>

datatype rl_tail = T_end | T_any | T_star char

type_synonym 'v rl_rule = "string \<times> rl_tail \<times> 'v"

definition lower :: "char \<Rightarrow> char" where
  "lower c = (let n = of_char c :: nat in if 65 \<le> n \<and> n \<le> 90 then char_of (n + 32) else c)"

lemma lower_simps [simp]:
  "lower CHR ''A'' = CHR ''a''" "lower CHR ''B'' = CHR ''b''" "lower CHR ''C'' = CHR ''c''" "lower CHR ''D'' = CHR ''d''"
  "lower CHR ''E'' = CHR ''e''" "lower CHR ''F'' = CHR ''f''" "lower CHR ''G'' = CHR ''g''" "lower CHR ''H'' = CHR ''h''"
  "lower CHR ''I'' = CHR ''i''" "lower CHR ''J'' = CHR ''j''" "lower CHR ''K'' = CHR ''k''" "lower CHR ''L'' = CHR ''l''"
  "lower CHR ''M'' = CHR ''m''" "lower CHR ''N'' = CHR ''n''" "lower CHR ''O'' = CHR ''o''" "lower CHR ''P'' = CHR ''p''"
  "lower CHR ''Q'' = CHR ''q''" "lower CHR ''R'' = CHR ''r''" "lower CHR ''S'' = CHR ''s''" "lower CHR ''T'' = CHR ''t''"
  "lower CHR ''U'' = CHR ''u''" "lower CHR ''V'' = CHR ''v''" "lower CHR ''W'' = CHR ''w''" "lower CHR ''X'' = CHR ''x''"
  "lower CHR ''Y'' = CHR ''y''" "lower CHR ''Z'' = CHR ''z''" "lower CHR ''a'' = CHR ''a''" "lower CHR ''b'' = CHR ''b''"
  "lower CHR ''c'' = CHR ''c''" "lower CHR ''d'' = CHR ''d''" "lower CHR ''e'' = CHR ''e''" "lower CHR ''f'' = CHR ''f''"
  "lower CHR ''g'' = CHR ''g''" "lower CHR ''h'' = CHR ''h''" "lower CHR ''i'' = CHR ''i''" "lower CHR ''j'' = CHR ''j''"
  "lower CHR ''k'' = CHR ''k''" "lower CHR ''l'' = CHR ''l''" "lower CHR ''m'' = CHR ''m''" "lower CHR ''n'' = CHR ''n''"
  "lower CHR ''o'' = CHR ''o''" "lower CHR ''p'' = CHR ''p''" "lower CHR ''q'' = CHR ''q''" "lower CHR ''r'' = CHR ''r''"
  "lower CHR ''s'' = CHR ''s''" "lower CHR ''t'' = CHR ''t''" "lower CHR ''u'' = CHR ''u''" "lower CHR ''v'' = CHR ''v''"
  "lower CHR ''w'' = CHR ''w''" "lower CHR ''x'' = CHR ''x''" "lower CHR ''y'' = CHR ''y''" "lower CHR ''z'' = CHR ''z''"
  "lower CHR ''-'' = CHR ''-''" "lower CHR ''0'' = CHR ''0''" "lower CHR ''1'' = CHR ''1''" "lower CHR ''2'' = CHR ''2''"
  "lower CHR ''3'' = CHR ''3''" "lower CHR ''4'' = CHR ''4''" "lower CHR ''5'' = CHR ''5''" "lower CHR ''6'' = CHR ''6''"
  "lower CHR ''7'' = CHR ''7''" "lower CHR ''8'' = CHR ''8''" "lower CHR ''9'' = CHR ''9''"
  by (simp_all add: lower_def char_of_def bit_Suc_0_iff)

fun tail_length :: "rl_tail \<Rightarrow> string \<Rightarrow> nat" where
  "tail_length T_end s = 0"
| "tail_length T_any s = length s"
| "tail_length (T_star c) s = length (takeWhile (\<lambda>x. lower x = lower c) s)"

definition rule_match :: "string \<Rightarrow> rl_tail \<Rightarrow> string \<Rightarrow> nat option" where
  "rule_match w t s =
     (if map lower (take (length w) s) = map lower w then Some (length w + tail_length t (drop (length w) s)) else None)"

fun longest :: "'v rl_rule list \<Rightarrow> string \<Rightarrow> (nat \<times> 'v) option" where
  "longest [] s = None"
| "longest ((w, t, v) # rs) s =
     (case (rule_match w t s, longest rs s) of
        (None, r) \<Rightarrow> r
      | (Some n, None) \<Rightarrow> Some (n, v)
      | (Some n, Some (m, v')) \<Rightarrow> if n < m then Some (m, v') else Some (n, v))"

function scan :: "'v rl_rule list \<Rightarrow> 'v \<Rightarrow> string \<Rightarrow> 'v" where
  "scan rs v s =
     (case longest rs s of
        None \<Rightarrow> v
      | Some (n, v') \<Rightarrow> if n = 0 \<or> s = [] then v' else scan rs v' (drop n s))"
  by pat_completeness auto
termination by (relation "measure (\<lambda>(rs, v, s). length s)") auto

declare scan.simps [simp del]

section \<open>The four machines\<close>

definition common_rules :: "header_value rl_rule list" where
  "common_rules =
     [(''Content-length'', T_end, ContentLength), (''Content-type'', T_end, ContentType), (''Expect'', T_end, Expect),
      (''Connection'', T_end, Connection), (''Accept'', T_end, Accept), (''User-agent'', T_end, UserAgent),
      (''Range'', T_end, Custom), (''Host'', T_end, Custom), (''X-oio-'', T_any, Custom)]"

definition HeaderCommon_Parse :: "string \<Rightarrow> header_value" where
  "HeaderCommon_Parse k = scan common_rules Unexpected k"

fun HeaderCommon_Name :: "header_value \<Rightarrow> string" where
  "HeaderCommon_Name ContentLength = ''ContentLength''"
| "HeaderCommon_Name ContentType = ''ContentType''"
| "HeaderCommon_Name Expect = ''Expect''"
| "HeaderCommon_Name Connection = ''Connection''"
| "HeaderCommon_Name Host = ''Host''"
| "HeaderCommon_Name Accept = ''Accept''"
| "HeaderCommon_Name UserAgent = ''UserAgent''"
| "HeaderCommon_Name Custom = ''Custom''"
| "HeaderCommon_Name Unexpected = ''Unexpected''"

definition rawx_rules :: "rawx_value rl_rule list" where
  "rawx_rules =
     [(''X-oio-chunk-meta-container-id'', T_end, RH_ContainerId), (''X-oio-chunk-meta-content-id'', T_end, RH_ContentId),
      (''X-oio-chunk-meta-content-path'', T_end, RH_ContentPath), (''X-oio-chunk-meta-content-hash'', T_end, RH_ContentHash),
      (''X-oio-chunk-meta-content-size'', T_end, RH_ContentSize), (''X-oio-chunk-meta-chunk-id'', T_end, RH_ChunkId),
      (''X-oio-chunk-meta-chunk-hash'', T_end, RH_ChunkHash), (''X-oio-chunk-meta-chunk-size'', T_end, RH_ChunkSize),
      (''X-oio-chunk-meta-chunk-pos'', T_end, RH_ChunkPosition)]"

definition RawxHeader_Parse :: "string \<Rightarrow> rawx_value" where
  "RawxHeader_Parse k = scan rawx_rules RH_Unexpected k"

text \<open>In the eighth rule of the EC proxy the star is behind the dash: any number of dashes.\<close>

definition ec_rules :: "ec_value rl_rule list" where
  "ec_rules =
     [(''x-oio-req-id'', T_end, EH_ReqId), (''x-oio-chunk-meta-container-id'', T_end, EH_ContainerId),
      (''x-oio-chunk-meta-content-path'', T_end, EH_ContentPath), (''x-oio-chunk-meta-content-version'', T_end, EH_ContentVersion),
      (''X-oio-chunk-meta-content-id'', T_end, EH_ContentId),
      (''x-oio-chunk-meta-content-storage-policy'', T_end, EH_StoragePolicy),
      (''x-oio-chunk-meta-content-chunk-method'', T_end, EH_ChunkMethod),
      (''x-oio-chunk-meta-content-mime-type'', T_end, EH_MineType), (''x-oio-chunk-meta-chunk'', T_star CHR ''-'', EH_ChunkDest),
      (''x-oio-chunk-meta-chunks-nb'', T_end, EH_Chunks), (''x-oio-chunk-meta-chunk-pos'', T_end, EH_ChunkPos),
      (''x-oio-chunk-meta-chunk-size'', T_end, EH_ChunkSize), (''Range'', T_end, EH_Range), (''Host'', T_end, EH_Host),
      (''transfer-encoding'', T_end, EH_TransferEncoding)]"

definition EcHeader_Parse :: "string \<Rightarrow> ec_value" where
  "EcHeader_Parse k = scan ec_rules EH_Unexpected k"

definition kinetic_rules :: "kinetic_value rl_rule list" where
  "kinetic_rules =
     [(''x-oio-target'', T_any, KH_Target), (''x-oio-meta-container-id'', T_end, KH_ContainerId),
      (''x-oio-meta-content-id'', T_end, KH_ContentId), (''x-oio-meta-content-path'', T_end, KH_ContentPath),
      (''x-oio-meta-content-hash'', T_end, KH_ContentHash), (''x-oio-meta-content-size'', T_end, KH_ContentSize),
      (''x-oio-meta-chunk-id'', T_end, KH_ChunkId), (''x-oio-meta-chunk-hash'', T_end, KH_ChunkHash),
      (''x-oio-meta-chunk-size'', T_end, KH_ChunkSize), (''x-oio-meta-chunk-pos'', T_end, KH_ChunkPosition)]"

definition KineticHeader_Parse :: "string \<Rightarrow> kinetic_value" where
  "KineticHeader_Parse k = scan kinetic_rules KH_Unexpected k"

lemmas scan_eval = rule_match_def common_rules_def rawx_rules_def ec_rules_def kinetic_rules_def

lemma scan_None: "longest rs s = None \<Longrightarrow> scan rs v s = v"
  by (simp add: scan.simps)

text \<open>A rule that alone matches gives its value; a scan gives the value it starts with or that of a rule.\<close>

lemma longest_unique:
  assumes "(w, t, v) \<in> set rs" and "rule_match w t s = Some n"
    and "\<forall>(w', t', v') \<in> set rs. (w', t', v') \<noteq> (w, t, v) \<longrightarrow> rule_match w' t' s = None"
  shows "longest rs s = Some (n, v)"
proof -
  have none: "longest rs s = None \<or> longest rs s = Some (n, v)"
    if "\<forall>(w', t', v') \<in> set rs. (w', t', v') \<noteq> (w, t, v) \<longrightarrow> rule_match w' t' s = None" for rs
    using that
  proof (induction rs)
    case (Cons r rs)
    obtain w' t' v' where r: "r = (w', t', v')" by (cases r) auto
    with Cons assms(2) show ?case by (cases "(w', t', v') = (w, t, v)") (auto split: option.split)
  qed simp
  have "longest rs s \<noteq> None" if "(w, t, v) \<in> set rs" for rs
    using that
  proof (induction rs)
    case (Cons r rs)
    obtain w' t' v' where r: "r = (w', t', v')" by (cases r) auto
    with Cons assms(2) show ?case by (cases "rule_match w' t' s"; cases "longest rs s") auto
  qed simp
  with none [OF assms(3)] assms(1) show ?thesis by blast
qed

lemma longest_value: "longest rs s = Some (n, v) \<Longrightarrow> v \<in> (snd \<circ> snd) ` set rs"
proof (induction rs arbitrary: n v)
  case (Cons r rs)
  obtain w' t' v' where r: "r = (w', t', v')" by (cases r) auto
  with Cons show ?case by (auto split: option.splits if_splits)
qed simp

lemma scan_value: "scan rs v s = v \<or> scan rs v s \<in> (snd \<circ> snd) ` set rs"
proof (induction rs v s rule: scan.induct)
  case (1 rs v s)
  show ?case
  proof (cases "longest rs s")
    case (Some x)
    obtain n v' where x: "x = (n, v')" by fastforce
    have u: "scan rs v s = (if n = 0 \<or> s = [] then v' else scan rs v' (drop n s))"
      using Some x by (simp add: scan.simps [of rs v s])
    have "v' \<in> (snd \<circ> snd) ` set rs" using Some x by (intro longest_value) simp
    moreover have "\<not> (n = 0 \<or> s = []) \<Longrightarrow> scan rs v' (drop n s) = v' \<or> scan rs v' (drop n s) \<in> (snd \<circ> snd) ` set rs"
      using 1 [OF Some x [symmetric]] by blast
    ultimately show ?thesis unfolding u by (cases "n = 0 \<or> s = []") auto
  qed (simp add: scan_None)
qed

text \<open>Words none of which begins another.\<close>

definition exact_rules :: "'v rl_rule list \<Rightarrow> bool" where
  "exact_rules rs = (\<forall>(w, t, v) \<in> set rs. w \<noteq> [] \<and> t = T_end
     \<and> (\<forall>(w', t', v') \<in> set rs. take (length w) (map lower w') = map lower w \<longrightarrow> (w', t', v') = (w, t, v)))"

lemma scan_exact:
  assumes "exact_rules rs" and "(w, t, v) \<in> set rs" and "map lower k = map lower w"
  shows "scan rs u (k @ s) = scan rs v s"
proof -
  have w: "w \<noteq> []" "t = T_end" using assms(1,2) by (auto simp: exact_rules_def)
  have len: "length k = length w" using assms(3) by (metis length_map)
  have "rule_match w t (k @ s) = Some (length w)" using assms(3) len w(2) by (simp add: rule_match_def)
  moreover have "rule_match w' t' (k @ s) = None" if r: "(w', t', v') \<in> set rs" "(w', t', v') \<noteq> (w, t, v)" for w' t' v'
  proof -
    have "\<not> map lower (take (length w') (k @ s)) = map lower w'"
    proof
      assume m: "map lower (take (length w') (k @ s)) = map lower w'"
      have "take (length w') (map lower w) = map lower w' \<or> take (length w) (map lower w') = map lower w"
      proof (cases "length w' \<le> length w")
        case True
        with m len have "take (length w') (map lower k) = map lower w'" by (simp add: take_map)
        with assms(3) show ?thesis by simp
      next
        case False
        with m len have "take (length w) (map lower w') = map lower k" by (simp flip: m add: take_map min_def)
        with assms(3) show ?thesis by simp
      qed
      with assms(1,2) r show False unfolding exact_rules_def by fastforce
    qed
    then show "rule_match w' t' (k @ s) = None" by (simp add: rule_match_def)
  qed
  then have "\<forall>(w', t', v') \<in> set rs. (w', t', v') \<noteq> (w, t, v) \<longrightarrow> rule_match w' t' (k @ s) = None" by blast
  ultimately have "longest rs (k @ s) = Some (length w, v)" by (rule longest_unique [OF assms(2)])
  with w(1) len show ?thesis by (subst scan.simps) auto
qed

lemma exact_rawx: "exact_rules rawx_rules"
  by (simp add: exact_rules_def rawx_rules_def)

section \<open>What a rawx server keeps of what a client declares\<close>

text \<open>The attribute a header is kept under.\<close>

definition header_attr :: "string \<Rightarrow> string option" where
  "header_attr k = (if HeaderCommon_Parse k = Custom \<and> RawxHeader_Matched (RawxHeader_Parse k)
     then Some (RawxHeader_StorageName (RawxHeader_Parse k)) else None)"

lemma server_attrs_None:
  assumes "ml_lex ml = HeaderCommon_Parse" and "\<forall>(k, v) \<in> set kvs. header_attr k \<noteq> Some a" and "om_inv xs"
  shows "om_get (server_attrs ml RawxHeader_Parse kvs xs) a = om_get xs a"
  using assms(2,3)
proof (induction kvs arbitrary: xs)
  case (Cons kv kvs)
  obtain k v where kv: "kv = (k, v)" by fastforce
  with Cons.prems show ?case
    by (auto simp: assms(1) header_attr_def om_get_put Cons.IH om_inv_put split: if_splits)
qed simp

lemma server_attrs_Some:
  assumes "ml_lex ml = HeaderCommon_Parse" and "(k, v) \<in> set kvs" and "header_attr k = Some a"
    and "\<forall>(k', v') \<in> set kvs. header_attr k' = Some a \<longrightarrow> v' = v" and "om_inv xs"
  shows "om_get (server_attrs ml RawxHeader_Parse kvs xs) a = Some v"
  using assms(2-5)
proof (induction kvs arbitrary: k xs)
  case (Cons kv kvs)
  obtain k' v' where kv: "kv = (k', v')" by fastforce
  define ys where "ys = server_attrs ml RawxHeader_Parse [(k', v')] xs"
  have ys: "om_inv ys" "server_attrs ml RawxHeader_Parse (kv # kvs) xs = server_attrs ml RawxHeader_Parse kvs ys"
    using Cons.prems(4) by (simp_all add: ys_def kv om_inv_put)
  show ?case
  proof (cases "\<exists>(k, v) \<in> set kvs. header_attr k = Some a")
    case True
    then obtain k1 v1 where k1: "(k1, v1) \<in> set kvs" "header_attr k1 = Some a" by auto
    moreover from k1 Cons.prems(3) have "v1 = v" by auto
    ultimately show ?thesis using Cons.IH [of k1 ys] Cons.prems(3) ys by simp
  next
    case False
    with Cons.prems(1,2) kv have "(k', v') = (k, v)" by auto
    with Cons.prems(2,4) have "om_get ys a = Some v"
      by (simp add: ys_def assms(1) header_attr_def om_get_put split: if_splits)
    moreover from False have "\<forall>(k, v) \<in> set kvs. header_attr k \<noteq> Some a" by auto
    ultimately show ?thesis using server_attrs_None [OF assms(1) _ ys(1)] ys(2) by simp
  qed
qed simp

lemma om_get_map_of: "om_get m = map_of m"
  by (induction m) (auto simp: fun_eq_iff)

lemma om_get_mem: "om_inv m \<Longrightarrow> (k, v) \<in> set m \<longleftrightarrow> om_get m k = Some v"
  by (simp add: om_get_map_of om_inv_distinct)

lemma rq_fields_add: "rq_fields (add_fields kvs r) = fold (\<lambda>(k, v). om_put k v) kvs (rq_fields r)"
  by (induction kvs r rule: add_fields.induct) (simp_all add: Request_Field_def)

text \<open>The fields of an upload are \<open>Host\<close> and those of its builder.\<close>

lemma put_request_fields:
  assumes "om_inv (hb_fields cb)" and "hb_trailers cb = []"
  shows "om_inv (rq_fields (put_request hp cb))"
    and "om_get (rq_fields (put_request hp cb)) k =
      (case om_get (hb_fields cb) k of Some v \<Rightarrow> Some v | None \<Rightarrow> if k = ''Host'' then Some (hb_host cb) else None)"
proof -
  have f: "rq_fields (put_request hp cb) = fold (\<lambda>(k, v). om_put k v) (hb_fields cb) (om_put ''Host'' (hb_host cb) [])"
    using assms(2) by (simp add: put_request_def RawxUpload_Build_def HttpUpload_Build_def Let_def rq_fields_add Request_Field_def
        Request_Selector_def Request_Method_def Request_ContentLength_def Request_def)
  have i: "om_inv (om_put ''Host'' (hb_host cb) [])" by (rule om_inv_put) simp
  show "om_inv (rq_fields (put_request hp cb))" unfolding f by (rule om.inv_puts [OF i])
  have d: "distinct (map fst (hb_fields cb))" "distinct (map fst (rev (hb_fields cb)))"
    using om_inv_distinct [OF assms(1)] by (simp_all add: rev_map [symmetric])
  have "map_of (rev (hb_fields cb)) k = Some v \<longleftrightarrow> om_get (hb_fields cb) k = Some v" for k v
    by (simp only: map_of_eq_Some_iff [OF d(1)] map_of_eq_Some_iff [OF d(2)] om_get_map_of set_rev)
  then have "map_of (rev (hb_fields cb)) = om_get (hb_fields cb)" by (metis ext not_Some_eq)
  then show "om_get (rq_fields (put_request hp cb)) k =
      (case om_get (hb_fields cb) k of Some v \<Rightarrow> Some v | None \<Rightarrow> if k = ''Host'' then Some (hb_host cb) else None)"
    unfolding f om.get_puts [OF i] by (simp split: option.split)
qed

text \<open>What a program declares with the builder of an upload.\<close>

definition declares :: "rawx_command \<Rightarrow> string \<Rightarrow> string \<Rightarrow> string \<Rightarrow> string \<Rightarrow> string \<Rightarrow> string \<Rightarrow> int \<Rightarrow> (string \<times> string) list \<Rightarrow> http_builder" where
  "declares pm c p i mt sp cm ver props = fold (\<lambda>(k, v). Rawx_Property k v) props
     (ContentVersion ver (ChunkMethod cm (StoragePolicy sp (MimeType mt (ContentId i (ContentPath p (ContainerId c
       (RawxUpload_set_param pm no_builder))))))))"

lemma fold_property:
  "hb_fields (fold (\<lambda>(k, v). Rawx_Property k v) props b) =
     fold (\<lambda>(k, v). om_put k v) (map (\<lambda>(k, v). (''X-oio-chunk-meta-x-'' @ k, v)) props) (hb_fields b)"
  "hb_trailers (fold (\<lambda>(k, v). Rawx_Property k v) props b) = hb_trailers b"
  by (induction props arbitrary: b) (auto simp: Rawx_Property_def Builder_Field_def)

lemmas builder_defs = ContentVersion_def ChunkMethod_def StoragePolicy_def MimeType_def ContentId_def ContentPath_def ContainerId_def
  RawxUpload_set_param_def Builder_Field_def Builder_Name_def Builder_Host_def no_builder_def

text \<open>The fields that have an attribute, and the others; and the attributes.\<close>

definition kept_fields :: "rawx_command \<Rightarrow> string \<Rightarrow> string \<Rightarrow> string \<Rightarrow> (string \<times> string) list" where
  "kept_fields pm c p i =
     [(''X-oio-chunk-meta-container-id'', c), (''X-oio-chunk-meta-content-path'', p), (''X-oio-chunk-meta-content-id'', i),
      (''X-oio-chunk-meta-chunk-id'', ru_chunk_id (rc_url pm)),
      (''X-oio-chunk-meta-chunk-pos'', show_dec (rg_size (rc_range pm)) @ ''.0'')]"

definition dropped_fields :: "string \<Rightarrow> string \<Rightarrow> string \<Rightarrow> int \<Rightarrow> (string \<times> string) list" where
  "dropped_fields mt sp cm ver =
     [(''X-oio-chunk-meta-content-mime-type'', mt), (''X-oio-chunk-meta-content-storage-policy'', sp),
      (''X-oio-chunk-meta-content-chunk-method'', cm), (''X-oio-chunk-meta-content-version'', show_int ver)]"

definition kept_attrs :: "rawx_command \<Rightarrow> string \<Rightarrow> string \<Rightarrow> string \<Rightarrow> (string \<times> string) list" where
  "kept_attrs pm c p i = [(''container.id'', c), (''content.path'', p), (''content.id'', i), (''chunk.id'', ru_chunk_id (rc_url pm)),
     (''chunk.pos'', show_dec (rg_size (rc_range pm)) @ ''.0'')]"

lemma declares_fields:
  assumes cb_def: "cb = declares pm c p i mt sp cm ver props"
  shows "om_inv (hb_fields cb)" and "hb_trailers cb = []"
    and "om_get (hb_fields cb) k = (case map_of (rev (map (\<lambda>(k, v). (''X-oio-chunk-meta-x-'' @ k, v)) props)) k of
        Some v \<Rightarrow> Some v
      | None \<Rightarrow> map_of (kept_fields pm c p i @ dropped_fields mt sp cm ver) k)"
proof -
  define base where "base = ContentVersion ver (ChunkMethod cm (StoragePolicy sp (MimeType mt (ContentId i (ContentPath p (ContainerId c
       (RawxUpload_set_param pm no_builder)))))))"
  have b: "om_inv (hb_fields base)" by (simp only: base_def builder_defs http_builder.simps om_inv_put om_inv_Nil)
  have g: "om_get (hb_fields base) k = map_of (kept_fields pm c p i @ dropped_fields mt sp cm ver) k"
    by (simp only: base_def builder_defs http_builder.simps om_inv_put om_inv_Nil om_get_put map_of.simps om_get.simps
        kept_fields_def dropped_fields_def append.simps fst_conv snd_conv) simp
  show "om_inv (hb_fields cb)" unfolding cb_def declares_def fold_property base_def [symmetric] by (rule om.inv_puts [OF b])
  show "hb_trailers cb = []" by (simp add: cb_def declares_def fold_property builder_defs)
  show "om_get (hb_fields cb) k = (case map_of (rev (map (\<lambda>(k, v). (''X-oio-chunk-meta-x-'' @ k, v)) props)) k of
        Some v \<Rightarrow> Some v
      | None \<Rightarrow> map_of (kept_fields pm c p i @ dropped_fields mt sp cm ver) k)"
    unfolding cb_def declares_def fold_property base_def [symmetric] om.get_puts [OF b] g ..
qed

text \<open>The attributes of the names a client uses.\<close>

lemma header_attrs:
  "header_attr ''X-oio-chunk-meta-container-id'' = Some ''container.id''"
  "header_attr ''X-oio-chunk-meta-content-path'' = Some ''content.path''"
  "header_attr ''X-oio-chunk-meta-content-id'' = Some ''content.id''"
  "header_attr ''X-oio-chunk-meta-chunk-id'' = Some ''chunk.id''"
  "header_attr ''X-oio-chunk-meta-chunk-pos'' = Some ''chunk.pos''"
  "header_attr ''X-oio-chunk-meta-content-mime-type'' = None"
  "header_attr ''X-oio-chunk-meta-content-storage-policy'' = None"
  "header_attr ''X-oio-chunk-meta-content-chunk-method'' = None"
  "header_attr ''X-oio-chunk-meta-content-version'' = None"
  "header_attr ''Host'' = None" "header_attr ''Transfer-encoding'' = None"
  by (simp_all add: header_attr_def HeaderCommon_Parse_def RawxHeader_Parse_def scan.simps scan_eval RawxHeader_Matched_def)

lemma header_attr_property: "header_attr (''X-oio-chunk-meta-x-'' @ k) = None"
  by (simp add: header_attr_def RawxHeader_Parse_def scan.simps scan_eval RawxHeader_Matched_def)

lemma dropped_attr: "map_of (dropped_fields mt sp cm ver) k = Some v \<Longrightarrow> header_attr k = None"
  by (drule map_of_SomeD) (auto simp: dropped_fields_def header_attrs)

lemma kept_attrs_eq: "kept_attrs pm c p i = map (\<lambda>(k, v). (the (header_attr k), v)) (kept_fields pm c p i)"
  by (simp add: kept_attrs_def kept_fields_def header_attrs)

lemma kept_fields_attr: "\<forall>(k, v) \<in> set (kept_fields pm c p i). header_attr k \<noteq> None"
  by (simp add: kept_fields_def header_attrs)

lemma kept_distinct: "distinct (map fst (kept_fields pm c p i))" "distinct (map fst (kept_attrs pm c p i))"
  by (simp_all add: kept_fields_def kept_attrs_def)

lemma kept_attr:
  assumes "map_of (kept_fields pm c p i) k = Some v" and "header_attr k = Some a"
  shows "map_of (kept_attrs pm c p i) a = Some v"
  using map_of_SomeD [OF assms(1)] assms(2) unfolding map_of_eq_Some_iff [OF kept_distinct(2)]
  by (force simp: kept_attrs_eq)

lemma attr_kept:
  assumes "map_of (kept_attrs pm c p i) a = Some v"
  shows "\<exists>k. map_of (kept_fields pm c p i) k = Some v \<and> header_attr k = Some a"
proof -
  from map_of_SomeD [OF assms] obtain k where k: "(k, v) \<in> set (kept_fields pm c p i)" "a = the (header_attr k)"
    by (auto simp: kept_attrs_eq)
  with kept_fields_attr [of pm c p i] have "header_attr k = Some a" by auto
  with k(1) show ?thesis unfolding map_of_eq_Some_iff [OF kept_distinct(1)] by blast
qed

section \<open>Properties\<close>

text \<open>C3. Of what a client declares with an upload the rawx server keeps, with the scanners of the two programs, exactly this:
  the ids of the container, of the content and of the chunk, the path, and the position of the chunk.  The MIME
  type, the storage policy, the chunk method, the version of the content and the properties are dropped.\<close>

theorem rawx_upload_attributes:
  assumes "cb = declares pm c p i mt sp cm ver props" and "ml_lex ml = HeaderCommon_Parse" and "in_headers e b" and "SoftError_Ok e"
    and "om_inv (rh_xattrs (bc_handler b))"
  shows "\<exists>b'. sevents ml (rawx_blob_handler parse_url RawxHeader_Parse batch attempts) (header_events (request_fields (put_request hp cb))) b =
      Some (0, b')
    \<and> om_get (rh_xattrs (bc_handler b')) = om_get (rh_xattrs (bc_handler b)) ++ map_of
        [(''container.id'', c), (''content.path'', p), (''content.id'', i), (''chunk.id'', ru_chunk_id (rc_url pm)),
         (''chunk.pos'', show_dec (rg_size (rc_range pm)) @ ''.0'')]"
proof -
  define xs where "xs = rh_xattrs (bc_handler b)"
  define m where "m = rq_fields (put_request hp cb)"
  define kvs where "kvs = (''Transfer-encoding'', ''chunked'') # m"
  note d = declares_fields [OF assms(1)]
  note f = put_request_fields [OF d(1,2), of hp, folded m_def]
  let ?P = "map (\<lambda>(k, v). (''X-oio-chunk-meta-x-'' @ k, v)) props"
  have pr: "header_attr k = None" if "map_of (rev ?P) k = Some v" for k v
    using map_of_SomeD [OF that] header_attr_property by auto
  have known: "map_of (kept_attrs pm c p i) a = Some v" if "(k, v) \<in> set kvs" "header_attr k = Some a" for k v a
  proof -
    have "k \<noteq> ''Transfer-encoding''" "k \<noteq> ''Host''" using that(2) header_attrs(10,11) by auto
    with that(1) om_get_mem [OF f(1)] have "om_get (hb_fields cb) k = Some v" unfolding f(2) kvs_def by (auto split: option.splits)
    with pr that(2) have "map_of (kept_fields pm c p i @ dropped_fields mt sp cm ver) k = Some v" unfolding d(3) by (auto split: option.splits)
    with dropped_attr [of mt sp cm ver k] that(2) kept_attr show ?thesis by (auto simp: map_add_Some_iff)
  qed
  have T: "(k, v) \<in> set kvs" if "map_of (kept_fields pm c p i) k = Some v" "header_attr k = Some a" for k v a
  proof -
    from pr that(2) have "map_of (rev ?P) k = None" by (metis not_None_eq option.distinct(1))
    with that(1) have "om_get m k = Some v" unfolding f(2) d(3) by (simp add: map_add_def)
    then show ?thesis using om_get_mem [OF f(1)] by (simp add: kvs_def)
  qed
  define res where "res = server_attrs ml RawxHeader_Parse kvs xs"
  have put: "om_get res a = Some v" if a: "map_of (kept_attrs pm c p i) a = Some v" for a v
  proof -
    from attr_kept [OF a] obtain k where k: "(k, v) \<in> set kvs" "header_attr k = Some a" using T by blast
    have "\<forall>(k', v') \<in> set kvs. header_attr k' = Some a \<longrightarrow> v' = v" using known a by fastforce
    from server_attrs_Some [OF assms(2) k this] show ?thesis using assms(5) by (simp add: res_def xs_def)
  qed
  have keep: "om_get res a = om_get xs a" if a: "map_of (kept_attrs pm c p i) a = None" for a
  proof -
    have "\<forall>(k, v) \<in> set kvs. header_attr k \<noteq> Some a" using known a by fastforce
    from server_attrs_None [OF assms(2) this] show ?thesis using assms(5) by (simp add: res_def xs_def)
  qed
  have "om_get res = om_get xs ++ map_of (kept_attrs pm c p i)"
    using put keep by (auto simp: fun_eq_iff map_add_def split: option.split)
  moreover from rawx_headers [OF assms(3,4), of ml parse_url RawxHeader_Parse batch attempts "request_fields (put_request hp cb)"] obtain x where
    "sevents ml (rawx_blob_handler parse_url RawxHeader_Parse batch attempts) (header_events (request_fields (put_request hp cb))) b =
      Some (0, b\<lparr>bc_field := x, bc_handler := (bc_handler b)\<lparr>rh_xattrs := res\<rparr>\<rparr>)"
    unfolding request_fields_def m_def [symmetric] kvs_def [symmetric] res_def xs_def by blast
  ultimately show ?thesis unfolding xs_def kept_attrs_def
    by (intro exI [of _ "b\<lparr>bc_field := x, bc_handler := (bc_handler b)\<lparr>rh_xattrs := res\<rparr>\<rparr>"]) simp
qed

text \<open>A client that has sent its request line.\<close>

theorem rawx_upload_attributes_witness:
  "\<exists>b'. sevents (demo_mill\<lparr>ml_lex := HeaderCommon_Parse\<rparr>) (rawx_blob_handler path_url RawxHeader_Parse 2 5)
      (header_events (request_fields (put_request proxy_parser (declares RawxCommand ''C'' ''p'' ''I'' ''t'' ''S'' ''m'' 1 [(''k'', ''v'')]))))
      (demo_conn demo_rawx) = Some (0, b')
    \<and> om_get (rh_xattrs (bc_handler b')) ''container.id'' = Some ''C'' \<and> om_get (rh_xattrs (bc_handler b')) ''x-k'' = None"
proof -
  let ?b = "demo_conn demo_rawx"
  have "in_headers (bc_defered ?b) ?b" "SoftError_Ok (bc_defered ?b)" "om_inv (rh_xattrs (bc_handler ?b))"
    by (simp_all add: in_headers_def demo_conn_def BlobClient_def SoftError_Ok_def SoftError_default_def)
  from rawx_upload_attributes [OF refl _ this, of "demo_mill\<lparr>ml_lex := HeaderCommon_Parse\<rparr>" path_url 2 5 proxy_parser
      RawxCommand "''C''" "''p''" "''I''" "''t''" "''S''" "''m''" 1 "[(''k'', ''v'')]"]
  show ?thesis by (auto simp: map_add_def)
qed

text \<open>C40. A header is taken for any known one its name begins with, whatever follows: the scanner sets the value at the end
  of the word, stops at what it does not know, and the value stays.\<close>

theorem rawx_header_prefix:
  assumes "(w, t, v) \<in> set rawx_rules" and "map lower k = map lower w"
  shows "RawxHeader_Matched (RawxHeader_Parse (k @ s)) \<and> (longest rawx_rules s = None \<longrightarrow> RawxHeader_Parse (k @ s) = v)"
proof -
  have e: "RawxHeader_Parse (k @ s) = scan rawx_rules v s"
    unfolding RawxHeader_Parse_def by (rule scan_exact [OF exact_rawx assms])
  have "v \<noteq> RH_Unexpected" "RH_Unexpected \<notin> (snd \<circ> snd) ` set rawx_rules" using assms(1) by (auto simp: rawx_rules_def)
  with scan_value [of rawx_rules v s] have "scan rawx_rules v s \<noteq> RH_Unexpected" by metis
  with e show ?thesis by (simp add: RawxHeader_Matched_def scan_None)
qed

theorem rawx_header_prefix_witness:
  "RawxHeader_Parse ''x-oio-chunk-meta-chunk-identity'' = RH_ChunkId"
proof -
  have "(''X-oio-chunk-meta-chunk-id'', T_end, RH_ChunkId) \<in> set rawx_rules" by (simp add: rawx_rules_def)
  from rawx_header_prefix [OF this, of "''x-oio-chunk-meta-chunk-id''" "''entity''"] show ?thesis
    by (simp add: scan_eval)
qed

text \<open>The rule for the chunks of the EC proxy, meant for numbers, takes every other name that begins like it.\<close>

lemma ec_chunk_headers:
  "EcHeader_Parse ''x-oio-chunk-meta-chunk-hash'' = EH_ChunkDest" "EcHeader_Parse ''x-oio-chunk-meta-chunk-id'' = EH_ChunkDest"
  "EcHeader_Parse ''x-oio-chunk-meta-chunk'' = EH_ChunkDest" "EcHeader_Parse ''X-oio-chunk-meta-chunk-12'' = EH_ChunkDest"
  by (simp_all add: EcHeader_Parse_def scan.simps scan_eval)

end
