(* ===== verification/Rawx_Durable.thy ===== *)
theory Rawx_Durable
  imports Rawx_Safety
begin

text \<open>
  What becomes of the blobs of a rawx server while nothing is deleted: the state of an upload, which file it has open
  and under which name, is an invariant of the handler, and no blob is replaced, altered or lost.  The proof
  instantiates the locale \<open>handler_serving\<close>.
\<close>

section \<open>System calls\<close>

text \<open>
  The system never pretends that a file is not there: \<open>ENOENT\<close> is what the resolution of a path finds, not a
  fault.  Any other call may fail in any other way.
\<close>

definition honest :: "world \<Rightarrow> bool" where
  "honest w = (Some ENOENT \<notin> set (w_faults w))"

named_theorems honest_calls

lemma honest_fault [honest_calls]: "next_fault w = (f, w') \<Longrightarrow> honest w \<Longrightarrow> honest w' \<and> f \<noteq> Some ENOENT"
  by (auto simp: next_fault_def honest_def split: list.splits if_splits)

lemma honest_names [simp]:
  "honest (w\<lparr>w_names := n\<rparr>) = honest w" "honest (w\<lparr>w_data := d\<rparr>) = honest w" "honest (w\<lparr>w_attr := a\<rparr>) = honest w"
  "honest (w\<lparr>w_next := k\<rparr>) = honest w" "honest (w\<lparr>w_wr := evs\<rparr>) = honest w" "honest (w\<lparr>w_rd := rds\<rparr>) = honest w"
  by (simp_all add: honest_def)

lemma honest_mkdir [honest_calls]: "sys_mkdir p w = (r, w') \<Longrightarrow> honest w \<Longrightarrow> honest w'"
  by (auto simp: sys_mkdir_def Let_def split: prod.splits option.splits if_splits dest!: honest_fault)

lemma honest_create [honest_calls]: "sys_create p w = (r, w') \<Longrightarrow> honest w \<Longrightarrow> honest w'"
  by (auto simp: sys_create_def Let_def split: prod.splits option.splits if_splits dest!: honest_fault)

lemma honest_lookup [honest_calls]: "sys_lookup p w = (r, w') \<Longrightarrow> honest w \<Longrightarrow> honest w'"
  by (auto simp: sys_lookup_def Let_def split: prod.splits option.splits if_splits dest!: honest_fault)

lemma honest_unlink [honest_calls]: "sys_unlink p w = (r, w') \<Longrightarrow> honest w \<Longrightarrow> honest w'"
  by (auto simp: sys_unlink_def split: prod.splits sum.splits entry.splits dest!: honest_lookup)

lemma honest_rename [honest_calls]: "sys_rename p q w = (r, w') \<Longrightarrow> honest w \<Longrightarrow> honest w'"
  by (auto simp: sys_rename_def split: prod.splits sum.splits option.splits if_splits dest!: honest_lookup)

lemma honest_set_attributes [simp]: "honest w \<Longrightarrow> honest (set_attributes kvs fd w)"
proof (induction kvs fd w rule: set_attributes.induct)
  case (2 k v kvs fd w)
  have "honest (snd (sys_fsetxattr fd (''user.grid.'' @ k) (bytes_of v) w))"
    using "2.prems" by (auto simp: sys_fsetxattr_def Let_def split: prod.splits dest!: honest_fault)
  with "2.IH" show ?case by simp
qed simp

text \<open>A look that finds nothing, where the directories are there, means that the name is free.\<close>

lemma lookup_free:
  assumes "sys_lookup p w = (Inl ENOENT, w')" and "honest w" and "walk (w_names w) p = None"
  shows "w_names w p = None"
proof -
  obtain f v where f: "next_fault w = (f, v)" by fastforce
  with honest_fault [OF f assms(2)] next_fault_same [OF f] same_fsD assms(1,3) show ?thesis
    by (auto simp: sys_lookup_def split: option.splits)
qed

text \<open>Calls that only add: every name, and every file there was, stays as it is.\<close>

definition grown :: "world \<Rightarrow> world \<Rightarrow> bool" where
  "grown v w = (w_next v \<le> w_next w \<and> (honest v \<longrightarrow> honest w) \<and> (fs_ok v \<longrightarrow> fs_ok w)
     \<and> (\<forall>p n. w_names v p = Some n \<longrightarrow> w_names w p = Some n)
     \<and> (\<forall>i < w_next v. w_data w i = w_data v i \<and> w_attr w i = w_attr v i))"

lemma grown_refl [simp]: "grown w w"
  by (simp add: grown_def)

lemma grown_trans: "grown u v \<Longrightarrow> grown v w \<Longrightarrow> grown u w"
  by (fastforce simp: grown_def)

lemma grown_same: "same_fs v w \<Longrightarrow> (honest v \<Longrightarrow> honest w) \<Longrightarrow> grown v w"
  by (auto simp: grown_def dest!: same_fsD)

lemma grown_lookup: "sys_lookup p w = (r, w') \<Longrightarrow> grown w w'"
  using sys_lookup_cases [of p w r w'] honest_lookup [of p w r w'] grown_same by blast

lemma grown_mkdir:
  assumes "sys_mkdir p w = (r, w')"
  shows "grown w w'"
proof -
  have "honest w \<Longrightarrow> honest w'" "fs_ok w \<Longrightarrow> fs_ok w'" using honest_mkdir [OF assms] sys_mkdir_laws [OF assms] by blast+
  with assms show ?thesis by - (erule sys_mkdir_cases; auto simp: grown_def dest!: same_fsD)
qed

lemma grown_create:
  assumes "sys_create p w = (r, w')"
  shows "grown w w'"
proof -
  have "honest w \<Longrightarrow> honest w'" "fs_ok w \<Longrightarrow> fs_ok w'" using honest_create [OF assms] sys_create_laws [OF assms] by blast+
  with assms show ?thesis by - (erule sys_create_cases; auto simp: grown_def dest!: same_fsD)
qed

lemma grown_createParent: "createParent p w = (r, w') \<Longrightarrow> grown w w'"
proof (induction p w rule: createParent.induct)
  case (1 p w)
  show ?case
  proof (cases "\<exists>slash. rfind CHR ''/'' p = Some slash \<and> slash \<noteq> 0")
    case False
    with "1.prems" show ?thesis by (auto simp: createParent.simps [of p] split: option.splits)
  next
    case True
    then obtain slash where s: "rfind CHR ''/'' p = Some slash" "slash \<noteq> 0" by blast
    obtain e v where m: "sys_mkdir (take slash p) w = (e, v)" by fastforce
    show ?thesis
    proof (cases "e = Some ENOENT")
      case True
      with "1.prems" s m have "createParent (take slash p) v = (r, w')" by (simp add: createParent.simps [of p])
      with "1.IH" [OF s m [symmetric, folded True]] grown_mkdir [OF m] True m s show ?thesis by (auto intro: grown_trans)
    next
      case False
      with "1.prems" s m grown_mkdir [OF m] show ?thesis by (auto simp: createParent.simps [of p] split: option.splits)
    qed
  qed
qed

lemma rename_fs_ok:
  assumes "sys_rename p q w = (r, w')" and "fs_ok w" and "p \<noteq> q"
  shows "fs_ok w'"
  using assms(1)
proof (cases rule: sys_rename_cases)
  case failed
  with assms(2) show ?thesis by simp
next
  case (moved v n)
  with assms(2,3) same_fsD [OF moved(2)] show ?thesis
    by (cases n) (auto simp: fs_ok_def names_ok_move names_ok_dir names_ok_del)
qed


section \<open>The state of an upload\<close>

text \<open>
  An upload has a descriptor exactly while it is prepared; then its pending name leads to the file it has open, and the final
  name is free.
\<close>

definition upload_typed :: "local_upload \<times> world \<Rightarrow> bool" where
  "upload_typed = (\<lambda>(u, w). lu_path_final u \<noteq> [] \<and> lu_path_temp u = lu_path_final u @ ''.pending'' \<and> om_inv (lu_attributes u)
     \<and> (lu_step u = Prepared \<longleftrightarrow> lu_fd u \<noteq> None)
     \<and> (\<forall>i. lu_fd u = Some i \<longrightarrow> w_names w (lu_path_temp u) = Some (Ino i) \<and> w_names w (lu_path_final u) = None))"

text \<open>The state of a handler that is not removing anything.\<close>

definition rawx_typed :: "rawx_handler \<Rightarrow> bool" where
  "rawx_typed h = (fs_ok (rh_world h) \<and> honest (rh_world h) \<and> om_inv (rh_xattrs h)
     \<and> (\<forall>r. rh_removal h = Some r \<longrightarrow> lr_step r = Done)
     \<and> (\<forall>u. rh_upload h = Some u \<longrightarrow> upload_typed (u, rh_world h)))"

text \<open>A blob: a file under a name, which no upload has open.\<close>

definition blob :: "rawx_handler \<Rightarrow> string \<Rightarrow> nat \<Rightarrow> bool" where
  "blob h p i = (w_names (rh_world h) p = Some (Ino i) \<and> (\<forall>u. rh_upload h = Some u \<longrightarrow> lu_fd u \<noteq> Some i))"

text \<open>The handler has gone on, and the blobs it had are where they were, as they were.\<close>

definition advances :: "rawx_handler \<Rightarrow> rawx_handler \<Rightarrow> bool" where
  "advances h h' = (rawx_typed h' \<and> (\<forall>p i. blob h p i \<longrightarrow> blob h' p i
     \<and> w_data (rh_world h') i = w_data (rh_world h) i \<and> w_attr (rh_world h') i = w_attr (rh_world h) i))"

lemma advances_refl: "rawx_typed h \<Longrightarrow> advances h h"
  by (simp add: advances_def)

lemma advances_trans: "advances h h1 \<Longrightarrow> advances h1 h2 \<Longrightarrow> advances h h2"
  unfolding advances_def by metis

lemma advances_typed: "advances h h' \<Longrightarrow> rawx_typed h'"
  by (simp add: advances_def)

lemma blob_exists: "rawx_typed h \<Longrightarrow> blob h p i \<Longrightarrow> i < w_next (rh_world h)"
  by (auto simp: rawx_typed_def blob_def fs_ok_def dest: names_okD)

text \<open>The retries of \<open>Prepare\<close>.\<close>

lemma prepare_retry_grown:
  assumes "prepare_retry b (u, w) = (r, u', w')" and "lu_fd u = None" and "honest w" and "fs_ok w"
    and "lu_path_final u \<noteq> []" and "lu_path_temp u = lu_path_final u @ ''.pending''"
  shows "grown w w' \<and> (if Ok r then \<exists>i. u' = u\<lparr>lu_fd := Some i\<rparr> \<and> w_next w \<le> i
      \<and> w_names w' (lu_path_temp u) = Some (Ino i) \<and> w_names w' (lu_path_final u) = None else u' = u)"
  using assms
proof (induction b "(u, w)" arbitrary: w rule: prepare_retry.induct)
  case (1 retryable w)
  obtain c w1 where c: "sys_create (lu_path_temp u) w = (c, w1)" by fastforce
  note g1 = grown_create [OF c]
  show ?case
  proof (cases c)
    case (Inl e)
    show ?thesis
    proof (cases "e = ENOENT \<and> retryable")
      case True
      obtain q w2 where q: "createParent (lu_path_temp u) w1 = (q, w2)" by fastforce
      have g2: "grown w w2" using g1 grown_createParent [OF q] by (rule grown_trans)
      show ?thesis
      proof (cases q)
        case None
        with "1.prems"(1) True Inl c q have p: "prepare_retry False (u, w2) = (r, u', w')"
          by (subst (asm) prepare_retry.simps) simp
        have w2: "honest w2" "fs_ok w2" "w_next w \<le> w_next w2" using g2 "1.prems"(3,4) by (simp_all add: grown_def)
        from "1.hyps" [OF c [symmetric] Inl] True q None p "1.prems"(2,5,6) w2(1,2)
        have "grown w2 w' \<and> (if Ok r then \<exists>i. u' = u\<lparr>lu_fd := Some i\<rparr> \<and> w_next w2 \<le> i
            \<and> w_names w' (lu_path_temp u) = Some (Ino i) \<and> w_names w' (lu_path_final u) = None else u' = u)" by auto
        with g2 w2(3) show ?thesis by (auto intro: grown_trans)
      next
        case (Some y)
        with "1.prems"(1) True Inl c q g2 show ?thesis by (subst (asm) prepare_retry.simps) auto
      qed
    next
      case False
      with "1.prems"(1) Inl c g1 show ?thesis by (auto simp: prepare_retry.simps [of retryable] split: if_splits)
    qed
  next
    case (Inr i)
    let ?t = "lu_path_temp u" and ?u = "u\<lparr>lu_fd := Some i\<rparr>"
    have new: "w_names w ?t = None" "i = w_next w" "w_names w1 = (w_names w)(?t \<mapsto> Ino i)" "walk (w_names w) ?t = None"
      using c Inr by (cases rule: sys_create_cases; simp)+
    have w1: "honest w1" "fs_ok w1" using g1 "1.prems"(3,4) by (simp_all add: grown_def)
    obtain l w2 where l: "sys_lookup (lu_path_final u) w1 = (l, w2)" by fastforce
    have g2: "grown w w2" using g1 grown_lookup [OF l] by (rule grown_trans)
    have same: "w_names w2 = w_names w1" using sys_lookup_cases [OF l] by (auto dest: same_fsD)
    have le: "l \<noteq> Inl E_none" using sys_lookup_error [OF l] .
    show ?thesis
    proof (cases "l = Inl ENOENT")
      case True
      have "walk (w_names w1) (lu_path_final u) = None"
        using new(3,4) "1.prems"(5,6) walk_cong_parent [of ?t "lu_path_final u"] by (simp add: walk_upd)
      with lookup_free [OF l [unfolded True] w1(1)] have "w_names w2 (lu_path_final u) = None" by (simp add: same)
      with "1.prems"(1) True Inr c l g2 new same show ?thesis by (auto simp: prepare_retry.simps [of retryable])
    next
      case False
      with le "1.prems"(1) Inr c l obtain st where st: "unlinkTempAndReset st (?u, w2) = (r, u', w')" "\<not> Ok r"
        by (cases l) (auto simp: prepare_retry.simps [of retryable] Let_def unlinkTempAndReset_def split: prod.splits if_splits)
      then obtain e where e: "sys_unlink ?t w2 = (e, w')" "u' = u"
        using "1.prems"(2) by (cases u) (auto simp: unlinkTempAndReset_def resetFD_def split: prod.splits)
      have h: "honest w'" using honest_unlink [OF e(1)] g2 "1.prems"(3) by (simp add: grown_def)
      have f: "fs_ok w'" using sys_unlink_laws(1) [OF e(1)] g2 "1.prems"(4) by (simp add: grown_def)
      from e(1) have "grown w w'"
        using g2 h f new(1) by (cases rule: sys_unlink_cases) (auto simp: grown_def dest!: same_fsD)
      with st(2) e(2) show ?thesis by simp
    qed
  qed
qed

section \<open>The operations of the handler\<close>

lemma advances_same:
  assumes "rawx_typed h" and "rh_world h' = rh_world h" and "rh_upload h' = rh_upload h" and "om_inv (rh_xattrs h')"
    and "\<forall>r. rh_removal h' = Some r \<longrightarrow> lr_step r = Done"
  shows "advances h h'"
  using assms by (simp add: advances_def rawx_typed_def blob_def)

lemma advances_names:
  assumes "rawx_typed h" and "kept (rh_world h) (rh_world h')" and "w_names (rh_world h') = w_names (rh_world h)"
    and "w_next (rh_world h') = w_next (rh_world h)" and "honest (rh_world h')"
    and "rh_upload h' = rh_upload h" and "rh_xattrs h' = rh_xattrs h" and "rh_removal h' = rh_removal h"
  shows "advances h h'"
  using assms blob_exists [OF assms(1)]
  by (auto simp: advances_def rawx_typed_def blob_def upload_typed_def fs_ok_def kept_def)

lemma advances_GetUpload:
  assumes "RawxHandler_GetUpload h = Some h'" and "rawx_typed h"
  shows "advances h h'"
proof -
  from assms(1) obtain p where p: "RawxHandler_path h = Some p" "h' = h\<lparr>rh_upload := Some (rawx_upload (rh_xattrs h) p)\<rparr>"
    by (auto simp: RawxHandler_GetUpload_def split: bind_splits)
  moreover have "p \<noteq> []" using p(1) by (auto simp: RawxHandler_path_def dest: rawx_path_not_Nil)
  ultimately show ?thesis using assms(2)
    by (auto simp: advances_def rawx_typed_def blob_def upload_typed_def rawx_upload_eq LocalUpload_Build_def LocalUpload_def)
qed

lemma with_upload_cases:
  assumes "with_upload f h = Some (rc, h')"
  obtains u u' w' where "rh_upload h = Some u" "f (u, rh_world h) = Some (rc, u', w')" "h' = h\<lparr>rh_upload := Some u', rh_world := w'\<rparr>"
  using assms by (auto simp: with_upload_def split: bind_splits)

lemma advances_up_Prepare:
  assumes "with_upload LocalUpload_Prepare h = Some (rc, h')" and "rawx_typed h"
  shows "advances h h'"
proof -
  from assms(1) obtain u u' w' where u: "rh_upload h = Some u" "LocalUpload_Prepare (u, rh_world h) = Some (rc, u', w')"
    "h' = h\<lparr>rh_upload := Some u', rh_world := w'\<rparr>" by (rule with_upload_cases)
  have t: "upload_typed (u, rh_world h)" "fs_ok (rh_world h)" "honest (rh_world h)" using assms(2) u(1) by (auto simp: rawx_typed_def)
  show ?thesis
  proof (cases "lu_step u = Init")
    case False
    with u have "h' = h" by (cases h) (simp add: LocalUpload_Prepare_def)
    with assms(2) show ?thesis by (simp add: advances_refl)
  next
    case True
    with t(1) have fd: "lu_fd u = None" "lu_path_final u \<noteq> []" "lu_path_temp u = lu_path_final u @ ''.pending''"
      by (auto simp: upload_typed_def)
    with True u(2) obtain u1 where p: "prepare_retry True (u, rh_world h) = (rc, u1, w')"
      "u' = (if Ok rc then u1\<lparr>lu_step := Prepared\<rparr> else u1)"
      by (auto simp: LocalUpload_Prepare_def prepare_without_check_on_step_def split: prod.splits)
    note g = prepare_retry_grown [OF p(1) fd(1) t(3,2) fd(2,3)]
    have "upload_typed (u', w')" using g p(2) t(1) True fd by (auto simp: upload_typed_def split: if_splits)
    moreover have "fs_ok w'" "honest w'" using g t(2,3) by (simp_all add: grown_def)
    moreover have "lu_fd u' \<noteq> Some i" if "i < w_next (rh_world h)" for i using g p(2) fd(1) that by (auto split: if_splits)
    ultimately show ?thesis using assms(2) g u(3) blob_exists [OF assms(2)]
      by (auto simp: advances_def rawx_typed_def blob_def grown_def)
  qed
qed

lemma advances_write:
  assumes "rawx_write buf h = Some h'" and "rawx_typed h"
  shows "advances h h'"
  using assms by (auto simp: rawx_write_def LocalUpload_Write_def advances_def rawx_typed_def blob_def upload_typed_def
      file_append_def fs_ok_def split: bind_splits if_splits option.splits prod.splits)

lemma set_attributes_frame:
  "w_names (set_attributes kvs fd w) = w_names w \<and> w_next (set_attributes kvs fd w) = w_next w
    \<and> w_data (set_attributes kvs fd w) = w_data w \<and> (\<forall>i. i \<noteq> fd \<longrightarrow> w_attr (set_attributes kvs fd w) i = w_attr w i)"
proof (induction kvs fd w rule: set_attributes.induct)
  case (2 k v kvs fd w)
  obtain f v1 where f: "next_fault w = (f, v1)" by fastforce
  with 2 same_fsD [OF next_fault_same [OF f]] show ?case by (auto simp: sys_fsetxattr_def)
qed simp

lemmas set_attributes_simps [simp] = set_attributes_frame [THEN conjunct1] set_attributes_frame [THEN conjunct2, THEN conjunct1]
  set_attributes_frame [THEN conjunct2, THEN conjunct2, THEN conjunct1]
  set_attributes_frame [THEN conjunct2, THEN conjunct2, THEN conjunct2, rule_format]

lemma advances_up_Commit:
  assumes "with_upload LocalUpload_Commit h = Some (rc, h')" and "rawx_typed h"
  shows "advances h h'"
proof -
  from assms(1) obtain u u' w' where u: "rh_upload h = Some u" "LocalUpload_Commit (u, rh_world h) = Some (rc, u', w')"
    "h' = h\<lparr>rh_upload := Some u', rh_world := w'\<rparr>" by (rule with_upload_cases)
  have t: "upload_typed (u, rh_world h)" "fs_ok (rh_world h)" "honest (rh_world h)" using assms(2) u(1) by (auto simp: rawx_typed_def)
  show ?thesis
  proof (cases "lu_step u = Prepared")
    case False
    with u have "h' = h" by (cases h) (simp add: LocalUpload_Commit_def)
    with assms(2) show ?thesis by (simp add: advances_refl)
  next
    case True
    with t(1) obtain i where i: "lu_fd u = Some i" "w_names (rh_world h) (lu_path_temp u) = Some (Ino i)"
      "w_names (rh_world h) (lu_path_final u) = None" "lu_path_temp u \<noteq> lu_path_final u" by (auto simp: upload_typed_def)
    let ?w = "set_attributes (lu_attributes u) i (rh_world h)" and ?u = "u\<lparr>lu_step := Done, lu_fd := None\<rparr>"
    obtain e v where e: "sys_rename (lu_path_temp u) (lu_path_final u) ?w = (e, v)" by fastforce
    have v: "fs_ok v" "honest v" using rename_fs_ok [OF e _ i(4)] honest_rename [OF e] t(2,3) by (simp_all add: fs_ok_def)
    have nv: "w_names v p = w_names (rh_world h) p" if "p \<noteq> lu_path_temp u" "p \<noteq> lu_path_final u" for p
      using e that by (cases rule: sys_rename_cases) (auto dest!: same_fsD)
    have dv: "w_data v = w_data (rh_world h) \<and> (\<forall>j. j \<noteq> i \<longrightarrow> w_attr v j = w_attr (rh_world h) j)"
      using e by (cases rule: sys_rename_cases) (auto dest!: same_fsD)
    have "u' = ?u \<and> fs_ok w' \<and> honest w' \<and> (\<forall>p. p \<noteq> lu_path_temp u \<longrightarrow> p \<noteq> lu_path_final u \<longrightarrow> w_names w' p = w_names (rh_world h) p)
        \<and> w_data w' = w_data v \<and> w_attr w' = w_attr v"
    proof (cases e)
      case None
      with u(2) True i(1) e v nv show ?thesis
        by (auto simp: LocalUpload_Commit_def commit_without_check_on_step_def resetFD_def)
    next
      case (Some x)
      with u(2) True i(1) e have "unlinkTempAndReset (Errno x) (?u, v) = (rc, u', w')"
        by (auto simp: LocalUpload_Commit_def commit_without_check_on_step_def resetFD_def)
      then obtain f where f: "sys_unlink (lu_path_temp u) v = (f, w')" "u' = ?u"
        by (auto simp: unlinkTempAndReset_def resetFD_def split: prod.splits)
      have "fs_ok w'" "honest w'" using sys_unlink_laws(1) [OF f(1) v(1)] honest_unlink [OF f(1) v(2)] .
      moreover from f(1) have "(\<forall>p. p \<noteq> lu_path_temp u \<longrightarrow> w_names w' p = w_names v p) \<and> w_data w' = w_data v \<and> w_attr w' = w_attr v"
        by (cases rule: sys_unlink_cases) (auto dest!: same_fsD)
      ultimately show ?thesis using f(2) nv by simp
    qed
    moreover have "p \<noteq> lu_path_temp u \<and> p \<noteq> lu_path_final u \<and> j \<noteq> i" if "blob h p j" for p j
      using that i u(1) by (auto simp: blob_def)
    ultimately show ?thesis using assms(2) t(1) u(1,3) dv
      by (auto simp: advances_def rawx_typed_def blob_def upload_typed_def)
  qed
qed

lemma advances_removal:
  assumes "with_removal f h = Some (rc, h')" and "rawx_typed h"
    and "\<And>r w. lr_step r = Done \<Longrightarrow> f (r, w) = Some (status_of InternalError, r, w)"
  shows "advances h h'"
proof -
  from assms(1) obtain r where "rh_removal h = Some r" by (auto simp: with_removal_def split: bind_splits)
  moreover from this assms(2) have "lr_step r = Done" by (simp add: rawx_typed_def)
  ultimately have "h' = h" using assms(1,3) by (cases h) (auto simp: with_removal_def)
  with assms(2) show ?thesis by (simp add: advances_refl)
qed

lemma honest_download: "LocalDownload_Prepare (d, w) = (rc, d', w') \<Longrightarrow> honest w \<Longrightarrow> honest w'"
proof -
  have o: "honest w'" if "open_read p w = (r, w')" "honest w" for p w w' r
    using that by (auto simp: open_read_def split: prod.splits sum.splits entry.splits dest!: honest_lookup)
  have f: "honest w'" if "sys_fstat x w = (r, w')" "honest w" for x w w' r
    using that by (auto simp: sys_fstat_def Let_def split: prod.splits option.splits handle.splits dest!: honest_fault)
  show "LocalDownload_Prepare (d, w) = (rc, d', w') \<Longrightarrow> honest w \<Longrightarrow> honest w'"
    by (auto simp: LocalDownload_Prepare_def closeAndErrno_def Let_def split: if_splits prod.splits sum.splits dest!: o f)
qed

lemma advances_download:
  "rawx_prepare_download h = Some (rc, h') \<Longrightarrow> rawx_typed h \<Longrightarrow> advances h h'"
  "rawx_read batch attempts h = Some (buf, h') \<Longrightarrow> rawx_typed h \<Longrightarrow> advances h h'"
proof -
  assume p: "rawx_prepare_download h = Some (rc, h')" and t: "rawx_typed h"
  from p obtain d d' w' where "LocalDownload_Prepare (d, rh_world h) = (rc, d', w')" "h' = h\<lparr>rh_download := Some d', rh_world := w'\<rparr>"
    by (auto simp: rawx_prepare_download_def Let_def split: bind_splits prod.splits)
  with download_names honest_download t show "advances h h'" by (intro advances_names) (auto simp: rawx_typed_def)
next
  assume p: "rawx_read batch attempts h = Some (buf, h')" and t: "rawx_typed h"
  from p obtain d n d' w' where r: "LocalDownload_Read batch attempts [] (d, rh_world h) = Some (n, buf, d', w')"
    "h' = h\<lparr>rh_download := Some d', rh_world := w'\<rparr>" by (auto simp: rawx_read_def split: bind_splits)
  from r(1) have "honest (rh_world h) \<Longrightarrow> honest w'"
    by (auto simp: LocalDownload_Read_def loadBuffer_def Let_def split: bind_splits if_splits option.splits handle.splits prod.splits)
  with r read_names [OF r(1)] t show "advances h h'" by (intro advances_names) (auto simp: rawx_typed_def)
qed

lemma advances_step: "advances h0 h \<Longrightarrow> (rawx_typed h \<Longrightarrow> advances h h') \<Longrightarrow> advances h0 h'"
  using advances_trans advances_typed by blast

interpretation rawx_durable: handler_serving "rawx_blob_handler parse_url lexer batch attempts" "advances h0"
  by (unfold_locales; erule advances_step; auto simp: rawx_blob_handler_def RawxHandler_SetUrl_def RawxHandler_SetHeader_def
      RawxHandler_GetDownload_def Let_def om_inv_put rawx_typed_def LocalRemoval_Prepare_def LocalRemoval_Commit_def
    split: bind_splits sum.splits if_splits
    intro: advances_refl advances_same advances_GetUpload advances_up_Prepare advances_write advances_up_Commit advances_download
      advances_removal)

section \<open>A refused upload\<close>

text \<open>When no call fails for a reason of its own, an upload that is refused leaves no file behind.\<close>

lemma calm [simp]:
  "w_faults w = [] \<Longrightarrow> w_faults (snd (sys_mkdir p w)) = []" "w_faults w = [] \<Longrightarrow> w_faults (snd (sys_create p w)) = []"
  "w_faults w = [] \<Longrightarrow> w_faults (snd (sys_lookup p w)) = []"
  by (auto simp: sys_mkdir_def sys_create_def sys_lookup_def split: option.splits)

lemma calm_createParent: "createParent p w = (r, w') \<Longrightarrow> w_faults w = [] \<Longrightarrow> w_faults w' = []"
proof (induction p w rule: createParent.induct)
  case (1 p w)
  show ?case
  proof (cases "\<exists>slash. rfind CHR ''/'' p = Some slash \<and> slash \<noteq> 0")
    case False
    with "1.prems" show ?thesis by (auto simp: createParent.simps [of p] split: option.splits)
  next
    case True
    then obtain slash where s: "rfind CHR ''/'' p = Some slash" "slash \<noteq> 0" by blast
    obtain e v where m: "sys_mkdir (take slash p) w = (e, v)" by fastforce
    have v: "w_faults v = []" using calm(1) [OF "1.prems"(2), of "take slash p"] m by simp
    show ?thesis
    proof (cases "e = Some ENOENT")
      case True
      with "1.prems" s m have "createParent (take slash p) v = (r, w')" by (simp add: createParent.simps [of p])
      with "1.IH" [OF s m [symmetric, folded True]] v True m s show ?thesis by auto
    next
      case False
      with "1.prems"(1) s m v show ?thesis by (auto simp: createParent.simps [of p] split: option.splits)
    qed
  qed
qed

lemma prepare_retry_refused:
  assumes "prepare_retry b (u, w) = (r, u', w')" and "\<not> Ok r" and "w_faults w = []" and "fs_ok w" and "lu_path_final u \<noteq> []"
    and "lu_path_temp u = lu_path_final u @ ''.pending''"
  shows "files w' = files w"
  using assms
proof (induction b "(u, w)" arbitrary: w rule: prepare_retry.induct)
  case (1 retryable w)
  let ?t = "lu_path_temp u"
  obtain c w1 where c: "sys_create ?t w = (c, w1)" by fastforce
  have ok1: "fs_ok w1" using sys_create_laws(1) [OF c "1.prems"(4)] .
  have q1: "w_faults w1 = []" using calm(2) [OF "1.prems"(3), of ?t] c by simp
  show ?case
  proof (cases c)
    case (Inl e)
    have f1: "files w1 = files w" using c Inl by (cases rule: sys_create_cases) simp_all
    show ?thesis
    proof (cases "e = ENOENT \<and> retryable")
      case True
      obtain q w2 where q: "createParent ?t w1 = (q, w2)" by fastforce
      have w2: "files w2 = files w" "w_faults w2 = []" "fs_ok w2" using ok1 createParent_laws [OF q] calm_createParent [OF q q1] f1 by simp_all
      show ?thesis
      proof (cases q)
        case None
        with "1.prems"(1) True Inl c q have p: "prepare_retry False (u, w2) = (r, u', w')"
          by (subst (asm) prepare_retry.simps) simp
        from "1.hyps" [OF c [symmetric] Inl] True q None p "1.prems"(2,5,6) w2 show ?thesis by auto
      next
        case (Some y)
        with "1.prems"(1) True Inl c q w2 show ?thesis by (subst (asm) prepare_retry.simps) auto
      qed
    next
      case False
      with "1.prems"(1) Inl c f1 show ?thesis by (auto simp: prepare_retry.simps [of retryable] split: if_splits)
    qed
  next
    case (Inr i)
    have new: "w_names w ?t = None" "w_names w1 = (w_names w)(?t \<mapsto> Ino i)" "walk (w_names w) ?t = None"
      using c Inr by (cases rule: sys_create_cases; simp)+
    obtain l w2 where l: "sys_lookup (lu_path_final u) w1 = (l, w2)" by fastforce
    have same: "w_names w2 = w_names w1" "files w2 = files w1" using sys_lookup_cases [OF l] by (auto dest: same_fsD)
    have q2: "w_faults w2 = []" using calm(3) [OF q1, of "lu_path_final u"] l by simp
    have "l \<noteq> Inl ENOENT"
    proof
      assume "l = Inl ENOENT"
      with "1.prems"(1,2) Inr c l show False by (auto simp: prepare_retry.simps [of retryable])
    qed
    with "1.prems"(1) Inr c l obtain st where "unlinkTempAndReset st (u\<lparr>lu_fd := Some i\<rparr>, w2) = (r, u', w')"
      by (cases l) (auto simp: prepare_retry.simps [of retryable] Let_def)
    then obtain e where e: "sys_unlink ?t w2 = (e, w')" by (auto simp: unlinkTempAndReset_def split: prod.splits)
    have "walk (w_names w2) ?t = None" "w_names w2 ?t = Some (Ino i)" using new(2,3) by (simp_all add: same walk_upd)
    with e q2 have "e = None" by (simp add: sys_unlink_def sys_lookup_def)
    with sys_unlink_laws(3) [OF e] same(2) sys_create_laws(2) [OF c "1.prems"(4)]
    have "files w' = (files w)(?t := None)" by simp
    moreover have "files w ?t = None" using new(1) by (simp add: files_def)
    ultimately show ?thesis by (simp add: fun_upd_idem)
  qed
qed

lemma put_refused:
  assumes "on_sevent ml (rawx_blob_handler parse_url lexer batch attempts) (S_headers_complete HTTP_PUT) b = Some (n, b')"
    and "n \<noteq> 0" and "rawx_typed (bc_handler b)" and "on_headers (bc_settings b) = Headers_common"
    and "w_faults (rh_world (bc_handler b)) = []"
  shows "files (rh_world (bc_handler b')) = files (rh_world (bc_handler b))"
proof (cases "SoftError_Ok (bc_defered b)")
  case False
  with assms(1,4) show ?thesis by (auto simp: on_headers_complete_COMMON_def split: bind_splits dest!: keeps_handler)
next
  case True
  let ?bh = "rawx_blob_handler parse_url lexer batch attempts"
    and ?b = "b\<lparr>bc_settings := method_settings Body_upload Complete_upload Headers_common\<rparr>"
  from True assms(1,4) have up: "on_headers_complete_UPLOAD ml ?bh ?b = Some (n, b')" by (simp add: on_headers_complete_COMMON_def)
  then obtain b1 h where 1: "Reply100 ?b = Some b1" "RawxHandler_GetUpload (bc_handler b1) = Some h"
    by (auto simp: on_headers_complete_UPLOAD_def split: bind_splits)
  have h1: "bc_handler b1 = bc_handler b" using Reply100_handler [OF 1(1)] by simp
  from up 1 obtain rc b3 where p: "on_handler (with_upload LocalUpload_Prepare) (b1\<lparr>bc_upload := True, bc_handler := h\<rparr>) = Some (rc, b3)"
    by (cases "on_handler (with_upload LocalUpload_Prepare) (b1\<lparr>bc_upload := True, bc_handler := h\<rparr>)")
      (auto simp: on_headers_complete_UPLOAD_def)
  have bad: "\<not> Ok rc" using up 1 p assms(2) by (auto simp: on_headers_complete_UPLOAD_def)
  have "bc_handler b' = bc_handler b3" using up 1 p bad
    by (cases "Why rc") (auto simp: on_headers_complete_UPLOAD_def split: bind_splits dest!: keeps_handler)
  moreover from 1(2) h1 obtain q where q: "RawxHandler_path (bc_handler b) = Some q"
    "h = (bc_handler b)\<lparr>rh_upload := Some (rawx_upload (rh_xattrs (bc_handler b)) q)\<rparr>"
    by (auto simp: RawxHandler_GetUpload_def split: bind_splits)
  define u where "u = rawx_upload (rh_xattrs (bc_handler b)) q"
  have "q \<noteq> []" using q(1) by (auto simp: RawxHandler_path_def dest: rawx_path_not_Nil)
  then have u: "lu_step u = Init" "lu_fd u = None" "lu_path_final u \<noteq> []" "lu_path_temp u = lu_path_final u @ ''.pending''"
    using assms(3) by (simp_all add: u_def rawx_typed_def rawx_upload_eq LocalUpload_Build_def LocalUpload_def)
  from on_handler_D [OF p] have "with_upload LocalUpload_Prepare h = Some (rc, bc_handler b3)" by simp
  then obtain u0 u' w' where "rh_upload h = Some u0" "LocalUpload_Prepare (u0, rh_world h) = Some (rc, u', w')"
    "bc_handler b3 = h\<lparr>rh_upload := Some u', rh_world := w'\<rparr>" by (rule with_upload_cases)
  then have "LocalUpload_Prepare (u, rh_world (bc_handler b)) = Some (rc, u', rh_world (bc_handler b3))"
    by (simp add: q(2) flip: u_def)
  with u(1,2) obtain u1 where "prepare_retry True (u, rh_world (bc_handler b)) = (rc, u1, rh_world (bc_handler b3))"
    by (auto simp: LocalUpload_Prepare_def prepare_without_check_on_step_def split: prod.splits)
  from prepare_retry_refused [OF this bad assms(5) _ u(3,4)] assms(3)
  have "files (rh_world (bc_handler b3)) = files (rh_world (bc_handler b))" by (simp add: rawx_typed_def)
  ultimately show ?thesis by simp
qed

section \<open>Properties\<close>

text \<open>C29. As long as a connection to a rawx server deletes nothing, whatever else is received and whatever calls fail: an
  upload has its descriptor exactly while it is prepared, and then its pending name leads to its file and its final name is free,
  so that no commit replaces anything; and every blob there is at a moment keeps its name, bytes and attributes at all later
  ones, those that the connection has put itself included.  When the system fails no call, a PUT that is refused leaves
  no file behind.  Assumed is that no call answers ENOENT for a file that is there.\<close>

theorem rawx_server_durable:
  assumes "rawx_typed h" and "srv = rawx_blob_handler parse_url lexer batch attempts"
    and "serves ml srv (BlobClient ml c h) b1" and "serves ml srv b1 b2"
  shows "(\<forall>u. rh_upload (bc_handler b2) = Some u \<longrightarrow> (lu_step u = Prepared \<longleftrightarrow> lu_fd u \<noteq> None)
      \<and> (\<forall>i. lu_fd u = Some i \<longrightarrow> w_names (rh_world (bc_handler b2)) (lu_path_final u @ ''.pending'') = Some (Ino i)
          \<and> w_names (rh_world (bc_handler b2)) (lu_path_final u) = None))
    \<and> (\<forall>p i. blob (bc_handler b1) p i \<longrightarrow> blob (bc_handler b2) p i
      \<and> w_data (rh_world (bc_handler b2)) i = w_data (rh_world (bc_handler b1)) i
      \<and> w_attr (rh_world (bc_handler b2)) i = w_attr (rh_world (bc_handler b1)) i)
    \<and> (\<forall>n b3. on_sevent ml srv (S_headers_complete HTTP_PUT) b2 = Some (n, b3) \<and> n \<noteq> 0
      \<and> w_faults (rh_world (bc_handler b2)) = [] \<longrightarrow>
        files (rh_world (bc_handler b3)) = files (rh_world (bc_handler b2)))"
proof -
  have c: "on_headers (bc_settings b1) = Headers_common" "on_headers (bc_settings b2) = Headers_common"
    using serves_common [OF assms(3)] serves_common [OF assms(4)] by (simp_all add: BlobClient_def start_settings_def)
  have "advances h (bc_handler b1)"
    using rawx_durable.serves_inv [OF assms(3) [unfolded assms(2)], of h] advances_refl [OF assms(1)]
    by (simp add: BlobClient_def start_settings_def)
  then have "rawx_typed (bc_handler b1)" by (rule advances_typed)
  from rawx_durable.serves_inv [OF assms(4) [unfolded assms(2)] c(1) advances_refl [OF this]]
  have a: "advances (bc_handler b1) (bc_handler b2)" .
  note t = advances_typed [OF a]
  show ?thesis
    using a t put_refused [of ml parse_url lexer batch attempts b2, folded assms(2), OF _ _ t c(2)]
    by (auto simp: advances_def rawx_typed_def upload_typed_def)
qed

text \<open>A PUT to a store that has a blob under another name.\<close>

lemma demo_put_begun:
  "\<exists>b. serves demo_mill (rawx_blob_handler path_url (\<lambda>_. RH_Unexpected) 2 5)
      (BlobClient demo_mill (open_conn [] [] []) (RawxHandler [] demo_store)) b
    \<and> w_names (rh_world (bc_handler b)) ''/b.pending'' = Some (Ino 1) \<and> w_data (rh_world (bc_handler b)) 1 = [7]"
proof -
  let ?bh = "rawx_blob_handler path_url (\<lambda>_. RH_Unexpected) 2 5"
  let ?b = "BlobClient demo_mill (open_conn [] [] []) (RawxHandler [] demo_store)"
  have url: "url_basename path_url ''/b'' = Some (Inr ''b'')" using path_url_basename [of "''b''" "[]"] by simp
  have "\<exists>b'. sevents demo_mill ?bh [S_begin, S_url ''/b'', S_headers_complete HTTP_PUT, S_body [7]] ?b = Some (0, b')
      \<and> w_names (rh_world (bc_handler b')) ''/b.pending'' = Some (Ino 1) \<and> w_data (rh_world (bc_handler b')) 1 = [7]"
    by (simp add: request_defs rawx_blob_handler_def RawxHandler_SetUrl_def url on_headers_complete_UPLOAD_def BlobClient_def
      RawxHandler_def RawxHandler_GetUpload_def RawxHandler_path_def rawx_path_def rawx_upload_def LocalUpload_Build_def LocalUpload_def
      with_upload_def LocalUpload_Prepare_def prepare_without_check_on_step_def prepare_retry.simps sys_create_def sys_lookup_def
      demo_store_def empty_world_def walk.simps parent_of_def on_body_UPLOAD_def rawx_write_def LocalUpload_Write_def file_append_def)
  then obtain b' where "sevents demo_mill ?bh [S_begin, S_url ''/b'', S_headers_complete HTTP_PUT, S_body [7]] ?b = Some (0, b')"
    "w_names (rh_world (bc_handler b')) ''/b.pending'' = Some (Ino 1) \<and> w_data (rh_world (bc_handler b')) 1 = [7]"
    by (elim exE conjE) (rule that; simp)
  with sevents_serves [OF this(1) _ serves_refl] show ?thesis by (intro exI [of _ b']) simp
qed

theorem rawx_server_durable_witness:
  "\<exists>b. serves demo_mill (rawx_blob_handler path_url (\<lambda>_. RH_Unexpected) 2 5)
      (BlobClient demo_mill (open_conn [] [] []) (RawxHandler [] demo_store)) b
    \<and> files (rh_world (bc_handler b)) ''/a'' = Some [1, 2] \<and> files (rh_world (bc_handler b)) ''/b.pending'' = Some [7]"
proof -
  let ?bh = "rawx_blob_handler path_url (\<lambda>_. RH_Unexpected) 2 5"
    and ?b = "BlobClient demo_mill (open_conn [] [] []) (RawxHandler [] demo_store)"
  obtain b where b: "serves demo_mill ?bh ?b b" "w_names (rh_world (bc_handler b)) ''/b.pending'' = Some (Ino 1)"
    "w_data (rh_world (bc_handler b)) 1 = [7]" using demo_put_begun by (elim exE conjE) (rule that; assumption)
  have "rawx_typed (RawxHandler [] demo_store)"
    by (simp add: rawx_typed_def RawxHandler_def demo_store_def fs_ok_def names_ok_def honest_def empty_world_def om_inv_def)
  note kept = rawx_server_durable [OF this refl serves_refl b(1), THEN conjunct2, THEN conjunct1, rule_format]
  have "blob (bc_handler ?b) ''/a'' 0" "w_data (rh_world (bc_handler ?b)) 0 = [1, 2]"
    by (simp_all add: blob_def BlobClient_def RawxHandler_def demo_store_def)
  with kept [of "''/a''" 0] have "blob (bc_handler b) ''/a'' 0" "w_data (rh_world (bc_handler b)) 0 = [1, 2]" by simp_all
  then have "w_names (rh_world (bc_handler b)) ''/a'' = Some (Ino 0)" "w_data (rh_world (bc_handler b)) 0 = [1, 2]"
    by (simp_all add: blob_def)
  with b show ?thesis by (auto simp: files_def)
qed

end
