(* ===== verification/Kinetic_Listener.thy ===== *)
theory Kinetic_Listener
  imports Kinetic_Blob Directory
begin

text \<open>
  The listener of the drives (\<open>src/bin/kinetic-listener.cpp\<close>): it takes the datagrams in which drives announce
  themselves, keeps the address of each, and starts for each one a coroutine that registers it with the
  proxy again and again.  The socket is the list of what \<open>recvfrom\<close> answers.  \<open>None\<close> is a failed assertion
  of rapidjson.
\<close>

section \<open>Registration\<close>

record 'n stat_s =
  st_cpu :: 'n
  st_io :: 'n
  st_space :: 'n
  st_temp :: 'n

text \<open>The events of a writer that also writes numbers with a fraction.\<close>

datatype 'n reg_tok = Reg_tok jtok | Double_tok 'n

definition register_toks :: "string \<Rightarrow> string \<Rightarrow> string \<Rightarrow> string \<Rightarrow> 'n stat_s \<Rightarrow> 'n reg_tok list" where
  "register_toks nsname srvtype i url st =
     map Reg_tok [StartObject, Key ''ns'', String_tok nsname, Key ''type'', String_tok srvtype, Key ''id'', String_tok (c_str i),
       Key ''addr'', String_tok (c_str url), Key ''tags'', StartObject, Key ''tag.up'', Bool_tok True] @
     [Reg_tok (Key ''stat.cpu''), Double_tok (st_cpu st), Reg_tok (Key ''stat.io''), Double_tok (st_io st),
      Reg_tok (Key ''stat.space''), Double_tok (st_space st), Reg_tok (Key ''stat.temp''), Double_tok (st_temp st)] @
     map Reg_tok [EndObject, Key ''score'', Int_tok (- 2), EndObject]"

definition register_request :: "string \<Rightarrow> request" where
  "register_request nsname =
     Request_Field ''Content-Type'' ''application/json'' (Request_Field ''Connection'' ''keep-alive''
       (Request_Field ''Host'' ''proxy'' (Request_Selector (''/v3.0/'' @ nsname @ ''/conscience/register'')
         (Request_Method ''POST'' Request))))"

text \<open>On a connection to the proxy, whose success is not looked at; the outcome is only logged.\<close>

definition proxy_register :: "'p http_parser \<Rightarrow> ('n reg_tok list \<Rightarrow> string) \<Rightarrow> string \<Rightarrow> string \<Rightarrow> string \<Rightarrow> string \<Rightarrow>
    'n stat_s \<Rightarrow> conn \<Rightarrow> (hcode \<times> conn) option" where
  "proxy_register hp render nsname srvtype i url st c = do {
     (rc, _, _, _, c') \<leftarrow> Call_Run hp (bytes_of (c_str (render (register_toks nsname srvtype i url st))))
       (register_request nsname) (Reply hp) c;
     Some (rc, conn_close c')
   }"

text \<open>One round: the statistics of the drive, and its registration when it has given them.\<close>

definition stats_of :: "'n exch \<Rightarrow> 'n stat_s" where
  "stats_of op = \<lparr>st_cpu = lg_cpu (ex_log op), st_io = lg_io (ex_log op), st_space = lg_space (ex_log op),
     st_temp = lg_temp (ex_log op)\<rparr>"

definition monitoring_round :: "'n float_ops \<Rightarrow> ('n, 'd) pb_lib \<Rightarrow> ('n, 's) drives \<Rightarrow> string \<Rightarrow> string \<Rightarrow> 's \<Rightarrow>
    'n stat_s option \<times> 's" where
  "monitoring_round fl lib dr i url s =
     (let (op, s') = dr url (GetLog_new fl lib) s in (if \<not> exch_Ok op then None else Some (stats_of op), s'))"

definition PERIOD_REG :: int where
  "PERIOD_REG = 5000"

text \<open>
  The times at which the rounds of a drive start, when they last as the list says: the next is due a period
  after the last was due, and is not waited for when that is past.
\<close>

fun monitoring_loop :: "int \<Rightarrow> int \<Rightarrow> int list \<Rightarrow> int list" where
  "monitoring_loop now next_check [] = []"
| "monitoring_loop now next_check (d # ds) =
     (let now' = now + d; next' = next_check + PERIOD_REG in
      now # monitoring_loop (if now' < next' then next' else now') next' ds)"

section \<open>Announcements\<close>

type_synonym regs = "(string, string) omap"

text \<open>An array that is not empty; its first element.\<close>

fun first_of :: "json \<Rightarrow> json option" where
  "first_of (JArr (j # js)) = Some j"
| "first_of _ = None"

text \<open>What a document announces: \<open>Inl\<close> nothing, \<open>Inr\<close> a drive and its address.\<close>

definition announcement :: "json \<Rightarrow> (unit + string \<times> string) option" where
  "announcement msg = do {
     itf \<leftarrow> member msg ''network_interfaces'';
     case Option.bind itf first_of of None \<Rightarrow> Some (Inl ()) | Some itf1 \<Rightarrow> do {
       ip \<leftarrow> member itf1 ''ipv4_addr'';
       case ip of None \<Rightarrow> Some (Inl ()) | Some ipj \<Rightarrow>
       if \<not> is_string ipj then Some (Inl ())
       else do {
         pj \<leftarrow> member msg ''port'';
         case pj of None \<Rightarrow> Some (Inl ()) | Some port \<Rightarrow>
         if \<not> is_int port then Some (Inl ())
         else do {
           wj \<leftarrow> member msg ''world_wide_name'';
           case wj of None \<Rightarrow> Some (Inl ()) | Some wwn \<Rightarrow>
           if \<not> is_string wwn then Some (Inl ())
           else do {
             addr \<leftarrow> get_string ipj;
             n \<leftarrow> get_int port;
             uuid \<leftarrow> get_string wwn;
             Some (Inr (uuid, addr @ '':'' @ show_int n))
           }
         }
       }
     }
   }"

text \<open>The registrations, and the drives for which a loop was started, in order.\<close>

definition manage_message :: "json \<Rightarrow> regs \<times> string list \<Rightarrow> (regs \<times> string list) option" where
  "manage_message msg = (\<lambda>(regs, loops). do {
     a \<leftarrow> announcement msg;
     Some (case a of
         Inl _ \<Rightarrow> (regs, loops)
       | Inr (uuid, url) \<Rightarrow>
           (case om_get regs uuid of
              None \<Rightarrow> (om_put uuid url regs, loops @ [uuid])
            | Some old \<Rightarrow> if old \<noteq> url then (om_put uuid url regs, loops) else (regs, loops)))
   })"

text \<open>What \<open>recvfrom\<close> answers: a datagram, cut at the size of the buffer; nothing for now, with what \<open>fdwait\<close>
  then says of an error; an error.\<close>

datatype recv = Rv_data bytes | Rv_interrupted | Rv_again bool | Rv_error

text \<open>The list ends while the consumer waits: the flag is \<open>True\<close> once it has ended.\<close>

fun consumer :: "(string \<Rightarrow> json option) \<Rightarrow> recv list \<Rightarrow> regs \<times> string list \<Rightarrow> (bool \<times> regs \<times> string list) option" where
  "consumer parse [] st = Some (False, st)"
| "consumer parse (Rv_interrupted # rs) st = consumer parse rs st"
| "consumer parse (Rv_again err # rs) st = (if err then Some (True, st) else consumer parse rs st)"
| "consumer parse (Rv_error # rs) st = Some (True, st)"
| "consumer parse (Rv_data d # rs) st =
     (if d = [] then Some (True, st)
      else case parse (c_str (string_of (take 4095 d))) of
          None \<Rightarrow> consumer parse rs st
        | Some msg \<Rightarrow> do { st' \<leftarrow> manage_message msg st; consumer parse rs st' })"

section \<open>Laws\<close>

text \<open>The announcements among the answers, as long as the consumer takes them.\<close>

fun announced_by :: "(string \<Rightarrow> json option) \<Rightarrow> recv list \<Rightarrow> (string \<times> string) list" where
  "announced_by parse (Rv_data d # rs) =
     (if d = [] then []
      else (case Option.bind (parse (c_str (string_of (take 4095 d)))) announcement of
          Some (Inr a) \<Rightarrow> [a] | _ \<Rightarrow> []) @ announced_by parse rs)"
| "announced_by parse (Rv_interrupted # rs) = announced_by parse rs"
| "announced_by parse (Rv_again err # rs) = (if err then [] else announced_by parse rs)"
| "announced_by parse _ = []"

text \<open>The drives in the order in which they are first announced.\<close>

definition first_seen :: "(string \<times> string) list \<Rightarrow> string list" where
  "first_seen as = rev (remdups (rev (map fst as)))"

definition listener_inv :: "(string \<times> string) list \<Rightarrow> regs \<times> string list \<Rightarrow> bool" where
  "listener_inv as = (\<lambda>(regs, loops). om_inv regs \<and> om_get regs = map_of (rev as) \<and> loops = first_seen as)"

lemma first_seen_snoc: "first_seen (as @ [a]) = (if fst a \<in> fst ` set as then first_seen as else first_seen as @ [fst a])"
  by (simp add: first_seen_def)

lemma manage_message_inv:
  assumes "listener_inv as st" and "manage_message msg st = Some st'"
  shows "listener_inv (as @ (case announcement msg of Some (Inr a) \<Rightarrow> [a] | _ \<Rightarrow> [])) st'"
proof -
  obtain regs loops where st: "st = (regs, loops)" by fastforce
  from assms(2) obtain a where a: "announcement msg = Some a" by (auto simp: manage_message_def st split: bind_splits)
  show ?thesis
  proof (cases a)
    case (Inl u)
    with assms a show ?thesis by (auto simp: manage_message_def st)
  next
    case (Inr b)
    obtain uuid url where b: "b = (uuid, url)" by fastforce
    from assms(1) have i: "om_inv regs" "om_get regs = map_of (rev as)" "loops = first_seen as"
      by (simp_all add: listener_inv_def st)
    have seen: "om_get regs uuid = None \<longleftrightarrow> uuid \<notin> fst ` set as" by (simp add: i(2) map_of_eq_None_iff)
    have put: "om_get (om_put uuid url regs) = map_of (rev (as @ [(uuid, url)]))"
      using i(1,2) by (auto simp: om_get_put fun_eq_iff)
    have same: "om_get regs uuid = Some url \<Longrightarrow> om_get regs = map_of (rev (as @ [(uuid, url)]))"
      by (auto simp: i(2) fun_eq_iff)
    from assms(2) a Inr b have "st' = (case om_get regs uuid of None \<Rightarrow> (om_put uuid url regs, loops @ [uuid])
        | Some old \<Rightarrow> if old \<noteq> url then (om_put uuid url regs, loops) else (regs, loops))"
      by (simp add: manage_message_def st)
    with i(1,3) put same seen show ?thesis
      by (auto simp: listener_inv_def a Inr b first_seen_snoc om_inv_put image_iff split: option.splits if_splits)
  qed
qed

lemma consumer_inv:
  assumes "listener_inv as st" and "consumer parse rs st = Some (over, st')"
  shows "listener_inv (as @ announced_by parse rs) st'"
  using assms
proof (induction parse rs st arbitrary: as rule: consumer.induct)
  case (5 parse d rs st)
  show ?case
  proof (cases "d = []")
    case False
    show ?thesis
    proof (cases "parse (c_str (string_of (take 4095 d)))")
      case None
      with False 5 show ?thesis by simp
    next
      case (Some msg)
      with False 5(4) obtain st1 where st1: "manage_message msg st = Some st1" "consumer parse rs st1 = Some (over, st')"
        by (auto split: bind_splits)
      from 5(2) [OF False Some st1(1) manage_message_inv [OF 5(3) st1(1)] st1(2)] False Some show ?thesis by simp
    qed
  qed (use 5 in simp)
qed (auto split: if_splits)

text \<open>The rounds of a drive start a period apart when each is shorter than it.\<close>

lemma monitoring_loop_periodic:
  assumes "\<forall>d \<in> set ds. 0 \<le> d \<and> d < PERIOD_REG"
  shows "monitoring_loop t t ds = map (\<lambda>k. t + PERIOD_REG * int k) [0..<length ds]"
  using assms
proof (induction ds arbitrary: t)
  case (Cons d ds)
  have "map (\<lambda>k. t + PERIOD_REG * int k) [0..<length (d # ds)] =
      t # map (\<lambda>k. t + PERIOD_REG + PERIOD_REG * int k) [0..<length ds]"
    by (simp only: length_Cons upt_rec [of 0 "Suc (length ds)"])
      (simp add: map_Suc_upt [symmetric] algebra_simps del: upt_Suc)
  with Cons show ?case by simp
qed simp

section \<open>Properties\<close>

text \<open>C21. However the drives announce themselves, and whatever else is received between, the registrations are the
  last address that each has announced, and exactly one loop is started for each drive, when it is first
  seen.\<close>

theorem listener_registrations:
  assumes "consumer parse rs ([], []) = Some (over, regs, loops)"
  shows "om_get regs = map_of (rev (announced_by parse rs)) \<and> loops = first_seen (announced_by parse rs)
    \<and> distinct loops \<and> set loops = dom (om_get regs)"
proof -
  have "listener_inv [] ([], [])" by (simp add: listener_inv_def first_seen_def fun_eq_iff)
  from consumer_inv [OF this assms] have
    "om_get regs = map_of (rev (announced_by parse rs))" "loops = first_seen (announced_by parse rs)"
    by (simp_all add: listener_inv_def)
  then show ?thesis by (simp add: first_seen_def dom_map_of_conv_image_fst)
qed

theorem listener_registrations_witness:
  "\<exists>regs. consumer (\<lambda>s. if s = ''a'' then Some (JObj [(''network_interfaces'', JArr [JObj [(''ipv4_addr'', JStr ''h'')]]),
        (''port'', JInt 81), (''world_wide_name'', JStr ''w'')]) else None)
      [Rv_data [97], Rv_again False, Rv_data [98], Rv_interrupted, Rv_data [97]] ([], []) = Some (False, regs, [''w''])
    \<and> om_get regs ''w'' = Some ''h:81''"
proof -
  let ?parse = "\<lambda>s. if s = ''a'' then Some (JObj [(''network_interfaces'', JArr [JObj [(''ipv4_addr'', JStr ''h'')]]),
        (''port'', JInt 81), (''world_wide_name'', JStr ''w'')]) else None"
  let ?rs = "[Rv_data [97], Rv_again False, Rv_data [98], Rv_interrupted, Rv_data [97]]"
  have "consumer ?parse ?rs ([], []) = Some (False, [(''w'', ''h:81'')], [''w''])" by code_simp
  moreover have "announced_by ?parse ?rs = [(''w'', ''h:81''), (''w'', ''h:81'')]" by code_simp
  ultimately show ?thesis
    using listener_registrations [of ?parse ?rs False "[(''w'', ''h:81'')]" "[''w'']"] by simp
qed

text \<open>A datagram that holds a JSON value other than an object ends the program.\<close>

lemma listener_crash:
  assumes "parse (c_str (string_of (take 4095 d))) = Some msg" and "\<forall>kvs. msg \<noteq> JObj kvs" and "d \<noteq> []"
  shows "consumer parse (Rv_data d # rs) st = None"
proof -
  have "announcement msg = None" using assms(2) by (cases msg) (simp_all add: announcement_def)
  with assms(1,3) show ?thesis by (simp add: manage_message_def split: prod.splits)
qed

end
