(* ===== verification/Stress_Put.thy ===== *)
theory Stress_Put
  imports Kinetic_Blob Utils
begin

text \<open>
  The load generator (\<open>src/bin/kinetic-stress-put.cpp\<close>): the names it gives, and the loop that keeps a window of
  puts under way on one drive.  What the client is asked is kept in a log.  \<open>None\<close> is a loop that does not
  end, or random draws that run out.
\<close>

section \<open>Names\<close>




section \<open>The loop\<close>


datatype push_event = Sent string | Waited string








text \<open>What the program prints at its end: bytes sent per millisecond, a division by the time spent.\<close>

definition throughput :: "nat \<Rightarrow> nat \<Rightarrow> nat \<Rightarrow> 64 word option" where
  "throughput count block msec =
     (if msec = 0 then None else Some ((word_of_nat count * word_of_nat block) div word_of_nat msec))"

section \<open>Laws\<close>

fun sent :: "push_event list \<Rightarrow> string list" where
  "sent [] = []"
| "sent (Sent k # es) = k # sent es"
| "sent (Waited k # es) = sent es"

fun waited :: "push_event list \<Rightarrow> string list" where
  "waited [] = []"
| "waited (Waited k # es) = k # waited es"
| "waited (Sent k # es) = waited es"

lemma sent_append [simp]: "sent (xs @ ys) = sent xs @ sent ys"
  by (induction xs rule: sent.induct) simp_all

lemma waited_append [simp]: "waited (xs @ ys) = waited xs @ waited ys"
  by (induction xs rule: waited.induct) simp_all

lemma sent_waits [simp]: "sent (map (Waited \<circ> fst) ops) = []" "waited (map (Waited \<circ> fst) ops) = map fst ops"
  by (induction ops) simp_all






















section \<open>Properties\<close>



end
