(* ===== verification/Spec2Isabelle.thy ===== *)
theory Spec2Isabelle
  imports Mem_Blob Local_Blob Ec_Blob Kinetic_Store Kinetic_Shutdown Header_Lexers Rawx_Durable Kinetic_Listener Stress_Put
begin

text \<open>
  A model of the OpenIO SDS client libraries for C++ (\<open>src/src/\<close>), and what has been proved of it.

  \<^bold>\<open>The program.\<close> An object store keeps contents in containers, each content cut into chunks (blobs).
  The library has one interface for blobs (\<open>oio/api/blob.hpp\<close>: an upload and a removal are transactions,
  prepared and then committed or aborted; a download is prepared and read to its end) and several
  implementations of it: in memory, in local files, over HTTP, on a \<open>rawx\<close> service, on kinetic drives, and
  with erasure coding over several \<open>rawx\<close> services.  Clients of the directory, of containers and of
  contents ask a proxy, over HTTP, where things are; \<open>sds.cpp\<close> puts all of it together for a whole file.
  Server programs (\<open>src/bin/\<close>) offer a store over HTTP: a daemon (\<open>MillDaemon.cpp\<close>) reads requests and passes
  them to the handler of the program, which makes uploads, downloads and removals of the library.

  \<^bold>\<open>Theories\<close>, from the bottom up.
  \<^item> \<open>Prelude\<close>: bytes, the operations of \<open>std::string\<close>, numbers as text and their reading back.
    \<open>Ordered_Map\<close>: \<open>std::map\<close> and \<open>std::set\<close> as sorted lists, with the locale \<open>dict\<close> of their laws.
    \<open>Utils\<close>: digests and random texts (\<open>utils/utils.cpp\<close>).  \<open>Json\<close>, \<open>Json_Props\<close>: documents, the events
    of a writer, objects of texts.
  \<^item> \<open>Status\<close>: causes, \<open>Status\<close>, \<open>Errno\<close>, \<open>OioError\<close>, the steps of a transaction, \<open>SrvID\<close>
    (\<open>oio/api/common.cpp\<close>, \<open>blob.hpp\<close>, \<open>resolver.hpp\<close>).
  \<^item> \<open>Transaction\<close>, \<open>Upload_Contract\<close>, \<open>Download_Contract\<close>: what the interface promises, as locales: at
    most one successful end of a transaction; nothing published without a commit; a loop over a
    download that ends has returned what was left to read.  Each is interpreted by the stores below.
  \<^item> \<open>Mem_Blob\<close> (\<open>oio/blob/mem\<close>): the cache and its three objects.
    \<open>Local_FS\<close>, \<open>Local_Blob\<close> (\<open>oio/blob/local\<close>): a file system whose system calls may fail as a script
    decides, and the objects over it.
  \<^item> \<open>Net\<close> (\<open>utils/net.cpp\<close>): addresses, sockets, and channels whose reads and writes are partial,
    interrupted or late as a script of the kernel's answers decides.
  \<^item> \<open>Http_Request\<close>, \<open>Http_Reply\<close> (\<open>utils/http.cpp\<close>): requests, replies with the callbacks of the
    parser, calls.  \<open>Http_Blob\<close>, \<open>Rawx_Blob\<close>, \<open>Ec_Blob\<close> (\<open>oio/blob/http\<close>, \<open>rawx\<close>, \<open>ec\<close>, \<open>router\<close>).
  \<^item> \<open>Kinetic_Rpc\<close>, \<open>Kinetic_Client\<close>, \<open>Kinetic_Blob\<close> (\<open>oio/blob/kinetic/coro\<close>): the frames and exchanges of
    the protocol; the client, whose two coroutines are the step relation \<open>agent_step\<close>; the blobs.
    \<open>Kinetic_Store\<close>: uploads and downloads over drives that keep their keys.  \<open>Kinetic_Shutdown\<close>: the end of a client.
  \<^item> \<open>Directory\<close>, \<open>Container\<close>, \<open>Content\<close>, \<open>Sds\<close> (\<open>oio/directory\<close>, \<open>container\<close>, \<open>content\<close>, \<open>sds\<close>).
    \<open>Sds_Wire\<close>: what the upload of a file puts on its connections.
  \<^item> \<open>Mill_Daemon\<close> (\<open>bin/MillDaemon.cpp\<close>): the services, the callbacks of the request parser as steps on the
    state of a client, the replies.  A handler is the record \<open>blob_handler\<close> of its operations.
    \<open>Handler_Contract\<close>: what a handler keeps of its state is kept on a connection whatever is received, as
    the locale \<open>handler_inv\<close>, or for as long as nothing is deleted, as \<open>handler_serving\<close>, which it extends.  \<open>Request_Url\<close> (\<open>bin/common-header-parser.h\<close>): the name of a blob in a URL.
    \<open>Rawx_Server\<close>, \<open>Kinetic_Proxy\<close>, \<open>Ec_Proxy\<close> (\<open>bin/rawx-server.cpp\<close>, \<open>kinetic-proxy.cpp\<close>,
    \<open>ec-proxy.cpp\<close>): the handlers over local files, kinetic drives and the router.  \<open>Rawx_Safety\<close>: what the rawx
    server keeps whatever it receives.  \<open>Rawx_Durable\<close>: that it loses, replaces and alters no blob while nothing is deleted.  \<open>Rawx_System\<close>: the client of \<open>Sds\<close> and the rawx server together.
    \<open>Header_Lexers\<close> (\<open>bin/*-headers.rl\<close>): the scanners of header names, which are a parameter of the handlers.
  \<^item> \<open>Kinetic_Listener\<close> (\<open>bin/kinetic-listener.cpp\<close>): the registrations of the drives that announce
    themselves.  \<open>Stress_Put\<close> (\<open>bin/kinetic-stress-put.cpp\<close>): the load generator.

  \<^bold>\<open>Correspondence.\<close> A class is a record with its fields; a method is a function from the object (and what
  it shares: a connection, a file system, the state of the drives) to its result and the updated ones.
  Definitions have the names of the functions they model, with the class in front where a name is used
  twice.  \<open>None\<close> is an exception, a failed assertion, undefined behaviour or a call that does not return;
  errors the code reports are values (\<open>status\<close>, \<open>hcode\<close>, \<open>errno\<close>).  Integers have their width where it
  shows: sizes and sequence numbers as words, \<open>int\<close> by the conversions \<open>i32_of_nat\<close>, \<open>in_int\<close>.

  \<^bold>\<open>Parameters.\<close> Code that is not in the repository is an argument: \<open>http_parser\<close> (\<open>hp\<close>), rapidjson
  (\<open>parse\<close>, \<open>render\<close>), the classes made from \<open>kinetic.proto\<close> and OpenSSL (\<open>pb_lib\<close>, \<open>digest\<close>),
  liberasurecode, the functions of http-parser for requests and URLs, the kernel (scripts of results), and,
  for the kinetic blobs, what becomes of an exchange with a drive (\<open>dr\<close>).  What a theorem needs of one is a hypothesis of it: that a text is read back for
  the document it was written for, that a parser announces the body it finds.

  \<^bold>\<open>Bounds.\<close> Loops are recursive functions with a proof of termination where they end: on the bytes left,
  on the script left.  \<open>drain\<close> has fuel, and the theorems that use it say which is enough (one step per
  piece left).  Loops that may run for ever (\<open>upload_write\<close>, \<open>list_loop\<close>, \<open>drain_into\<close>, the write of
  \<open>Ec_Blob\<close>) are partial functions, and their results are stated as such.

  \<^bold>\<open>What the lemmas show.\<close> For the memory and the local store, and for the rawx server over the latter: an upload
  followed by a download gives the bytes back, a removal removes, failed operations change nothing that is
  published, and no input alters a blob in place, nor loses one without a removal; for kinetic blobs, the same of an upload and a download on
  drives that keep their keys; for the upload of \<open>sds.cpp\<close> and the rawx server: what the client sends, announced
  by any parser of requests, becomes the file of the chunk with its bytes and attributes, and which of the declared ones those are, and for
  a whole file, what each service it reaches is sent; for the blobs on other services: what is sent for an upload, and what is read
  back for the answers to a download; for the transport: bytes are neither
  lost nor reordered under any partial reads and writes; for the kinetic client: every RPC is
  signalled exactly once, and the coroutines end when the client is destroyed while they have a connection; for the services: what texts are read back as.  Many theorems state where the
  code does less: an error that is not reported, a loop that does not end, a chunk that is lost.

  \<^bold>\<open>Not modelled.\<close> The \<open>main\<close> of each program, with its options, signals and sockets; the tests; logging;
  the destructors, except that of the kinetic client and where closing a socket shows; the string forms for debugging.
  The allocation of memory always succeeds.  A write of the kinetic client is one step of its
  interleaving; on kinetic drives the exchanges are seen in the order in which they are submitted.
\<close>

end
